(* ===== verification/Prelude.thy ===== *)
theory Prelude
  imports Main "HOL-Library.Word" "HOL-Library.Monad_Syntax"
    "HOL-Library.Char_ord" "HOL-Library.List_Lexorder"
begin

text \<open>
  The vocabulary every component shares.

  \<^item> \<open>byte\<close> is an \<open>unsigned char\<close>, \<open>u16\<close>, \<open>u32\<close>, \<open>u64\<close> are the unsigned C integers of
    those widths; \<open>size_t\<close>, \<open>long\<close> and pointers are 64 bits wide (LP64).
  \<^item> \<open>'a ub\<close> is the outcome of a piece of C that may have no defined result: \<open>None\<close> is
    undefined behaviour (a read or write outside an object, a call through a null pointer) or,
    for a loop, that it never ends; \<open>Some x\<close> is a run that ends with \<open>x\<close>.  Error returns of
    the code are never \<open>None\<close>: they are values inside \<open>Some\<close>.
  \<^item> An array in memory is a list.  \<open>rd\<close>, \<open>rd_slice\<close>, \<open>wr\<close>, \<open>wr_slice\<close> are the four
    accesses to it; each is \<open>None\<close> when it leaves the array.
  \<^item> A C string is a \<open>string\<close> without the terminating NUL.
\<close>

unbundle bit_operations_syntax

type_synonym byte = "8 word"
type_synonym u16 = "16 word"
type_synonym u32 = "32 word"
type_synonym u64 = "64 word"
type_synonym bytes = "byte list"
type_synonym 'a ub = "'a option"

named_theorems mem_simps \<open>rewrite rules for accesses to arrays in memory\<close>
named_theorems mem_dests \<open>what a successful access says\<close>

subsection \<open>Accesses to an array in memory\<close>

definition rd :: "'a list \<Rightarrow> nat \<Rightarrow> 'a ub" where
  "rd m i = (if i < length m then Some (m ! i) else None)"

definition rd_slice :: "'a list \<Rightarrow> nat \<Rightarrow> nat \<Rightarrow> 'a list ub" where
  "rd_slice m i n = (if i + n \<le> length m then Some (take n (drop i m)) else None)"

definition wr :: "'a list \<Rightarrow> nat \<Rightarrow> 'a \<Rightarrow> 'a list ub" where
  "wr m i v = (if i < length m then Some (m[i := v]) else None)"

definition wr_slice :: "'a list \<Rightarrow> nat \<Rightarrow> 'a list \<Rightarrow> 'a list ub" where
  "wr_slice m i vs =
     (if i + length vs \<le> length m
      then Some (take i m @ vs @ drop (i + length vs) m) else None)"

lemma rd_Some_iff [mem_simps]: "rd m i = Some v \<longleftrightarrow> i < length m \<and> v = m ! i"
  by (auto simp: rd_def)

lemma rd_in [mem_simps]: "i < length m \<Longrightarrow> rd m i = Some (m ! i)"
  by (simp add: rd_def)

lemma rd_slice_Some_iff [mem_simps]:
  "rd_slice m i n = Some vs \<longleftrightarrow> i + n \<le> length m \<and> vs = take n (drop i m)"
  by (auto simp: rd_slice_def)

lemma rd_slice_in [mem_simps]: "i + n \<le> length m \<Longrightarrow> rd_slice m i n = Some (take n (drop i m))"
  by (simp add: rd_slice_def)

lemma wr_Some_iff [mem_simps]: "wr m i v = Some m' \<longleftrightarrow> i < length m \<and> m' = m[i := v]"
  by (auto simp: wr_def)

lemma wr_in [mem_simps]: "i < length m \<Longrightarrow> wr m i v = Some (m[i := v])"
  by (simp add: wr_def)

lemma wr_slice_in [mem_simps]:
  "i + length vs \<le> length m \<Longrightarrow>
   wr_slice m i vs = Some (take i m @ vs @ drop (i + length vs) m)"
  by (simp add: wr_slice_def)

lemma wr_slice_Some_iff [mem_simps]:
  "wr_slice m i vs = Some m' \<longleftrightarrow>
     i + length vs \<le> length m \<and> m' = take i m @ vs @ drop (i + length vs) m"
  by (auto simp: wr_slice_def)

lemma wr_length [mem_dests]: "wr m i v = Some m' \<Longrightarrow> length m' = length m"
  by (auto simp: mem_simps)

lemma wr_slice_length [mem_dests]: "wr_slice m i vs = Some m' \<Longrightarrow> length m' = length m"
  by (auto simp: mem_simps)

lemma rd_slice_length [mem_dests]: "rd_slice m i n = Some vs \<Longrightarrow> length vs = n"
  by (auto simp: mem_simps)

lemma wr_slice_read: "wr_slice m i vs = Some m' \<Longrightarrow> rd_slice m' i (length vs) = Some vs"
  by (auto simp: mem_simps)

lemma wr_slice_frame:
  assumes "wr_slice m i vs = Some m'" and "j < i \<or> i + length vs \<le> j" and "j < length m"
  shows "m' ! j = m ! j"
  using assms by (auto simp: mem_simps nth_append min_def)

lemma wr_slice_nth:
  assumes "wr_slice m i vs = Some m'" and "j < length vs"
  shows "m' ! (i + j) = vs ! j"
  using assms by (auto simp: mem_simps nth_append min_def)

lemma rd_mid: "i < length xs \<Longrightarrow> rd (pre @ xs @ post) (length pre + i) = Some (xs ! i)"
  by (auto simp: rd_def nth_append)

end
