(* ===== verification/CLib.thy ===== *)
theory CLib
  imports Prelude
begin

text \<open>
  What the code uses of the C library's text functions: character classes, the digits of numbers and
  printing them (\<open>%d\<close>, \<open>%x\<close>), \<open>strtol\<close>, \<open>strstr\<close>, \<open>fgets\<close>, and characters as bytes.
\<close>

subsection \<open>Characters and digits\<close>

definition is_space :: "char \<Rightarrow> bool" where
  "is_space c \<longleftrightarrow> c = CHR '' '' \<or> (9 \<le> (of_char c :: nat) \<and> (of_char c :: nat) \<le> 13)"

definition digit_val :: "nat \<Rightarrow> char \<Rightarrow> nat option" where
  "digit_val base c =
     (let n = of_char c :: nat;
          v = (if 48 \<le> n \<and> n \<le> 57 then n - 48 else if 97 \<le> n \<and> n \<le> 102 then n - 87
               else if 65 \<le> n \<and> n \<le> 70 then n - 55 else base)
      in if v < base then Some v else None)"

fun read_digits :: "nat \<Rightarrow> nat \<Rightarrow> string \<Rightarrow> nat \<times> string" where
  "read_digits base acc [] = (acc, [])"
| "read_digits base acc (c # cs) =
     (case digit_val base c of Some d \<Rightarrow> read_digits base (acc * base + d) cs | None \<Rightarrow> (acc, c # cs))"

definition dec_digit :: "nat \<Rightarrow> char" where "dec_digit d = char_of (48 + d)"

fun dec_nat :: "nat \<Rightarrow> string" where
  "dec_nat n = (if n < 10 then [dec_digit n] else dec_nat (n div 10) @ [dec_digit (n mod 10)])"

definition dec_int :: "int \<Rightarrow> string" where
  "dec_int i = (if i < 0 then CHR ''-'' # dec_nat (nat (- i)) else dec_nat (nat i))"

definition hex_char :: "nat \<Rightarrow> char" where
  "hex_char d = (if d < 10 then char_of (48 + d) else char_of (87 + d))"

fun hex_digits :: "nat \<Rightarrow> nat \<Rightarrow> string" where
  "hex_digits 0 v = []"
| "hex_digits (Suc n) v = hex_digits n (v div 16) @ [hex_char (v mod 16)]"

declare dec_nat.simps [simp del]

lemma digit_val_char: "d < 10 \<Longrightarrow> digit_val 10 (dec_digit d) = Some d" "d < 16 \<Longrightarrow> digit_val 16 (hex_char d) = Some d"
  by (simp_all add: digit_val_def dec_digit_def hex_char_def Let_def)

lemma read_digits_dec:
  "read_digits 10 acc (dec_nat n @ s) = read_digits 10 (acc * 10 ^ length (dec_nat n) + n) s"
proof (induction n arbitrary: acc s rule: dec_nat.induct)
  case (1 n)
  show ?case
  proof (cases "n < 10")
    case True
    then show ?thesis by (simp add: dec_nat.simps [of n] digit_val_char)
  next
    case False
    have "n mod 10 < 10" by simp
    then show ?thesis
      using "1.IH" [OF False, of acc "dec_digit (n mod 10) # s"] False
      by (simp add: dec_nat.simps [of n] digit_val_char algebra_simps)
  qed
qed

lemma read_digits_hex:
  "v < 16 ^ n \<Longrightarrow> read_digits 16 acc (hex_digits n v @ s) = read_digits 16 (acc * 16 ^ n + v) s"
proof (induction n arbitrary: v acc s)
  case (Suc n)
  have "v div 16 < 16 ^ n" using Suc.prems by (simp add: less_mult_imp_div_less mult.commute)
  moreover have "v mod 16 < 16" by simp
  ultimately show ?case
    using Suc.IH [of "v div 16" acc "hex_char (v mod 16) # s"] by (simp add: digit_val_char algebra_simps)
qed simp


text \<open>The characters of numbers.\<close>

definition plain :: "char \<Rightarrow> bool" where
  "plain c \<longleftrightarrow> (let n = of_char c :: nat in 48 \<le> n \<and> n \<le> 57 \<or> 97 \<le> n \<and> n \<le> 102)"

lemma plain_chars: "d < 10 \<Longrightarrow> plain (dec_digit d)" "d < 16 \<Longrightarrow> plain (hex_char d)"
  by (auto simp: plain_def dec_digit_def hex_char_def Let_def)

lemma plainD:
  assumes "plain c"
  shows "c \<noteq> CHR ''-''" "c \<noteq> CHR ''+''" "c \<noteq> CHR ''x''" "c \<noteq> CHR ''X''" "c \<noteq> CHR 0x00" "c \<noteq> CHR 0x0A"
    "\<not> is_space c"
  using assms by (auto simp: plain_def is_space_def Let_def)

lemma dec_nat_chars: "c \<in> set (dec_nat n) \<Longrightarrow> \<exists>d<10. c = dec_digit d"
proof (induction n rule: dec_nat.induct)
  case (1 n)
  show ?case
  proof (cases "n < 10")
    case True
    then have "c = dec_digit n" using "1.prems" by (simp add: dec_nat.simps [of n])
    then show ?thesis using True by blast
  next
    case False
    then have "c \<in> set (dec_nat (n div 10)) \<or> c = dec_digit (n mod 10)"
      using "1.prems" by (auto simp: dec_nat.simps [of n])
    moreover have "n mod 10 < 10" by simp
    ultimately show ?thesis using "1.IH" [OF False] by blast
  qed
qed

lemma dec_nat_nonempty: "dec_nat n \<noteq> []"
  by (subst dec_nat.simps) simp

lemma hex_digits_chars: "c \<in> set (hex_digits n v) \<Longrightarrow> \<exists>d<16. c = hex_char d"
proof (induction n arbitrary: v)
  case (Suc n)
  have "v mod 16 < 16" by simp
  then show ?case using Suc.prems Suc.IH by (simp, blast)
qed simp

lemma hex_digits_length [simp]: "length (hex_digits n v) = n"
  by (induction n arbitrary: v) simp_all


subsection \<open>\<open>strtol\<close>\<close>

definition LONG_MAX :: int where "LONG_MAX = 2 ^ 63 - 1"
definition LONG_MIN :: int where "LONG_MIN = - (2 ^ 63)"

text \<open>\<open>strtol(s, &end, 10)\<close>: the value, clamped to \<open>long\<close>, and what \<open>end\<close> points to.\<close>

definition strtol_digits :: "int \<Rightarrow> string \<Rightarrow> string \<Rightarrow> int \<times> string" where
  "strtol_digits sg s0 s =
     (case s of
        [] \<Rightarrow> (0, s0)
      | c # cs \<Rightarrow>
          if digit_val 10 c = None then (0, s0)
          else let (n, r) = read_digits 10 0 s
               in (max LONG_MIN (min LONG_MAX (sg * int n)), r))"

definition strtol10 :: "string \<Rightarrow> int \<times> string" where
  "strtol10 s =
     (case dropWhile is_space s of
        [] \<Rightarrow> (0, s)
      | c # cs \<Rightarrow> if c = CHR ''-'' then strtol_digits (- 1) s cs
                  else if c = CHR ''+'' then strtol_digits 1 s cs
                  else strtol_digits 1 s (c # cs))"

lemma strtol_digits_dec:
  "strtol_digits sg s0 (dec_nat n) = (max LONG_MIN (min LONG_MAX (sg * int n)), [])"
proof -
  obtain x xs where x: "dec_nat n = x # xs" using dec_nat_nonempty by (cases "dec_nat n") auto
  then obtain d where d: "d < 10" "x = dec_digit d" using dec_nat_chars [of x n] by auto
  have "read_digits 10 0 (x # xs) = (n, [])" using read_digits_dec [of 0 n "[]"] x by simp
  then show ?thesis using d digit_val_char(1) [OF d(1)] unfolding x
    by (simp add: strtol_digits_def)
qed

text \<open>Printing and reading a \<open>long\<close>.\<close>

lemma strtol_dec_int:
  assumes "LONG_MIN \<le> i" "i \<le> LONG_MAX"
  shows "strtol10 (dec_int i) = (i, [])" "dec_int i \<noteq> []"
proof -
  show "dec_int i \<noteq> []" using dec_nat_nonempty by (simp add: dec_int_def)
  obtain x xs where x: "dec_nat (nat i) = x # xs" using dec_nat_nonempty by (cases "dec_nat (nat i)") auto
  then obtain d where d: "d < 10" "x = dec_digit d" using dec_nat_chars [of x "nat i"] by auto
  have p: "plain x" using plain_chars(1) d by simp
  show "strtol10 (dec_int i) = (i, [])"
  proof (cases "i < 0")
    case True
    have "\<not> is_space (CHR ''-'')" by (simp add: is_space_def)
    then show ?thesis using True assms by (simp add: strtol10_def dec_int_def strtol_digits_dec)
  next
    case False
    have "dropWhile is_space (dec_nat (nat i)) = dec_nat (nat i)" using p plainD(7) x by simp
    then show ?thesis using False assms p plainD(1,2) strtol_digits_dec [of 1 "dec_nat (nat i)" "nat i"]
      by (simp add: strtol10_def dec_int_def x)
  qed
qed

text \<open>\<open>strstr(haystack, needle) != NULL\<close>.\<close>

fun strstr_found :: "string \<Rightarrow> string \<Rightarrow> bool" where
  "strstr_found [] needle = (needle = [])"
| "strstr_found (c # cs) needle =
     (take (length needle) (c # cs) = needle \<or> strstr_found cs needle)"

lemma strstr_found_iff: "strstr_found h n \<longleftrightarrow> (\<exists>a b. h = a @ n @ b)"
proof (induction h)
  case (Cons c h)
  have "take (length n) (c # h) = n \<longleftrightarrow> (\<exists>b. c # h = n @ b)"
    by (metis append_eq_conv_conj append_take_drop_id)
  moreover have "(\<exists>a b. c # h = a @ n @ b) \<longleftrightarrow> (\<exists>b. c # h = n @ b) \<or> (\<exists>a b. h = a @ n @ b)"
    by (metis append_Cons append_Nil list.exhaust list.sel(3))
  ultimately show ?case using Cons.IH by simp
qed auto

subsection \<open>Characters in memory\<close>

abbreviation NUL :: char where "NUL \<equiv> CHR 0x00"

text \<open>A \<open>char\<close> array as bytes and back, and the C string that starts at its first place.\<close>

definition bytes_of :: "string \<Rightarrow> bytes" where
  "bytes_of s = map (\<lambda>c. word_of_nat (of_char c)) s"

definition string_of :: "bytes \<Rightarrow> string" where
  "string_of bs = map (\<lambda>b. char_of (unat b)) bs"

lemma bytes_of_string [simp]: "bytes_of (string_of bs) = bs"
proof -
  have "word_of_nat (of_char (char_of (unat b) :: char)) = b" for b :: byte
  proof -
    have "unat b < 2 ^ LENGTH(8)" by (rule unsigned_less)
    then show ?thesis by (simp add: of_char_of)
  qed
  then show ?thesis by (simp add: bytes_of_def string_of_def comp_def)
qed

lemma string_of_bytes [simp]: "string_of (bytes_of s) = s"
proof -
  have "char_of (unat (word_of_nat (of_char c) :: byte)) = c" for c :: char
  proof -
    have "of_char c < (2 :: nat) ^ LENGTH(8)" by simp
    then have "unat (word_of_nat (of_char c) :: byte) = of_char c" by (simp add: unsigned_of_nat take_bit_nat_eq_self)
    then show ?thesis by simp
  qed
  then show ?thesis by (simp add: bytes_of_def string_of_def comp_def)
qed

lemma bytes_of_length [simp]: "length (bytes_of s) = length s" "length (string_of bs) = length bs"
  by (simp_all add: bytes_of_def string_of_def)

definition cstr :: "string \<Rightarrow> string" where
  "cstr m = takeWhile (\<lambda>c. c \<noteq> NUL) m"

lemma cstr_NUL [simp]: "NUL \<notin> set s \<Longrightarrow> cstr (s @ NUL # m) = s"
  by (auto simp: cstr_def takeWhile_append)

lemma cstr_no_NUL [simp]: "NUL \<notin> set (cstr m)"
  by (auto simp: cstr_def dest: set_takeWhileD)

text \<open>\<open>fgets(buf, n, f)\<close> on the text that is left: the line and what is left after it.\<close>

fun fgets :: "nat \<Rightarrow> string \<Rightarrow> string \<times> string" where
  "fgets n [] = ([], [])"
| "fgets n (c # cs) =
     (if n \<le> 1 then ([], c # cs)
      else if c = CHR 0x0A then ([c], cs)
      else (case fgets (n - 1) cs of (l, r) \<Rightarrow> (c # l, r)))"

lemma fgets_append: "fgets n s = (l, r) \<Longrightarrow> s = l @ r"
  by (induction n s arbitrary: l rule: fgets.induct) (auto split: if_splits prod.splits)

lemma fgets_rest: "1 < n \<Longrightarrow> s \<noteq> [] \<Longrightarrow> length (snd (fgets n s)) < length s"
  by (induction n s rule: fgets.induct)
    (fastforce split: prod.splits dest: fgets_append)+

lemma fgets_line:
  "CHR 0x0A \<notin> set l \<Longrightarrow> length l + 1 < n \<Longrightarrow> fgets n (l @ CHR 0x0A # r) = (l @ [CHR 0x0A], r)"
  by (induction l arbitrary: n) auto

end
