(* ===== verification/SafeIop.thy ===== *)
theory SafeIop
  imports Prelude "HOL-Library.Signed_Division"
begin

text \<open>
  The checked integer operations of \<open>safe_iop.h\<close>.  Every macro works on two operands of one
  type \<open>typeof(_a)\<close>; here that type is \<open>'a word\<close>, read with \<open>unat\<close>/\<open>uint\<close> by the
  \<open>u\<close> variants and with \<open>sint\<close> by the \<open>s\<close> variants.  \<open>None\<close> is the return value 0 (the
  operation would overflow or divide by zero), \<open>Some r\<close> is the return value 1 with \<open>r\<close>
  stored through \<open>_ptr\<close> when that is not null.
\<close>

subsection \<open>The limits of the type\<close>

definition smax :: "'a::len word \<Rightarrow> 'a word" where
  "smax a = NOT (push_bit (LENGTH('a) - 1) 1)"

definition smin :: "'a::len word \<Rightarrow> 'a word" where
  "smin a = - smax a - 1"

definition umax :: "'a::len word \<Rightarrow> 'a word" where
  "umax a = NOT 0"

subsection \<open>The operations\<close>

definition safe_uadd :: "'a::len word \<Rightarrow> 'a word \<Rightarrow> 'a word option" where
  "safe_uadd a b = (if b \<le> umax a - a then Some (a + b) else None)"

definition safe_sadd :: "'a::len word \<Rightarrow> 'a word \<Rightarrow> 'a word option" where
  "safe_sadd a b =
     (if (if sint b > 0 \<and> sint a > 0 then \<not> sint a > sint (smax a - b)
          else if \<not> sint b > 0 \<and> \<not> sint a > 0 then \<not> sint a < sint (smin a - b)
          else True)
      then Some (a + b) else None)"

definition safe_usub :: "'a::len word \<Rightarrow> 'a word \<Rightarrow> 'a word option" where
  "safe_usub a b = (if a \<ge> b then Some (a - b) else None)"

definition safe_ssub :: "'a::len word \<Rightarrow> 'a word \<Rightarrow> 'a word option" where
  "safe_ssub a b =
     (if \<not> (sint b \<le> 0 \<and> sint a > sint (smax a + b)) \<and>
         \<not> (sint b > 0 \<and> sint a < sint (smin a + b))
      then Some (a - b) else None)"

definition safe_umul :: "'a::len word \<Rightarrow> 'a word \<Rightarrow> 'a word option" where
  "safe_umul a b = (if b = 0 \<or> a \<le> umax a div b then Some (a * b) else None)"

text \<open>The divisions of \<open>safe_smul\<close> are C's, which truncate: \<open>sdiv\<close> on integers.\<close>

definition safe_smul :: "'a::len word \<Rightarrow> 'a word \<Rightarrow> 'a word option" where
  "safe_smul a b =
     (if (if sint a > 0
          then (if sint b > 0 then \<not> sint a > sint (smax a) sdiv sint b
                else \<not> sint b < sint (smin a) sdiv sint a)
          else (if sint b > 0 then \<not> sint a < sint (smin a) sdiv sint b
                else \<not> (sint a \<noteq> 0 \<and> sint b < sint (smax a) sdiv sint a)))
      then Some (a * b) else None)"

definition safe_udiv :: "'a::len word \<Rightarrow> 'a word \<Rightarrow> 'a word option" where
  "safe_udiv a b = (if b \<noteq> 0 then Some (a div b) else None)"

definition safe_sdiv :: "'a::len word \<Rightarrow> 'a word \<Rightarrow> 'a word option" where
  "safe_sdiv a b =
     (if b \<noteq> 0 \<and> (a \<noteq> smin a \<or> b \<noteq> - 1)
      then Some (word_of_int (sint a sdiv sint b)) else None)"

definition safe_umod :: "'a::len word \<Rightarrow> 'a word \<Rightarrow> 'a word option" where
  "safe_umod a b = (if b \<noteq> 0 then Some (a mod b) else None)"

definition safe_smod :: "'a::len word \<Rightarrow> 'a word \<Rightarrow> 'a word option" where
  "safe_smod a b =
     (if b \<noteq> 0 \<and> (a \<noteq> smin a \<or> b \<noteq> - 1)
      then Some (word_of_int (sint a smod sint b)) else None)"

subsection \<open>The limits are the limits\<close>

lemma sint_range: "- (2 ^ (LENGTH('a) - 1)) \<le> sint a" "sint a < 2 ^ (LENGTH('a) - 1)"
  for a :: "'a::len word"
  using sint_ge [of a] sint_lt [of a] by auto

lemma sint_word_of_int:
  fixes k :: int
  assumes "- (2 ^ (LENGTH('a) - 1)) \<le> k" "k < 2 ^ (LENGTH('a) - 1)"
  shows "sint (word_of_int k :: 'a::len word) = k"
  using assms unfolding sint_sbintrunc' by (intro signed_take_bit_int_eq_self) auto

lemma uint_umax: "uint (umax a :: 'a::len word) = 2 ^ LENGTH('a) - 1"
  by (simp add: umax_def unsigned_minus_1_eq_mask mask_eq_exp_minus_1)

lemma smax_int: "smax (a :: 'a::len word) = word_of_int (2 ^ (LENGTH('a) - 1) - 1)"
proof -
  have "smax a = - (2 ^ (LENGTH('a) - 1)) - 1"
    by (simp add: smax_def not_eq_complement push_bit_eq_mult)
  also have "\<dots> = 2 ^ (LENGTH('a) - 1) - 1"
  proof -
    have "2 * 2 ^ (LENGTH('a) - 1) = (0 :: 'a word)"
      by (simp flip: power_Suc)
    then show ?thesis by (simp add: algebra_simps)
  qed
  finally show ?thesis by simp
qed

lemma sint_smax: "sint (smax a :: 'a::len word) = 2 ^ (LENGTH('a) - 1) - 1"
  unfolding smax_int by (rule sint_word_of_int) auto

lemma smin_int: "smin (a :: 'a::len word) = word_of_int (- (2 ^ (LENGTH('a) - 1)))"
  by (simp add: smin_def smax_int)

lemma sint_smin: "sint (smin a :: 'a::len word) = - (2 ^ (LENGTH('a) - 1))"
  unfolding smin_int by (rule sint_word_of_int) auto

subsection \<open>Every operation is exact or refuses\<close>

definition fits_s :: "'a::len itself \<Rightarrow> int \<Rightarrow> bool" where
  "fits_s t k \<longleftrightarrow> - (2 ^ (LENGTH('a) - 1)) \<le> k \<and> k < 2 ^ (LENGTH('a) - 1)"

definition fits_u :: "'a::len itself \<Rightarrow> int \<Rightarrow> bool" where
  "fits_u t k \<longleftrightarrow> 0 \<le> k \<and> k < 2 ^ LENGTH('a)"

lemma fits_s_sint: "fits_s TYPE('a::len) (sint (a :: 'a word))"
  using sint_range [of a] by (simp add: fits_s_def)

lemma sint_of_fits: "fits_s TYPE('a::len) k \<Longrightarrow> sint (word_of_int k :: 'a word) = k"
  unfolding fits_s_def by (rule sint_word_of_int) auto

lemma sint_eq_iff: "sint a = sint b \<longleftrightarrow> a = b" for a b :: "'a::len word"
  by (auto intro: signed_word_eqI)

lemma word_add_sint: "a + b = word_of_int (sint a + sint b)" for a b :: "'a::len word"
  by (simp add: wi_hom_add [symmetric])

lemma word_sub_sint: "a - b = word_of_int (sint a - sint b)" for a b :: "'a::len word"
  by (simp add: wi_hom_sub [symmetric])

lemma word_mult_sint: "a * b = word_of_int (sint a * sint b)" for a b :: "'a::len word"
  by (simp add: wi_hom_mult [symmetric])

lemma uint_below: "uint (a :: 'a::len word) < 2 ^ LENGTH('a)"
  by (fact uint_lt2p)

lemma le_div_pos_iff: "0 < l \<Longrightarrow> k \<le> x div l \<longleftrightarrow> k * l \<le> x" for k l x :: int
  by (metis div_mult_mod_eq le_add_same_cancel1 mult_le_cancel_right_pos nonzero_mult_div_cancel_right
      order.strict_implies_not_eq order_trans pos_mod_sign zdiv_mono1)

lemma sdiv_pos_pos: "0 \<le> k \<Longrightarrow> 0 < l \<Longrightarrow> k sdiv l = k div l" for k l :: int
  by (cases "k = 0") (simp_all add: signed_divide_int_def)

lemma sdiv_neg_pos: "0 \<le> k \<Longrightarrow> 0 < l \<Longrightarrow> (- k) sdiv l = - (k div l)" for k l :: int
  by (cases "k = 0") (simp_all add: signed_divide_int_def)

lemma sdiv_pos_neg: "0 \<le> k \<Longrightarrow> l < 0 \<Longrightarrow> k sdiv l = - (k div - l)" for k l :: int
  by (cases "k = 0") (simp_all add: signed_divide_int_def)

lemma div_le_self: "0 \<le> k \<Longrightarrow> 0 < l \<Longrightarrow> k div l \<le> k" for k l :: int
  using zdiv_mono2 [of k 1 l] by simp

lemma safe_uadd_eq:
  fixes a b :: "'a::len word"
  shows "safe_uadd a b = (if fits_u TYPE('a) (uint a + uint b) then Some (a + b) else None)"
proof -
  have "uint (umax a - a) = 2 ^ LENGTH('a) - 1 - uint a"
    using uint_sub_lem [THEN iffD1, of a "umax a"] uint_umax [of a] uint_below [of a]
    by (simp add: umax_def)
  then show ?thesis by (auto simp: safe_uadd_def fits_u_def word_le_def)
qed

lemma safe_sadd_eq:
  fixes a b :: "'a::len word"
  shows "safe_sadd a b = (if fits_s TYPE('a) (sint a + sint b) then Some (a + b) else None)"
proof -
  let ?M = "2 ^ (LENGTH('a) - 1) :: int"
  have pos: "sint (smax a - b) = ?M - 1 - sint b" if "sint b > 0"
    unfolding word_sub_sint [of "smax a"] sint_smax
    using that sint_range [of b] by (intro sint_of_fits) (auto simp: fits_s_def)
  have neg: "sint (smin a - b) = - ?M - sint b" if "\<not> sint b > 0"
    unfolding word_sub_sint [of "smin a"] sint_smin
    using that sint_range [of b] by (intro sint_of_fits) (auto simp: fits_s_def)
  show ?thesis
    using sint_range [of a] sint_range [of b]
    by (cases "sint b > 0"; cases "sint a > 0")
       (auto simp: safe_sadd_def fits_s_def pos neg)
qed

lemma safe_usub_eq:
  fixes a b :: "'a::len word"
  shows "safe_usub a b = (if fits_u TYPE('a) (uint a - uint b) then Some (a - b) else None)"
  using uint_below [of a] uint_ge_0 [of b]
  by (auto simp: safe_usub_def fits_u_def word_le_def)

lemma safe_ssub_eq:
  fixes a b :: "'a::len word"
  shows "safe_ssub a b = (if fits_s TYPE('a) (sint a - sint b) then Some (a - b) else None)"
proof -
  let ?M = "2 ^ (LENGTH('a) - 1) :: int"
  have pos: "sint (smax a + b) = ?M - 1 + sint b" if "sint b \<le> 0"
    unfolding word_add_sint [of "smax a"] sint_smax
    using that sint_range [of b] by (intro sint_of_fits) (auto simp: fits_s_def)
  have neg: "sint (smin a + b) = - ?M + sint b" if "sint b > 0"
    unfolding word_add_sint [of "smin a"] sint_smin
    using that sint_range [of b] by (intro sint_of_fits) (auto simp: fits_s_def)
  show ?thesis
    using sint_range [of a] sint_range [of b]
    by (cases "sint b > 0") (auto simp: safe_ssub_def fits_s_def pos neg)
qed

lemma safe_umul_eq:
  fixes a b :: "'a::len word"
  shows "safe_umul a b = (if fits_u TYPE('a) (uint a * uint b) then Some (a * b) else None)"
proof (cases "b = 0")
  case True
  then show ?thesis by (simp add: safe_umul_def fits_u_def)
next
  case False
  then have b: "uint b > 0"
    by (metis less_le uint_0_iff uint_ge_0)
  have "a \<le> umax a div b \<longleftrightarrow> uint a \<le> (2 ^ LENGTH('a) - 1) div uint b"
    by (simp add: word_le_def uint_div uint_umax)
  also have "\<dots> \<longleftrightarrow> uint a * uint b \<le> 2 ^ LENGTH('a) - 1"
    using b by (simp add: le_div_pos_iff)
  finally show ?thesis
    using False by (auto simp: safe_umul_def fits_u_def)
qed


text \<open>
  The quotient of two values of the type fits, but for the smallest value divided by \<open>-1\<close>,
  which is the case the guards of \<open>safe_sdiv\<close> refuse besides the division by zero.
\<close>

lemma abs_sdiv: "\<bar>k sdiv l\<bar> = \<bar>k\<bar> div \<bar>l\<bar>" for k l :: int
  by (cases "k = 0"; cases "l = 0")
     (simp_all add: signed_divide_int_def abs_mult pos_imp_zdiv_nonneg_iff)

lemma safe_sdiv_exact:
  fixes a b :: "'a::len word"
  shows "safe_sdiv a b = Some q \<Longrightarrow> sint q = sint a sdiv sint b"
proof -
  assume "safe_sdiv a b = Some q"
  then have b: "b \<noteq> 0" and ab: "a \<noteq> smin a \<or> b \<noteq> - 1"
    and q: "q = word_of_int (sint a sdiv sint b)"
    by (auto simp: safe_sdiv_def split: if_splits)
  let ?M = "2 ^ (LENGTH('a) - 1) :: int"
  have b0: "sint b \<noteq> 0" using b by (metis sint_0 sint_eq_iff)
  have amin: "a = smin a \<longleftrightarrow> sint a = - ?M"
    by (metis sint_smin sint_eq_iff)
  have bm1: "b = - 1 \<longleftrightarrow> sint b = - 1"
    by (metis sint_n1 sint_eq_iff)
  have le: "\<bar>sint a\<bar> div \<bar>sint b\<bar> \<le> \<bar>sint a\<bar>"
    using b0 by (intro div_le_self) auto
  have "fits_s TYPE('a) (sint a sdiv sint b)"
  proof (cases "sint a = - ?M")
    case False
    then have "\<bar>sint a\<bar> < ?M" using sint_range [of a] by linarith
    with le abs_sdiv [of "sint a" "sint b"] have "\<bar>sint a sdiv sint b\<bar> < ?M" by linarith
    then show ?thesis unfolding fits_s_def by linarith
  next
    case True
    with ab amin bm1 have bn: "sint b \<noteq> - 1" by blast
    show ?thesis
    proof (cases "sint b > 0")
      case True
      with \<open>sint a = - ?M\<close> have eq: "sint a sdiv sint b = - (?M div sint b)"
        by (simp add: sdiv_pos_pos)
      have "?M div sint b \<le> ?M" using True by (intro div_le_self) auto
      moreover have "0 \<le> ?M div sint b" using True by (simp add: pos_imp_zdiv_nonneg_iff)
      moreover have "0 < ?M" by simp
      ultimately show ?thesis unfolding fits_s_def eq by linarith
    next
      case False
      with b0 bn have "2 \<le> \<bar>sint b\<bar>" by linarith
      then have "?M div \<bar>sint b\<bar> \<le> ?M div 2" by (intro zdiv_mono2) auto
      moreover have "?M div 2 < ?M" by (intro int_div_less_self) auto
      moreover have "\<bar>sint a sdiv sint b\<bar> = ?M div \<bar>sint b\<bar>"
        using \<open>sint a = - ?M\<close> by (simp add: abs_sdiv)
      ultimately have "\<bar>sint a sdiv sint b\<bar> < ?M" by linarith
      then show ?thesis unfolding fits_s_def by linarith
    qed
  qed
  with q show ?thesis by (simp add: sint_of_fits)
qed

subsection \<open>The type-generic macros\<close>

text \<open>
  \<open>safe_add\<close> ... \<open>safe_mod\<close> pick the signed or the unsigned operation by the sign of the operand
  type, here \<open>sg\<close>.  Operands of different sizes or signs, which \<open>type_enforce\<close> refuses, cannot be
  written.  The macros with three to five operands apply the binary one from the left and stop at
  the first refusal.
\<close>

definition safe_add :: "bool \<Rightarrow> 'a::len word \<Rightarrow> 'a word \<Rightarrow> 'a word option" where
  "safe_add sg a b = (if sg then safe_sadd a b else safe_uadd a b)"

definition safe_sub :: "bool \<Rightarrow> 'a::len word \<Rightarrow> 'a word \<Rightarrow> 'a word option" where
  "safe_sub sg a b = (if sg then safe_ssub a b else safe_usub a b)"

definition safe_mul :: "bool \<Rightarrow> 'a::len word \<Rightarrow> 'a word \<Rightarrow> 'a word option" where
  "safe_mul sg a b = (if sg then safe_smul a b else safe_umul a b)"

definition safe_div :: "bool \<Rightarrow> 'a::len word \<Rightarrow> 'a word \<Rightarrow> 'a word option" where
  "safe_div sg a b = (if sg then safe_sdiv a b else safe_udiv a b)"

definition safe_mod :: "bool \<Rightarrow> 'a::len word \<Rightarrow> 'a word \<Rightarrow> 'a word option" where
  "safe_mod sg a b = (if sg then safe_smod a b else safe_umod a b)"

definition safe_add3 :: "bool \<Rightarrow> 'a::len word \<Rightarrow> 'a word \<Rightarrow> 'a word \<Rightarrow> 'a word option" where
  "safe_add3 sg a b c = do { r \<leftarrow> safe_add sg a b; safe_add sg r c }"

definition safe_add4 ::
  "bool \<Rightarrow> 'a::len word \<Rightarrow> 'a word \<Rightarrow> 'a word \<Rightarrow> 'a word \<Rightarrow> 'a word option" where
  "safe_add4 sg a b c d =
     do { r \<leftarrow> safe_add sg a b; r \<leftarrow> safe_add sg r c; safe_add sg r d }"

definition safe_add5 ::
  "bool \<Rightarrow> 'a::len word \<Rightarrow> 'a word \<Rightarrow> 'a word \<Rightarrow> 'a word \<Rightarrow> 'a word \<Rightarrow> 'a word option" where
  "safe_add5 sg a b c d e =
     do { r \<leftarrow> safe_add sg a b; r \<leftarrow> safe_add sg r c; r \<leftarrow> safe_add sg r d; safe_add sg r e }"

definition safe_sub3 :: "bool \<Rightarrow> 'a::len word \<Rightarrow> 'a word \<Rightarrow> 'a word \<Rightarrow> 'a word option" where
  "safe_sub3 sg a b c = do { r \<leftarrow> safe_sub sg a b; safe_sub sg r c }"

definition safe_sub4 ::
  "bool \<Rightarrow> 'a::len word \<Rightarrow> 'a word \<Rightarrow> 'a word \<Rightarrow> 'a word \<Rightarrow> 'a word option" where
  "safe_sub4 sg a b c d =
     do { r \<leftarrow> safe_sub sg a b; r \<leftarrow> safe_sub sg r c; safe_sub sg r d }"

definition safe_sub5 ::
  "bool \<Rightarrow> 'a::len word \<Rightarrow> 'a word \<Rightarrow> 'a word \<Rightarrow> 'a word \<Rightarrow> 'a word \<Rightarrow> 'a word option" where
  "safe_sub5 sg a b c d e =
     do { r \<leftarrow> safe_sub sg a b; r \<leftarrow> safe_sub sg r c; r \<leftarrow> safe_sub sg r d; safe_sub sg r e }"

definition safe_mul3 :: "bool \<Rightarrow> 'a::len word \<Rightarrow> 'a word \<Rightarrow> 'a word \<Rightarrow> 'a word option" where
  "safe_mul3 sg a b c = do { r \<leftarrow> safe_mul sg a b; safe_mul sg r c }"

definition safe_mul4 ::
  "bool \<Rightarrow> 'a::len word \<Rightarrow> 'a word \<Rightarrow> 'a word \<Rightarrow> 'a word \<Rightarrow> 'a word option" where
  "safe_mul4 sg a b c d =
     do { r \<leftarrow> safe_mul sg a b; r \<leftarrow> safe_mul sg r c; safe_mul sg r d }"

definition safe_mul5 ::
  "bool \<Rightarrow> 'a::len word \<Rightarrow> 'a word \<Rightarrow> 'a word \<Rightarrow> 'a word \<Rightarrow> 'a word \<Rightarrow> 'a word option" where
  "safe_mul5 sg a b c d e =
     do { r \<leftarrow> safe_mul sg a b; r \<leftarrow> safe_mul sg r c; r \<leftarrow> safe_mul sg r d; safe_mul sg r e }"

definition safe_div3 :: "bool \<Rightarrow> 'a::len word \<Rightarrow> 'a word \<Rightarrow> 'a word \<Rightarrow> 'a word option" where
  "safe_div3 sg a b c = do { r \<leftarrow> safe_div sg a b; safe_div sg r c }"

definition safe_div4 ::
  "bool \<Rightarrow> 'a::len word \<Rightarrow> 'a word \<Rightarrow> 'a word \<Rightarrow> 'a word \<Rightarrow> 'a word option" where
  "safe_div4 sg a b c d =
     do { r \<leftarrow> safe_div sg a b; r \<leftarrow> safe_div sg r c; safe_div sg r d }"

definition safe_div5 ::
  "bool \<Rightarrow> 'a::len word \<Rightarrow> 'a word \<Rightarrow> 'a word \<Rightarrow> 'a word \<Rightarrow> 'a word \<Rightarrow> 'a word option" where
  "safe_div5 sg a b c d e =
     do { r \<leftarrow> safe_div sg a b; r \<leftarrow> safe_div sg r c; r \<leftarrow> safe_div sg r d; safe_div sg r e }"

definition safe_mod3 :: "bool \<Rightarrow> 'a::len word \<Rightarrow> 'a word \<Rightarrow> 'a word \<Rightarrow> 'a word option" where
  "safe_mod3 sg a b c = do { r \<leftarrow> safe_mod sg a b; safe_mod sg r c }"

definition safe_mod4 ::
  "bool \<Rightarrow> 'a::len word \<Rightarrow> 'a word \<Rightarrow> 'a word \<Rightarrow> 'a word \<Rightarrow> 'a word option" where
  "safe_mod4 sg a b c d =
     do { r \<leftarrow> safe_mod sg a b; r \<leftarrow> safe_mod sg r c; safe_mod sg r d }"

subsection \<open>Format strings: safe_iop.c\<close>

text \<open>
  \<open>_safe_op_read_type\<close> at the front of the format: the type and the rest of the format, or
  \<open>None\<close> for 0.  The type is \<open>True\<close> for \<open>s32\<close>, the default.
\<close>

definition safe_op_read_type :: "bool \<Rightarrow> string \<Rightarrow> (bool \<times> string) option" where
  "safe_op_read_type ty c =
     (case c of
        [] \<Rightarrow> None
      | x # xs \<Rightarrow>
          if x = CHR ''u'' \<and> take 2 xs = ''32'' then Some (False, drop 2 xs)
          else if x = CHR ''s'' \<and> take 2 xs = ''32'' then Some (True, drop 2 xs)
          else Some (ty, c))"

definition iop_of :: "char \<Rightarrow> (bool \<Rightarrow> u32 \<Rightarrow> u32 \<Rightarrow> u32 option) option" where
  "iop_of c =
     (if c = CHR ''+'' then Some safe_add else if c = CHR ''-'' then Some safe_sub
      else if c = CHR ''*'' then Some safe_mul else if c = CHR ''/'' then Some safe_div
      else if c = CHR ''%'' then Some safe_mod else None)"

text \<open>
  \<open>safe_iopf\<close>: \<open>result\<close> is the 32 bits the pointer leads to, \<open>args\<close> the variable arguments; taking
  one that was not passed is undefined.  The answer is the return value and the new \<open>*result\<close>.
\<close>

function iopf_loop :: "string \<Rightarrow> bool \<Rightarrow> u32 \<Rightarrow> u32 list \<Rightarrow> (bool \<times> u32) ub" where
  "iopf_loop c baseline result args =
     (if c = [] then Some (True, result)
      else case safe_op_read_type True c of
        None \<Rightarrow> Some (False, result)
      | Some (ty, c1) \<Rightarrow>
          (case c1 of
             [] \<Rightarrow> Some (False, result)
           | x # c2 \<Rightarrow>
               (case iop_of x of
                  None \<Rightarrow> Some (False, result)
                | Some f \<Rightarrow>
                    (case (if baseline then result # args else args) of
                       value # a # rest \<Rightarrow>
                         (case f ty value a of
                            None \<Rightarrow> Some (False, result)
                          | Some r \<Rightarrow> iopf_loop c2 True r rest)
                     | _ \<Rightarrow> None))))"
  by pat_completeness auto
termination
  by (relation "measure (\<lambda>(c, b, r, a). length c)")
     (auto simp: safe_op_read_type_def split: list.splits if_splits dest: arg_cong [of _ _ length])

definition safe_iopf :: "u32 option \<Rightarrow> string option \<Rightarrow> u32 list \<Rightarrow> (bool \<times> u32 option) ub" where
  "safe_iopf result fmt args =
     (case result of
        None \<Rightarrow> Some (False, None)
      | Some r \<Rightarrow>
          (case fmt of
             None \<Rightarrow> Some (False, result)
           | Some f \<Rightarrow> if f = [] then Some (False, result)
                       else do { (ok, r') \<leftarrow> iopf_loop f False r args; Some (ok, Some r') }))"

subsection \<open>Exactness of the generic macros\<close>

definition val :: "bool \<Rightarrow> 'a::len word \<Rightarrow> int" where
  "val sg a = (if sg then sint a else uint a)"

definition fits :: "bool \<Rightarrow> 'a::len itself \<Rightarrow> int \<Rightarrow> bool" where
  "fits sg t k = (if sg then fits_s t k else fits_u t k)"

lemma val_of_fits: "fits sg TYPE('a::len) k \<Longrightarrow> val sg (word_of_int k :: 'a word) = k"
  by (auto simp: fits_def val_def sint_of_fits fits_u_def uint_word_of_int_eq take_bit_int_eq_self)

lemma word_val: "word_of_int (val sg a) = a"
  by (simp add: val_def)

lemma smul_exact:
  fixes a b :: "'a::len word"
  shows "safe_smul a b = (if fits_s TYPE('a) (sint a * sint b) then Some (a * b) else None)"
proof -
  define M :: int where "M = 2 ^ (LENGTH('a) - 1)"
  have M: "0 < M" "0 \<le> M - 1" by (simp_all add: M_def int_one_le_iff_zero_less)
  have lim: "sint (smax a) = M - 1" "sint (smin a) = - M"
    by (simp_all add: sint_smax sint_smin M_def)
  have fits: "fits_s TYPE('a) k \<longleftrightarrow> - M \<le> k \<and> k < M" for k
    by (simp add: fits_s_def M_def)
  consider "sint a > 0" "sint b > 0" | "sint a > 0" "\<not> sint b > 0"
    | "\<not> sint a > 0" "sint b > 0" | "\<not> sint a > 0" "\<not> sint b > 0" "sint a = 0"
    | "sint a < 0" "\<not> sint b > 0" by linarith
  then show ?thesis
  proof cases
    case 1
    then have "0 < sint a * sint b" by simp
    with M have "- M \<le> sint a * sint b" by linarith
    with 1 M show ?thesis
      by (auto simp: safe_smul_def lim sdiv_pos_pos le_div_pos_iff not_less fits)
  next
    case 2
    then have "sint a * sint b \<le> 0" by (simp add: mult_nonneg_nonpos)
    with 2 M le_div_pos_iff [of "sint a" "- sint b" M] show ?thesis
      by (auto simp: safe_smul_def lim sdiv_pos_pos not_less fits mult.commute)
  next
    case 3
    then have "sint a * sint b \<le> 0" by (simp add: mult_nonpos_nonneg)
    with 3 M le_div_pos_iff [of "sint b" "- sint a" M] show ?thesis
      by (auto simp: safe_smul_def lim sdiv_pos_pos not_less fits)
  next
    case 4
    with M show ?thesis by (simp add: safe_smul_def fits)
  next
    case 5
    then have "0 \<le> sint a * sint b" by (simp add: mult_nonpos_nonpos)
    with 5 M le_div_pos_iff [of "- sint a" "- sint b" "M - 1"] show ?thesis
      by (auto simp: safe_smul_def lim sdiv_pos_neg not_less fits mult.commute)
  qed
qed

lemma safe_binary_eq:
  fixes a b :: "'a::len word"
  shows "safe_add sg a b = (if fits sg TYPE('a) (val sg a + val sg b) then Some (a + b) else None)"
    "safe_sub sg a b = (if fits sg TYPE('a) (val sg a - val sg b) then Some (a - b) else None)"
    "safe_mul sg a b = (if fits sg TYPE('a) (val sg a * val sg b) then Some (a * b) else None)"
  by (simp_all add: safe_add_def safe_sub_def safe_mul_def fits_def val_def safe_uadd_eq safe_sadd_eq
      safe_usub_eq safe_ssub_eq safe_umul_eq smul_exact)

lemma safe_binary_val:
  fixes a b r :: "'a::len word"
  shows "safe_add sg a b = Some r \<Longrightarrow> val sg r = val sg a + val sg b"
    "safe_sub sg a b = Some r \<Longrightarrow> val sg r = val sg a - val sg b"
    "safe_mul sg a b = Some r \<Longrightarrow> val sg r = val sg a * val sg b"
proof -
  have w: "a + b = word_of_int (val sg a + val sg b)" "a - b = word_of_int (val sg a - val sg b)"
    "a * b = word_of_int (val sg a * val sg b)"
    by (simp_all add: word_val)
  show "safe_add sg a b = Some r \<Longrightarrow> val sg r = val sg a + val sg b"
    unfolding safe_binary_eq w by (auto simp only: val_of_fits option.inject split: if_splits)
  show "safe_sub sg a b = Some r \<Longrightarrow> val sg r = val sg a - val sg b"
    unfolding safe_binary_eq w by (auto simp only: val_of_fits option.inject split: if_splits)
  show "safe_mul sg a b = Some r \<Longrightarrow> val sg r = val sg a * val sg b"
    unfolding safe_binary_eq w by (auto simp only: val_of_fits option.inject split: if_splits)
qed

subsection \<open>Properties\<close>

text \<open>
  Every checked binary operation returns the exact result when it is representable in the type
  of the operands and refuses (returns 0) exactly when it is not, signed and unsigned, at every
  width; for the signed multiplication this needs all four sign cases of the macro, whose guards
  divide the limit of the type by one operand.
\<close>

theorem safe_binary_exact:
  fixes a b :: "'a::len word"
  shows "safe_add sg a b = (if fits sg TYPE('a) (val sg a + val sg b) then Some (a + b) else None) \<and>
     safe_sub sg a b = (if fits sg TYPE('a) (val sg a - val sg b) then Some (a - b) else None) \<and>
     safe_mul sg a b = (if fits sg TYPE('a) (val sg a * val sg b) then Some (a * b) else None)"
  by (intro conjI safe_binary_eq)

text \<open>
  When a macro with five operands succeeds, its result is the exact sum, difference or product of
  the five integers.
\<close>

theorem safe_chain_exact:
  fixes a b c d e :: "'a::len word"
  shows "(\<forall>r\<in>set_option (safe_add5 sg a b c d e).
            val sg r = val sg a + val sg b + val sg c + val sg d + val sg e) \<and>
     (\<forall>r\<in>set_option (safe_sub5 sg a b c d e).
            val sg r = val sg a - val sg b - val sg c - val sg d - val sg e) \<and>
     (\<forall>r\<in>set_option (safe_mul5 sg a b c d e).
            val sg r = val sg a * val sg b * val sg c * val sg d * val sg e)"
  by (auto simp: safe_add5_def safe_sub5_def safe_mul5_def bind_eq_Some_conv dest!: safe_binary_val)

theorem safe_chain_exact_witness:
  "safe_mul5 True 3 (- 2) 5 (- 7 :: u32) 1 = Some 210 \<and> val True (210 :: u32) = 3 * - 2 * 5 * - 7 * 1"
proof -
  have "safe_mul5 True 3 (- 2) 5 (- 7 :: u32) 1 = Some 210" by code_simp
  with safe_chain_exact [of True 3 "- 2" 5 "- 7 :: u32" 1] show ?thesis by (simp add: val_def)
qed

lemma iopf_plus:
  "length args = n \<Longrightarrow> iopf_loop (replicate n CHR ''+'') True r args = Some (ok, r') \<Longrightarrow>
   ok \<Longrightarrow> sint r' = sint r + sum_list (map sint args)"
proof (induction n arbitrary: r args)
  case 0
  then show ?case by (subst (asm) iopf_loop.simps) simp
next
  case (Suc n)
  obtain a rest where a: "args = a # rest" "length rest = n" using Suc.prems(1) by (cases args) auto
  have ty: "safe_op_read_type True (replicate (Suc n) CHR ''+'') = Some (True, replicate (Suc n) CHR ''+'')"
    by (simp add: safe_op_read_type_def)
  have eq: "iopf_loop (replicate (Suc n) CHR ''+'') True r args =
      (case safe_add True r a of None \<Rightarrow> Some (False, r)
       | Some r1 \<Rightarrow> iopf_loop (replicate n CHR ''+'') True r1 rest)"
    by (subst iopf_loop.simps) (simp add: safe_op_read_type_def iop_of_def a(1))
  then obtain r1 where r1: "safe_add True r a = Some r1"
    "iopf_loop (replicate n CHR ''+'') True r1 rest = Some (ok, r')"
    using Suc.prems(2,3) by (cases "safe_add True r a") auto
  from Suc.IH [OF a(2) r1(2) Suc.prems(3)] safe_binary_val(1) [OF r1(1)] a(1)
  show ?case by (simp add: val_def)
qed

text \<open>
  C22: a format of \<open>n\<close> plus signs adds up \<open>n + 1\<close> signed arguments: when \<open>safe_iopf\<close> returns 1 the
  integer it stored is their exact sum, so no partial sum overflowed unnoticed.
\<close>

theorem iopf_sum_exact:
  assumes "safe_iopf (Some r0) (Some (replicate (Suc n) CHR ''+'')) (a # args) = Some (True, Some r)"
    and "length args = Suc n"
  shows "sint r = sint a + sum_list (map sint args)"
proof -
  obtain b rest where b: "args = b # rest" "length rest = n" using assms(2) by (cases args) auto
  have "iopf_loop (replicate (Suc n) CHR ''+'') False r0 (a # args) =
      (case safe_add True a b of None \<Rightarrow> Some (False, r0)
       | Some r1 \<Rightarrow> iopf_loop (replicate n CHR ''+'') True r1 rest)"
    by (subst iopf_loop.simps) (simp add: safe_op_read_type_def iop_of_def b(1))
  then obtain r1 where r1: "safe_add True a b = Some r1"
    "iopf_loop (replicate n CHR ''+'') True r1 rest = Some (True, r)"
    using assms(1) by (cases "safe_add True a b") (auto simp: safe_iopf_def bind_eq_Some_conv)
  from iopf_plus [OF b(2) r1(2) TrueI] safe_binary_val(1) [OF r1(1)] b(1)
  show ?thesis by (simp add: val_def)
qed

theorem iopf_sum_exact_witness:
  "safe_iopf (Some 0) (Some ''++'') [5, - 3, 7] = Some (True, Some 9) \<and> sint (9 :: u32) = 5 + (- 3 + 7)"
proof -
  have run: "safe_iopf (Some 0) (Some (replicate (Suc 1) CHR ''+'')) (5 # [- 3, 7]) = Some (True, Some 9)"
    by code_simp
  have "sint (9 :: u32) = sint (5 :: u32) + sum_list (map sint [- 3 :: u32, 7])"
    by (rule iopf_sum_exact [OF run]) simp
  with run show ?thesis by (simp add: numeral_2_eq_2)
qed

end
