(* ===== verification/ByteOrder.thy ===== *)
theory ByteOrder
  imports Prelude
begin

text \<open>
  Multi-byte integers in memory and in files: the inline functions of \<open>minzip/Bits.h\<close>, the
  readers and writers of \<open>applypatch/utils.c\<close>, and the sign-and-magnitude \<open>off_t\<close> codec that
  \<open>bspatch.c\<close> (\<open>offtin\<close>) and \<open>bsdiff.c\<close> (\<open>offtout\<close>) share.  A pointer into a buffer is the
  buffer and an index; a read or write past its end is \<open>None\<close>.
\<close>

subsection \<open>Fetching: \<open>get*\<close> of Bits.h\<close>

definition get1 :: "bytes \<Rightarrow> nat \<Rightarrow> byte ub" where
  "get1 m p = rd m p"

definition get2BE :: "bytes \<Rightarrow> nat \<Rightarrow> u16 ub" where
  "get2BE m p =
     do { b0 \<leftarrow> rd m p; b1 \<leftarrow> rd m (p + 1);
          Some (push_bit 8 (ucast b0) OR ucast b1) }"

definition get4BE :: "bytes \<Rightarrow> nat \<Rightarrow> u32 ub" where
  "get4BE m p =
     do { b0 \<leftarrow> rd m p; b1 \<leftarrow> rd m (p + 1); b2 \<leftarrow> rd m (p + 2); b3 \<leftarrow> rd m (p + 3);
          Some (push_bit 24 (ucast b0) OR push_bit 16 (ucast b1) OR push_bit 8 (ucast b2) OR ucast b3) }"

definition get8BE :: "bytes \<Rightarrow> nat \<Rightarrow> u64 ub" where
  "get8BE m p =
     do { b0 \<leftarrow> rd m p; b1 \<leftarrow> rd m (p + 1); b2 \<leftarrow> rd m (p + 2); b3 \<leftarrow> rd m (p + 3);
        b4 \<leftarrow> rd m (p + 4); b5 \<leftarrow> rd m (p + 5); b6 \<leftarrow> rd m (p + 6); b7 \<leftarrow> rd m (p + 7);
          Some (push_bit 56 (ucast b0) OR push_bit 48 (ucast b1) OR push_bit 40 (ucast b2) OR push_bit 32 (ucast b3)
           OR push_bit 24 (ucast b4) OR push_bit 16 (ucast b5) OR push_bit 8 (ucast b6) OR ucast b7) }"

definition get2LE :: "bytes \<Rightarrow> nat \<Rightarrow> u16 ub" where
  "get2LE m p =
     do { b0 \<leftarrow> rd m p; b1 \<leftarrow> rd m (p + 1);
          Some (ucast b0 OR push_bit 8 (ucast b1)) }"

definition get4LE :: "bytes \<Rightarrow> nat \<Rightarrow> u32 ub" where
  "get4LE m p =
     do { b0 \<leftarrow> rd m p; b1 \<leftarrow> rd m (p + 1); b2 \<leftarrow> rd m (p + 2); b3 \<leftarrow> rd m (p + 3);
          Some (ucast b0 OR push_bit 8 (ucast b1) OR push_bit 16 (ucast b2) OR push_bit 24 (ucast b3)) }"

definition get8LE :: "bytes \<Rightarrow> nat \<Rightarrow> u64 ub" where
  "get8LE m p =
     do { b0 \<leftarrow> rd m p; b1 \<leftarrow> rd m (p + 1); b2 \<leftarrow> rd m (p + 2); b3 \<leftarrow> rd m (p + 3);
        b4 \<leftarrow> rd m (p + 4); b5 \<leftarrow> rd m (p + 5); b6 \<leftarrow> rd m (p + 6); b7 \<leftarrow> rd m (p + 7);
          Some (ucast b0 OR push_bit 8 (ucast b1) OR push_bit 16 (ucast b2) OR push_bit 24 (ucast b3)
           OR push_bit 32 (ucast b4) OR push_bit 40 (ucast b5) OR push_bit 48 (ucast b6) OR push_bit 56 (ucast b7)) }"

subsection \<open>Fetching and advancing: \<open>read*\<close> of Bits.h\<close>

definition read1 :: "bytes \<Rightarrow> nat \<Rightarrow> (byte \<times> nat) ub" where
  "read1 m p = do { v \<leftarrow> rd m p; Some (v, p + 1) }"

definition read2BE :: "bytes \<Rightarrow> nat \<Rightarrow> (u16 \<times> nat) ub" where
  "read2BE m p = do { v \<leftarrow> get2BE m p; Some (v, p + 2) }"

definition read4BE :: "bytes \<Rightarrow> nat \<Rightarrow> (u32 \<times> nat) ub" where
  "read4BE m p = do { v \<leftarrow> get4BE m p; Some (v, p + 4) }"

definition read8BE :: "bytes \<Rightarrow> nat \<Rightarrow> (u64 \<times> nat) ub" where
  "read8BE m p = do { v \<leftarrow> get8BE m p; Some (v, p + 8) }"

definition read2LE :: "bytes \<Rightarrow> nat \<Rightarrow> (u16 \<times> nat) ub" where
  "read2LE m p = do { v \<leftarrow> get2LE m p; Some (v, p + 2) }"

definition read4LE :: "bytes \<Rightarrow> nat \<Rightarrow> (u32 \<times> nat) ub" where
  "read4LE m p = do { v \<leftarrow> get4LE m p; Some (v, p + 4) }"

definition read8LE :: "bytes \<Rightarrow> nat \<Rightarrow> (u64 \<times> nat) ub" where
  "read8LE m p = do { v \<leftarrow> get8LE m p; Some (v, p + 8) }"

subsection \<open>Storing: \<open>set*\<close> of Bits.h\<close>

definition set1 :: "bytes \<Rightarrow> nat \<Rightarrow> byte \<Rightarrow> bytes ub" where
  "set1 m p v = wr m p v"

definition set2BE :: "bytes \<Rightarrow> nat \<Rightarrow> u16 \<Rightarrow> bytes ub" where
  "set2BE m p v =
     do { m1 \<leftarrow> wr m p (ucast (drop_bit 8 v));
          wr m1 (p + 1) (ucast v) }"

definition set4BE :: "bytes \<Rightarrow> nat \<Rightarrow> u32 \<Rightarrow> bytes ub" where
  "set4BE m p v =
     do { m1 \<leftarrow> wr m p (ucast (drop_bit 24 v));
          m2 \<leftarrow> wr m1 (p + 1) (ucast (drop_bit 16 v));
          m3 \<leftarrow> wr m2 (p + 2) (ucast (drop_bit 8 v));
          wr m3 (p + 3) (ucast v) }"

definition set8BE :: "bytes \<Rightarrow> nat \<Rightarrow> u64 \<Rightarrow> bytes ub" where
  "set8BE m p v =
     do { m1 \<leftarrow> wr m p (ucast (drop_bit 56 v));
          m2 \<leftarrow> wr m1 (p + 1) (ucast (drop_bit 48 v));
          m3 \<leftarrow> wr m2 (p + 2) (ucast (drop_bit 40 v));
          m4 \<leftarrow> wr m3 (p + 3) (ucast (drop_bit 32 v));
          m5 \<leftarrow> wr m4 (p + 4) (ucast (drop_bit 24 v));
          m6 \<leftarrow> wr m5 (p + 5) (ucast (drop_bit 16 v));
          m7 \<leftarrow> wr m6 (p + 6) (ucast (drop_bit 8 v));
          wr m7 (p + 7) (ucast v) }"

definition set2LE :: "bytes \<Rightarrow> nat \<Rightarrow> u16 \<Rightarrow> bytes ub" where
  "set2LE m p v =
     do { m1 \<leftarrow> wr m p (ucast v);
          wr m1 (p + 1) (ucast (drop_bit 8 v)) }"

definition set4LE :: "bytes \<Rightarrow> nat \<Rightarrow> u32 \<Rightarrow> bytes ub" where
  "set4LE m p v =
     do { m1 \<leftarrow> wr m p (ucast v);
          m2 \<leftarrow> wr m1 (p + 1) (ucast (drop_bit 8 v));
          m3 \<leftarrow> wr m2 (p + 2) (ucast (drop_bit 16 v));
          wr m3 (p + 3) (ucast (drop_bit 24 v)) }"

definition set8LE :: "bytes \<Rightarrow> nat \<Rightarrow> u64 \<Rightarrow> bytes ub" where
  "set8LE m p v =
     do { m1 \<leftarrow> wr m p (ucast v);
          m2 \<leftarrow> wr m1 (p + 1) (ucast (drop_bit 8 v));
          m3 \<leftarrow> wr m2 (p + 2) (ucast (drop_bit 16 v));
          m4 \<leftarrow> wr m3 (p + 3) (ucast (drop_bit 24 v));
          m5 \<leftarrow> wr m4 (p + 4) (ucast (drop_bit 32 v));
          m6 \<leftarrow> wr m5 (p + 5) (ucast (drop_bit 40 v));
          m7 \<leftarrow> wr m6 (p + 6) (ucast (drop_bit 48 v));
          wr m7 (p + 7) (ucast (drop_bit 56 v)) }"

subsection \<open>Length-prefixed strings of Bits.h\<close>

definition skipUtf8String :: "bytes \<Rightarrow> nat \<Rightarrow> nat ub" where
  "skipUtf8String m p = do { (len, p') \<leftarrow> read4BE m p; Some (p' + unat len) }"

text \<open>
  \<open>readUtf8String\<close>: \<open>bufLen\<close> is a \<open>size_t\<close>, so \<open>bufLen - 1\<close> wraps when it is 0; the result is
  the buffer, the new position and the length of the original string.
\<close>

definition readUtf8String :: "bytes \<Rightarrow> nat \<Rightarrow> bytes \<Rightarrow> u64 \<Rightarrow> (bytes \<times> nat \<times> u32) ub" where
  "readUtf8String m p buf bufLen =
     do { (len, p') \<leftarrow> read4BE m p;
          let copyLen = (if ucast len < bufLen then ucast len else bufLen - 1);
          s \<leftarrow> rd_slice m p' (unat copyLen);
          buf1 \<leftarrow> wr_slice buf 0 s;
          buf2 \<leftarrow> wr buf1 (unat copyLen) 0;
          Some (buf2, p' + unat len, len) }"

definition readNewUtf8String :: "bytes \<Rightarrow> nat \<Rightarrow> (bytes \<times> nat \<times> u64) ub" where
  "readNewUtf8String m p =
     do { (len, p') \<leftarrow> read4BE m p;
          s \<leftarrow> rd_slice m p' (unat len);
          Some (s @ [0], p' + unat len, ucast len) }"

definition setUtf8String :: "bytes \<Rightarrow> nat \<Rightarrow> bytes \<Rightarrow> bytes ub" where
  "setUtf8String m p str =
     do { let strLen = (of_nat (length str) :: u32);
          m1 \<leftarrow> set4BE m p strLen;
          wr_slice m1 (p + 4) (take (unat strLen) str) }"

subsection \<open>Little-endian values of patch files: utils.c\<close>

definition Write4 :: "u32 \<Rightarrow> bytes \<Rightarrow> bytes" where
  "Write4 value f = f @
     [ucast (value AND 0xff),
      ucast (signed_drop_bit 8 value AND 0xff),
      ucast (signed_drop_bit 16 value AND 0xff),
      ucast (signed_drop_bit 24 value AND 0xff)]"

definition Write8 :: "u64 \<Rightarrow> bytes \<Rightarrow> bytes" where
  "Write8 value f = f @
     [ucast (value AND 0xff),
      ucast (signed_drop_bit 8 value AND 0xff),
      ucast (signed_drop_bit 16 value AND 0xff),
      ucast (signed_drop_bit 24 value AND 0xff),
      ucast (signed_drop_bit 32 value AND 0xff),
      ucast (signed_drop_bit 40 value AND 0xff),
      ucast (signed_drop_bit 48 value AND 0xff),
      ucast (signed_drop_bit 56 value AND 0xff)]"

definition Read2 :: "bytes \<Rightarrow> nat \<Rightarrow> u32 ub" where
  "Read2 m p =
     do { b1 \<leftarrow> rd m (p + 1); b0 \<leftarrow> rd m p;
          Some (push_bit 8 (ucast b1) OR ucast b0) }"

definition Read4 :: "bytes \<Rightarrow> nat \<Rightarrow> u32 ub" where
  "Read4 m p =
     do { b3 \<leftarrow> rd m (p + 3); b2 \<leftarrow> rd m (p + 2); b1 \<leftarrow> rd m (p + 1); b0 \<leftarrow> rd m p;
          Some (push_bit 24 (ucast b3) OR push_bit 16 (ucast b2) OR push_bit 8 (ucast b1)
                OR ucast b0) }"

definition Read8 :: "bytes \<Rightarrow> nat \<Rightarrow> u64 ub" where
  "Read8 m p =
     do { b7 \<leftarrow> rd m (p + 7); b6 \<leftarrow> rd m (p + 6); b5 \<leftarrow> rd m (p + 5); b4 \<leftarrow> rd m (p + 4);
          b3 \<leftarrow> rd m (p + 3); b2 \<leftarrow> rd m (p + 2); b1 \<leftarrow> rd m (p + 1); b0 \<leftarrow> rd m p;
          Some (push_bit 56 (ucast b7) OR push_bit 48 (ucast b6) OR push_bit 40 (ucast b5)
                OR push_bit 32 (ucast b4) OR push_bit 24 (ucast b3) OR push_bit 16 (ucast b2)
                OR push_bit 8 (ucast b1) OR ucast b0) }"

subsection \<open>The \<open>off_t\<close> codec of bsdiff patches\<close>

text \<open>
  \<open>offtin\<close> reads eight bytes at \<open>p\<close>: seven little-endian bytes of magnitude, seven bits more
  in the last byte and the sign in its top bit.  The value is kept as an integer: it is below
  \<open>2 ^ 63\<close> in absolute value, so no step of the C overflows.
\<close>

definition offtin :: "bytes \<Rightarrow> nat \<Rightarrow> int ub" where
  "offtin buf p =
     do { b7 \<leftarrow> rd buf (p + 7); b6 \<leftarrow> rd buf (p + 6); b5 \<leftarrow> rd buf (p + 5); b4 \<leftarrow> rd buf (p + 4);
          b3 \<leftarrow> rd buf (p + 3); b2 \<leftarrow> rd buf (p + 2); b1 \<leftarrow> rd buf (p + 1); b0 \<leftarrow> rd buf p;
          let y = uint (b7 AND 0x7F);
          let y = y * 256 + uint b6;
          let y = y * 256 + uint b5;
          let y = y * 256 + uint b4;
          let y = y * 256 + uint b3;
          let y = y * 256 + uint b2;
          let y = y * 256 + uint b1;
          let y = y * 256 + uint b0;
          Some (if b7 AND 0x80 \<noteq> 0 then - y else y) }"

text \<open>
  \<open>offtout\<close> negates its argument when it is negative, which is undefined for the smallest
  \<open>off_t\<close>; otherwise it yields the eight bytes it stores.
\<close>

definition offtout :: "int \<Rightarrow> bytes ub" where
  "offtout x =
     (if x = - (2 ^ 63) then None
      else let y = (if x < 0 then - x else x);
               b0 = y mod 256; y = y - b0; y = y div 256;
               b1 = y mod 256; y = y - b1; y = y div 256;
               b2 = y mod 256; y = y - b2; y = y div 256;
               b3 = y mod 256; y = y - b3; y = y div 256;
               b4 = y mod 256; y = y - b4; y = y div 256;
               b5 = y mod 256; y = y - b5; y = y div 256;
               b6 = y mod 256; y = y - b6; y = y div 256;
               b7 = (word_of_int (y mod 256) :: byte)
           in Some ([word_of_int b0, word_of_int b1, word_of_int b2, word_of_int b3,
                     word_of_int b4, word_of_int b5, word_of_int b6,
                     (if x < 0 then b7 OR 0x80 else b7)]))"

subsection \<open>Fetches succeed exactly inside the buffer\<close>

lemmas get_defs = get1_def get2BE_def get4BE_def get8BE_def get2LE_def get4LE_def get8LE_def
lemmas set_defs = set1_def set2BE_def set4BE_def set8BE_def set2LE_def set4LE_def set8LE_def

lemma get2LE_defined [mem_simps]: "get2LE m p = None \<longleftrightarrow> length m < p + 2"
  by (auto simp: get2LE_def rd_def)

lemma get4LE_defined [mem_simps]: "get4LE m p = None \<longleftrightarrow> length m < p + 4"
  by (auto simp: get4LE_def rd_def)

lemma get2LE_in: "p + 2 \<le> length m \<Longrightarrow> \<exists>v. get2LE m p = Some v"
  using get2LE_defined [of m p] by (cases "get2LE m p") auto

lemma get4LE_in: "p + 4 \<le> length m \<Longrightarrow> \<exists>v. get4LE m p = Some v"
  using get4LE_defined [of m p] by (cases "get4LE m p") auto

subsection \<open>A word is the OR of its bytes\<close>

lemma byte_of: "(ucast (ucast v :: byte) :: 'a::len word) = take_bit 8 v" for v :: "'a::len word"
  by (rule bit_word_eqI) (auto simp: bit_simps)

lemma byte_step:
  "push_bit k (take_bit 8 (drop_bit k v)) OR take_bit k v = take_bit (k + 8) v"
  for v :: "'a::len word"
  by (rule bit_word_eqI) (auto simp: bit_simps)

lemmas byte_steps =
  byte_step [where k = 8, simplified] byte_step [where k = 16, simplified]
  byte_step [where k = 24, simplified] byte_step [where k = 32, simplified]
  byte_step [where k = 40, simplified] byte_step [where k = 48, simplified]
  byte_step [where k = 56, simplified]

lemma take_bit_full: "take_bit LENGTH('a::len) v = v" for v :: "'a::len word"
  by (rule bit_word_eqI) (auto simp: bit_simps)

lemma take_bit_16: "take_bit 16 v = v" for v :: u16
  using take_bit_full [of v] by simp
lemma take_bit_32: "take_bit 32 v = v" for v :: u32
  using take_bit_full [of v] by simp
lemma take_bit_64: "take_bit 64 v = v" for v :: u64
  using take_bit_full [of v] by simp

lemma split16: "push_bit 8 (ucast (ucast (drop_bit 8 v) :: byte)) OR ucast (ucast v :: byte) = v"
  for v :: u16
  by (simp only: byte_of byte_steps take_bit_16)

lemma split32:
  "push_bit 24 (ucast (ucast (drop_bit 24 v) :: byte)) OR
   push_bit 16 (ucast (ucast (drop_bit 16 v) :: byte)) OR
   push_bit 8 (ucast (ucast (drop_bit 8 v) :: byte)) OR ucast (ucast v :: byte) = v"
  for v :: u32
  by (simp only: byte_of or.assoc byte_steps take_bit_32)

lemma split64:
  "push_bit 56 (ucast (ucast (drop_bit 56 v) :: byte)) OR
   push_bit 48 (ucast (ucast (drop_bit 48 v) :: byte)) OR
   push_bit 40 (ucast (ucast (drop_bit 40 v) :: byte)) OR
   push_bit 32 (ucast (ucast (drop_bit 32 v) :: byte)) OR
   push_bit 24 (ucast (ucast (drop_bit 24 v) :: byte)) OR
   push_bit 16 (ucast (ucast (drop_bit 16 v) :: byte)) OR
   push_bit 8 (ucast (ucast (drop_bit 8 v) :: byte)) OR ucast (ucast v :: byte) = v"
  for v :: u64
  by (simp only: byte_of or.assoc byte_steps take_bit_64)

lemma split16_LE: "ucast (ucast v :: byte) OR push_bit 8 (ucast (ucast (drop_bit 8 v) :: byte)) = v"
  for v :: u16
  by (subst or.commute) (rule split16)

lemma split32_LE:
  "ucast (ucast v :: byte) OR push_bit 8 (ucast (ucast (drop_bit 8 v) :: byte)) OR
   push_bit 16 (ucast (ucast (drop_bit 16 v) :: byte)) OR
   push_bit 24 (ucast (ucast (drop_bit 24 v) :: byte)) = v"
  for v :: u32
  using split32 [of v] by (simp only: or.commute or.left_commute or.assoc)

lemma split64_LE:
  "ucast (ucast v :: byte) OR push_bit 8 (ucast (ucast (drop_bit 8 v) :: byte)) OR
   push_bit 16 (ucast (ucast (drop_bit 16 v) :: byte)) OR
   push_bit 24 (ucast (ucast (drop_bit 24 v) :: byte)) OR
   push_bit 32 (ucast (ucast (drop_bit 32 v) :: byte)) OR
   push_bit 40 (ucast (ucast (drop_bit 40 v) :: byte)) OR
   push_bit 48 (ucast (ucast (drop_bit 48 v) :: byte)) OR
   push_bit 56 (ucast (ucast (drop_bit 56 v) :: byte)) = v"
  for v :: u64
  using split64 [of v] by (simp only: or.commute or.left_commute or.assoc)

subsection \<open>Storing and fetching\<close>

lemmas st_simps = mem_simps bind_eq_Some_conv nth_list_update

lemma get2BE_set2BE: "set2BE m p v = Some m' \<Longrightarrow> get2BE m' p = Some v"
  by (auto simp: set2BE_def get2BE_def st_simps split16)

lemma get2LE_set2LE: "set2LE m p v = Some m' \<Longrightarrow> get2LE m' p = Some v"
  by (auto simp: set2LE_def get2LE_def st_simps split16_LE)

lemma get4BE_set4BE: "set4BE m p v = Some m' \<Longrightarrow> get4BE m' p = Some v"
  by (auto simp: set4BE_def get4BE_def st_simps split32 [unfolded or.assoc] or.assoc)

lemma get4LE_set4LE: "set4LE m p v = Some m' \<Longrightarrow> get4LE m' p = Some v"
  by (auto simp: set4LE_def get4LE_def st_simps split32_LE [unfolded or.assoc] or.assoc)

lemma get8BE_set8BE: "set8BE m p v = Some m' \<Longrightarrow> get8BE m' p = Some v"
  by (auto simp: set8BE_def get8BE_def st_simps split64 [unfolded or.assoc] or.assoc)

lemma get8LE_set8LE: "set8LE m p v = Some m' \<Longrightarrow> get8LE m' p = Some v"
  by (auto simp: set8LE_def get8LE_def st_simps split64_LE [unfolded or.assoc] or.assoc)

text \<open>A store writes exactly its bytes.\<close>

lemma set_frame:
  "set2BE m p v2 = Some m' \<Longrightarrow> length m' = length m \<and> (\<forall>j. j < p \<or> p + 2 \<le> j \<longrightarrow> m' ! j = m ! j)"
  "set2LE m p v2 = Some m' \<Longrightarrow> length m' = length m \<and> (\<forall>j. j < p \<or> p + 2 \<le> j \<longrightarrow> m' ! j = m ! j)"
  "set4BE m p v4 = Some m' \<Longrightarrow> length m' = length m \<and> (\<forall>j. j < p \<or> p + 4 \<le> j \<longrightarrow> m' ! j = m ! j)"
  "set4LE m p v4 = Some m' \<Longrightarrow> length m' = length m \<and> (\<forall>j. j < p \<or> p + 4 \<le> j \<longrightarrow> m' ! j = m ! j)"
  "set8BE m p v8 = Some m' \<Longrightarrow> length m' = length m \<and> (\<forall>j. j < p \<or> p + 8 \<le> j \<longrightarrow> m' ! j = m ! j)"
  "set8LE m p v8 = Some m' \<Longrightarrow> length m' = length m \<and> (\<forall>j. j < p \<or> p + 8 \<le> j \<longrightarrow> m' ! j = m ! j)"
  by (auto simp: set_defs st_simps)

lemma set4BE_defined: "set4BE m p v = None \<longleftrightarrow> length m < p + 4"
  by (auto simp: set4BE_def wr_def)

subsection \<open>Length-prefixed strings\<close>

lemma setUtf8String_read:
  assumes "setUtf8String m p str = Some m'" and "length str < 2 ^ 32"
  shows "readNewUtf8String m' p
           = Some (str @ [0], p + 4 + length str, of_nat (length str))"
proof -
  let ?n = "of_nat (length str) :: u32"
  have n: "unat ?n = length str"
    using assms(2) by (simp add: unat_of_nat take_bit_nat_eq_self)
  obtain m1 where m1: "set4BE m p ?n = Some m1" and m': "wr_slice m1 (p + 4) str = Some m'"
    using assms(1) by (auto simp: setUtf8String_def n bind_eq_Some_conv)
  have "get4BE m' p = get4BE m1 p"
    using m' set4BE_defined [of m p ?n] m1 set_frame(3) [OF m1]
    by (simp add: get4BE_def wr_slice_frame [OF m'] rd_def wr_slice_length [OF m'])
  then have g: "get4BE m' p = Some ?n" using get4BE_set4BE [OF m1] by simp
  have "(ucast ?n :: u64) = of_nat (length str)"
    using n by (metis of_nat_unat)
  then show ?thesis
    using g wr_slice_read [OF m']
    by (simp add: readNewUtf8String_def read4BE_def n)
qed

subsection \<open>Patch file integers\<close>

lemma ucast_and_ff: "(ucast (w AND 0xff) :: byte) = ucast w" for w :: "'a::len word"
proof -
  have "(0xff :: 'a word) = mask 8"
    by (simp add: mask_eq_exp_minus_1)
  then show ?thesis
    by (simp only: take_bit_eq_mask [symmetric]) (rule bit_word_eqI, auto simp: bit_simps)
qed

lemma sdrop_byte:
  "k + 8 \<le> LENGTH('a) \<Longrightarrow>
     (ucast (signed_drop_bit k v AND 0xff) :: byte) = ucast (drop_bit k v)"
  for v :: "'a::len word"
  unfolding ucast_and_ff
  by (rule bit_word_eqI) (auto simp: bit_simps bit_signed_drop_bit_iff min_def)

lemma sdrop_bytes32:
  "(ucast (signed_drop_bit 8 v AND 0xff) :: byte) = ucast (drop_bit 8 v)"
  "(ucast (signed_drop_bit 16 v AND 0xff) :: byte) = ucast (drop_bit 16 v)"
  "(ucast (signed_drop_bit 24 v AND 0xff) :: byte) = ucast (drop_bit 24 v)" for v :: u32
  by (simp_all add: sdrop_byte)

lemma sdrop_bytes64:
  "(ucast (signed_drop_bit 8 v AND 0xff) :: byte) = ucast (drop_bit 8 v)"
  "(ucast (signed_drop_bit 16 v AND 0xff) :: byte) = ucast (drop_bit 16 v)"
  "(ucast (signed_drop_bit 24 v AND 0xff) :: byte) = ucast (drop_bit 24 v)"
  "(ucast (signed_drop_bit 32 v AND 0xff) :: byte) = ucast (drop_bit 32 v)"
  "(ucast (signed_drop_bit 40 v AND 0xff) :: byte) = ucast (drop_bit 40 v)"
  "(ucast (signed_drop_bit 48 v AND 0xff) :: byte) = ucast (drop_bit 48 v)"
  "(ucast (signed_drop_bit 56 v AND 0xff) :: byte) = ucast (drop_bit 56 v)" for v :: u64
  by (simp_all add: sdrop_byte)

lemma rd_append: "rd (f @ xs) (length f + i) = rd xs i" "rd (f @ xs) (length f) = rd xs 0"
  by (auto simp: rd_def nth_append)

lemma Read4_Write4_eq: "Read4 (Write4 v f) (length f) = Some v"
  unfolding Read4_def Write4_def rd_append sdrop_bytes32
  unfolding ucast_and_ff
  by (simp add: rd_def split32)

lemma Read8_Write8_eq: "Read8 (Write8 v f) (length f) = Some v"
  unfolding Read8_def Write8_def rd_append sdrop_bytes64
  unfolding ucast_and_ff
  by (simp add: rd_def split64)

lemma Write4_length: "length (Write4 v f) = length f + 4" by (simp add: Write4_def)
lemma Write8_length: "length (Write8 v f) = length f + 8" by (simp add: Write8_def)

subsection \<open>The \<open>off_t\<close> codec\<close>

lemma and_7F: "uint (b AND 0x7F) = uint b mod 128" for b :: byte
proof -
  have e: "(0x7F :: byte) = mask 7" by (simp add: mask_eq_exp_minus_1)
  have "b AND 0x7F = take_bit 7 b" by (simp only: e take_bit_eq_mask)
  then have "uint (b AND 0x7F) = take_bit 7 (uint b)" by (simp only: unsigned_take_bit_eq)
  then show ?thesis by (simp only: take_bit_eq_mod) simp
qed

lemma bit_80: "bit (0x80 :: byte) n \<longleftrightarrow> n = 7"
proof -
  have e: "(0x80 :: byte) = push_bit 7 1" by (simp add: push_bit_eq_mult)
  show ?thesis by (simp only: e bit_push_bit_iff bit_1_iff) auto
qed

lemma bit_7: "bit b 7 \<longleftrightarrow> 128 \<le> uint b" for b :: byte
proof -
  have "bit b 7 \<longleftrightarrow> bit (uint b) 7" by (simp add: bit_uint_iff)
  also have "\<dots> \<longleftrightarrow> odd (uint b div 128)"
    by (simp add: bit_iff_odd)
  finally have 1: "bit b 7 \<longleftrightarrow> odd (uint b div 128)" .
  have "uint b < 256" "0 \<le> uint b" using uint_lt2p [of b] by auto
  then have "uint b div 128 = (if 128 \<le> uint b then 1 else 0)"
    by auto
  with 1 show ?thesis by simp
qed

lemma and_80: "b AND 0x80 \<noteq> 0 \<longleftrightarrow> 128 \<le> uint b" for b :: byte
proof -
  have "b AND 0x80 \<noteq> 0 \<longleftrightarrow> bit b 7"
  proof
    assume "bit b 7"
    then have "bit (b AND 0x80) 7" by (simp only: bit_and_iff bit_80)
    then show "b AND 0x80 \<noteq> 0" by auto
  next
    assume *: "b AND 0x80 \<noteq> 0"
    show "bit b 7"
    proof (rule ccontr)
      assume "\<not> bit b 7"
      then have "b AND 0x80 = 0"
        by (intro bit_word_eqI) (simp only: bit_and_iff bit_80, auto)
      with * show False by simp
    qed
  qed
  then show ?thesis by (simp only: bit_7)
qed

lemma or_80: "uint (b OR 0x80) mod 128 = uint b mod 128" "128 \<le> uint (b OR 0x80)" for b :: byte
proof -
  have "(0x7F :: byte) = mask 7" by (simp add: mask_eq_exp_minus_1)
  then have "bit (0x7F :: byte) n \<longleftrightarrow> n < 7" for n
    by (simp only: bit_mask_iff) auto
  then have "(b OR 0x80) AND 0x7F = b AND 0x7F"
    by (intro bit_word_eqI) (simp only: bit_and_iff bit_or_iff bit_80, auto)
  then show "uint (b OR 0x80) mod 128 = uint b mod 128" by (metis and_7F)
  show "128 \<le> uint (b OR 0x80)" by (simp only: bit_7 [symmetric] bit_or_iff bit_80) simp
qed

lemma word_byte: "uint (word_of_int y :: byte) = y mod 256"
  by (simp add: uint_word_of_int)

lemma digit_step:
  "(let b = y mod 256; y1 = y - b; y2 = y1 div 256 in f b y2) = f (y mod 256) (y div 256)"
  for y :: int
  by (simp add: minus_mod_eq_mult_div)

lemma horner: "y div 256 * 256 + y mod 256 = y" for y :: int
  by simp

lemma offtin_at:
  assumes "m = pre @ [b0, b1, b2, b3, b4, b5, b6, b7] @ post"
  shows "offtin m (length pre)
    = Some (let y = ((((((uint (b7 AND 0x7F) * 256 + uint b6) * 256 + uint b5) * 256 + uint b4)
                        * 256 + uint b3) * 256 + uint b2) * 256 + uint b1) * 256 + uint b0
            in if b7 AND 0x80 \<noteq> 0 then - y else y)"
proof -
  let ?bs = "[b0, b1, b2, b3, b4, b5, b6, b7]"
  have r: "rd m (length pre + i) = Some (?bs ! i)" if "i < 8" for i
    unfolding assms using that by (intro rd_mid) simp
  have "rd m (length pre) = Some b0" "rd m (length pre + 1) = Some b1"
    "rd m (length pre + 2) = Some b2" "rd m (length pre + 3) = Some b3"
    "rd m (length pre + 4) = Some b4" "rd m (length pre + 5) = Some b5"
    "rd m (length pre + 6) = Some b6" "rd m (length pre + 7) = Some b7"
    using r [of 0] r [of 1] r [of 2] r [of 3] r [of 4] r [of 5] r [of 6] r [of 7] by simp_all
  then show ?thesis unfolding offtin_def by (simp only: Let_def bind.bind_lunit)
qed

lemma offtout_offtin_eq:
  assumes "\<bar>x\<bar> < 2 ^ 63"
  shows "\<exists>bs. offtout x = Some bs \<and> length bs = 8 \<and>
           (\<forall>pre post. offtin (pre @ bs @ post) (length pre) = Some x)"
proof -
  define y where "y = \<bar>x\<bar>"
  define y1 where "y1 = y div 256"
  define y2 where "y2 = y1 div 256"
  define y3 where "y3 = y2 div 256"
  define y4 where "y4 = y3 div 256"
  define y5 where "y5 = y4 div 256"
  define y6 where "y6 = y5 div 256"
  define y7 where "y7 = y6 div 256"
  note ys = y1_def y2_def y3_def y4_def y5_def y6_def y7_def
  have y: "0 \<le> y" "y < 2 ^ 63" using assms by (auto simp: y_def)
  have st: "0 \<le> v div 256 \<and> v div 256 < k" if "0 \<le> v \<and> v < k * 256" for v k :: int
    using that by auto
  have "0 \<le> y \<and> y < 128 * 256 * 256 * 256 * 256 * 256 * 256 * 256" using y by simp
  then have "0 \<le> y7 \<and> y7 < 128"
    unfolding ys by (intro st)
  then have top: "0 \<le> y7" "y7 < 128" by simp_all
  let ?w = "word_of_int :: int \<Rightarrow> byte"
  define b7 where "b7 = (if x < 0 then ?w (y7 mod 256) OR 0x80 else ?w (y7 mod 256))"
  let ?bs = "[?w (y mod 256), ?w (y1 mod 256), ?w (y2 mod 256), ?w (y3 mod 256),
              ?w (y4 mod 256), ?w (y5 mod 256), ?w (y6 mod 256), b7]"
  have a: "(if x < 0 then - x else x) = y" by (simp add: y_def)
  have out: "offtout x = Some ?bs"
    using assms unfolding offtout_def a digit_step
    by (simp only: Let_def digit_step ys [symmetric] b7_def [symmetric]) auto
  have m7: "uint (b7 AND 0x7F) = y7"
    using top by (simp add: b7_def and_7F or_80(1) word_byte)
  have s7: "b7 AND 0x80 \<noteq> 0 \<longleftrightarrow> x < 0"
    using top or_80(2) by (simp add: b7_def and_80 word_byte)
  have "offtin (pre @ ?bs @ post) (length pre) = Some x" for pre post
  proof -
    have h: "y7 * 256 + y6 mod 256 = y6" "y6 * 256 + y5 mod 256 = y5"
      "y5 * 256 + y4 mod 256 = y4" "y4 * 256 + y3 mod 256 = y3" "y3 * 256 + y2 mod 256 = y2"
      "y2 * 256 + y1 mod 256 = y1" "y1 * 256 + y mod 256 = y"
      unfolding ys by (rule horner)+
    have "offtin (pre @ ?bs @ post) (length pre)
            = Some (if b7 AND 0x80 \<noteq> 0 then - y else y)"
      unfolding offtin_at [OF refl] word_byte m7 mod_mod_trivial h Let_def ..
    then show ?thesis unfolding s7 by (simp add: y_def)
  qed
  with out show ?thesis by auto
qed

subsection \<open>Properties\<close>

text \<open>
  Whatever \<open>set2BE\<close> ... \<open>set8LE\<close> store at a position, the matching \<open>get\<close> reads back; the store
  changes no byte outside its field and not the size of the buffer, and it stays inside the
  buffer exactly when the field fits.
\<close>

theorem bits_store_fetch:
  "p + 8 \<le> length m \<Longrightarrow>
     \<exists>m2 m2' m4 m4' m8 m8'.
       set2BE m p v2 = Some m2 \<and> get2BE m2 p = Some v2 \<and>
       set2LE m p v2 = Some m2' \<and> get2LE m2' p = Some v2 \<and>
       set4BE m p v4 = Some m4 \<and> get4BE m4 p = Some v4 \<and>
       set4LE m p v4 = Some m4' \<and> get4LE m4' p = Some v4 \<and>
       set8BE m p v8 = Some m8 \<and> get8BE m8 p = Some v8 \<and>
       set8LE m p v8 = Some m8' \<and> get8LE m8' p = Some v8 \<and>
       length m8 = length m \<and> length m8' = length m \<and>
       (\<forall>j. j < p \<or> p + 8 \<le> j \<longrightarrow> m8 ! j = m ! j \<and> m8' ! j = m ! j)"
proof -
  assume p: "p + 8 \<le> length m"
  have d: "set2BE m p v2 \<noteq> None" "set2LE m p v2 \<noteq> None" "set4BE m p v4 \<noteq> None"
    "set4LE m p v4 \<noteq> None" "set8BE m p v8 \<noteq> None" "set8LE m p v8 \<noteq> None"
    using p by (simp_all add: set_defs wr_def)
  then obtain m2 m2' m4 m4' m8 m8' where
    m: "set2BE m p v2 = Some m2" "set2LE m p v2 = Some m2'" "set4BE m p v4 = Some m4"
       "set4LE m p v4 = Some m4'" "set8BE m p v8 = Some m8" "set8LE m p v8 = Some m8'"
    by auto
  show ?thesis
    unfolding m
    using get2BE_set2BE [OF m(1)] get2LE_set2LE [OF m(2)] get4BE_set4BE [OF m(3)]
      get4LE_set4LE [OF m(4)] get8BE_set8BE [OF m(5)] get8LE_set8LE [OF m(6)]
      set_frame(5) [OF m(5)] set_frame(6) [OF m(6)]
    by simp
qed

theorem bits_store_fetch_witness:
  "\<exists>m8. set8BE [1,2,3,4,5,6,7,8,9] 1 0x0102030405060708 = Some m8 \<and>
        get8BE m8 1 = Some 0x0102030405060708 \<and> m8 ! 0 = 1"
  using bits_store_fetch [of 1 "[1,2,3,4,5,6,7,8,9]" 0 0 "0x0102030405060708"] by fastforce

text \<open>
  \<open>readNewUtf8String\<close> returns exactly the bytes \<open>setUtf8String\<close> wrote, NUL-terminated, with
  the position after them and their length, for every string shorter than \<open>2 ^ 32\<close>.
\<close>

theorem utf8_roundtrip:
  assumes "setUtf8String m p str = Some m'" and "length str < 2 ^ 32"
  shows "readNewUtf8String m' p = Some (str @ [0], p + 4 + length str, of_nat (length str))
         \<and> skipUtf8String m' p = Some (p + 4 + length str)"
proof -
  have r: "readNewUtf8String m' p = Some (str @ [0], p + 4 + length str, of_nat (length str))"
    by (rule setUtf8String_read [OF assms])
  then obtain len where "read4BE m' p = Some (len, p + 4)" "unat len = length str"
    by (auto simp: readNewUtf8String_def bind_eq_Some_conv read4BE_def)
  then show ?thesis using r by (simp add: skipUtf8String_def)
qed

theorem utf8_roundtrip_witness:
  "readNewUtf8String [9, 0, 0, 0, 2, 65, 66, 7] 1 = Some ([65, 66] @ [0], 1 + 4 + 2, 2)"
proof -
  have "setUtf8String [9, 1, 1, 1, 1, 1, 1, 7] 1 [65, 66] = Some [9, 0, 0, 0, 2, 65, 66, 7]"
    by (simp add: setUtf8String_def set4BE_def wr_def wr_slice_def)
  from utf8_roundtrip [OF this] show ?thesis by simp
qed

text \<open>
  A value that \<open>Write4\<close> or \<open>Write8\<close> appends to a patch file is the value \<open>Read4\<close> or \<open>Read8\<close>
  finds there, whatever precedes it, and the file grows by the width of the value.
\<close>

theorem patch_integer_roundtrip:
  "Read4 (Write4 v f) (length f) = Some v \<and> length (Write4 v f) = length f + 4 \<and>
   Read8 (Write8 w f) (length f) = Some w \<and> length (Write8 w f) = length f + 8"
  by (simp add: Read4_Write4_eq Read8_Write8_eq Write4_length Write8_length)

text \<open>
  C23: \<open>offtin\<close> inverts \<open>offtout\<close> on every \<open>off_t\<close> that \<open>offtout\<close> can encode (all but the smallest),
  wherever in the patch the eight bytes lie.
\<close>

theorem offt_roundtrip:
  assumes "\<bar>x\<bar> < 2 ^ 63"
  shows "\<exists>bs. offtout x = Some bs \<and> length bs = 8 \<and>
           (\<forall>pre post. offtin (pre @ bs @ post) (length pre) = Some x)"
  by (rule offtout_offtin_eq [OF assms])

theorem offt_roundtrip_witness:
  "\<exists>bs. offtout (- 258) = Some bs \<and> offtin ([1, 2] @ bs @ [3]) (length [1 :: byte, 2]) = Some (- 258)"
proof -
  obtain bs where "offtout (- 258) = Some bs"
    "\<forall>pre post. offtin (pre @ bs @ post) (length pre) = Some (- 258)"
    using offt_roundtrip [of "- 258"] by auto
  then show ?thesis by blast
qed

end
