(* ===== verification/HashTable.thy ===== *)
theory HashTable
  imports Prelude "HOL-Library.Multiset"
begin

text \<open>
  The open-addressing hash table of \<open>minzip/Hash.c\<close> and \<open>minzip/Hash.h\<close>.  A slot of the table
  is empty, a tombstone or holds an item; a table is the C structure with its array of entries.
  The array is allocated with \<open>sizeof(HashTable)\<close> (32 bytes) per slot although an entry takes 16,
  so it is twice as long as the table: the model keeps that slack.  The asserts of the code are
  part of it: a run that fails one aborts, which is \<open>None\<close>, as is a probe that never ends.

  The interface other components use is the locale \<open>item_index\<close>: a bag of items filed under a hash
  value, with a search and an insertion.  It is interpreted on the table at the end.
\<close>

subsection \<open>Sizes\<close>

definition LOAD_NUMER :: int where "LOAD_NUMER = 5"
definition LOAD_DENOM :: int where "LOAD_DENOM = 8"

definition mzHashSize :: "u64 \<Rightarrow> u64" where
  "mzHashSize size' = (size' * 8) div 5 + 1"

definition roundUpPower2 :: "u32 \<Rightarrow> u32" where
  "roundUpPower2 val =
     (let val = val - 1;
          val = val OR drop_bit 1 val;
          val = val OR drop_bit 2 val;
          val = val OR drop_bit 4 val;
          val = val OR drop_bit 8 val;
          val = val OR drop_bit 16 val
      in val + 1)"

subsection \<open>The table\<close>

datatype 'a slot = Null | Tombstone | Data 'a

record 'a hash_entry =
  hashValue :: u32
  data :: "'a slot"

record ('a, 's) hash_table =
  tableSize :: nat
  numEntries :: int
  numDeadEntries :: int
  pEntries :: "'a hash_entry list"
  freeFunc :: "('a \<Rightarrow> 's \<Rightarrow> 's) option"

definition calloc_entries :: "nat \<Rightarrow> 'a hash_entry list" where
  "calloc_entries n = replicate (n * 32 div 16) \<lparr>hashValue = 0, data = Null\<rparr>"

text \<open>
  \<open>mzHashTableCreate\<close>: the size is cut to an \<open>unsigned int\<close>, rounded up and stored in an \<open>int\<close>.
  A negative \<open>tableSize\<close> makes the \<open>calloc\<close> fail and the call return NULL.
\<close>

definition mzHashTableCreate ::
  "u64 \<Rightarrow> ('a \<Rightarrow> 's \<Rightarrow> 's) option \<Rightarrow> ('a, 's) hash_table option ub" where
  "mzHashTableCreate initialSize ff =
     (if initialSize = 0 then None
      else let size' = sint (roundUpPower2 (ucast initialSize))
           in if size' < 0 then Some None
              else Some (Some \<lparr>tableSize = nat size', numEntries = 0, numDeadEntries = 0,
                               pEntries = calloc_entries (nat size'), freeFunc = ff\<rparr>))"

fun clear_loop :: "('a \<Rightarrow> 's \<Rightarrow> 's) option \<Rightarrow> 'a hash_entry list \<Rightarrow> nat \<Rightarrow> nat \<Rightarrow> 's
                    \<Rightarrow> ('a hash_entry list \<times> 's) ub" where
  "clear_loop ff es i 0 s = Some (es, s)"
| "clear_loop ff es i (Suc n) s =
     do { e \<leftarrow> rd es i;
          case data e of
            Tombstone \<Rightarrow> clear_loop ff (es[i := e\<lparr>data := Null\<rparr>]) (i + 1) n s
          | Data x \<Rightarrow> clear_loop ff (es[i := e\<lparr>data := Null\<rparr>]) (i + 1) n
                        (case ff of None \<Rightarrow> s | Some f \<Rightarrow> f x s)
          | Null \<Rightarrow> clear_loop ff es (i + 1) n s }"

definition mzHashTableClear :: "('a, 's) hash_table \<Rightarrow> 's \<Rightarrow> (('a, 's) hash_table \<times> 's) ub" where
  "mzHashTableClear h s =
     do { (es, s') \<leftarrow> clear_loop (freeFunc h) (pEntries h) 0 (tableSize h) s;
          Some (h\<lparr>pEntries := es, numEntries := 0, numDeadEntries := 0\<rparr>, s') }"

definition mzHashTableFree :: "('a, 's) hash_table option \<Rightarrow> 's \<Rightarrow> 's ub" where
  "mzHashTableFree oh s =
     (case oh of None \<Rightarrow> Some s
      | Some h \<Rightarrow> do { (h', s') \<leftarrow> mzHashTableClear h s; Some s' })"

definition mzHashTableNumEntries :: "('a, 's) hash_table \<Rightarrow> int" where
  "mzHashTableNumEntries h = numEntries h"

definition mzHashTableMemUsage :: "('a, 's) hash_table \<Rightarrow> u64" where
  "mzHashTableMemUsage h = 32 + of_nat (tableSize h) * 16"

definition countTombStones :: "('a, 's) hash_table \<Rightarrow> int" where
  "countTombStones h =
     int (length (filter (\<lambda>e. data e = Tombstone) (take (tableSize h) (pEntries h))))"

subsection \<open>Resizing\<close>

partial_function (option) place_probe :: "'a hash_entry list \<Rightarrow> nat \<Rightarrow> nat \<Rightarrow> nat ub" where
  "place_probe es newSize newIdx =
     do { e \<leftarrow> rd es newIdx;
          if data e = Null then Some newIdx
          else place_probe es newSize ((newIdx + 1) AND (newSize - 1)) }"

definition home :: "u32 \<Rightarrow> nat \<Rightarrow> nat" where
  "home h n = unat (h AND (of_nat n - 1))"

fun resize_loop :: "'a hash_entry list \<Rightarrow> nat \<Rightarrow> 'a hash_entry list \<Rightarrow> 'a hash_entry list ub" where
  "resize_loop [] newSize new = Some new"
| "resize_loop (e # es) newSize new =
     (case data e of
        Data x \<Rightarrow>
          do { newIdx \<leftarrow> place_probe new newSize (home (hashValue e) newSize);
               resize_loop es newSize
                 (new[newIdx := \<lparr>hashValue = hashValue e, data = Data x\<rparr>]) }
      | _ \<Rightarrow> resize_loop es newSize new)"

definition resizeHash :: "('a, 's) hash_table \<Rightarrow> nat \<Rightarrow> ('a, 's) hash_table ub" where
  "resizeHash h newSize =
     (if countTombStones h \<noteq> numDeadEntries h then None
      else do { new \<leftarrow> resize_loop (take (tableSize h) (pEntries h)) newSize
                          (calloc_entries newSize);
                let h' = h\<lparr>pEntries := new, tableSize := newSize, numDeadEntries := 0\<rparr>;
                if countTombStones h' \<noteq> 0 then None else Some h' })"

subsection \<open>Probing\<close>

text \<open>
  The probe loop that \<open>mzHashTableLookup\<close>, \<open>mzHashTableRemove\<close> and \<open>countProbes\<close> share: it walks
  from slot \<open>i\<close>, wrapping around, to the first entry that is empty or that \<open>hit\<close> accepts, and
  counts its steps.  \<open>Edge\<close> is the break of the one-slot table, with the entry pointer at \<open>pEnd\<close>.
\<close>

datatype probe_end = Found nat | Vacant nat | Edge

partial_function (option) probe ::
  "('a hash_entry \<Rightarrow> bool) \<Rightarrow> 'a hash_entry list \<Rightarrow> nat \<Rightarrow> nat \<Rightarrow> nat \<Rightarrow> (probe_end \<times> nat) ub" where
  "probe hit es sz i cnt =
     do { e \<leftarrow> rd es i;
          if data e = Null then Some (Vacant i, cnt)
          else if hit e then Some (Found i, cnt)
          else if i + 1 = sz
               then (if sz = 1 then Some (Edge, cnt) else probe hit es sz 0 (cnt + 1))
               else probe hit es sz (i + 1) (cnt + 1) }"

text \<open>The match tests: the item is compared only when the stored hash value is equal.\<close>

definition lookup_hit :: "u32 \<Rightarrow> 'i \<Rightarrow> ('a \<Rightarrow> 'i \<Rightarrow> int) \<Rightarrow> 'a hash_entry \<Rightarrow> bool" where
  "lookup_hit itemHash item cmp e =
     (case data e of Data d \<Rightarrow> hashValue e = itemHash \<and> cmp d item = 0 | _ \<Rightarrow> False)"

definition pEntry_index :: "probe_end \<Rightarrow> nat \<Rightarrow> nat" where
  "pEntry_index r sz = (case r of Found i \<Rightarrow> i | Vacant i \<Rightarrow> i | Edge \<Rightarrow> sz)"

text \<open>
  The load test is computed in \<open>int\<close>: an overflow there is undefined.
\<close>

definition int_ok :: "int \<Rightarrow> bool" where
  "int_ok x \<longleftrightarrow> - (2 ^ 31) \<le> x \<and> x < 2 ^ 31"

definition too_full :: "('a, 's) hash_table \<Rightarrow> bool ub" where
  "too_full h =
     (let used = (numEntries h + numDeadEntries h) * LOAD_DENOM;
          limit = int (tableSize h) * LOAD_NUMER
      in if int_ok used \<and> int_ok limit then Some (used > limit) else None)"

text \<open>
  \<open>mzHashTableLookup\<close> returns the table and the \<open>data\<close> pointer it found or added (\<open>Null\<close>: no such
  item).  The loose item is a \<open>void*\<close> that need not have the type of the table's items:
  \<open>doAdd\<close> is \<open>None\<close> for \<open>false\<close>, and for \<open>true\<close> the cast that makes the loose item one of the table's.
\<close>

definition mzHashTableLookup ::
  "('a, 's) hash_table \<Rightarrow> u32 \<Rightarrow> 'i \<Rightarrow> ('a \<Rightarrow> 'i \<Rightarrow> int) \<Rightarrow> ('i \<Rightarrow> 'a) option
     \<Rightarrow> (('a, 's) hash_table \<times> 'a slot) ub" where
  "mzHashTableLookup h itemHash item cmp doAdd =
     (if tableSize h = 0 then None
      else do {
        (r, cnt) \<leftarrow> probe (lookup_hit itemHash item cmp) (pEntries h) (tableSize h)
                       (home itemHash (tableSize h)) 0;
        let i = pEntry_index r (tableSize h);
        e \<leftarrow> rd (pEntries h) i;
        if data e = Null
        then (case doAdd of
                Some cast \<Rightarrow> do {
                  let h1 = h\<lparr>pEntries := (pEntries h)[i := \<lparr>hashValue = itemHash,
                                                           data = Data (cast item)\<rparr>],
                             numEntries := numEntries h + 1\<rparr>;
                  big \<leftarrow> too_full h1;
                  h2 \<leftarrow> (if big then resizeHash h1 (tableSize h1 * 2) else Some h1);
                  if numEntries h2 < int (tableSize h2) then Some (h2, Data (cast item))
                  else None }
              | None \<Rightarrow> Some (h, Null))
        else Some (h, data e) })"

definition mzHashTableRemove ::
  "('a, 's) hash_table \<Rightarrow> u32 \<Rightarrow> 'a \<Rightarrow> (('a, 's) hash_table \<times> bool) ub" where
  "mzHashTableRemove h itemHash item =
     (if tableSize h = 0 then None
      else do {
        (r, cnt) \<leftarrow> probe (\<lambda>e. data e = Data item) (pEntries h) (tableSize h)
                       (home itemHash (tableSize h)) 0;
        case r of
          Found i \<Rightarrow>
            Some (h\<lparr>pEntries := (pEntries h)[i := (pEntries h ! i)\<lparr>data := Tombstone\<rparr>],
                    numEntries := numEntries h - 1,
                    numDeadEntries := numDeadEntries h + 1\<rparr>, True)
        | _ \<Rightarrow> Some (h, False) })"

fun foreach_loop :: "('a \<Rightarrow> 'arg \<Rightarrow> int \<times> 'arg) \<Rightarrow> 'a hash_entry list \<Rightarrow> 'arg \<Rightarrow> int \<times> 'arg" where
  "foreach_loop f [] arg = (0, arg)"
| "foreach_loop f (e # es) arg =
     (case data e of
        Data x \<Rightarrow> (let (val, arg') = f x arg
                  in if val \<noteq> 0 then (val, arg') else foreach_loop f es arg')
      | _ \<Rightarrow> foreach_loop f es arg)"

definition mzHashForeach ::
  "('a, 's) hash_table \<Rightarrow> ('a \<Rightarrow> 'arg \<Rightarrow> int \<times> 'arg) \<Rightarrow> 'arg \<Rightarrow> int \<times> 'arg" where
  "mzHashForeach h f arg = foreach_loop f (take (tableSize h) (pEntries h)) arg"

definition countProbes :: "('a, 's) hash_table \<Rightarrow> u32 \<Rightarrow> 'a \<Rightarrow> ('a \<Rightarrow> 'a \<Rightarrow> int) \<Rightarrow> int ub" where
  "countProbes h itemHash item cmp =
     (if tableSize h = 0 then None
      else do {
        (r, cnt) \<leftarrow> probe (lookup_hit itemHash item cmp) (pEntries h) (tableSize h)
                       (home itemHash (tableSize h)) 0;
        e \<leftarrow> rd (pEntries h) (pEntry_index r (tableSize h));
        Some (if data e = Null then - 1 else int cnt) })"

subsection \<open>Iterators\<close>

text \<open>
  A \<open>HashIter\<close> is the index \<open>idx\<close> into the table it walks; its \<open>data\<close> member is never used.
\<close>

function iter_scan :: "'a hash_entry list \<Rightarrow> nat \<Rightarrow> nat \<Rightarrow> nat ub" where
  "iter_scan es i lim =
     (if i < lim
      then do { e \<leftarrow> rd es i;
                case data e of Data x \<Rightarrow> Some i | _ \<Rightarrow> iter_scan es (i + 1) lim }
      else Some i)"
  by pat_completeness auto
termination by (relation "measure (\<lambda>(es, i, lim). lim - i)") auto

definition mzHashIterNext :: "('a, 's) hash_table \<Rightarrow> int \<Rightarrow> int ub" where
  "mzHashIterNext h idx =
     do { i \<leftarrow> iter_scan (pEntries h) (nat (idx + 1)) (tableSize h); Some (int i) }"

definition mzHashIterBegin :: "('a, 's) hash_table \<Rightarrow> int ub" where
  "mzHashIterBegin h = mzHashIterNext h (- 1)"

definition mzHashIterDone :: "('a, 's) hash_table \<Rightarrow> int \<Rightarrow> bool" where
  "mzHashIterDone h idx \<longleftrightarrow> idx \<ge> int (tableSize h)"

definition mzHashIterData :: "('a, 's) hash_table \<Rightarrow> int \<Rightarrow> 'a slot ub" where
  "mzHashIterData h idx =
     (if 0 \<le> idx \<and> idx < int (tableSize h)
      then do { e \<leftarrow> rd (pEntries h) (nat idx); Some (data e) } else None)"

text \<open>
  \<open>mzHashTableProbeCount\<close>: the walk over the table with the figures it logs, as
  \<open>(minProbe, maxProbe, totalProbe, numEntries)\<close>.
\<close>

function probe_count_loop ::
  "('a, 's) hash_table \<Rightarrow> ('a \<Rightarrow> u32) \<Rightarrow> ('a \<Rightarrow> 'a \<Rightarrow> int) \<Rightarrow> int
     \<Rightarrow> int \<times> int \<times> int \<times> int \<Rightarrow> (int \<times> int \<times> int \<times> int) ub" where
  "probe_count_loop h calc cmp idx (mn, mx, tot, n) =
     (if mzHashIterDone h idx \<or> idx < 0 then Some (mn, mx, tot, n)
      else do {
        d \<leftarrow> mzHashIterData h idx;
        case d of
          Data x \<Rightarrow> do {
            count \<leftarrow> countProbes h (calc x) x cmp;
            idx' \<leftarrow> mzHashIterNext h idx;
            if idx' \<le> idx then None
            else probe_count_loop h calc cmp idx'
                   (min mn count, max mx count, tot + count, n + 1) }
        | _ \<Rightarrow> None })"
  by pat_completeness auto
termination
  by (relation "measure (\<lambda>(h, calc, cmp, idx, acc). nat (int (tableSize h) - idx))")
     (auto simp: mzHashIterDone_def)

definition mzHashTableProbeCount ::
  "('a, 's) hash_table \<Rightarrow> ('a \<Rightarrow> u32) \<Rightarrow> ('a \<Rightarrow> 'a \<Rightarrow> int) \<Rightarrow> (int \<times> int \<times> int \<times> int) ub" where
  "mzHashTableProbeCount h calc cmp =
     do { idx \<leftarrow> mzHashIterBegin h;
          probe_count_loop h calc cmp idx (65536 * 32767, 0, 0, 0) }"

subsection \<open>The size of a table\<close>

declare iter_scan.simps [simp del]
declare probe.simps [code] place_probe.simps [code]

definition smeared :: "u32 \<Rightarrow> u32 \<Rightarrow> nat \<Rightarrow> bool" where
  "smeared w v k \<longleftrightarrow> (\<forall>n. bit v n \<longleftrightarrow> (\<exists>m. n \<le> m \<and> m < n + k \<and> bit w m))"

lemma smeared_step: "smeared w v k \<Longrightarrow> smeared w (v OR drop_bit k v) (k + k)"
  unfolding smeared_def
proof (intro allI)
  fix n
  assume a: "\<forall>n. bit v n \<longleftrightarrow> (\<exists>m. n \<le> m \<and> m < n + k \<and> bit w m)"
  have "bit (v OR drop_bit k v) n \<longleftrightarrow> bit v n \<or> bit v (k + n)"
    by (simp add: bit_or_iff bit_drop_bit_eq)
  also have "\<dots> \<longleftrightarrow> (\<exists>m. n \<le> m \<and> m < n + k \<and> bit w m) \<or> (\<exists>m. k + n \<le> m \<and> m < k + n + k \<and> bit w m)"
    by (simp only: a [rule_format, of n] a [rule_format, of "k + n"])
  also have "\<dots> \<longleftrightarrow> (\<exists>m. (n \<le> m \<and> m < n + k \<or> k + n \<le> m \<and> m < k + n + k) \<and> bit w m)"
    by blast
  also have "(\<lambda>m. n \<le> m \<and> m < n + k \<or> k + n \<le> m \<and> m < k + n + k)
      = (\<lambda>m. n \<le> m \<and> m < n + (k + k))" by (rule ext) arith
  finally show "bit (v OR drop_bit k v) n \<longleftrightarrow> (\<exists>m. n \<le> m \<and> m < n + (k + k) \<and> bit w m)" 
    by (simp add: fun_eq_iff conj_assoc)
qed

lemma smeared_0: "smeared w w 1"
  unfolding smeared_def using le_neq_implies_less by fastforce

definition smear32 :: "u32 \<Rightarrow> u32" where
  "smear32 v = (let v = v OR drop_bit 1 v; v = v OR drop_bit 2 v; v = v OR drop_bit 4 v;
     v = v OR drop_bit 8 v in v OR drop_bit 16 v)"

lemma smear32_bit: "bit (smear32 w) n \<longleftrightarrow> (\<exists>m\<ge>n. bit w m)"
proof -
  have st: "smeared w (v OR drop_bit k v) k2" if "smeared w v k" "k + k = k2" for v k k2
    using smeared_step [OF that(1)] that(2) by simp
  have "smeared w (smear32 w) 32"
    unfolding smear32_def Let_def
    by (rule st, rule st, rule st, rule st, rule st, rule smeared_0) simp_all
  then have "bit (smear32 w) n \<longleftrightarrow> (\<exists>m. n \<le> m \<and> m < n + 32 \<and> bit w m)"
    by (simp add: smeared_def)
  moreover have "bit w m \<Longrightarrow> m < 32" for m
    using bit_imp_le_length [of w m] by simp
  ultimately show ?thesis by (meson trans_less_add2)
qed
lemma roundUpPower2_smear: "roundUpPower2 v = smear32 (v - 1) + 1"
  by (simp add: roundUpPower2_def smear32_def Let_def)

lemma smear32_mask:
  assumes "w \<noteq> 0"
  shows "\<exists>L<32. bit w L \<and> smear32 w = mask (Suc L)"
proof -
  obtain b where "bit w b" using assms by (auto simp: bit_eq_iff)
  have le: "bit w m \<Longrightarrow> m < 32" for m
    using bit_imp_le_length [of w m] by simp
  define L where "L = (GREATEST m. bit w m)"
  have L: "bit w L" unfolding L_def
    by (rule GreatestI_nat [of _ b 32]) (use \<open>bit w b\<close> le less_imp_le in auto)
  have top: "bit w m \<Longrightarrow> m \<le> L" for m unfolding L_def
    by (rule Greatest_le_nat [of _ _ 32]) (use le less_imp_le in auto)
  have "smear32 w = mask (Suc L)"
    by (rule bit_word_eqI) (auto simp: smear32_bit bit_mask_iff less_Suc_eq_le L dest: top intro: L)
  then show ?thesis using L le by blast
qed

lemma bit_le: "bit w L \<Longrightarrow> 2 ^ L \<le> unat w" for w :: "'a::len word"
proof -
  assume "bit w L"
  then have "bit (unat w) L" by (simp add: bit_unsigned_iff)
  then have "odd (unat w div 2 ^ L)" by (simp add: bit_iff_odd)
  then have "unat w div 2 ^ L \<noteq> 0" by (metis even_zero)
  then show ?thesis by (simp add: div_eq_0_iff)
qed

lemma roundUpPower2_eq:
  assumes "1 < unat v" "unat v \<le> 2 ^ 31"
  shows "\<exists>k<32. unat (roundUpPower2 v) = 2 ^ k \<and> unat v \<le> 2 ^ k \<and> 2 ^ k < 2 * unat v"
proof -
  define w where "w = v - 1"
  have w: "unat w = unat v - 1"
    unfolding w_def by (rule unat_minus_one) (use assms in auto)
  then have "w \<noteq> 0" using assms by auto
  then obtain L where L: "L < 32" "bit w L" "smear32 w = mask (Suc L)"
    using smear32_mask by blast
  have lo: "2 ^ L \<le> unat w" using L bit_le by blast
  have "(2::nat) ^ L < 2 ^ 31" using lo w assms by linarith
  then have "L < 31" by (simp only: power_strict_increasing_iff)
  have hi: "unat w < 2 ^ Suc L"
  proof (rule ccontr)
    assume n: "\<not> ?thesis"
    have "bit w m \<Longrightarrow> m < Suc L" for m
      using smear32_bit [of w m] by (auto simp: L(3) bit_mask_iff)
    then have "take_bit (Suc L) w = w"
      by (intro bit_word_eqI) (auto simp: bit_take_bit_iff)
    then show False using n by (metis take_bit_nat_less_exp unsigned_take_bit_eq)
  qed
  have "unat (roundUpPower2 v) = 2 ^ Suc L"
  proof -
    have "roundUpPower2 v = 2 ^ Suc L"
      by (simp add: roundUpPower2_smear w_def [symmetric] L(3) mask_eq_exp_minus_1)
    also have "\<dots> = of_nat (2 ^ Suc L)" by simp
    finally have r: "unat (roundUpPower2 v) = take_bit 32 (2 ^ Suc L)"
      by (simp only: unsigned_of_nat) simp
    have "(2::nat) ^ Suc L < 2 ^ 32"
      using \<open>L < 31\<close> by (intro power_strict_increasing) auto
    with r show ?thesis by (simp only: take_bit_nat_eq_self)
  qed
  then show ?thesis using lo hi w \<open>L < 31\<close> assms by (intro exI [of _ "Suc L"]) auto
qed

subsection \<open>Contents and invariant\<close>

definition live_of :: "'a hash_entry \<Rightarrow> (u32 \<times> 'a) option" where
  "live_of e = (case data e of Data x \<Rightarrow> Some (hashValue e, x) | _ \<Rightarrow> None)"

definition lives :: "'a hash_entry list \<Rightarrow> (u32 \<times> 'a) list" where
  "lives es = List.map_filter live_of es"

definition contents :: "('a, 's) hash_table \<Rightarrow> (u32 \<times> 'a) multiset" where
  "contents h = mset (lives (take (tableSize h) (pEntries h)))"

definition tombs :: "'a hash_entry list \<Rightarrow> nat" where
  "tombs es = length (filter (\<lambda>e. data e = Tombstone) es)"

definition reaches :: "'a hash_entry list \<Rightarrow> nat \<Rightarrow> bool" where
  "reaches es n \<longleftrightarrow>
     (\<forall>i<n. \<forall>x. data (es ! i) = Data x \<longrightarrow>
        (\<exists>c. i = (home (hashValue (es ! i)) n + c) mod n \<and>
             (\<forall>j<c. data (es ! ((home (hashValue (es ! i)) n + j) mod n)) \<noteq> Null)))"

definition pow2 :: "nat \<Rightarrow> bool" where "pow2 n \<longleftrightarrow> (\<exists>k<31. n = 2 ^ k)"

definition slots_ok :: "'a hash_entry list \<Rightarrow> nat \<Rightarrow> bool" where
  "slots_ok es n \<longleftrightarrow> pow2 n \<and> length es = 2 * n \<and> (\<forall>e\<in>set (drop n es). data e = Null) \<and> reaches es n"

definition table_ok :: "('a, 's) hash_table \<Rightarrow> bool" where
  "table_ok h \<longleftrightarrow>
     (let n = tableSize h; es = pEntries h
      in slots_ok es n \<and>
         numEntries h = int (length (lives (take n es))) \<and>
         numDeadEntries h = int (tombs (take n es)) \<and>
         (numEntries h + numDeadEntries h) * LOAD_DENOM \<le> int n * LOAD_NUMER)"

lemma lives_simps [simp]:
  "lives [] = []"
  "lives (e # es) = (case live_of e of None \<Rightarrow> lives es | Some p \<Rightarrow> p # lives es)"
  "lives (xs @ ys) = lives xs @ lives ys"
  by (auto simp: lives_def map_filter_simps map_filter_def split: option.splits)

lemma tombs_simps [simp]:
  "tombs [] = 0"
  "tombs (e # es) = (if data e = Tombstone then Suc (tombs es) else tombs es)"
  "tombs (xs @ ys) = tombs xs + tombs ys"
  by (auto simp: tombs_def)

lemma live_of_simps [simp]:
  "data e = Null \<Longrightarrow> live_of e = None"
  "data e = Tombstone \<Longrightarrow> live_of e = None"
  "data e = Data x \<Longrightarrow> live_of e = Some (hashValue e, x)"
  by (auto simp: live_of_def)

lemma split_at: "i < length es \<Longrightarrow> es = take i es @ es ! i # drop (Suc i) es"
  by (simp add: id_take_nth_drop)

lemma lives_update:
  assumes "i < length es"
  shows "mset (lives (es[i := e])) + mset (case live_of (es ! i) of None \<Rightarrow> [] | Some p \<Rightarrow> [p])
         = mset (lives es) + mset (case live_of e of None \<Rightarrow> [] | Some p \<Rightarrow> [p])"
  by (subst (2) split_at [OF assms], subst upd_conv_take_nth_drop [OF assms])
     (simp split: option.splits)

lemma tombs_update:
  assumes "i < length es"
  shows "tombs (es[i := e]) + (if data (es ! i) = Tombstone then 1 else 0)
         = tombs es + (if data e = Tombstone then 1 else 0)"
  by (subst (2) split_at [OF assms], subst upd_conv_take_nth_drop [OF assms]) simp

lemma count_slots: "length (lives es) + tombs es \<le> length es"
  by (induction es) (auto simp: live_of_def split: slot.splits)

lemma full_no_null: "(\<forall>e\<in>set es. data e \<noteq> Null) \<Longrightarrow> length (lives es) + tombs es = length es"
  by (induction es) (auto simp: live_of_def split: slot.splits)

lemma null_slot:
  assumes "length (lives (take n es)) + tombs (take n es) < n" "n \<le> length es"
  shows "\<exists>i<n. data (es ! i) = Null"
proof (rule ccontr)
  assume "\<not> ?thesis"
  then have "\<forall>e\<in>set (take n es). data e \<noteq> Null"
    using assms(2) by (auto simp: in_set_conv_nth)
  from full_no_null [OF this] assms show False by simp
qed

lemma live_of_Some: "live_of e = Some (k, x) \<longleftrightarrow> data e = Data x \<and> hashValue e = k"
  by (auto simp: live_of_def split: slot.splits)

lemma lives_set: "p \<in> set (lives es) \<longleftrightarrow> (\<exists>e\<in>set es. live_of e = Some p)"
  by (induction es) (auto split: option.splits)

lemma lives_mem: "(k, x) \<in> set (lives es) \<longleftrightarrow> (\<exists>i<length es. data (es ! i) = Data x \<and> hashValue (es ! i) = k)"
proof -
  have "(k, x) \<in> set (lives es) \<longleftrightarrow> (\<exists>e\<in>set es. data e = Data x \<and> hashValue e = k)"
    by (simp only: lives_set live_of_Some)
  then show ?thesis by (metis in_set_conv_nth)
qed

lemma contents_mem:
  "table_ok h \<Longrightarrow> (k, x) \<in># contents h \<longleftrightarrow>
     (\<exists>i<tableSize h. data (pEntries h ! i) = Data x \<and> hashValue (pEntries h ! i) = k)"
  by (auto simp: contents_def lives_mem table_ok_def slots_ok_def Let_def)

subsection \<open>Probing ends at the first empty or matching slot\<close>

lemma home_mod: "pow2 n \<Longrightarrow> home h n = unat h mod n"
proof -
  assume "pow2 n"
  then obtain k where n: "n = 2 ^ k" by (auto simp: pow2_def)
  have "of_nat n - 1 = (mask k :: u32)" by (simp add: n mask_eq_exp_minus_1)
  then have "home h n = unat (take_bit k h)"
    by (simp only: home_def take_bit_eq_mask)
  also have "\<dots> = unat h mod n"
    by (simp only: unsigned_take_bit_eq take_bit_eq_mod [where 'a = nat] n)
  finally show ?thesis .
qed

lemma pow2_pos: "pow2 n \<Longrightarrow> 0 < n" by (auto simp: pow2_def)

lemma home_less: "pow2 n \<Longrightarrow> home h n < n"
  by (simp add: home_mod pow2_pos)

lemma pow2_and: "pow2 n \<Longrightarrow> i AND (n - 1) = i mod n" for i :: nat
  by (auto simp: pow2_def take_bit_eq_mod [symmetric] take_bit_eq_mask mask_eq_exp_minus_1)

lemma probe_walk:
  assumes "\<forall>j<c. data (es ! ((s + j) mod n)) \<noteq> Null \<and> \<not> hit (es ! ((s + j) mod n))"
    and "n \<le> length es" "s < n" "n = 1 \<longrightarrow> c = 0"
  shows "probe hit es n s cnt = probe hit es n ((s + c) mod n) (cnt + c)"
  using assms(1,4)
proof (induction c)
  case 0
  then show ?case using assms(3) by simp
next
  case (Suc c)
  let ?i = "(s + c) mod n"
  have i: "?i < n" "rd es ?i = Some (es ! ?i)"
  proof -
    show *: "?i < n" using assms(3) by simp
    show "rd es ?i = Some (es ! ?i)" using less_le_trans [OF * assms(2)] by (simp add: rd_def)
  qed
  have "probe hit es n s cnt = probe hit es n ?i (cnt + c)" using Suc by simp
  also have "\<dots> = probe hit es n (if ?i + 1 = n then 0 else ?i + 1) (cnt + c + 1)"
    using Suc.prems by (subst probe.simps) (simp add: i)
  also have "(if ?i + 1 = n then 0 else ?i + 1) = (s + Suc c) mod n"
    by (simp add: mod_Suc)
  finally show ?case by simp
qed

lemma cyclic_reach: "i < n \<Longrightarrow> s < n \<Longrightarrow> \<exists>c<n. (s + c) mod n = i" for i :: nat
  by (rule exI [of _ "(i + n - s) mod n"]) (simp add: mod_add_right_eq)

lemma probe_ends:
  assumes "n \<le> length es" "s < n" "\<exists>i<n. data (es ! i) = Null"
  obtains c where "c < n"
    "\<forall>j<c. data (es ! ((s + j) mod n)) \<noteq> Null \<and> \<not> hit (es ! ((s + j) mod n))"
    "data (es ! ((s + c) mod n)) = Null \<or> hit (es ! ((s + c) mod n))"
    "probe hit es n s cnt =
       Some (if data (es ! ((s + c) mod n)) = Null then Vacant ((s + c) mod n)
             else Found ((s + c) mod n), cnt + c)"
proof -
  let ?stop = "\<lambda>c. data (es ! ((s + c) mod n)) = Null \<or> hit (es ! ((s + c) mod n))"
  obtain i where "i < n" "data (es ! i) = Null" using assms(3) by blast
  then obtain c0 where c0: "c0 < n" "?stop c0" using cyclic_reach [of i n s] assms(2) by auto
  define c where "c = (LEAST c. ?stop c)"
  have c: "?stop c" "c \<le> c0" "\<forall>j<c. \<not> ?stop j"
    unfolding c_def using LeastI [of ?stop, OF c0(2)] Least_le [of ?stop, OF c0(2)]
      not_less_Least [of _ ?stop] by blast+
  have n1: "n = 1 \<longrightarrow> c = 0" using c(2) c0(1) by simp
  have i: "(s + c) mod n < n" using assms(2) by simp
  have "probe hit es n s cnt = probe hit es n ((s + c) mod n) (cnt + c)"
    by (rule probe_walk) (use c(3) n1 assms in auto)
  also have "\<dots> = Some (if data (es ! ((s + c) mod n)) = Null then Vacant ((s + c) mod n)
             else Found ((s + c) mod n), cnt + c)"
    using c(1) i assms(1) by (subst probe.simps) (auto simp: rd_def)
  finally show thesis using that [of c] c c0(1) by auto
qed

lemma place_walk:
  assumes "\<forall>j<c. data (es ! ((s + j) mod n)) \<noteq> Null" "n \<le> length es" "s < n" "pow2 n"
  shows "place_probe es n s = place_probe es n ((s + c) mod n)"
  using assms(1)
proof (induction c)
  case 0
  then show ?case using assms(3) by simp
next
  case (Suc c)
  let ?i = "(s + c) mod n"
  have i: "?i < n" using assms(3) by simp
  have "rd es ?i = Some (es ! ?i)" using less_le_trans [OF i assms(2)] by (simp add: rd_def)
  then have "place_probe es n ?i = place_probe es n ((?i + 1) AND (n - 1))"
    using Suc.prems by (subst place_probe.simps) simp
  moreover have "(?i + 1) AND (n - 1) = (s + Suc c) mod n"
    by (simp only: pow2_and [OF assms(4)]) (simp add: mod_Suc_eq)
  ultimately show ?case using Suc by simp
qed

lemma place_ends:
  assumes "n \<le> length es" "s < n" "pow2 n" "\<exists>i<n. data (es ! i) = Null"
  obtains c where "\<forall>j<c. data (es ! ((s + j) mod n)) \<noteq> Null"
    "data (es ! ((s + c) mod n)) = Null" "place_probe es n s = Some ((s + c) mod n)"
proof -
  let ?stop = "\<lambda>c. data (es ! ((s + c) mod n)) = Null"
  obtain i where "i < n" "data (es ! i) = Null" using assms(4) by blast
  then obtain c0 where c0: "c0 < n" "?stop c0" using cyclic_reach [of i n s] assms(2) by auto
  define c where "c = (LEAST c. ?stop c)"
  have c: "?stop c" "\<forall>j<c. \<not> ?stop j"
    unfolding c_def using LeastI [of ?stop, OF c0(2)] not_less_Least [of _ ?stop] by blast+
  have i: "(s + c) mod n < n" using assms(2) by simp
  have "place_probe es n s = place_probe es n ((s + c) mod n)"
    by (rule place_walk) (use c assms in auto)
  also have "\<dots> = Some ((s + c) mod n)"
    using c(1) less_le_trans [OF i assms(1)] by (subst place_probe.simps) (simp add: rd_def)
  finally show thesis using that [of c] c by auto
qed

subsection \<open>Storing an item in the first empty slot of its chain\<close>

lemma store_reaches:
  assumes "reaches es n" "n \<le> length es" "i < n" "i = (home (hashValue e) n + c) mod n"
    "\<forall>j<c. data (es ! ((home (hashValue e) n + j) mod n)) \<noteq> Null"
    "data (es ! i) = Null" "data e \<noteq> Null"
  shows "reaches (es[i := e]) n"
  unfolding reaches_def
proof (intro allI impI)
  fix i' x
  assume i': "i' < n" and d: "data (es[i := e] ! i') = Data x"
  have keep: "data (es[i := e] ! m) \<noteq> Null" if "data (es ! m) \<noteq> Null" for m
    using that assms(6,7) by (cases "m = i") (use assms(2,3) in auto)
  show "\<exists>c. i' = (home (hashValue (es[i := e] ! i')) n + c) mod n \<and>
      (\<forall>j<c. data (es[i := e] ! ((home (hashValue (es[i := e] ! i')) n + j) mod n)) \<noteq> Null)"
  proof (cases "i' = i")
    case True
    then have "es[i := e] ! i' = e" using assms(2,3) by simp
    then show ?thesis using assms(4,5) keep True by auto
  next
    case False
    then have "es[i := e] ! i' = es ! i'" by simp
    then show ?thesis using assms(1) d i' keep unfolding reaches_def by fastforce
  qed
qed

lemma pre_update: "take n (es[i := e]) = (take n es)[i := e]" by (rule take_update_swap)

lemma store_slots:
  assumes "slots_ok es n" "i < n" "reaches (es[i := e]) n"
  shows "slots_ok (es[i := e]) n"
  using assms by (auto simp: slots_ok_def drop_update_cancel)

lemma store_lives:
  assumes "i < n" "n \<le> length es" "data (es ! i) = Null" "data e = Data x"
  shows "mset (lives (take n (es[i := e]))) = add_mset (hashValue e, x) (mset (lives (take n es)))"
    "tombs (take n (es[i := e])) = tombs (take n es)"
proof -
  have i: "i < length (take n es)" using assms by simp
  show "mset (lives (take n (es[i := e]))) = add_mset (hashValue e, x) (mset (lives (take n es)))"
    using lives_update [OF i, of e] assms by (simp add: pre_update)
  show "tombs (take n (es[i := e])) = tombs (take n es)"
    using tombs_update [OF i, of e] assms by (simp add: pre_update)
qed

lemma lives_len: "length (lives es) = size (mset (lives es))" by simp

lemma resize_loop_ok:
  assumes "slots_ok new n" "tombs (take n new) = 0"
    "length (lives (take n new)) + length (lives es) < n"
  shows "\<exists>new'. resize_loop es n new = Some new' \<and> slots_ok new' n \<and> tombs (take n new') = 0 \<and>
           mset (lives (take n new')) = mset (lives (take n new)) + mset (lives es)"
  using assms
proof (induction es arbitrary: new)
  case (Cons e es)
  show ?case
  proof (cases "data e")
    case (Data x)
    have n: "n \<le> length new" "pow2 n" "reaches new n"
      using Cons.prems(1) by (auto simp: slots_ok_def)
    have "\<exists>i<n. data (new ! i) = Null"
      by (rule null_slot) (use Cons.prems n in auto)
    then obtain c where c: "\<forall>j<c. data (new ! ((home (hashValue e) n + j) mod n)) \<noteq> Null"
      "data (new ! ((home (hashValue e) n + c) mod n)) = Null"
      "place_probe new n (home (hashValue e) n) = Some ((home (hashValue e) n + c) mod n)"
      by (rule place_ends [OF n(1) home_less [OF n(2)] n(2)])
    let ?i = "(home (hashValue e) n + c) mod n"
    let ?e = "\<lparr>hashValue = hashValue e, data = Data x\<rparr>"
    have i: "?i < n" using pow2_pos [OF n(2)] by simp
    have ok: "slots_ok (new[?i := ?e]) n"
      by (rule store_slots [OF Cons.prems(1) i], rule store_reaches [where c = c])
         (use n i c in auto)
    note st = store_lives [of ?i n new ?e x, OF i n(1) c(2)]
    have len: "length (lives (take n (new[?i := ?e]))) = Suc (length (lives (take n new)))"
      using arg_cong [OF st(1), of size] by simp
    have "\<exists>new'. resize_loop es n (new[?i := ?e]) = Some new' \<and> slots_ok new' n \<and>
        tombs (take n new') = 0 \<and>
        mset (lives (take n new')) = mset (lives (take n (new[?i := ?e]))) + mset (lives es)"
      by (rule Cons.IH [OF ok]) (use st(2) len Cons.prems Data in simp_all)
    then show ?thesis using Data c(3) st(1) by simp
  qed (use Cons in simp_all)
qed simp

lemma calloc_ok:
  assumes "pow2 n"
  shows "slots_ok (calloc_entries n) n" "tombs (take n (calloc_entries n)) = 0"
    "lives (take n (calloc_entries n)) = []"
proof -
  have l: "lives (replicate m \<lparr>hashValue = 0, data = Null\<rparr>) = []" for m
    by (induction m) auto
  have t: "tombs (replicate m \<lparr>hashValue = 0, data = Null\<rparr>) = 0" for m
    by (induction m) auto
  have *: "n * 32 div 16 = 2 * n" by simp
  show "slots_ok (calloc_entries n) n"
    using assms unfolding slots_ok_def calloc_entries_def * reaches_def
    by (auto simp: pow2_pos)
  show "tombs (take n (calloc_entries n)) = 0" "lives (take n (calloc_entries n)) = []"
    by (simp_all add: calloc_entries_def l t)
qed

subsection \<open>The operations\<close>

definition room :: "('a, 's) hash_table \<Rightarrow> nat \<Rightarrow> bool" where
  "room h n \<longleftrightarrow> tableSize h \<le> 2 ^ 28 \<and>
     (numEntries h + numDeadEntries h + int n) * 8 \<le> 5 * 2 ^ 28"

lemma table_okD:
  assumes "table_ok h"
  shows "pow2 (tableSize h)" "0 < tableSize h" "tableSize h \<le> length (pEntries h)"
    "reaches (pEntries h) (tableSize h)" "slots_ok (pEntries h) (tableSize h)"
    "numEntries h = int (length (lives (take (tableSize h) (pEntries h))))"
    "numDeadEntries h = int (tombs (take (tableSize h) (pEntries h)))"
    "(numEntries h + numDeadEntries h) * 8 \<le> int (tableSize h) * 5"
  using assms pow2_pos by (auto simp: table_ok_def slots_ok_def Let_def LOAD_DENOM_def LOAD_NUMER_def)

lemma table_has_null: "table_ok h \<Longrightarrow> \<exists>i<tableSize h. data (pEntries h ! i) = Null"
  by (rule null_slot) (use table_okD [of h] in auto)

lemma tombs_count: "countTombStones h = int (tombs (take (tableSize h) (pEntries h)))"
  by (simp add: countTombStones_def tombs_def)

lemma pow2_double: "pow2 n \<Longrightarrow> n < 2 ^ 30 \<Longrightarrow> pow2 (n * 2)"
proof -
  assume "pow2 n" "n < 2 ^ 30"
  then obtain k where k: "n = 2 ^ k" "(2::nat) ^ k < 2 ^ 30" by (auto simp: pow2_def)
  then have "k < 30" by (simp only: power_strict_increasing_iff)
  with k(1) show "pow2 (n * 2)" unfolding pow2_def by (intro exI [of _ "Suc k"]) simp
qed

lemma pow2_gap: "pow2 n \<Longrightarrow> n < 2 ^ 28 \<Longrightarrow> n * 2 \<le> 2 ^ 28"
proof -
  assume "pow2 n" "n < 2 ^ 28"
  then obtain k where k: "n = 2 ^ k" "(2::nat) ^ k < 2 ^ 28" by (auto simp: pow2_def)
  then have "k < 28" by (simp only: power_strict_increasing_iff)
  then have "(2::nat) ^ Suc k \<le> 2 ^ 28" by (intro power_increasing) auto
  with k(1) show "n * 2 \<le> 2 ^ 28" by simp
qed

lemma resizeHash_ok:
  assumes "slots_ok (pEntries h) (tableSize h)" "tableSize h < 2 ^ 30"
    "numEntries h = int (length (lives (take (tableSize h) (pEntries h))))"
    "numDeadEntries h = int (tombs (take (tableSize h) (pEntries h)))"
  shows "\<exists>h'. resizeHash h (tableSize h * 2) = Some h' \<and> table_ok h' \<and> contents h' = contents h \<and>
           tableSize h' = tableSize h * 2 \<and> numEntries h' = numEntries h \<and> numDeadEntries h' = 0 \<and>
           freeFunc h' = freeFunc h"
proof -
  let ?n = "tableSize h * 2" and ?old = "take (tableSize h) (pEntries h)"
  have p2: "pow2 (tableSize h)" "length (pEntries h) = 2 * tableSize h"
    using assms(1) by (auto simp: slots_ok_def)
  have pos: "0 < tableSize h" by (rule pow2_pos [OF p2(1)])
  have l: "length (lives ?old) \<le> tableSize h"
    using count_slots [of ?old] by (simp add: p2(2))
  note c = calloc_ok [OF pow2_double [OF p2(1) assms(2)]]
  have lt: "length (lives (take ?n (calloc_entries ?n))) + length (lives ?old) < ?n"
    using l pos by (simp add: c(3))
  obtain new where new: "resize_loop ?old ?n (calloc_entries ?n) = Some new" "slots_ok new ?n"
    "tombs (take ?n new) = 0" "mset (lives (take ?n new)) = mset (lives ?old)"
    using resize_loop_ok [OF c(1) c(2) lt] by (auto simp: c(3))
  have len: "length (lives (take ?n new)) = length (lives ?old)"
    using arg_cong [OF new(4), of size] by simp
  let ?h = "h\<lparr>pEntries := new, tableSize := ?n, numDeadEntries := 0\<rparr>"
  have "resizeHash h ?n = Some ?h"
    using new(1,3) assms(4) by (simp add: resizeHash_def tombs_count Let_def)
  moreover have "table_ok ?h"
    using new len l assms(3) by (simp add: table_ok_def Let_def LOAD_DENOM_def LOAD_NUMER_def)
  ultimately show ?thesis using new(4) by (auto simp: contents_def)
qed

lemma not_in_chain:
  assumes "reaches es n" "i < n" "data (es ! i) = Data x"
    "\<forall>j<c. \<not> hit (es ! ((home (hashValue (es ! i)) n + j) mod n))"
    "data (es ! ((home (hashValue (es ! i)) n + c) mod n)) = Null"
  shows "\<not> hit (es ! i)"
proof -
  obtain c' where c': "i = (home (hashValue (es ! i)) n + c') mod n"
    "\<forall>j<c'. data (es ! ((home (hashValue (es ! i)) n + j) mod n)) \<noteq> Null"
    using assms(1-3) unfolding reaches_def by blast
  have "c' \<le> c" using c'(2) assms(5) not_le by blast
  moreover have "c' \<noteq> c" using assms(3,5) c'(1) by auto
  ultimately show ?thesis using assms(4) c'(1) by (metis le_neq_implies_less)
qed

text \<open>What a probe for an item finds: a match, or the proof that there is none.\<close>

lemma lookup_probe:
  assumes ok: "table_ok h"
  obtains (hit) i x cnt where "i < tableSize h" "data (pEntries h ! i) = Data x"
      "(hv, x) \<in># contents h" "cmp x item = 0"
      "probe (lookup_hit hv item cmp) (pEntries h) (tableSize h) (home hv (tableSize h)) 0
         = Some (Found i, cnt)"
  | (miss) i c cnt where "i < tableSize h" "i = (home hv (tableSize h) + c) mod tableSize h"
      "data (pEntries h ! i) = Null"
      "\<forall>j<c. data (pEntries h ! ((home hv (tableSize h) + j) mod tableSize h)) \<noteq> Null"
      "\<forall>x. (hv, x) \<in># contents h \<longrightarrow> cmp x item \<noteq> 0"
      "probe (lookup_hit hv item cmp) (pEntries h) (tableSize h) (home hv (tableSize h)) 0
         = Some (Vacant i, cnt)"
proof -
  let ?n = "tableSize h" and ?es = "pEntries h" and ?hit = "lookup_hit hv item cmp"
  note D = table_okD [OF ok]
  obtain c where c: "c < ?n"
    "\<forall>j<c. data (?es ! ((home hv ?n + j) mod ?n)) \<noteq> Null \<and> \<not> ?hit (?es ! ((home hv ?n + j) mod ?n))"
    "data (?es ! ((home hv ?n + c) mod ?n)) = Null \<or> ?hit (?es ! ((home hv ?n + c) mod ?n))"
    "probe ?hit ?es ?n (home hv ?n) 0 =
       Some (if data (?es ! ((home hv ?n + c) mod ?n)) = Null then Vacant ((home hv ?n + c) mod ?n)
             else Found ((home hv ?n + c) mod ?n), 0 + c)"
    by (rule probe_ends [OF D(3) home_less [OF D(1)] table_has_null [OF ok], where hit = ?hit and cnt = 0])
  let ?i = "(home hv ?n + c) mod ?n"
  have i: "?i < ?n" using D(2) by simp
  show thesis
  proof (cases "data (?es ! ?i) = Null")
    case True
    have "cmp x item \<noteq> 0" if mem: "(hv, x) \<in># contents h" for x
    proof -
      obtain i' where i': "i' < ?n" "data (?es ! i') = Data x" "hashValue (?es ! i') = hv"
        using iffD1 [OF contents_mem [OF ok] mem] by blast
      have "\<not> ?hit (?es ! i')"
      proof (rule not_in_chain [where c = c, OF D(4) i'(1,2)], unfold i'(3))
        show "\<forall>j<c. \<not> ?hit (?es ! ((home hv ?n + j) mod ?n))" using c(2) by blast
      qed (rule True)
      then show ?thesis using i' by (simp add: lookup_hit_def)
    qed
    moreover have "probe ?hit ?es ?n (home hv ?n) 0 = Some (Vacant ?i, 0 + c)"
      using c(4) True by simp
    ultimately show thesis using miss [OF i refl True] c(2) by blast
  next
    case False
    then have "?hit (?es ! ?i)" using c(3) by blast
    then obtain x where x: "data (?es ! ?i) = Data x" "hashValue (?es ! ?i) = hv" "cmp x item = 0"
      by (auto simp: lookup_hit_def split: slot.splits)
    moreover have "probe ?hit ?es ?n (home hv ?n) 0 = Some (Found ?i, 0 + c)"
      using c(4) False by simp
    moreover have "(hv, x) \<in># contents h" unfolding contents_mem [OF ok] using i x by blast
    ultimately show thesis using hit [OF i x(1) _ x(3)] by blast
  qed
qed

lemma lookup_find:
  assumes "table_ok h"
  shows "(\<exists>x. mzHashTableLookup h hv item cmp None = Some (h, Data x) \<and>
              (hv, x) \<in># contents h \<and> cmp x item = 0) \<or>
         (mzHashTableLookup h hv item cmp None = Some (h, Null) \<and>
              (\<forall>x. (hv, x) \<in># contents h \<longrightarrow> cmp x item \<noteq> 0))"
proof -
  note D = table_okD [OF assms]
  have r: "i < tableSize h \<Longrightarrow> rd (pEntries h) i = Some (pEntries h ! i)" for i
    using D(3) by (simp add: rd_def)
  show ?thesis
    by (rule lookup_probe [OF assms, of hv cmp item])
       (use D(2) r in \<open>simp_all add: mzHashTableLookup_def pEntry_index_def\<close>)
qed

lemma lookup_hit_same:
  assumes "table_ok h" "(hv, x) \<in># contents h" "cmp x item = 0"
  shows "\<exists>y. mzHashTableLookup h hv item cmp doAdd = Some (h, Data y) \<and>
             (hv, y) \<in># contents h \<and> cmp y item = 0"
proof -
  note D = table_okD [OF assms(1)]
  have r: "i < tableSize h \<Longrightarrow> rd (pEntries h) i = Some (pEntries h ! i)" for i
    using D(3) by (simp add: rd_def)
  show ?thesis
    by (rule lookup_probe [OF assms(1), of hv cmp item])
       (use D(2) r assms(2,3) in \<open>auto simp: mzHashTableLookup_def pEntry_index_def\<close>)
qed

lemma lookup_add:
  assumes ok: "table_ok h" and rm: "room h (Suc k)"
    and new: "\<forall>x. (hv, x) \<in># contents h \<longrightarrow> cmp x item \<noteq> 0"
  shows "\<exists>h'. mzHashTableLookup h hv item cmp (Some cast) = Some (h', Data (cast item)) \<and> table_ok h' \<and>
              room h' k \<and> contents h' = add_mset (hv, cast item) (contents h) \<and> freeFunc h' = freeFunc h \<and>
              ((numEntries h + numDeadEntries h + 1) * 8 \<le> int (tableSize h) * 5 \<longrightarrow>
                 tableSize h' = tableSize h \<and> numEntries h' = numEntries h + 1 \<and>
                 numDeadEntries h' = numDeadEntries h)"
proof -
  let ?n = "tableSize h" and ?es = "pEntries h"
  let ?e = "\<lparr>hashValue = hv, data = Data (cast item)\<rparr>"
  note D = table_okD [OF ok]
  have r: "i < ?n \<Longrightarrow> rd ?es i = Some (?es ! i)" for i
    using D(3) by (simp add: rd_def)
  obtain i c cnt where i: "i < ?n" "i = (home hv ?n + c) mod ?n" "data (?es ! i) = Null"
    "\<forall>j<c. data (?es ! ((home hv ?n + j) mod ?n)) \<noteq> Null"
    "probe (lookup_hit hv item cmp) ?es ?n (home hv ?n) 0 = Some (Vacant i, cnt)"
    by (rule lookup_probe [OF ok, of hv cmp item]) (use new in blast)+
  define h1 where "h1 = h\<lparr>pEntries := ?es[i := ?e], numEntries := numEntries h + 1\<rparr>"
  have sl: "slots_ok (?es[i := ?e]) ?n"
    by (rule store_slots [OF D(5) i(1)], rule store_reaches [where c = c]) (use D i in auto)
  note st = store_lives [of i ?n ?es ?e "cast item", OF i(1) D(3) i(3)]
  have len: "length (lives (take ?n (?es[i := ?e]))) = Suc (length (lives (take ?n ?es)))"
    using arg_cong [OF st(1), of size] by simp
  have h1: "slots_ok (pEntries h1) (tableSize h1)" "tableSize h1 = ?n" "freeFunc h1 = freeFunc h"
    "numEntries h1 = int (length (lives (take (tableSize h1) (pEntries h1))))"
    "numDeadEntries h1 = int (tombs (take (tableSize h1) (pEntries h1)))"
    "contents h1 = add_mset (hv, cast item) (contents h)"
    using sl len st D(6,7) by (simp_all add: h1_def contents_def)
  have n28: "?n \<le> 2 ^ 28" and used: "(numEntries h1 + numDeadEntries h1 + int k) * 8 \<le> 5 * 2 ^ 28"
    using rm by (auto simp: room_def h1_def)
  have nn: "0 \<le> numEntries h1" "0 \<le> numDeadEntries h1" using h1(4,5) by simp_all
  let ?big = "(numEntries h1 + numDeadEntries h1) * 8 > int ?n * 5"
  have big: "too_full h1 = Some ?big"
    using n28 used nn h1(2)
    by (simp add: too_full_def LOAD_DENOM_def LOAD_NUMER_def int_ok_def Let_def)
  have "mzHashTableLookup h hv item cmp (Some cast) =
      do { big \<leftarrow> too_full h1;
           h2 \<leftarrow> (if big then resizeHash h1 (tableSize h1 * 2) else Some h1);
           if numEntries h2 < int (tableSize h2) then Some (h2, Data (cast item)) else None }"
    using D(2) i(1,3,5) r by (simp add: mzHashTableLookup_def pEntry_index_def h1_def Let_def cong: if_cong)
  then have eq: "mzHashTableLookup h hv item cmp (Some cast) =
      do { h2 \<leftarrow> (if ?big then resizeHash h1 (?n * 2) else Some h1);
           if numEntries h2 < int (tableSize h2) then Some (h2, Data (cast item)) else None }"
    by (simp add: big h1(2))
  show ?thesis
  proof (cases ?big)
    case True
    have "int ?n * 5 < 5 * 2 ^ 28" using True used nn by simp
    then have lt: "?n < 2 ^ 28" by simp
    obtain h2 where h2: "resizeHash h1 (?n * 2) = Some h2" "table_ok h2" "contents h2 = contents h1"
      "tableSize h2 = ?n * 2" "numEntries h2 = numEntries h1" "numDeadEntries h2 = 0"
      "freeFunc h2 = freeFunc h1"
      using resizeHash_ok [of h1] h1 lt by auto
    have "room h2 k"
      using used nn pow2_gap [OF D(1) lt] h2 by (simp add: room_def)
    moreover have "numEntries h2 < int (tableSize h2)"
      using table_okD(8,2) [OF h2(2)] h2(6) by simp
    moreover have "\<not> (numEntries h + numDeadEntries h + 1) * 8 \<le> int ?n * 5"
      using True by (simp add: h1_def)
    ultimately show ?thesis using eq True h2 h1 by auto
  next
    case False
    have "table_ok h1"
      using False h1 by (simp add: table_ok_def Let_def LOAD_DENOM_def LOAD_NUMER_def)
    moreover have "room h1 k" using used n28 h1(2) by (simp add: room_def)
    moreover have "numEntries h1 < int (tableSize h1)" using False nn D(2) h1(2) by simp
    moreover have "numEntries h1 = numEntries h + 1" "numDeadEntries h1 = numDeadEntries h"
      by (simp_all add: h1_def)
    ultimately show ?thesis using eq False h1 by auto
  qed
qed

lemma remove_ok:
  assumes ok: "table_ok h"
  shows "\<exists>h' b. mzHashTableRemove h hv item = Some (h', b) \<and> table_ok h' \<and>
           tableSize h' = tableSize h \<and>
           (if b then \<exists>k. contents h = add_mset (k, item) (contents h')
            else h' = h \<and> (hv, item) \<notin># contents h)"
proof -
  let ?n = "tableSize h" and ?es = "pEntries h" and ?hit = "\<lambda>e. data e = Data item"
  note D = table_okD [OF ok]
  obtain c where c: "c < ?n"
    "\<forall>j<c. data (?es ! ((home hv ?n + j) mod ?n)) \<noteq> Null \<and> \<not> ?hit (?es ! ((home hv ?n + j) mod ?n))"
    "data (?es ! ((home hv ?n + c) mod ?n)) = Null \<or> ?hit (?es ! ((home hv ?n + c) mod ?n))"
    "probe ?hit ?es ?n (home hv ?n) 0 =
       Some (if data (?es ! ((home hv ?n + c) mod ?n)) = Null then Vacant ((home hv ?n + c) mod ?n)
             else Found ((home hv ?n + c) mod ?n), 0 + c)"
    by (rule probe_ends [OF D(3) home_less [OF D(1)] table_has_null [OF ok],
          where hit = ?hit and cnt = 0])
  let ?i = "(home hv ?n + c) mod ?n"
  have i: "?i < ?n" using D(2) by simp
  show ?thesis
  proof (cases "data (?es ! ?i) = Null")
    case True
    have "(hv, item) \<notin># contents h"
    proof
      assume "(hv, item) \<in># contents h"
      then obtain i' where i': "i' < ?n" "data (?es ! i') = Data item" "hashValue (?es ! i') = hv"
        using iffD1 [OF contents_mem [OF ok]] by blast
      have "\<not> ?hit (?es ! i')"
      proof (rule not_in_chain [where c = c, OF D(4) i'(1,2)], unfold i'(3))
        show "\<forall>j<c. \<not> ?hit (?es ! ((home hv ?n + j) mod ?n))" using c(2) by blast
      qed (rule True)
      then show False using i'(2) by simp
    qed
    then show ?thesis using True c(4) D(2) ok
      by (intro exI [of _ h] exI [of _ False]) (simp add: mzHashTableRemove_def)
  next
    case False
    let ?e = "(?es ! ?i)\<lparr>data := Tombstone\<rparr>"
    let ?h = "h\<lparr>pEntries := ?es[?i := ?e], numEntries := numEntries h - 1,
                numDeadEntries := numDeadEntries h + 1\<rparr>"
    have x: "data (?es ! ?i) = Data item" using False c(3) by blast
    have pre: "?i < length (take ?n ?es)" "take ?n ?es ! ?i = ?es ! ?i"
      using i D(3) by simp_all
    have l: "mset (lives (take ?n ?es))
        = add_mset (hashValue (?es ! ?i), item) (mset (lives (take ?n (?es[?i := ?e]))))"
      using lives_update [OF pre(1), of ?e] x by (simp add: pre_update pre(2))
    have t: "tombs (take ?n (?es[?i := ?e])) = Suc (tombs (take ?n ?es))"
      using tombs_update [OF pre(1), of ?e] x by (simp add: pre_update pre(2))
    have len: "length (lives (take ?n ?es)) = Suc (length (lives (take ?n (?es[?i := ?e]))))"
      using arg_cong [OF l, of size] by simp
    have "reaches (?es[?i := ?e]) ?n"
      unfolding reaches_def
    proof (intro allI impI)
      fix i' x'
      assume i': "i' < ?n" and d: "data (?es[?i := ?e] ! i') = Data x'"
      have neq: "i' \<noteq> ?i" using d pre(1) by (intro notI) simp
      have keep: "data (?es[?i := ?e] ! m) \<noteq> Null" if "data (?es ! m) \<noteq> Null" for m
        using that pre(1) by (cases "m = ?i") simp_all
      have e: "?es[?i := ?e] ! i' = ?es ! i'" using neq by simp
      then obtain c where "i' = (home (hashValue (?es ! i')) ?n + c) mod ?n"
        "\<forall>j<c. data (?es ! ((home (hashValue (?es ! i')) ?n + j) mod ?n)) \<noteq> Null"
        using D(4) i' d unfolding reaches_def by metis
      then show "\<exists>c. i' = (home (hashValue (?es[?i := ?e] ! i')) ?n + c) mod ?n \<and>
          (\<forall>j<c. data (?es[?i := ?e] ! ((home (hashValue (?es[?i := ?e] ! i')) ?n + j) mod ?n)) \<noteq> Null)"
        unfolding e using keep by blast
    qed
    then have "table_ok ?h"
      using store_slots [OF D(5) i] len t D(6-8)
      by (simp add: table_ok_def Let_def LOAD_DENOM_def LOAD_NUMER_def)
    moreover have "mzHashTableRemove h hv item = Some (?h, True)"
      using False c(4) D(2) by (simp add: mzHashTableRemove_def)
    ultimately show ?thesis using l by (auto simp: contents_def)
  qed
qed

lemma create_ok:
  assumes "1 < unat sz" "unat sz \<le> 2 ^ 30"
  shows "\<exists>h. mzHashTableCreate sz ff = Some (Some h) \<and> table_ok h \<and> contents h = {#} \<and>
           freeFunc h = ff \<and> unat sz \<le> tableSize h \<and> tableSize h < 2 * unat sz \<and>
           numEntries h = 0 \<and> numDeadEntries h = 0"
proof -
  let ?w = "ucast sz :: u32"
  have u: "unat ?w = unat sz"
    using assms(2) by (simp add: unsigned_ucast_eq take_bit_nat_eq_self)
  obtain k where k: "unat (roundUpPower2 ?w) = 2 ^ k" "unat sz \<le> 2 ^ k" "2 ^ k < 2 * unat sz"
    using roundUpPower2_eq [of ?w] assms by (auto simp: u)
  have "(2::nat) ^ k < 2 ^ 31" using k(3) assms(2) by simp
  then have k31: "k < 31" by (simp only: power_strict_increasing_iff)
  have "sint (roundUpPower2 ?w) = 2 ^ k"
  proof -
    have "uint (roundUpPower2 ?w) = 2 ^ k" using k(1) by (metis of_nat_numeral of_nat_power uint_nat)
    moreover have "(2::int) ^ k < 2 ^ 31" using k31 by (intro power_strict_increasing) auto
    moreover have "- (2 ^ 31) \<le> (2::int) ^ k" by (rule order_trans [of _ 0]) simp_all
    ultimately show ?thesis
      by (simp only: sint_uint) (rule signed_take_bit_int_eq_self, simp_all)
  qed
  moreover have "pow2 (2 ^ k)" using k31 by (auto simp: pow2_def)
  moreover have "sz \<noteq> 0" using assms(1) by auto
  ultimately show ?thesis
    using calloc_ok [of "2 ^ k"] k(2,3)
    by (simp add: mzHashTableCreate_def table_ok_def contents_def nat_power_eq LOAD_DENOM_def LOAD_NUMER_def Let_def)
qed

text \<open>Clearing calls the free function on every live item, in slot order.\<close>

definition free_all :: "('a \<Rightarrow> 's \<Rightarrow> 's) option \<Rightarrow> 'a list \<Rightarrow> 's \<Rightarrow> 's" where
  "free_all ff xs s = (case ff of None \<Rightarrow> s | Some f \<Rightarrow> fold f xs s)"

lemma free_all_Cons: "free_all ff (x # xs) s = free_all ff xs (case ff of None \<Rightarrow> s | Some f \<Rightarrow> f x s)"
  by (simp add: free_all_def split: option.splits)

definition nulled :: "'a hash_entry \<Rightarrow> 'a hash_entry" where
  "nulled e = e\<lparr>data := Null\<rparr>"

lemma clear_loop_ok:
  "length es = n \<Longrightarrow>
   clear_loop ff (pre @ es @ post) (length pre) n s =
     Some (pre @ map nulled es @ post, free_all ff (map snd (lives es)) s)"
proof (induction es arbitrary: pre n s)
  case Nil
  then show ?case by (simp add: free_all_def split: option.splits)
next
  case (Cons e es)
  then obtain m where n: "n = Suc m" "length es = m" by auto
  have rd: "rd (pre @ (e # es) @ post) (length pre) = Some e"
    using rd_mid [of 0 "e # es" pre post] by simp
  have upd: "(pre @ (e # es) @ post)[length pre := e'] = (pre @ [e']) @ es @ post" for e'
    by simp
  have null: "data e = Null \<Longrightarrow> nulled e = e" by (simp add: nulled_def)
  note IH = Cons.IH [OF n(2), of "pre @ [nulled e]", simplified]
  show ?case
    unfolding n(1) clear_loop.simps rd
    using IH upd [of "nulled e"] null
    by (cases "data e") (simp_all add: nulled_def [symmetric] free_all_Cons)
qed

lemma clear_ok:
  assumes "table_ok h"
  shows "\<exists>h'. mzHashTableClear h s =
            Some (h', free_all (freeFunc h) (map snd (lives (take (tableSize h) (pEntries h)))) s) \<and>
            table_ok h' \<and> contents h' = {#} \<and> tableSize h' = tableSize h"
proof -
  note D = table_okD [OF assms]
  let ?n = "tableSize h"
  let ?es = "map nulled (take ?n (pEntries h)) @ drop ?n (pEntries h)"
  have len: "length (take ?n (pEntries h)) = ?n" using D(3) by simp
  have l: "lives (map nulled es) = []" "tombs (map nulled es) = 0" for es :: "'a hash_entry list"
    by (induction es) (auto simp: nulled_def)
  have c: "clear_loop (freeFunc h) (pEntries h) 0 ?n s
      = Some (?es, free_all (freeFunc h) (map snd (lives (take ?n (pEntries h)))) s)"
    using clear_loop_ok [OF len, of "freeFunc h" "[]" "drop ?n (pEntries h)" s] by simp
  have "reaches ?es ?n"
    using D(3) by (auto simp: reaches_def nth_append nulled_def)
  then have "slots_ok ?es ?n"
    using D(5) by (auto simp: slots_ok_def)
  then show ?thesis
    using c D(3) by (auto simp: mzHashTableClear_def table_ok_def contents_def Let_def l
        LOAD_DENOM_def LOAD_NUMER_def)
qed

lemma foreach_lives:
  "foreach_loop f es arg =
     fold (\<lambda>x (v, a). if v \<noteq> 0 then (v, a) else f x a) (map snd (lives es)) (0, arg)"
proof -
  have stop: "fold (\<lambda>x (v, a). if v \<noteq> 0 then (v, a) else f x a) xs (v, a) = (v, a)" if "v \<noteq> 0" for xs v a
    using that by (induction xs) auto
  show ?thesis
    by (induction es arbitrary: arg) (auto simp: live_of_def stop split: slot.splits prod.splits)
qed

lemma countProbes_ok:
  assumes ok: "table_ok h"
  shows "\<exists>c. countProbes h hv item cmp = Some c \<and>
           (c = - 1 \<longleftrightarrow> (\<forall>x. (hv, x) \<in># contents h \<longrightarrow> cmp x item \<noteq> 0))"
proof -
  note D = table_okD [OF ok]
  have r: "i < tableSize h \<Longrightarrow> rd (pEntries h) i = Some (pEntries h ! i)" for i
    using D(3) by (simp add: rd_def)
  show ?thesis
    by (rule lookup_probe [OF ok, of hv cmp item])
       (use D(2) r in \<open>auto simp: countProbes_def pEntry_index_def\<close>)
qed

subsection \<open>Iterators visit the live slots in order\<close>

lemma iter_scan_ok:
  "i \<le> lim \<Longrightarrow> lim \<le> length es \<Longrightarrow>
   \<exists>j. iter_scan es i lim = Some j \<and> i \<le> j \<and> j \<le> lim \<and>
       (j < lim \<longrightarrow> (\<exists>x. data (es ! j) = Data x)) \<and> (\<forall>m. i \<le> m \<and> m < j \<longrightarrow> (\<forall>x. data (es ! m) \<noteq> Data x))"
proof (induction es i lim rule: iter_scan.induct)
  case (1 es i lim)
  show ?case
  proof (cases "i < lim \<and> (\<forall>x. data (es ! i) \<noteq> Data x)")
    case True
    then have r: "rd es i = Some (es ! i)" using 1 by (simp add: rd_def)
    have "\<exists>j. iter_scan es (i + 1) lim = Some j \<and> i + 1 \<le> j \<and> j \<le> lim \<and>
       (j < lim \<longrightarrow> (\<exists>x. data (es ! j) = Data x)) \<and> (\<forall>m. i + 1 \<le> m \<and> m < j \<longrightarrow> (\<forall>x. data (es ! m) \<noteq> Data x))"
      using True 1 r by (cases "data (es ! i)") auto
    then obtain j where j: "iter_scan es (i + 1) lim = Some j" "i + 1 \<le> j" "j \<le> lim"
      "j < lim \<longrightarrow> (\<exists>x. data (es ! j) = Data x)"
      "\<forall>m. i + 1 \<le> m \<and> m < j \<longrightarrow> (\<forall>x. data (es ! m) \<noteq> Data x)" by blast
    have "iter_scan es i lim = Some j"
      using True r j(1) by (subst iter_scan.simps) (simp split: slot.splits)
    moreover have "\<forall>m. i \<le> m \<and> m < j \<longrightarrow> (\<forall>x. data (es ! m) \<noteq> Data x)"
      using j(5) True by (metis Suc_eq_plus1 Suc_leI le_neq_implies_less)
    ultimately show ?thesis using j by auto
  next
    case False
    then show ?thesis using "1.prems"
      by (intro exI [of _ i], subst iter_scan.simps) (cases "i < lim", auto simp: rd_def dest: less_le_trans)
  qed
qed

lemma iter_next_ok:
  assumes "table_ok h" "- 1 \<le> idx" "idx < int (tableSize h)"
  shows "\<exists>j. mzHashIterNext h idx = Some j \<and> idx < j \<and> j \<le> int (tableSize h) \<and>
     (mzHashIterDone h j \<longleftrightarrow> j = int (tableSize h)) \<and>
     (\<not> mzHashIterDone h j \<longrightarrow> (\<exists>x. mzHashIterData h j = Some (Data x))) \<and>
     (\<forall>m. idx < m \<and> m < j \<longrightarrow> (\<forall>x. mzHashIterData h m \<noteq> Some (Data x)))"
proof -
  note D = table_okD [OF assms(1)]
  have "nat (idx + 1) \<le> tableSize h" using assms by simp
  then obtain j where j: "iter_scan (pEntries h) (nat (idx + 1)) (tableSize h) = Some j"
    "nat (idx + 1) \<le> j" "j \<le> tableSize h"
    "j < tableSize h \<longrightarrow> (\<exists>x. data (pEntries h ! j) = Data x)"
    "\<forall>m. nat (idx + 1) \<le> m \<and> m < j \<longrightarrow> (\<forall>x. data (pEntries h ! m) \<noteq> Data x)"
    using iter_scan_ok [OF _ D(3)] by blast
  have none: "mzHashIterData h m \<noteq> Some (Data x)" if "idx < m" "m < int j" for m x
  proof -
    have "nat (idx + 1) \<le> nat m \<and> nat m < j" using that assms(2) by auto
    then have "data (pEntries h ! nat m) \<noteq> Data x" using j(5) by blast
    then show ?thesis by (auto simp: mzHashIterData_def bind_eq_Some_conv rd_def split: if_splits)
  qed
  show ?thesis
    by (rule exI [of _ "int j"])
       (use j D(3) none assms(2) in
         \<open>auto simp: mzHashIterNext_def mzHashIterDone_def mzHashIterData_def rd_def\<close>)
qed

subsection \<open>The interface: an index of items by hash value\<close>

definition firsts :: "('a \<Rightarrow> 'k) \<Rightarrow> 'a list \<Rightarrow> 'a list" where
  "firsts nm xs = foldl (\<lambda>acc x. if nm x \<in> nm ` set acc then acc else acc @ [x]) [] xs"

lemma firsts_Nil [simp]: "firsts nm [] = []" by (simp add: firsts_def)

lemma firsts_snoc:
  "firsts nm (xs @ [x]) = (if nm x \<in> nm ` set (firsts nm xs) then firsts nm xs else firsts nm xs @ [x])"
  by (simp add: firsts_def)

lemma firsts_find: "find (\<lambda>x. nm x = k) (firsts nm xs) = find (\<lambda>x. nm x = k) xs"
proof (induction xs rule: rev_induct)
  case (snoc x xs)
  have app: "find P (as @ bs) = (case find P as of None \<Rightarrow> find P bs | Some y \<Rightarrow> Some y)" for P :: "'a \<Rightarrow> bool" and as bs
    by (induction as) auto
  have "nm x \<in> nm ` set (firsts nm xs) \<Longrightarrow> nm x = k \<Longrightarrow> find (\<lambda>x. nm x = k) xs \<noteq> None"
    using snoc.IH find_None_iff [of "\<lambda>x. nm x = k" "firsts nm xs"] by force
  with snoc.IH show ?case by (auto simp: firsts_snoc app split: option.splits)
qed simp

lemma firsts_distinct: "distinct (map nm (firsts nm xs))"
  by (induction xs rule: rev_induct) (auto simp: firsts_snoc)

lemma firsts_names: "nm ` set (firsts nm xs) = nm ` set xs"
  by (induction xs rule: rev_induct) (auto simp: firsts_snoc)

locale item_index =
  fixes ok :: "'t \<Rightarrow> bool"
    and items :: "'t \<Rightarrow> (u32 \<times> 'a) multiset"
    and room_for :: "'t \<Rightarrow> nat \<Rightarrow> bool"
    and search :: "'t \<Rightarrow> u32 \<Rightarrow> 'i \<Rightarrow> ('a \<Rightarrow> 'i \<Rightarrow> int) \<Rightarrow> 'a option ub"
    and insert :: "'t \<Rightarrow> u32 \<Rightarrow> 'a \<Rightarrow> ('a \<Rightarrow> 'a \<Rightarrow> int) \<Rightarrow> ('t \<times> 'a) ub"
  assumes search_law:
      "ok t \<Longrightarrow> \<exists>r. search t hv q cmp = Some r \<and>
         (case r of None \<Rightarrow> \<forall>x. (hv, x) \<in># items t \<longrightarrow> cmp x q \<noteq> 0
          | Some x \<Rightarrow> (hv, x) \<in># items t \<and> cmp x q = 0)"
    and insert_old:
      "ok t \<Longrightarrow> (hv, x) \<in># items t \<Longrightarrow> ecmp x a = 0 \<Longrightarrow>
         \<exists>y. insert t hv a ecmp = Some (t, y) \<and> (hv, y) \<in># items t \<and> ecmp y a = 0"
    and insert_new:
      "ok t \<Longrightarrow> room_for t (Suc n) \<Longrightarrow> \<forall>x. (hv, x) \<in># items t \<longrightarrow> ecmp x a \<noteq> 0 \<Longrightarrow>
         \<exists>t'. insert t hv a ecmp = Some (t', a) \<and> ok t' \<and> room_for t' n \<and>
              items t' = add_mset (hv, a) (items t)"
    and room_less: "room_for t (Suc n) \<Longrightarrow> room_for t n"
begin

text \<open>
  \<open>holds hf nm t xs\<close>: the index is what inserting the items \<open>xs\<close> one after the other makes of an
  empty one, when items are filed under \<open>hf\<close> and told apart by \<open>nm\<close>.
\<close>

definition holds :: "('a \<Rightarrow> u32) \<Rightarrow> ('a \<Rightarrow> 'k) \<Rightarrow> 't \<Rightarrow> 'a list \<Rightarrow> bool" where
  "holds hf nm t xs \<longleftrightarrow> ok t \<and> items t = mset (map (\<lambda>x. (hf x, x)) (firsts nm xs))"

lemma holds_empty: "ok t \<Longrightarrow> items t = {#} \<Longrightarrow> holds hf nm t []"
  by (simp add: holds_def)

lemma holds_mem: "holds hf nm t xs \<Longrightarrow> (hv, x) \<in># items t \<longleftrightarrow> hv = hf x \<and> x \<in> set (firsts nm xs)"
  by (auto simp: holds_def)

lemma holds_insert:
  assumes h: "holds hf nm t xs" and r: "room_for t (Suc n)"
    and cmp: "\<And>a b. ecmp a b = 0 \<longleftrightarrow> nm a = nm b"
    and hf: "\<And>a b. nm a = nm b \<Longrightarrow> hf a = hf b"
  shows "\<exists>t' y. insert t (hf x) x ecmp = Some (t', y) \<and> holds hf nm t' (xs @ [x]) \<and> room_for t' n \<and>
           nm y = nm x"
proof (cases "nm x \<in> nm ` set (firsts nm xs)")
  case True
  then obtain x0 where x0: "x0 \<in> set (firsts nm xs)" "nm x0 = nm x" by auto
  then have "(hf x, x0) \<in># items t" using holds_mem [OF h] hf by metis
  then obtain y where "insert t (hf x) x ecmp = Some (t, y)" "ecmp y x = 0"
    using insert_old [of t "hf x" x0 ecmp x] h x0 cmp by (auto simp: holds_def)
  then show ?thesis
    using h True room_less [OF r] cmp by (auto simp: holds_def firsts_snoc)
next
  case False
  have "\<forall>x'. (hf x, x') \<in># items t \<longrightarrow> ecmp x' x \<noteq> 0"
    using False by (simp add: holds_mem [OF h] cmp) (metis imageI)
  moreover have "ok t" using h by (simp add: holds_def)
  ultimately obtain t' where "insert t (hf x) x ecmp = Some (t', x)" "ok t'" "room_for t' n"
    "items t' = add_mset (hf x, x) (items t)"
    using insert_new [OF _ r] by blast
  then show ?thesis using h False by (auto simp: holds_def firsts_snoc)
qed

lemma holds_search:
  assumes h: "holds hf nm t xs"
    and cmp: "\<And>a. cmp a q = 0 \<longleftrightarrow> nm a = k"
    and hf: "\<And>a. nm a = k \<Longrightarrow> hf a = hv"
  shows "search t hv q cmp = Some (find (\<lambda>x. nm x = k) xs)"
proof -
  have "ok t" using h by (simp add: holds_def)
  from search_law [OF this, of hv q cmp] obtain r where r: "search t hv q cmp = Some r"
    and s: "case r of None \<Rightarrow> \<forall>x. (hv, x) \<in># items t \<longrightarrow> cmp x q \<noteq> 0
          | Some x \<Rightarrow> (hv, x) \<in># items t \<and> cmp x q = 0" by blast
  have "r = find (\<lambda>x. nm x = k) (firsts nm xs)"
  proof (cases r)
    case None
    then have "\<forall>x\<in>set (firsts nm xs). nm x \<noteq> k"
      using s hf by (simp add: holds_mem [OF h] cmp) metis
    then have "find (\<lambda>x. nm x = k) (firsts nm xs) = None"
      unfolding find_None_iff by blast
    then show ?thesis using None by simp
  next
    case (Some y)
    then have y: "y \<in> set (firsts nm xs)" "nm y = k" using s by (simp_all add: holds_mem [OF h] cmp)
    then obtain z where z: "find (\<lambda>x. nm x = k) (firsts nm xs) = Some z"
      using find_None_iff [of "\<lambda>x. nm x = k"] by (metis option.exhaust)
    then have "z \<in> set (firsts nm xs)" "nm z = k"
      by (auto simp: find_Some_iff)
    then have "z = y"
      using y firsts_distinct [of nm xs] by (auto simp: distinct_map inj_on_def)
    with z Some show ?thesis by simp
  qed
  with r show ?thesis by (simp add: firsts_find)
qed

end

definition table_search ::
  "('a, 's) hash_table \<Rightarrow> u32 \<Rightarrow> 'i \<Rightarrow> ('a \<Rightarrow> 'i \<Rightarrow> int) \<Rightarrow> 'a option ub" where
  "table_search h hv item cmp =
     do { (h', d) \<leftarrow> mzHashTableLookup h hv item cmp None;
          case d of Data x \<Rightarrow> Some (Some x) | Null \<Rightarrow> Some None | Tombstone \<Rightarrow> None }"

definition table_insert ::
  "('a, 's) hash_table \<Rightarrow> u32 \<Rightarrow> 'a \<Rightarrow> ('a \<Rightarrow> 'a \<Rightarrow> int) \<Rightarrow> (('a, 's) hash_table \<times> 'a) ub" where
  "table_insert h hv item cmp =
     do { (h', d) \<leftarrow> mzHashTableLookup h hv item cmp (Some (\<lambda>x. x));
          case d of Data x \<Rightarrow> Some (h', x) | _ \<Rightarrow> None }"

interpretation mz: item_index table_ok contents room table_search table_insert
proof
  fix t :: "('a, 's) hash_table" and hv :: u32 and q :: 'i and cmp
  assume "table_ok t"
  from lookup_find [OF this, of hv q cmp]
  show "\<exists>r. table_search t hv q cmp = Some r \<and>
         (case r of None \<Rightarrow> \<forall>x. (hv, x) \<in># contents t \<longrightarrow> cmp x q \<noteq> 0
          | Some x \<Rightarrow> (hv, x) \<in># contents t \<and> cmp x q = 0)"
    by (auto simp: table_search_def)
next
  fix t :: "('a, 's) hash_table" and hv :: u32 and x a :: 'a and ecmp :: "'a \<Rightarrow> 'a \<Rightarrow> int"
  assume "table_ok t" "(hv, x) \<in># contents t" "ecmp x a = 0"
  from lookup_hit_same [where cmp = ecmp and item = a, OF this, of "Some (\<lambda>x. x)"]
  show "\<exists>y. table_insert t hv a ecmp = Some (t, y) \<and> (hv, y) \<in># contents t \<and> ecmp y a = 0"
    by (auto simp: table_insert_def)
next
  fix t :: "('a, 's) hash_table" and hv :: u32 and n and a :: 'a and ecmp :: "'a \<Rightarrow> 'a \<Rightarrow> int"
  assume "table_ok t" "room t (Suc n)" "\<forall>x. (hv, x) \<in># contents t \<longrightarrow> ecmp x a \<noteq> 0"
  from lookup_add [where cmp = ecmp and item = a and cast = "\<lambda>x. x", OF this]
  show "\<exists>t'. table_insert t hv a ecmp = Some (t', a) \<and> table_ok t' \<and> room t' n \<and>
              contents t' = add_mset (hv, a) (contents t)"
    by (auto simp: table_insert_def)
qed (simp add: room_def)

subsection \<open>Properties\<close>

text \<open>
  For \<open>1 < val \<le> 2 ^ 31\<close> the bit trick of \<open>roundUpPower2\<close> returns the least power of two that is
  not below \<open>val\<close>.
\<close>

theorem roundUpPower2_least:
  assumes "1 < unat v" "unat v \<le> 2 ^ 31"
  shows "\<exists>k. unat (roundUpPower2 v) = 2 ^ k \<and> unat v \<le> 2 ^ k \<and> (\<forall>j. unat v \<le> 2 ^ j \<longrightarrow> k \<le> j)"
proof -
  obtain k where k: "unat (roundUpPower2 v) = 2 ^ k" "unat v \<le> 2 ^ k" "2 ^ k < 2 * unat v"
    using roundUpPower2_eq [OF assms] by blast
  have "k \<le> j" if "unat v \<le> 2 ^ j" for j
  proof -
    have "(2::nat) ^ k < 2 ^ Suc j" using k(3) that by simp
    then have "k < Suc j" by (simp only: power_strict_increasing_iff)
    then show ?thesis by simp
  qed
  with k show ?thesis by blast
qed

theorem roundUpPower2_least_witness:
  "\<exists>k. unat (roundUpPower2 5) = 2 ^ k \<and> unat (5 :: u32) \<le> 2 ^ k"
  using roundUpPower2_least [of 5] by auto



text \<open>
  \<open>mzHashTableLookup\<close> without \<open>doAdd\<close> changes nothing, always returns, and finds an item exactly
  when the table holds one with that hash value that compares equal.
\<close>

theorem hash_lookup_find:
  assumes "table_ok h"
  shows "\<exists>d. mzHashTableLookup h hv item cmp None = Some (h, d) \<and> d \<noteq> Tombstone \<and>
     (\<forall>x. d = Data x \<longrightarrow> (hv, x) \<in># contents h \<and> cmp x item = 0) \<and>
     (d = Null \<longleftrightarrow> (\<forall>x. (hv, x) \<in># contents h \<longrightarrow> cmp x item \<noteq> 0))"
  using lookup_find [OF assms, of hv item cmp] by auto

theorem hash_lookup_find_witness:
  "\<exists>h :: (nat, unit) hash_table. mzHashTableCreate 2 None = Some (Some h) \<and>
     mzHashTableLookup h 7 (42 :: nat) (\<lambda>(a :: nat) b. int a - int b) None = Some (h, Null)"
proof -
  obtain h where h: "mzHashTableCreate 2 None = Some (Some (h :: (nat, unit) hash_table))"
    "table_ok h" "contents h = {#}"
    using create_ok [of 2 None] by auto
  from hash_lookup_find [OF h(2), of 7 42 "\<lambda>a b. int a - int b"] h(1,3)
  show ?thesis by auto
qed

text \<open>
  C17: \<open>mzHashTableRemove\<close> always returns; it answers true exactly when it took one occurrence of the
  item out of the table, it answers false only when the item is not filed under that hash value, and
  the tombstone it leaves breaks no chain: the invariant, and with it every later lookup, survives.
\<close>

theorem hash_remove:
  assumes "table_ok h"
  shows "\<exists>h' b. mzHashTableRemove h hv item = Some (h', b) \<and> table_ok h' \<and>
           (if b then \<exists>k. contents h = add_mset (k, item) (contents h')
            else h' = h \<and> (hv, item) \<notin># contents h)"
  using remove_ok [OF assms, of hv item] by blast

theorem hash_remove_witness:
  "\<exists>h :: (nat, unit) hash_table. mzHashTableCreate 2 None = Some (Some h) \<and> mzHashTableRemove h 3 (5 :: nat) = Some (h, False)"
proof -
  obtain h where h: "mzHashTableCreate 2 None = Some (Some (h :: (nat, unit) hash_table))"
    "table_ok h" "contents h = {#}"
    using create_ok [of 2 None] by auto
  have "mzHashTableRemove h 3 5 = Some (h, False)"
    using hash_remove [OF h(2), of 3 5] h(3) by (auto split: if_splits)
  with h(1) show ?thesis by blast
qed

subsection \<open>Capacity\<close>

fun add_items :: "('a, 's) hash_table \<Rightarrow> ('a \<Rightarrow> 'a \<Rightarrow> int) \<Rightarrow> (u32 \<times> 'a) list
                    \<Rightarrow> ('a, 's) hash_table ub" where
  "add_items h cmp [] = Some h"
| "add_items h cmp ((hv, x) # ps) =
     do { (h', d) \<leftarrow> mzHashTableLookup h hv x cmp (Some (\<lambda>x. x)); add_items h' cmp ps }"

lemma add_items_ok:
  "table_ok h \<Longrightarrow> tableSize h \<le> 2 ^ 28 \<Longrightarrow>
   (numEntries h + numDeadEntries h + int (length ps)) * 8 \<le> int (tableSize h) * 5 \<Longrightarrow>
   \<exists>h'. add_items h cmp ps = Some h' \<and> table_ok h' \<and> tableSize h' = tableSize h"
proof (induction ps arbitrary: h)
  case (Cons p ps)
  obtain hv x where p: "p = (hv, x)" by fastforce
  have lim: "int (tableSize h) * 5 \<le> 5 * 2 ^ 28" using Cons.prems(2) by simp
  have len: "(numEntries h + numDeadEntries h + 1) * 8 \<le> int (tableSize h) * 5"
    using Cons.prems(3) by (simp add: algebra_simps)
  have "room h (Suc 0)" using Cons.prems(2) len lim by (simp add: room_def)
  note add = lookup_add [where cmp = cmp and item = x and cast = "\<lambda>x. x" and hv = hv,
      OF Cons.prems(1) this]
  have "\<exists>h' d. mzHashTableLookup h hv x cmp (Some (\<lambda>x. x)) = Some (h', d) \<and> table_ok h' \<and>
      tableSize h' = tableSize h \<and> numDeadEntries h' = numDeadEntries h \<and>
      numEntries h' \<le> numEntries h + 1"
  proof (cases "\<exists>y. (hv, y) \<in># contents h \<and> cmp y x = 0")
    case True
    then obtain y where y: "(hv, y) \<in># contents h" "cmp y x = 0" by blast
    show ?thesis
      using lookup_hit_same [where cmp = cmp and item = x and doAdd = "Some (\<lambda>x. x)",
          OF Cons.prems(1) y] Cons.prems(1) by auto
  next
    case False
    then show ?thesis using add len by auto
  qed
  then obtain h' d where h': "mzHashTableLookup h hv x cmp (Some (\<lambda>x. x)) = Some (h', d)"
    "table_ok h'" "tableSize h' = tableSize h" "numDeadEntries h' = numDeadEntries h"
    "numEntries h' \<le> numEntries h + 1" by blast
  have "\<exists>h''. add_items h' cmp ps = Some h'' \<and> table_ok h'' \<and> tableSize h'' = tableSize h'"
    by (rule Cons.IH) (use h' Cons.prems in simp_all)
  then show ?case using h' p by simp
qed simp

lemma mzHashSize_val: "n \<le> 2 ^ 26 \<Longrightarrow> unat (mzHashSize (of_nat n)) = n * 8 div 5 + 1"
proof -
  assume n: "n \<le> 2 ^ 26"
  have "mzHashSize (of_nat n) = of_nat (n * 8) div of_nat 5 + 1"
    by (simp add: mzHashSize_def)
  have a: "unat (of_nat n * 8 :: u64) = n * 8"
    using n by (simp add: unat_word_ariths unsigned_of_nat take_bit_nat_eq_self)
  have b: "unat (of_nat n * 8 div 5 :: u64) = n * 8 div 5"
    by (simp add: unat_div a)
  have c: "n * 8 div 5 \<le> 2 ^ 27" using n by simp
  show ?thesis
    unfolding mzHashSize_def using b c
    by (simp add: unat_word_ariths)
qed

text \<open>
  A table created with \<open>mzHashTableCreate (mzHashSize n)\<close> takes \<open>n\<close> additions, whatever they are,
  without ever being reallocated.
\<close>

theorem hash_capacity:
  assumes "0 < n" "n \<le> 2 ^ 26"
  shows "\<exists>h :: ('a, 's) hash_table. mzHashTableCreate (mzHashSize (of_nat n)) ff = Some (Some h) \<and>
     (\<forall>cmp ps. length ps \<le> n \<longrightarrow>
        (\<exists>h'. add_items h cmp ps = Some h' \<and> table_ok h' \<and> tableSize h' = tableSize h))"
proof -
  note sz = mzHashSize_val [OF assms(2)]
  have r: "1 < unat (mzHashSize (of_nat n))" "unat (mzHashSize (of_nat n)) \<le> 2 ^ 30"
    using assms by (simp_all add: sz)
  obtain h :: "('a, 's) hash_table" where h: "mzHashTableCreate (mzHashSize (of_nat n)) ff = Some (Some h)"
    "table_ok h" "n * 8 div 5 + 1 \<le> tableSize h" "tableSize h < 2 * (n * 8 div 5 + 1)"
    "numEntries h = 0" "numDeadEntries h = 0"
    using create_ok [OF r, of ff] by (auto simp: sz)
  have "tableSize h \<le> 2 ^ 28" using h(4) assms(2) by simp
  moreover have "int n * 8 \<le> int (tableSize h) * 5" using h(3) by simp
  ultimately have "\<exists>h'. add_items h cmp ps = Some h' \<and> table_ok h' \<and> tableSize h' = tableSize h"
    if "length ps \<le> n" for cmp ps
    using add_items_ok [OF h(2), of ps cmp] h(5,6) that by simp
  with h(1) show ?thesis by blast
qed

theorem hash_capacity_witness:
  "\<exists>h :: (nat, unit) hash_table. mzHashTableCreate (mzHashSize 3) None = Some (Some h) \<and>
     (\<exists>h'. add_items h (\<lambda>a b. int a - int b) [(1, 10), (9, 20), (1, 30)] = Some h' \<and>
           tableSize h' = tableSize h)"
proof -
  obtain h :: "(nat, unit) hash_table" where h: "mzHashTableCreate (mzHashSize 3) None = Some (Some h)"
    "\<And>cmp ps. length ps \<le> 3 \<Longrightarrow>
        \<exists>h'. add_items h cmp ps = Some h' \<and> table_ok h' \<and> tableSize h' = tableSize h"
    using hash_capacity [of 3 None] by auto
  have "\<exists>h'. add_items h (\<lambda>a b. int a - int b) [(1, 10), (9, 20), (1, 30)] = Some h' \<and>
           tableSize h' = tableSize h"
    using h(2) [of "[(1, 10), (9, 20), (1, 30)]" "\<lambda>a b. int a - int b"] by auto
  with h(1) show ?thesis by blast
qed

text \<open>
  \<open>mzHashTableClear\<close> empties the table, keeps its size and the invariant, and hands each live item
  to the free function exactly once, in slot order.
\<close>

theorem hash_clear:
  assumes "table_ok h"
  shows "\<exists>h' xs. mzHashTableClear h s = Some (h', free_all (freeFunc h) xs s) \<and>
     mset xs = image_mset snd (contents h) \<and> table_ok h' \<and> contents h' = {#} \<and>
     tableSize h' = tableSize h"
  using clear_ok [OF assms, of s] by (fastforce simp: contents_def)

theorem hash_clear_witness:
  "\<exists>(h :: (nat, nat list) hash_table) h'.
     mzHashTableCreate 2 (Some (#)) = Some (Some h) \<and> mzHashTableClear h [] = Some (h', [])"
proof -
  obtain h :: "(nat, nat list) hash_table" where h: "mzHashTableCreate 2 (Some (#)) = Some (Some h)"
    "table_ok h" "contents h = {#}"
    using create_ok [of 2 "Some (#)"] by auto
  from hash_clear [OF h(2), of "[]"] h(3) obtain h'
    where "mzHashTableClear h [] = Some (h', free_all (freeFunc h) [] [])" by auto
  with h(1) show ?thesis by (auto simp: free_all_def split: option.splits)
qed

end
