(* ===== verification/DirUtil.thy ===== *)
theory DirUtil
  imports Prelude
begin

text \<open>
  \<open>minzip/DirUtil.c\<close>: creating the directories a path needs.  The system calls are a parameter, the
  record \<open>sys_ops\<close> of functions over the state of the world; \<open>mode\<close> and \<open>timestamp\<close> are
  passed on to them.  Paths are strings; the pointer \<open>p\<close> that walks over \<open>cpath\<close> is the part
  before it and the part from it on.
\<close>

datatype stat_result = StatDir | StatLink | StatOther | StatErr int

record 'w sys_ops =
  sys_stat :: "string \<Rightarrow> 'w \<Rightarrow> stat_result \<times> 'w"
  sys_lstat :: "string \<Rightarrow> 'w \<Rightarrow> stat_result \<times> 'w"
  sys_mkdir :: "string \<Rightarrow> int \<Rightarrow> 'w \<Rightarrow> int \<times> 'w"
  sys_utime :: "string \<Rightarrow> 'w \<Rightarrow> int \<times> 'w"
  sys_symlink :: "string \<Rightarrow> string \<Rightarrow> 'w \<Rightarrow> int \<times> 'w"
  sys_creat :: "string \<Rightarrow> int \<Rightarrow> 'w \<Rightarrow> int \<times> 'w"
  sys_write :: "int \<Rightarrow> bytes \<Rightarrow> 'w \<Rightarrow> int \<times> int \<times> 'w"
  sys_close :: "int \<Rightarrow> 'w \<Rightarrow> 'w"

definition ENOENT :: int where "ENOENT = 2"

datatype dir_status = DMISSING | DDIR | DILLEGAL

definition getPathDirStatus :: "'w sys_ops \<Rightarrow> string \<Rightarrow> 'w \<Rightarrow> dir_status \<times> 'w" where
  "getPathDirStatus S path w =
     (let (st, w1) = sys_stat S path w
      in (case st of StatDir \<Rightarrow> DDIR
          | StatErr e \<Rightarrow> if e \<noteq> ENOENT then DILLEGAL else DMISSING
          | _ \<Rightarrow> DILLEGAL, w1))"

text \<open>The index of the last slash that is not the first character, as \<open>c\<close> finds it.\<close>

function strip_scan :: "string \<Rightarrow> nat \<Rightarrow> nat" where
  "strip_scan cpath c =
     (if c \<noteq> 0 \<and> cpath ! c \<noteq> CHR ''/'' then strip_scan cpath (c - 1) else c)"
  by pat_completeness auto
termination by (relation "measure snd") auto

definition prepare_path :: "string \<Rightarrow> bool \<Rightarrow> string option" where
  "prepare_path path stripFileName =
     (if path = [] then None
      else if stripFileName
      then (let c = strip_scan path (length path - 1)
            in if c = 0 then None else Some (take (c + 1) path))
      else Some (path @ ''/''))"

text \<open>
  The walk from the root: \<open>before\<close> is \<open>cpath\<close> up to \<open>p\<close>, \<open>rest\<close> what follows.  Reading on past the
  end of the string for a slash is undefined.
\<close>

function create_levels ::
  "'w sys_ops \<Rightarrow> int \<Rightarrow> bool \<Rightarrow> string \<Rightarrow> string \<Rightarrow> 'w \<Rightarrow> (int \<times> 'w) ub" where
  "create_levels S mode timestamp before rest w =
     (let slashes = takeWhile (\<lambda>c. c = CHR ''/'') rest;
          rest1 = dropWhile (\<lambda>c. c = CHR ''/'') rest
      in if rest1 = [] then Some (0, w)
         else let comp = takeWhile (\<lambda>c. c \<noteq> CHR ''/'') rest1;
                  rest2 = dropWhile (\<lambda>c. c \<noteq> CHR ''/'') rest1;
                  level = before @ slashes @ comp
              in if rest2 = [] then None
                 else let (ds, w1) = getPathDirStatus S level w
                      in case ds of
                           DILLEGAL \<Rightarrow> Some (- 1, w1)
                         | DMISSING \<Rightarrow>
                             (let (err, w2) = sys_mkdir S level mode w1
                              in if err \<noteq> 0 then Some (- 1, w2)
                                 else let (u, w3) = (if timestamp then sys_utime S level w2 else (0, w2))
                                      in if u \<noteq> 0 then Some (- 1, w3)
                                         else create_levels S mode timestamp level rest2 w3)
                         | DDIR \<Rightarrow> create_levels S mode timestamp level rest2 w1)"
  by pat_completeness auto

lemma level_progress:
  "dropWhile (\<lambda>c. c = CHR ''/'') rest \<noteq> [] \<Longrightarrow>
   length (dropWhile (\<lambda>c. c \<noteq> CHR ''/'') (dropWhile (\<lambda>c. c = CHR ''/'') rest)) < length rest"
proof -
  assume ne: "dropWhile (\<lambda>c. c = CHR ''/'') rest \<noteq> []"
  then obtain x xs where x: "dropWhile (\<lambda>c. c = CHR ''/'') rest = x # xs"
    by (cases "dropWhile (\<lambda>c. c = CHR ''/'') rest") auto
  then have x2: "x \<noteq> CHR ''/''" using hd_dropWhile [OF ne] by simp
  have "length (dropWhile (\<lambda>c. c \<noteq> CHR ''/'') xs) \<le> length xs" by (rule length_dropWhile_le)
  moreover have "length (x # xs) \<le> length rest" unfolding x [symmetric] by (rule length_dropWhile_le)
  ultimately show ?thesis using x x2 by simp
qed

termination create_levels
  by (relation "measure (\<lambda>(S, mode, ts, before, rest, w). length rest)")
     (simp_all add: level_progress)

definition dirCreateHierarchy ::
  "'w sys_ops \<Rightarrow> string \<Rightarrow> int \<Rightarrow> bool \<Rightarrow> bool \<Rightarrow> 'w \<Rightarrow> (int \<times> 'w) ub" where
  "dirCreateHierarchy S path mode timestamp stripFileName w =
     (case prepare_path path stripFileName of
        None \<Rightarrow> Some (- 1, w)
      | Some cpath \<Rightarrow>
          (let (ds, w1) = getPathDirStatus S cpath w
           in case ds of
                DDIR \<Rightarrow> Some (0, w1)
              | DILLEGAL \<Rightarrow> Some (- 1, w1)
              | DMISSING \<Rightarrow> create_levels S mode timestamp [] cpath w1))"

subsection \<open>The levels of a path\<close>

declare create_levels.simps [simp del] strip_scan.simps [simp del]

lemma strip_scan_le: "strip_scan p c \<le> c"
  by (induction p c rule: strip_scan.induct) (subst strip_scan.simps, auto)

lemma strip_scan_slash: "strip_scan p c \<noteq> 0 \<Longrightarrow> p ! strip_scan p c = CHR ''/''"
  by (induction p c rule: strip_scan.induct) (metis strip_scan.simps)

lemma prepare_path_slash:
  "prepare_path path strip = Some cpath \<Longrightarrow> cpath \<noteq> [] \<and> last cpath = CHR ''/''"
proof -
  assume p: "prepare_path path strip = Some cpath"
  show ?thesis
  proof (cases strip)
    case True
    let ?c = "strip_scan path (length path - 1)"
    have c: "?c \<noteq> 0" "path \<noteq> []" "cpath = take (?c + 1) path"
      using p True by (auto simp: prepare_path_def Let_def split: if_splits)
    then have "?c < length path" using strip_scan_le [of path "length path - 1"] by (cases path) auto
    then show ?thesis using c strip_scan_slash [OF c(1)] by (simp add: take_Suc_conv_app_nth)
  qed (use p in \<open>auto simp: prepare_path_def split: if_splits\<close>)
qed

lemma last_dropWhile: "dropWhile P xs \<noteq> [] \<Longrightarrow> last (dropWhile P xs) = last xs"
  by (induction xs) auto

lemma slash_ahead:
  "rest1 \<noteq> [] \<Longrightarrow> last rest1 = CHR ''/'' \<Longrightarrow> dropWhile (\<lambda>c. c \<noteq> CHR ''/'') rest1 \<noteq> []"
proof
  assume r: "rest1 \<noteq> []" "last rest1 = CHR ''/''" and "dropWhile (\<lambda>c. c \<noteq> CHR ''/'') rest1 = []"
  then have "\<forall>c\<in>set rest1. c \<noteq> CHR ''/''" by (simp only: dropWhile_eq_Nil_conv)
  with r last_in_set [OF r(1)] show False by simp
qed

text \<open>The walk never reads past the end of a path that ends in a slash.\<close>

lemma create_levels_total:
  "last (x # rest) = CHR ''/'' \<Longrightarrow> \<exists>r. create_levels S mode ts before rest w = Some r"
proof (induction "length rest" arbitrary: rest before w x rule: less_induct)
  case less
  let ?rest1 = "dropWhile (\<lambda>c. c = CHR ''/'') rest"
  let ?rest2 = "dropWhile (\<lambda>c. c \<noteq> CHR ''/'') ?rest1"
  let ?level = "before @ takeWhile (\<lambda>c. c = CHR ''/'') rest @ takeWhile (\<lambda>c. c \<noteq> CHR ''/'') ?rest1"
  show ?case
  proof (cases "?rest1 = []")
    case True
    then show ?thesis by (subst create_levels.simps) simp
  next
    case ne: False
    then have "rest \<noteq> []" by auto
    then have "last rest = CHR ''/''" using less.prems by simp
    then have l1: "last ?rest1 = CHR ''/''" by (simp only: last_dropWhile [OF ne])
    have ne2: "?rest2 \<noteq> []" by (rule slash_ahead [OF ne l1])
    have l2: "last (x # ?rest2) = CHR ''/''" 
      by (simp only: last_ConsR [OF ne2] last_dropWhile [OF ne2] l1)
    have D: "\<exists>r. create_levels S mode ts ?level ?rest2 w' = Some r" for w'
      by (rule less.hyps [OF level_progress [OF ne] l2])
    obtain ds w1 where ds: "getPathDirStatus S ?level w = (ds, w1)" by fastforce
    obtain err w2 where mk: "sys_mkdir S ?level mode w1 = (err, w2)" by fastforce
    obtain u w3 where u: "(if ts then sys_utime S ?level w2 else (0, w2)) = (u, w3)" by fastforce
    have eq: "create_levels S mode ts before rest w =
        (case ds of
           DILLEGAL \<Rightarrow> Some (- 1, w1)
         | DMISSING \<Rightarrow> (if err \<noteq> 0 then Some (- 1, w2)
                       else if u \<noteq> 0 then Some (- 1, w3) else create_levels S mode ts ?level ?rest2 w3)
         | DDIR \<Rightarrow> create_levels S mode ts ?level ?rest2 w1)"
      by (subst create_levels.simps) (simp only: Let_def ne ne2 ds mk u if_False prod.case)
    show ?thesis unfolding eq using D [of w1] D [of w3] by (cases ds) simp_all
  qed
qed

lemma dirCreate_total: "\<exists>r. dirCreateHierarchy S path mode ts strip w = Some r"
proof (cases "prepare_path path strip")
  case (Some cpath)
  then have "last (CHR ''/'' # cpath) = CHR ''/''" using prepare_path_slash by fastforce
  from create_levels_total [OF this] show ?thesis
    by (cases "getPathDirStatus S cpath w"; cases "fst (getPathDirStatus S cpath w)")
       (simp_all add: dirCreateHierarchy_def Some)
qed (simp add: dirCreateHierarchy_def)

text \<open>The directories on the way to \<open>rest\<close>, outermost first.\<close>

function levels :: "string \<Rightarrow> string \<Rightarrow> string list" where
  "levels before rest =
     (let rest1 = dropWhile (\<lambda>c. c = CHR ''/'') rest
      in if rest1 = [] then []
         else let level = before @ takeWhile (\<lambda>c. c = CHR ''/'') rest @ takeWhile (\<lambda>c. c \<noteq> CHR ''/'') rest1
              in level # levels level (dropWhile (\<lambda>c. c \<noteq> CHR ''/'') rest1))"
  by pat_completeness auto
termination by (relation "measure (\<lambda>(before, rest). length rest)") (simp_all add: level_progress)

declare levels.simps [simp del]

text \<open>One level: an existing directory is kept, a missing one is made and stamped.\<close>

definition make_level :: "'w sys_ops \<Rightarrow> int \<Rightarrow> bool \<Rightarrow> string \<Rightarrow> 'w \<Rightarrow> bool \<times> 'w" where
  "make_level S mode ts level w =
     (let (ds, w1) = getPathDirStatus S level w
      in case ds of
           DILLEGAL \<Rightarrow> (False, w1)
         | DDIR \<Rightarrow> (True, w1)
         | DMISSING \<Rightarrow>
             (let (err, w2) = sys_mkdir S level mode w1
              in if err \<noteq> 0 then (False, w2)
                 else let (u, w3) = (if ts then sys_utime S level w2 else (0, w2)) in (u = 0, w3)))"

fun make_levels :: "'w sys_ops \<Rightarrow> int \<Rightarrow> bool \<Rightarrow> string list \<Rightarrow> 'w \<Rightarrow> int \<times> 'w" where
  "make_levels S mode ts [] w = (0, w)"
| "make_levels S mode ts (l # ls) w =
     (let (ok, w1) = make_level S mode ts l w
      in if ok then make_levels S mode ts ls w1 else (- 1, w1))"

lemma create_levels_eq:
  "last (x # rest) = CHR ''/'' \<Longrightarrow>
   create_levels S mode ts before rest w = Some (make_levels S mode ts (levels before rest) w)"
proof (induction "length rest" arbitrary: rest before w x rule: less_induct)
  case less
  let ?rest1 = "dropWhile (\<lambda>c. c = CHR ''/'') rest"
  let ?rest2 = "dropWhile (\<lambda>c. c \<noteq> CHR ''/'') ?rest1"
  let ?level = "before @ takeWhile (\<lambda>c. c = CHR ''/'') rest @ takeWhile (\<lambda>c. c \<noteq> CHR ''/'') ?rest1"
  show ?case
  proof (cases "?rest1 = []")
    case True
    then show ?thesis by (subst create_levels.simps, subst levels.simps) simp
  next
    case ne: False
    then have "rest \<noteq> []" by auto
    then have "last rest = CHR ''/''" using less.prems by simp
    then have l1: "last ?rest1 = CHR ''/''" by (simp only: last_dropWhile [OF ne])
    have ne2: "?rest2 \<noteq> []" by (rule slash_ahead [OF ne l1])
    have l2: "last (x # ?rest2) = CHR ''/''"
      by (simp only: last_ConsR [OF ne2] last_dropWhile [OF ne2] l1)
    have IH: "create_levels S mode ts ?level ?rest2 w'
        = Some (make_levels S mode ts (levels ?level ?rest2) w')" for w'
      by (rule less.hyps [OF level_progress [OF ne] l2])
    obtain ds w1 where ds: "getPathDirStatus S ?level w = (ds, w1)" by fastforce
    obtain err w2 where mk: "sys_mkdir S ?level mode w1 = (err, w2)" by fastforce
    obtain u w3 where u: "(if ts then sys_utime S ?level w2 else (0, w2)) = (u, w3)" by fastforce
    have eq: "create_levels S mode ts before rest w =
        (case ds of
           DILLEGAL \<Rightarrow> Some (- 1, w1)
         | DMISSING \<Rightarrow> (if err \<noteq> 0 then Some (- 1, w2)
                       else if u \<noteq> 0 then Some (- 1, w3) else create_levels S mode ts ?level ?rest2 w3)
         | DDIR \<Rightarrow> create_levels S mode ts ?level ?rest2 w1)"
      by (subst create_levels.simps) (simp only: Let_def ne ne2 ds mk u if_False prod.case)
    have ml: "make_level S mode ts ?level w =
        (case ds of DILLEGAL \<Rightarrow> (False, w1) | DDIR \<Rightarrow> (True, w1)
         | DMISSING \<Rightarrow> if err \<noteq> 0 then (False, w2) else (u = 0, w3))"
      unfolding make_level_def by (simp only: Let_def ds mk u prod.case)
    have lv: "levels before rest = ?level # levels ?level ?rest2"
      by (subst levels.simps) (simp only: Let_def ne if_False)
    show ?thesis unfolding eq lv make_levels.simps ml IH by (cases ds) simp_all
  qed
qed

lemma dirCreate_eq:
  "dirCreateHierarchy S path mode ts strip w =
     Some (case prepare_path path strip of
             None \<Rightarrow> (- 1, w)
           | Some cpath \<Rightarrow>
               (case getPathDirStatus S cpath w of
                  (DDIR, w1) \<Rightarrow> (0, w1) | (DILLEGAL, w1) \<Rightarrow> (- 1, w1)
                | (DMISSING, w1) \<Rightarrow> make_levels S mode ts (levels [] cpath) w1))"
proof (cases "prepare_path path strip")
  case (Some cpath)
  have l: "last (CHR ''/'' # cpath) = CHR ''/''" using prepare_path_slash [OF Some] by simp
  show ?thesis
    by (cases "getPathDirStatus S cpath w"; cases "fst (getPathDirStatus S cpath w)")
       (simp_all add: dirCreateHierarchy_def Some create_levels_eq [OF l])
qed (simp add: dirCreateHierarchy_def)

lemma make_levels_dirs:
  assumes stat: "\<And>p w. sys_stat S p w = (if p \<in> D w then StatDir else StatErr ENOENT, w)"
    and mkdir: "\<And>p w w'. sys_mkdir S p mode w = (0, w') \<Longrightarrow> D w' = insert p (D w)"
    and utime: "\<And>p w r w'. sys_utime S p w = (r, w') \<Longrightarrow> D w' = D w"
  shows "make_levels S mode ts ls w = (0, w') \<Longrightarrow> D w' = D w \<union> set ls"
proof (induction ls arbitrary: w)
  case (Cons l ls)
  obtain w1 where w1: "make_level S mode ts l w = (True, w1)" "make_levels S mode ts ls w1 = (0, w')"
    using Cons.prems by (auto split: prod.splits if_splits)
  have "D w1 = insert l (D w)"
  proof (cases "l \<in> D w")
    case True
    then show ?thesis using w1(1) by (auto simp: make_level_def getPathDirStatus_def stat)
  next
    case False
    obtain err w2 where mk: "sys_mkdir S l mode w = (err, w2)" by fastforce
    obtain u w3 where u: "(if ts then sys_utime S l w2 else (0, w2)) = (u, w3)" by fastforce
    have "err = 0" "w1 = w3"
      using w1(1) False by (auto simp: make_level_def getPathDirStatus_def stat mk u split: if_splits)
    moreover have "D w3 = D w2" using u utime by (auto split: if_splits)
    ultimately show ?thesis using mkdir mk by simp
  qed
  with Cons.IH [OF w1(2)] show ?case by auto
qed simp

subsection \<open>Properties\<close>


text \<open>
  Over a file system whose \<open>stat\<close> reports the directories of \<open>D\<close> and whose successful \<open>mkdir\<close>
  adds one, \<open>dirCreateHierarchy\<close> answers 0 only when the whole path was there already or when, at
  the end, every level of it is a directory; and it adds no directory that is not a level of it.
\<close>

theorem dir_create_levels:
  assumes "\<And>p w. sys_stat S p w = (if p \<in> D w then StatDir else StatErr ENOENT, w)"
    and "\<And>p w w'. sys_mkdir S p mode w = (0, w') \<Longrightarrow> D w' = insert p (D w)"
    and "\<And>p w r w'. sys_utime S p w = (r, w') \<Longrightarrow> D w' = D w"
    and "dirCreateHierarchy S path mode ts strip w = Some (0, w')"
  shows "\<exists>cpath. prepare_path path strip = Some cpath \<and>
           (if cpath \<in> D w then w' = w else D w' = D w \<union> set (levels [] cpath))"
proof -
  obtain cpath where c: "prepare_path path strip = Some cpath"
    using assms(4) by (cases "prepare_path path strip") (auto simp: dirCreate_eq)
  show ?thesis
  proof (cases "cpath \<in> D w")
    case True
    then show ?thesis using assms(4) by (simp add: dirCreate_eq c getPathDirStatus_def assms(1))
  next
    case False
    then have "make_levels S mode ts (levels [] cpath) w = (0, w')"
      using assms(4) by (simp add: dirCreate_eq c getPathDirStatus_def assms(1))
    from make_levels_dirs [OF assms(1,2,3) this] show ?thesis using c False by simp
  qed
qed

definition toy_fs :: "string set sys_ops" where
  "toy_fs = \<lparr>sys_stat = (\<lambda>p w. (if p \<in> w then StatDir else StatErr ENOENT, w)),
     sys_lstat = (\<lambda>p w. (if p \<in> w then StatDir else StatErr ENOENT, w)),
     sys_mkdir = (\<lambda>p m w. (0, insert p w)), sys_utime = (\<lambda>p w. (0, w)),
     sys_symlink = (\<lambda>t p w. (0, w)), sys_creat = (\<lambda>p m w. (3, w)),
     sys_write = (\<lambda>fd d w. (int (length d), 0, w)), sys_close = (\<lambda>fd w. w)\<rparr>"

theorem dir_create_levels_witness:
  "\<exists>w'. dirCreateHierarchy toy_fs ''/a/b/f'' 493 False True {''/a''} = Some (0, w') \<and>
        w' = {''/a'', ''/a/b''}"
proof -
  have p: "prepare_path ''/a/b/f'' True = Some ''/a/b/''" by code_simp
  have l: "levels [] ''/a/b/'' = [''/a'', ''/a/b'']" by code_simp
  have "fst (make_levels toy_fs 493 False [''/a'', ''/a/b''] {''/a''}) = 0" by code_simp
  moreover have "getPathDirStatus toy_fs ''/a/b/'' {''/a''} = (DMISSING, {''/a''})"
    by (simp add: getPathDirStatus_def toy_fs_def ENOENT_def)
  ultimately obtain w' where
    w': "dirCreateHierarchy toy_fs ''/a/b/f'' 493 False True {''/a''} = Some (0, w')"
    by (cases "make_levels toy_fs 493 False [''/a'', ''/a/b''] {''/a''}") (simp add: dirCreate_eq p l)
  have "w' = {''/a'', ''/a/b''}"
  proof -
    have st: "sys_stat toy_fs p w = (if p \<in> w then StatDir else StatErr ENOENT, w)" for p w
      by (simp add: toy_fs_def)
    have mk: "sys_mkdir toy_fs p 493 w = (0, w') \<Longrightarrow> w' = insert p w" for p w w'
      by (simp add: toy_fs_def)
    have ut: "sys_utime toy_fs p w = (r, w') \<Longrightarrow> w' = w" for p w r w'
      by (simp add: toy_fs_def)
    have "\<exists>cpath. prepare_path ''/a/b/f'' True = Some cpath \<and>
        (if cpath \<in> {''/a''} then w' = {''/a''} else w' = {''/a''} \<union> set (levels [] cpath))"
      by (rule dir_create_levels [where D = "\<lambda>w. w", OF st mk ut w'])
    then have "w' = {''/a''} \<union> set (levels [] ''/a/b/'')" by (simp add: p del: levels.simps)
    then show ?thesis unfolding l by auto
  qed
  with w' show ?thesis by blast
qed

end
