(* ===== verification/ZipArchive.thy ===== *)
theory ZipArchive
  imports Prelude SafeIop ByteOrder HashTable
begin

text \<open>
  Reading the central directory of a zip file: \<open>minzip/Zip.c\<close> up to \<open>mzIsZipEntrySymlink\<close>, and the
  accessors of \<open>minzip/Zip.h\<close>.  The mapped file is a list of bytes at an address; a pointer into
  it is an index.  An entry's \<open>fileName\<close> is the \<open>fileNameLen\<close> bytes it points at; the table
  files indices of the entry array, as the code files pointers into it.
\<close>

subsection \<open>Constants and types\<close>

definition CENSIG :: u32 where "CENSIG = 0x02014b50"
definition ENDSIG :: u32 where "ENDSIG = 0x06054b50"
definition LOCSIG :: u32 where "LOCSIG = 0x04034b50"
definition CENVEM_UNIX :: int where "CENVEM_UNIX = 768"
definition PATH_MAX :: nat where "PATH_MAX = 4096"

record zip_entry =
  fileName :: bytes
  offset :: int
  compLen :: int
  uncompLen :: int
  compression :: int
  modTime :: int
  crc :: int
  versionMadeBy :: int
  externalFileAttributes :: int

abbreviation fileNameLen :: "zip_entry \<Rightarrow> nat" where
  "fileNameLen e \<equiv> length (fileName e)"

record mem_mapping =
  addr :: u64
  mem :: bytes

type_synonym entry_table = "(nat, unit) hash_table"

record zip_archive =
  zFd :: int
  zNumEntries :: nat
  zEntries :: "zip_entry list"
  zHash :: "entry_table option"
  zMap :: "mem_mapping option"

subsection \<open>Names\<close>

definition memcmp :: "bytes \<Rightarrow> bytes \<Rightarrow> int" where
  "memcmp a b = (if a = b then 0 else if a < b then - 1 else 1)"

text \<open>\<open>strncmp\<close> of the C library: it stops at a difference, at a NUL or after \<open>n\<close> bytes.\<close>

fun strncmp :: "bytes \<Rightarrow> bytes \<Rightarrow> nat \<Rightarrow> int" where
  "strncmp (a # as) (b # bs) (Suc n) =
     (if a \<noteq> b then uint a - uint b else if a = 0 then 0 else strncmp as bs n)"
| "strncmp _ _ _ = 0"

definition hashcmpZipEntry :: "zip_entry list \<Rightarrow> nat \<Rightarrow> nat \<Rightarrow> int" where
  "hashcmpZipEntry es i j =
     (if fileNameLen (es ! i) \<noteq> fileNameLen (es ! j)
      then int (fileNameLen (es ! i)) - int (fileNameLen (es ! j))
      else memcmp (fileName (es ! i)) (fileName (es ! j)))"

definition hashcmpZipName :: "zip_entry list \<Rightarrow> nat \<Rightarrow> bytes \<Rightarrow> int" where
  "hashcmpZipName es i name =
     (if fileNameLen (es ! i) \<noteq> length name
      then int (fileNameLen (es ! i)) - int (length name)
      else memcmp (fileName (es ! i)) name)"

definition computeHash :: "bytes \<Rightarrow> u32" where
  "computeHash name = foldl (\<lambda>hash c. hash * 31 + ucast c) 2 name"

definition addEntryToHashTable :: "zip_entry list \<Rightarrow> entry_table \<Rightarrow> nat \<Rightarrow> entry_table ub" where
  "addEntryToHashTable es pHash i =
     do { (pHash', found) \<leftarrow> table_insert pHash (computeHash (fileName (es ! i))) i
                                (hashcmpZipEntry es);
          Some pHash' }"

definition validFilename :: "bytes \<Rightarrow> bool" where
  "validFilename name \<longleftrightarrow> length name < PATH_MAX \<and> (\<forall>c\<in>set name. \<not> (c < 32 \<or> c \<ge> 127))"

subsection \<open>Parsing\<close>

text \<open>The scan for the end-of-central-directory record, downwards from \<open>ptr\<close>.\<close>

function eocd_scan :: "bytes \<Rightarrow> int \<Rightarrow> int ub" where
  "eocd_scan m ptr =
     (if ptr < 0 then Some ptr
      else do { c \<leftarrow> rd m (nat ptr);
                if c = ucast (ENDSIG AND 0xff)
                then do { v \<leftarrow> get4LE m (nat ptr);
                          if v = ENDSIG then Some ptr else eocd_scan m (ptr - 1) }
                else eocd_scan m (ptr - 1) })"
  by pat_completeness auto
termination by (relation "measure (\<lambda>(m, ptr). nat (ptr + 1))") auto

text \<open>
  The order of the entry array: \<open>strncmp\<close> over the shorter length, then the lengths.
\<close>

definition name_diff :: "bytes \<Rightarrow> bytes \<Rightarrow> int" where
  "name_diff mid name =
     (let diffLen = (if length mid < length name then length mid else length name);
          diff = strncmp mid name diffLen
      in if diff = 0 then int (length mid) - int (length name) else diff)"

function entry_search :: "zip_entry list \<Rightarrow> bytes \<Rightarrow> int \<Rightarrow> int \<Rightarrow> int" where
  "entry_search es name low high =
     (if low \<le> high
      then let mid = low + (high - low) div 2;
               diff = name_diff (fileName (es ! nat mid)) name
           in if diff < 0 then entry_search es name (mid + 1) high
              else if diff > 0 then entry_search es name low (mid - 1)
              else mid
      else high)"
  by pat_completeness auto
termination
proof (relation "measure (\<lambda>(es, name, low, high). nat (high - low + 1))")
  fix es name and low high mid diff :: int
  assume a: "low \<le> high" "mid = low + (high - low) div 2"
  then have "low \<le> mid" "mid \<le> high" by auto
  then show "((es, name, mid + 1, high), es, name, low, high)
      \<in> measure (\<lambda>(es, name, low, high). nat (high - low + 1))"
    "((es, name, low, mid - 1), es, name, low, high)
      \<in> measure (\<lambda>(es, name, low, high). nat (high - low + 1))"
    using a(1) by auto
qed simp

definition insert_position :: "zip_entry list \<Rightarrow> bytes \<Rightarrow> nat" where
  "insert_position es name =
     (if length es > 0 then nat (entry_search es name 0 (int (length es) - 1) + 1) else 0)"

text \<open>
  One round of the loop over the central directory: \<open>Some None\<close> is a \<open>goto bail\<close>.  The entry
  array holds the \<open>i\<close> entries read so far; making room at \<open>target\<close> and filling the new slot
  is an insertion in the middle of the list.
\<close>

definition parse_entry ::
  "mem_mapping \<Rightarrow> zip_entry list \<Rightarrow> nat \<Rightarrow> (zip_entry list \<times> nat) option ub" where
  "parse_entry pMap es ptr =
     (let m = mem pMap in
      if ptr + 46 > length m then Some None
      else do {
        sig \<leftarrow> get4LE m ptr;
        if sig \<noteq> CENSIG then Some None
        else do {
          localHdrOffset \<leftarrow> get4LE m (ptr + 42);
          nameLen \<leftarrow> get2LE m (ptr + 28);
          extraLen \<leftarrow> get2LE m (ptr + 30);
          commentLen \<leftarrow> get2LE m (ptr + 32);
          if ptr + 46 + unat nameLen > length m then Some None
          else do {
            name \<leftarrow> rd_slice m (ptr + 46) (unat nameLen);
            if \<not> validFilename name then Some None
            else do {
              let target = insert_position es name;
              (if target \<le> length es then Some () else None);
              comp \<leftarrow> get4LE m (ptr + 20);
              uncomp \<leftarrow> get4LE m (ptr + 24);
              how \<leftarrow> get2LE m (ptr + 10);
              tim \<leftarrow> get4LE m (ptr + 12);
              c32 \<leftarrow> get4LE m (ptr + 16);
              vem \<leftarrow> get2LE m (ptr + 4);
              if uint vem AND 0xff00 \<noteq> 0 \<and> uint vem AND 0xff00 \<noteq> CENVEM_UNIX then Some None
              else do {
                atx \<leftarrow> get4LE m (ptr + 38);
                if safe_uadd (addr pMap) (ucast localHdrOffset) = None then Some None
                else if unat localHdrOffset + 30 > length m then Some None
                else do {
                  locsig \<leftarrow> get4LE m (unat localHdrOffset);
                  if locsig \<noteq> LOCSIG then Some None
                  else do {
                    locnam \<leftarrow> get2LE m (unat localHdrOffset + 26);
                    locext \<leftarrow> get2LE m (unat localHdrOffset + 28);
                    let off = localHdrOffset + 30 + ucast locnam + ucast locext;
                    if safe_sadd (ucast off :: u64) (ucast comp) = None then Some None
                    else if unat off + unat comp > length m then Some None
                    else Some (Some
                      (take target es @
                         \<lparr>fileName = name, offset = uint off, compLen = uint comp,
                          uncompLen = uint uncomp, compression = uint how, modTime = uint tim,
                          crc = uint c32, versionMadeBy = uint vem,
                          externalFileAttributes = uint atx\<rparr> # drop target es,
                       ptr + (46 + unat nameLen + unat extraLen + unat commentLen))) }}}}}}})"

fun parse_loop :: "nat \<Rightarrow> mem_mapping \<Rightarrow> zip_entry list \<Rightarrow> nat \<Rightarrow> zip_entry list option ub" where
  "parse_loop 0 pMap es ptr = Some (Some es)"
| "parse_loop (Suc n) pMap es ptr =
     do { r \<leftarrow> parse_entry pMap es ptr;
          case r of None \<Rightarrow> Some None | Some (es', ptr') \<Rightarrow> parse_loop n pMap es' ptr' }"

fun hash_loop :: "zip_entry list \<Rightarrow> nat list \<Rightarrow> entry_table \<Rightarrow> entry_table ub" where
  "hash_loop es [] h = Some h"
| "hash_loop es (i # is) h =
     do { h' \<leftarrow> addEntryToHashTable es h i; hash_loop es is h' }"

text \<open>
  \<open>parseZipArchive\<close>: the entries and their table, or \<open>Some None\<close> for \<open>false\<close>, when the code frees the
  table again.
\<close>

definition parseZipArchive :: "mem_mapping \<Rightarrow> (zip_entry list \<times> entry_table) option ub" where
  "parseZipArchive pMap =
     (let m = mem pMap in
      do {
        val \<leftarrow> get4LE m 0;
        if val = ENDSIG then Some None
        else if val \<noteq> LOCSIG then Some None
        else do {
          ptr \<leftarrow> eocd_scan m (int (length m) - 22);
          if ptr < 0 then Some None
          else do {
            num \<leftarrow> get2LE m (nat ptr + 8);
            cdOffset \<leftarrow> get4LE m (nat ptr + 16);
            if num = 0 \<or> unat cdOffset \<ge> length m then Some None
            else do {
              pHash \<leftarrow> mzHashTableCreate (mzHashSize (ucast num)) None;
              case pHash of
                None \<Rightarrow> Some None
              | Some h \<Rightarrow> do {
                  r \<leftarrow> parse_loop (unat num) pMap [] (unat cdOffset);
                  case r of
                    None \<Rightarrow> Some None
                  | Some es \<Rightarrow> do { h' \<leftarrow> hash_loop es [0..<unat num] h;
                                   Some (Some (es, h')) }}}}}})"

subsection \<open>Opening, closing, searching\<close>

text \<open>What the calls release: descriptors and mappings.\<close>

datatype release = CloseFd int | ReleaseShmem mem_mapping

definition mzCloseZipArchive :: "zip_archive \<Rightarrow> (zip_archive \<times> release list) ub" where
  "mzCloseZipArchive a =
     do { u \<leftarrow> mzHashTableFree (zHash a) ();
          Some (a\<lparr>zFd := - 1, zHash := None, zEntries := []\<rparr>,
            (if zFd a \<ge> 0 then [CloseFd (zFd a)] else []) @
            (case zMap a of None \<Rightarrow> [] | Some m \<Rightarrow> [ReleaseShmem m])) }"

text \<open>
  \<open>mzOpenZipArchive\<close>, given what \<open>open\<close> returned with its \<open>errno\<close> and what \<open>sysMapFileInShmem\<close> mapped
  (\<open>None\<close>: it failed).
\<close>

definition mzOpenZipArchive ::
  "int \<Rightarrow> int \<Rightarrow> mem_mapping option \<Rightarrow> (int \<times> zip_archive \<times> release list) ub" where
  "mzOpenZipArchive fd errno mapped =
     (let blank = \<lparr>zFd = fd, zNumEntries = 0, zEntries = [], zHash = None, zMap = None\<rparr>;
          fail = (\<lambda>err maps. do { (a, rel) \<leftarrow> mzCloseZipArchive blank;
                                 Some (err, a, rel @ map ReleaseShmem maps) })
      in if fd < 0 then fail (if errno \<noteq> 0 then errno else - 1) []
         else case mapped of
           None \<Rightarrow> fail (- 1) []
         | Some m \<Rightarrow>
             if length (mem m) < 22 then fail (- 1) [m]
             else do {
               r \<leftarrow> parseZipArchive m;
               case r of
                 None \<Rightarrow> fail (- 1) [m]
               | Some (es, h) \<Rightarrow>
                   Some (0, blank\<lparr>zNumEntries := length es, zEntries := es, zHash := Some h,
                                  zMap := Some m\<rparr>, []) })"

definition mzFindZipEntry :: "zip_archive \<Rightarrow> bytes \<Rightarrow> nat option ub" where
  "mzFindZipEntry a entryName =
     (case zHash a of
        None \<Rightarrow> None
      | Some h \<Rightarrow> table_search h (computeHash entryName) entryName (hashcmpZipName (zEntries a)))"

definition S_ISLNK :: "int \<Rightarrow> bool" where
  "S_ISLNK mode \<longleftrightarrow> mode AND 0xF000 = 0xA000"

definition mzIsZipEntrySymlink :: "zip_entry \<Rightarrow> bool" where
  "mzIsZipEntrySymlink e \<longleftrightarrow>
     (if versionMadeBy e AND 0xff00 = CENVEM_UNIX
      then S_ISLNK (drop_bit 16 (externalFileAttributes e)) else False)"

definition mzZipEntryCount :: "zip_archive \<Rightarrow> nat" where
  "mzZipEntryCount a = zNumEntries a"

definition mzGetZipEntryAt :: "zip_archive \<Rightarrow> nat \<Rightarrow> zip_entry option" where
  "mzGetZipEntryAt a i = (if i < zNumEntries a then Some (zEntries a ! i) else None)"

declare eocd_scan.simps [simp del] entry_search.simps [simp del]

subsection \<open>Every read of the parser is inside the mapping\<close>

definition val2 :: "bytes \<Rightarrow> nat \<Rightarrow> u16" where "val2 m p = the (get2LE m p)"
definition val4 :: "bytes \<Rightarrow> nat \<Rightarrow> u32" where "val4 m p = the (get4LE m p)"

lemma get2_val: "p + 2 \<le> length m \<Longrightarrow> get2LE m p = Some (val2 m p)"
  using get2LE_in [of p m] by (auto simp: val2_def)

lemma get4_val: "p + 4 \<le> length m \<Longrightarrow> get4LE m p = Some (val4 m p)"
  using get4LE_in [of p m] by (auto simp: val4_def)

text \<open>The record the scan finds is the last one that fits.\<close>

lemma eocd_scan_ok:
  assumes "ptr + 22 \<le> int (length m)" "- 1 \<le> ptr"
  shows "\<exists>p. eocd_scan m ptr = Some p \<and> - 1 \<le> p \<and> p \<le> ptr \<and>
     (0 \<le> p \<longrightarrow> get4LE m (nat p) = Some ENDSIG) \<and>
     (\<forall>q. max p (-1) < q \<and> q \<le> ptr \<longrightarrow> get4LE m (nat q) \<noteq> Some ENDSIG)"
  using assms
proof (induction m ptr rule: eocd_scan.induct)
  case (1 m ptr)
  show ?case
  proof (cases "ptr < 0")
    case True
    then show ?thesis using "1.prems" by (subst eocd_scan.simps) auto
  next
    case False
    then have l: "nat ptr + 4 \<le> length m" "nat ptr < length m" using "1.prems" by auto
    obtain v where v: "get4LE m (nat ptr) = Some v" using get4LE_in [OF l(1)] by blast
    have lowbyte: "m ! nat ptr = ucast (ENDSIG AND 0xff)" if "v = ENDSIG"
    proof -
      have "v = ucast (m ! nat ptr) OR push_bit 8 (ucast (m ! (nat ptr + 1))) OR
               push_bit 16 (ucast (m ! (nat ptr + 2))) OR push_bit 24 (ucast (m ! (nat ptr + 3)))"
        using v l(1) by (simp add: get4LE_def rd_def)
      then have "(ucast v :: byte) = m ! nat ptr"
        by (simp only:) (rule bit_word_eqI, auto simp: bit_simps)
      then show ?thesis unfolding that ENDSIG_def by simp
    qed
    have rd: "rd m (nat ptr) = Some (m ! nat ptr)" using l by (simp add: rd_def)
    show ?thesis
    proof (cases "v = ENDSIG")
      case True
      then show ?thesis using False v rd lowbyte by (subst eocd_scan.simps) auto
    next
      case vn: False
      have step: "eocd_scan m ptr = eocd_scan m (ptr - 1)"
        using False v vn rd by (subst eocd_scan.simps) auto
      have "\<exists>p. eocd_scan m (ptr - 1) = Some p \<and> - 1 \<le> p \<and> p \<le> ptr - 1 \<and>
        (0 \<le> p \<longrightarrow> get4LE m (nat p) = Some ENDSIG) \<and>
        (\<forall>q. max p (-1) < q \<and> q \<le> ptr - 1 \<longrightarrow> get4LE m (nat q) \<noteq> Some ENDSIG)"
      proof (cases "m ! nat ptr = ucast (ENDSIG AND 0xff)")
        case True
        show ?thesis by (rule "1.IH"(1) [OF False rd True v vn]) (use "1.prems" False in auto)
      next
        case neq: False
        show ?thesis by (rule "1.IH"(2) [OF False rd neq]) (use "1.prems" False in auto)
      qed
      then obtain p where p: "eocd_scan m (ptr - 1) = Some p" "- 1 \<le> p" "p \<le> ptr - 1"
        "0 \<le> p \<longrightarrow> get4LE m (nat p) = Some ENDSIG"
        "\<forall>q. max p (-1) < q \<and> q \<le> ptr - 1 \<longrightarrow> get4LE m (nat q) \<noteq> Some ENDSIG" by blast
      have "\<forall>q. max p (-1) < q \<and> q \<le> ptr \<longrightarrow> get4LE m (nat q) \<noteq> Some ENDSIG"
        using p(5) v vn by (metis int_one_le_iff_zero_less le_less option.inject zle_diff1_eq)
      then show ?thesis using p step by auto
    qed
  qed
qed

lemma entry_search_step:
  "entry_search es name low high =
     (if low \<le> high
      then let mid = low + (high - low) div 2;
               diff = name_diff (fileName (es ! nat mid)) name
           in if diff < 0 then entry_search es name (mid + 1) high
              else if diff > 0 then entry_search es name low (mid - 1)
              else mid
      else high)"
  by (rule entry_search.simps)

lemma mid_range: "low \<le> high \<Longrightarrow> low \<le> low + (high - low) div 2 \<and> low + (high - low) div 2 \<le> high"
  for low high :: int by auto

lemma entry_search_range:
  "low \<le> high + 1 \<Longrightarrow> low - 1 \<le> entry_search es name low high \<and> entry_search es name low high \<le> high"
proof (induction es name low high rule: entry_search.induct)
  case (1 es name low high)
  define mid where "mid = low + (high - low) div 2"
  define diff where "diff = name_diff (fileName (es ! nat mid)) name"
  show ?case
  proof (cases "low \<le> high")
    case True
    have m: "low \<le> mid" "mid \<le> high" using mid_range [OF True] by (simp_all add: mid_def)
    have eq: "entry_search es name low high =
        (if diff < 0 then entry_search es name (mid + 1) high
         else if diff > 0 then entry_search es name low (mid - 1) else mid)"
      using True by (subst entry_search_step) (simp add: Let_def mid_def diff_def)
    have i1: "diff < 0 \<Longrightarrow> mid \<le> entry_search es name (mid + 1) high \<and> entry_search es name (mid + 1) high \<le> high"
      using "1.IH"(1) [OF True mid_def diff_def] m by simp
    have i2: "diff > 0 \<Longrightarrow> low - 1 \<le> entry_search es name low (mid - 1) \<and> entry_search es name low (mid - 1) \<le> mid - 1"
      using "1.IH"(2) [OF True mid_def diff_def] m by simp
    consider "diff < 0" | "diff > 0" | "diff = 0" by linarith
    then show ?thesis using i1 i2 m by cases (simp_all add: eq)
  next
    case False
    then show ?thesis using "1.prems" by (subst (1 2) entry_search_step) simp
  qed
qed

lemma insert_position_le: "insert_position es name \<le> length es"
  using entry_search_range [of 0 "int (length es) - 1" es name]
  by (auto simp: insert_position_def)

text \<open>The entry a round makes of the record at \<open>ptr\<close>, and the conditions under which it goes on.\<close>

definition local_offset :: "bytes \<Rightarrow> nat \<Rightarrow> u32" where
  "local_offset m ptr =
     (let l = val4 m (ptr + 42)
      in l + 30 + ucast (val2 m (unat l + 26)) + ucast (val2 m (unat l + 28)))"

definition entry_at :: "bytes \<Rightarrow> nat \<Rightarrow> zip_entry" where
  "entry_at m ptr =
     \<lparr>fileName = take (unat (val2 m (ptr + 28))) (drop (ptr + 46) m),
      offset = uint (local_offset m ptr), compLen = uint (val4 m (ptr + 20)),
      uncompLen = uint (val4 m (ptr + 24)), compression = uint (val2 m (ptr + 10)),
      modTime = uint (val4 m (ptr + 12)), crc = uint (val4 m (ptr + 16)),
      versionMadeBy = uint (val2 m (ptr + 4)), externalFileAttributes = uint (val4 m (ptr + 38))\<rparr>"

definition record_ok :: "mem_mapping \<Rightarrow> nat \<Rightarrow> bool" where
  "record_ok pm ptr \<longleftrightarrow>
     (let m = mem pm; l = val4 m (ptr + 42); e = entry_at m ptr; vem = versionMadeBy e AND 0xff00
      in ptr + 46 \<le> length m \<and> val4 m ptr = CENSIG \<and>
         ptr + 46 + unat (val2 m (ptr + 28)) \<le> length m \<and> validFilename (fileName e) \<and>
         (vem = 0 \<or> vem = CENVEM_UNIX) \<and>
         safe_uadd (addr pm) (ucast l) \<noteq> None \<and> unat l + 30 \<le> length m \<and>
         val4 m (unat l) = LOCSIG \<and>
         safe_sadd (ucast (local_offset m ptr) :: u64) (ucast (val4 m (ptr + 20))) \<noteq> None \<and>
         unat (local_offset m ptr) + unat (val4 m (ptr + 20)) \<le> length m)"

definition next_record :: "bytes \<Rightarrow> nat \<Rightarrow> nat" where
  "next_record m ptr = ptr + (46 + unat (val2 m (ptr + 28)) + unat (val2 m (ptr + 30))
                                 + unat (val2 m (ptr + 32)))"

definition insert_entry :: "zip_entry list \<Rightarrow> zip_entry \<Rightarrow> zip_entry list" where
  "insert_entry es e =
     (let t = insert_position es (fileName e) in take t es @ e # drop t es)"

lemma parse_entry_eq:
  "parse_entry pm es ptr =
     Some (if record_ok pm ptr
           then Some (insert_entry es (entry_at (mem pm) ptr), next_record (mem pm) ptr) else None)"
proof (cases "ptr + 46 > length (mem pm)")
  case True
  then show ?thesis by (simp add: parse_entry_def record_ok_def Let_def)
next
  case False
  let ?m = "mem pm" and ?l = "unat (val4 (mem pm) (ptr + 42))"
  have g:
    "get4LE ?m ptr = Some (val4 ?m ptr)" "get4LE ?m (ptr + 42) = Some (val4 ?m (ptr + 42))"
    "get2LE ?m (ptr + 28) = Some (val2 ?m (ptr + 28))" "get2LE ?m (ptr + 30) = Some (val2 ?m (ptr + 30))"
    "get2LE ?m (ptr + 32) = Some (val2 ?m (ptr + 32))" "get4LE ?m (ptr + 20) = Some (val4 ?m (ptr + 20))"
    "get4LE ?m (ptr + 24) = Some (val4 ?m (ptr + 24))" "get2LE ?m (ptr + 10) = Some (val2 ?m (ptr + 10))"
    "get4LE ?m (ptr + 12) = Some (val4 ?m (ptr + 12))" "get4LE ?m (ptr + 16) = Some (val4 ?m (ptr + 16))"
    "get2LE ?m (ptr + 4) = Some (val2 ?m (ptr + 4))" "get4LE ?m (ptr + 38) = Some (val4 ?m (ptr + 38))"
    using False by (simp_all add: get2_val get4_val)
  show ?thesis
  proof (cases "?l + 30 > length ?m")
    case True
    then show ?thesis using False insert_position_le
      by (simp add: parse_entry_def record_ok_def entry_at_def Let_def g rd_slice_def)
  next
    case lf: False
    have l: "get4LE ?m ?l = Some (val4 ?m ?l)" "get2LE ?m (?l + 26) = Some (val2 ?m (?l + 26))"
      "get2LE ?m (?l + 28) = Some (val2 ?m (?l + 28))"
      using lf by (simp_all add: get2_val get4_val)
    show ?thesis using False lf insert_position_le
      by (simp add: parse_entry_def record_ok_def entry_at_def Let_def g l rd_slice_def
          insert_entry_def local_offset_def next_record_def)
  qed
qed

lemma parse_loop_total: "\<exists>r. parse_loop n pm es ptr = Some r"
proof (induction n arbitrary: es ptr)
  case (Suc n)
  then show ?case by (simp add: parse_entry_eq)
qed simp

subsection \<open>The entries are sorted by name\<close>

lemma uint_eq: "uint a = uint b \<longleftrightarrow> a = b"
  by (metis word_of_int_uint)

lemma name_diff_Cons:
  "name_diff (a # as) (b # bs) =
     (if a \<noteq> b then uint a - uint b else if a = 0 then int (length as) - int (length bs)
      else name_diff as bs)"
  by (auto simp: name_diff_def Let_def uint_eq uint_0_iff)

lemma name_diff_less:
  "0 \<notin> set a \<Longrightarrow> 0 \<notin> set b \<Longrightarrow> (name_diff a b < 0 \<longleftrightarrow> a < b) \<and> (name_diff a b = 0 \<longleftrightarrow> a = b)"
proof (induction a arbitrary: b)
  case Nil
  then show ?case by (cases b) (auto simp: name_diff_def)
next
  case (Cons x a)
  show ?case
  proof (cases b)
    case Nil
    then show ?thesis by (simp add: name_diff_def)
  next
    case (Cons y b')
    then show ?thesis
      using Cons.IH [of b'] Cons.prems
      by (auto simp: name_diff_Cons word_less_def uint_eq)
  qed
qed

abbreviation name_ordered :: "zip_entry list \<Rightarrow> bool" where
  "name_ordered es \<equiv> sorted (map fileName es)"

definition clean_names :: "zip_entry list \<Rightarrow> bool" where
  "clean_names es \<longleftrightarrow> (\<forall>e\<in>set es. 0 \<notin> set (fileName e))"

text \<open>The search ends between the names not above and the names not below the new one.\<close>

lemma entry_search_ok:
  "clean_names es \<Longrightarrow> 0 \<notin> set name \<Longrightarrow> name_ordered es \<Longrightarrow>
   0 \<le> low \<Longrightarrow> low \<le> high + 1 \<Longrightarrow> high < int (length es) \<Longrightarrow>
    \<forall>i < nat low. fileName (es ! i) \<le> name \<Longrightarrow>
    \<forall>i. nat (high + 1) \<le> i \<and> i < length es \<longrightarrow> name \<le> fileName (es ! i) \<Longrightarrow>
    (\<forall>i < nat (entry_search es name low high + 1). fileName (es ! i) \<le> name) \<and>
    (\<forall>i. nat (entry_search es name low high + 1) \<le> i \<and> i < length es \<longrightarrow> name \<le> fileName (es ! i))"
proof (induction es name low high rule: entry_search.induct)
  case (1 es name low high)
  define mid where "mid = low + (high - low) div 2"
  define diff where "diff = name_diff (fileName (es ! nat mid)) name"
  note prems = "1.prems"
  show ?case
  proof (cases "low \<le> high")
    case True
    have m: "low \<le> mid" "mid \<le> high" using mid_range [OF True] by (simp_all add: mid_def)
    then have ml: "nat mid < length es" using prems(4,6) by auto
    have eq: "entry_search es name low high =
        (if diff < 0 then entry_search es name (mid + 1) high
         else if diff > 0 then entry_search es name low (mid - 1) else mid)"
      using True by (subst entry_search_step) (simp add: Let_def mid_def diff_def)
    have clean: "0 \<notin> set (fileName (es ! nat mid))" using prems(1) ml by (auto simp: clean_names_def)
    have ord: "(diff < 0 \<longleftrightarrow> fileName (es ! nat mid) < name) \<and> (diff = 0 \<longleftrightarrow> fileName (es ! nat mid) = name)"
      unfolding diff_def by (rule name_diff_less [OF clean prems(2)])
    have below: "fileName (es ! i) \<le> fileName (es ! nat mid)" if "i < nat (mid + 1)" for i
      using prems(3) that m ml prems(4) by (auto simp: sorted_iff_nth_mono)
    have above: "fileName (es ! nat mid) \<le> fileName (es ! i)" if "nat mid \<le> i" "i < length es" for i
      using prems(3) that ml by (auto simp: sorted_iff_nth_mono)
    consider "diff < 0" | "diff > 0" | "diff = 0" by linarith
    then show ?thesis
    proof cases
      case 1
      then have "\<forall>i < nat (mid + 1). fileName (es ! i) \<le> name"
        using below ord order_trans less_imp_le by blast
      then show ?thesis
        using "1.IH"(1) [OF True mid_def diff_def 1 prems(1-3) _ _ prems(6) _ prems(8)] 1 prems(4) m
        by (simp only: eq if_True) simp
    next
      case 2
      then have "\<not> fileName (es ! nat mid) < name" using ord by simp
      then have "name \<le> fileName (es ! nat mid)" by (simp only: not_less)
      then have "\<forall>i. nat mid \<le> i \<and> i < length es \<longrightarrow> name \<le> fileName (es ! i)"
        using above order_trans by blast
      then have "\<forall>i. nat (mid - 1 + 1) \<le> i \<and> i < length es \<longrightarrow> name \<le> fileName (es ! i)"
        by (simp only: diff_add_cancel)
      then show ?thesis
        using "1.IH"(2) [OF True mid_def diff_def _ 2 prems(1-4) _ _ prems(7)] 2 prems(6) m
        by (simp only: eq if_True) simp
    next
      case 3
      then have "fileName (es ! nat mid) = name" using ord by blast
      then show ?thesis unfolding eq using 3 below above m prems(4) by auto
    qed
  next
    case False
    then have "entry_search es name low high = high" by (subst entry_search_step) simp
    then show ?thesis using prems False by simp
  qed
qed

lemma insert_position_ok:
  assumes "clean_names es" "0 \<notin> set name" "name_ordered es"
  shows "\<forall>i < insert_position es name. fileName (es ! i) \<le> name"
    "\<forall>i. insert_position es name \<le> i \<and> i < length es \<longrightarrow> name \<le> fileName (es ! i)"
proof -
  have "\<forall>i. nat (int (length es) - 1 + 1) \<le> i \<and> i < length es \<longrightarrow> name \<le> fileName (es ! i)"
    by auto
  from entry_search_ok [OF assms, of 0 "int (length es) - 1", OF _ _ _ _ this]
  show "\<forall>i < insert_position es name. fileName (es ! i) \<le> name"
    "\<forall>i. insert_position es name \<le> i \<and> i < length es \<longrightarrow> name \<le> fileName (es ! i)"
    by (simp_all add: insert_position_def)
qed

lemma insert_entry_mset: "mset (insert_entry es e) = add_mset e (mset es)"
  unfolding insert_entry_def Let_def
  by simp (metis append_take_drop_id mset_append union_commute)

lemma insert_entry_set: "set (insert_entry es e) = insert e (set es)"
  by (metis insert_entry_mset set_mset_add_mset_insert set_mset_mset)

lemma insert_entry_length: "length (insert_entry es e) = Suc (length es)"
  by (metis insert_entry_mset size_add_mset size_mset)

lemma insert_entry_sorted:
  assumes "clean_names es" "0 \<notin> set (fileName e)" "name_ordered es"
  shows "name_ordered (insert_entry es e)"
proof -
  let ?t = "insert_position es (fileName e)"
  note pos = insert_position_ok [OF assms]
  have "\<forall>x\<in>set (take ?t es). fileName x \<le> fileName e"
    using pos(1) by (auto simp: in_set_conv_nth)
  moreover have "\<forall>x\<in>set (drop ?t es). fileName e \<le> fileName x"
    using pos(2) by (auto simp: in_set_conv_nth)
  moreover have "sorted (map fileName (take ?t es))" "sorted (map fileName (drop ?t es))"
    using assms(3) by (simp_all add: take_map [symmetric] drop_map [symmetric] sorted_wrt_take sorted_wrt_drop)
  ultimately show ?thesis
    unfolding insert_entry_def Let_def
    by (auto simp: sorted_append intro: order_trans)
qed

subsection \<open>What the parsed entries satisfy\<close>

definition entry_in :: "bytes \<Rightarrow> zip_entry \<Rightarrow> bool" where
  "entry_in m e \<longleftrightarrow> validFilename (fileName e) \<and>
     0 \<le> offset e \<and> 0 \<le> compLen e \<and> offset e + compLen e \<le> int (length m) \<and>
     0 \<le> uncompLen e \<and> uncompLen e < 2 ^ 32 \<and>
     (\<exists>p. p + fileNameLen e \<le> length m \<and> fileName e = take (fileNameLen e) (drop p m))"

lemma valid_clean: "validFilename name \<Longrightarrow> 0 \<notin> set name"
  by (auto simp: validFilename_def)

lemma record_entry_in: "record_ok pm ptr \<Longrightarrow> entry_in (mem pm) (entry_at (mem pm) ptr)"
proof -
  assume r: "record_ok pm ptr"
  let ?m = "mem pm"
  have n: "ptr + 46 + unat (val2 ?m (ptr + 28)) \<le> length ?m"
    and v: "validFilename (fileName (entry_at ?m ptr))"
    and s: "unat (local_offset ?m ptr) + unat (val4 ?m (ptr + 20)) \<le> length ?m"
    using r by (auto simp: record_ok_def Let_def)
  have "uint (local_offset ?m ptr) + uint (val4 ?m (ptr + 20)) \<le> int (length ?m)"
    using s unfolding uint_nat by linarith
  moreover have "uint (val4 ?m (ptr + 24)) < 2 ^ 32"
    using uint_lt2p [of "val4 ?m (ptr + 24)"] by simp
  moreover have "\<exists>p. p + fileNameLen (entry_at ?m ptr) \<le> length ?m \<and>
      fileName (entry_at ?m ptr) = take (fileNameLen (entry_at ?m ptr)) (drop p ?m)"
    by (rule exI [of _ "ptr + 46"]) (use n in \<open>simp add: entry_at_def\<close>)
  moreover have "offset (entry_at ?m ptr) = uint (local_offset ?m ptr)"
    "compLen (entry_at ?m ptr) = uint (val4 ?m (ptr + 20))"
    "uncompLen (entry_at ?m ptr) = uint (val4 ?m (ptr + 24))"
    by (simp_all add: entry_at_def)
  ultimately show ?thesis
    using v unfolding entry_in_def by (simp only: uint_ge_0 simp_thms)
qed

text \<open>The record pointers the loop visits.\<close>

fun records :: "nat \<Rightarrow> bytes \<Rightarrow> nat \<Rightarrow> nat list" where
  "records 0 m ptr = []"
| "records (Suc n) m ptr = ptr # records n m (next_record m ptr)"

lemma parse_loop_ok:
  "parse_loop n pm es ptr = Some (Some es') \<Longrightarrow> clean_names es \<Longrightarrow> name_ordered es \<Longrightarrow>
   (\<forall>p\<in>set (records n (mem pm) ptr). record_ok pm p) \<and>
   mset es' = mset es + mset (map (entry_at (mem pm)) (records n (mem pm) ptr)) \<and>
   name_ordered es' \<and> clean_names es'"
proof (induction n arbitrary: es ptr)
  case (Suc n)
  let ?e = "entry_at (mem pm) ptr" and ?ptr = "next_record (mem pm) ptr"
  have ok: "record_ok pm ptr" and rest: "parse_loop n pm (insert_entry es ?e) ?ptr = Some (Some es')"
    using Suc.prems(1) by (auto simp: parse_entry_eq split: if_splits)
  have clean: "0 \<notin> set (fileName ?e)"
    using record_entry_in [OF ok] valid_clean by (auto simp: entry_in_def)
  have "clean_names (insert_entry es ?e)"
    using Suc.prems(2) clean by (simp add: clean_names_def insert_entry_set)
  from Suc.IH [OF rest this insert_entry_sorted [OF Suc.prems(2) clean Suc.prems(3)]] ok
  show ?case by (simp add: insert_entry_mset)
qed simp

lemma parse_loop_bail:
  "\<exists>r. parse_loop n pm es ptr = Some r \<and>
       (r = None \<longleftrightarrow> (\<exists>p\<in>set (records n (mem pm) ptr). \<not> record_ok pm p))"
  by (induction n arbitrary: es ptr) (auto simp: parse_entry_eq)

subsection \<open>The table of names\<close>

definition name_of :: "zip_entry list \<Rightarrow> nat \<Rightarrow> bytes" where
  "name_of es i = fileName (es ! i)"

definition files :: "zip_entry list \<Rightarrow> entry_table \<Rightarrow> nat list \<Rightarrow> bool" where
  "files es h ks \<longleftrightarrow> mz.holds (\<lambda>i. computeHash (name_of es i)) (name_of es) h ks"

lemma memcmp_0: "memcmp a b = 0 \<longleftrightarrow> a = b"
  by (simp add: memcmp_def)

lemma hashcmpZipEntry_0: "hashcmpZipEntry es a b = 0 \<longleftrightarrow> name_of es a = name_of es b"
  by (auto simp: hashcmpZipEntry_def name_of_def memcmp_0)

lemma hashcmpZipName_0: "hashcmpZipName es a q = 0 \<longleftrightarrow> name_of es a = q"
  by (auto simp: hashcmpZipName_def name_of_def memcmp_0)

lemma add_entry_ok:
  assumes "files es h ks" "room h (Suc n)"
  shows "\<exists>h'. addEntryToHashTable es h i = Some h' \<and> files es h' (ks @ [i]) \<and> room h' n"
proof -
  have "\<exists>h' y. table_insert h (computeHash (name_of es i)) i (hashcmpZipEntry es) = Some (h', y) \<and>
      mz.holds (\<lambda>i. computeHash (name_of es i)) (name_of es) h' (ks @ [i]) \<and> room h' n \<and>
      name_of es y = name_of es i"
    using mz.holds_insert [OF assms(1) [unfolded files_def] assms(2),
        where ecmp = "hashcmpZipEntry es" and x = i] by (simp add: hashcmpZipEntry_0)
  then show ?thesis by (auto simp: addEntryToHashTable_def files_def name_of_def)
qed

lemma hash_loop_ok:
  "files es h dn \<Longrightarrow> room h (length ks) \<Longrightarrow>
   \<exists>h'. hash_loop es ks h = Some h' \<and> files es h' (dn @ ks)"
proof (induction ks arbitrary: h dn)
  case (Cons i ks)
  then obtain h' where "addEntryToHashTable es h i = Some h'" "files es h' (dn @ [i])"
    "room h' (length ks)" using add_entry_ok [of es h dn "length ks" i] by auto
  with Cons.IH [of h' "dn @ [i]"] show ?case by auto
qed simp

lemma find_entry_ok:
  assumes "files es h ks"
  shows "table_search h (computeHash q) q (hashcmpZipName es) = Some (find (\<lambda>i. name_of es i = q) ks)"
  by (rule mz.holds_search [OF assms [unfolded files_def]]) (simp_all add: hashcmpZipName_0)

subsection \<open>Parsing as a whole\<close>

definition eocd_pos :: "bytes \<Rightarrow> nat \<Rightarrow> bool" where
  "eocd_pos m p \<longleftrightarrow> p + 22 \<le> length m \<and> get4LE m p = Some ENDSIG \<and>
     (\<forall>q. p < q \<and> q + 22 \<le> length m \<longrightarrow> get4LE m q \<noteq> Some ENDSIG)"

lemma scan_result:
  assumes "22 \<le> length m"
  shows "\<exists>p. eocd_scan m (int (length m) - 22) = Some p \<and>
    (if p < 0 then \<forall>q. q + 22 \<le> length m \<longrightarrow> get4LE m q \<noteq> Some ENDSIG else eocd_pos m (nat p))"
proof -
  obtain p where p: "eocd_scan m (int (length m) - 22) = Some p" "- 1 \<le> p" "p \<le> int (length m) - 22"
    "0 \<le> p \<longrightarrow> get4LE m (nat p) = Some ENDSIG"
    "\<forall>q. max p (-1) < q \<and> q \<le> int (length m) - 22 \<longrightarrow> get4LE m (nat q) \<noteq> Some ENDSIG"
    using eocd_scan_ok [of "int (length m) - 22" m] assms by auto
  have "get4LE m q \<noteq> Some ENDSIG" if "p < int q" "q + 22 \<le> length m" for q
    using p(5) [rule_format, of "int q"] that by auto
  then show ?thesis using p by (auto simp: eocd_pos_def)
qed

lemma create_num:
  assumes "num \<noteq> (0 :: u16)"
  shows "\<exists>h. mzHashTableCreate (mzHashSize (ucast num)) None = Some (Some (h :: entry_table)) \<and>
    files es h [] \<and> room h (unat num)"
proof -
  have lt: "unat num < 2 ^ 16" using unsigned_less [of num] by simp
  have "unat num \<noteq> 0" using assms by (simp add: unat_eq_zero)
  have "(ucast num :: u64) = of_nat (unat num)" by simp
  then have sz: "unat (mzHashSize (ucast num)) = unat num * 8 div 5 + 1"
    using mzHashSize_val [of "unat num"] lt by simp
  obtain h :: entry_table where "mzHashTableCreate (mzHashSize (ucast num)) None = Some (Some h)"
    "table_ok h" "contents h = {#}" "tableSize h < 2 * unat (mzHashSize (ucast num))"
    "numEntries h = 0" "numDeadEntries h = 0"
    using create_ok [of "mzHashSize (ucast num)" None] sz lt \<open>unat num \<noteq> 0\<close> by fastforce
  moreover have "unat num * 8 div 5 \<le> 2 ^ 18" using lt by simp
  moreover have "uint num < 2 ^ 16" using uint_lt2p [of num] by simp
  ultimately show ?thesis
    using sz by (intro exI [of _ h]) (simp add: files_def mz.holds_empty room_def)
qed

lemma parse_cases:
  assumes "22 \<le> length (mem pm)"
  shows "\<exists>r. parseZipArchive pm = Some r \<and>
    (case r of None \<Rightarrow> True
     | Some (es, h) \<Rightarrow> \<exists>p. eocd_pos (mem pm) p \<and> length es = unat (val2 (mem pm) (p + 8)) \<and> es \<noteq> [] \<and>
         mset es = mset (map (entry_at (mem pm))
            (records (length es) (mem pm) (unat (val4 (mem pm) (p + 16))))) \<and>
         (\<forall>q\<in>set (records (length es) (mem pm) (unat (val4 (mem pm) (p + 16)))). record_ok pm q) \<and>
         name_ordered es \<and> files es h [0..<length es])"
proof -
  let ?m = "mem pm"
  obtain p where p: "eocd_scan ?m (int (length ?m) - 22) = Some p" "p \<ge> 0 \<Longrightarrow> eocd_pos ?m (nat p)"
    using scan_result [OF assms] by (auto split: if_splits)
  have g0: "get4LE ?m 0 = Some (val4 ?m 0)" using assms by (simp add: get4_val)
  show ?thesis
  proof (cases "val4 ?m 0 = ENDSIG \<or> val4 ?m 0 \<noteq> LOCSIG \<or> p < 0")
    case True
    then show ?thesis by (auto simp: parseZipArchive_def Let_def g0 p(1))
  next
    case False
    have in22: "nat p + 22 \<le> length ?m" using p(2) False by (simp add: eocd_pos_def)
    let ?num = "val2 ?m (nat p + 8)" and ?cd = "val4 ?m (nat p + 16)"
    have g: "get2LE ?m (nat p + 8) = Some ?num" "get4LE ?m (nat p + 16) = Some ?cd"
      using in22 by (simp_all add: get2_val get4_val)
    show ?thesis
    proof (cases "?num = 0 \<or> unat ?cd \<ge> length ?m")
      case True
      then show ?thesis using False by (simp add: parseZipArchive_def Let_def g0 p(1) g)
    next
      case nz: False
      obtain r where r: "parse_loop (unat ?num) pm [] (unat ?cd) = Some r"
        using parse_loop_bail by blast
      show ?thesis
      proof (cases r)
        case None
        obtain h :: entry_table where "mzHashTableCreate (mzHashSize (ucast ?num)) None = Some (Some h)"
          using create_num [of ?num] nz by blast
        then show ?thesis using False nz None r
          by (simp add: parseZipArchive_def Let_def g0 p(1) g)
      next
        case (Some es)
        obtain h :: entry_table where h:
          "mzHashTableCreate (mzHashSize (ucast ?num)) None = Some (Some h)"
          "files es h []" "room h (unat ?num)"
          using create_num [of ?num es] nz by blast
        obtain h' where h': "hash_loop es [0..<unat ?num] h = Some h'" "files es h' [0..<unat ?num]"
          using hash_loop_ok [OF h(2), of "[0..<unat ?num]"] h(3) by auto
        have l: "(\<forall>q\<in>set (records (unat ?num) ?m (unat ?cd)). record_ok pm q) \<and>
            mset es = mset (map (entry_at ?m) (records (unat ?num) ?m (unat ?cd))) \<and>
            name_ordered es"
          using parse_loop_ok [of "unat ?num" pm "[]" "unat ?cd" es] r Some
          by (simp add: clean_names_def)
        have rl: "length (records n m q) = n" for n m q by (induction n arbitrary: q) auto
        have len: "length es = unat ?num"
          using arg_cong [of _ _ size, OF conjunct1 [OF conjunct2 [OF l]]] by (simp add: rl)
        have "es \<noteq> []" using len nz by (auto simp: unat_eq_zero)
        moreover have "parseZipArchive pm = Some (Some (es, h'))"
          using False nz Some r h(1) h'(1) by (simp add: parseZipArchive_def Let_def g0 p(1) g)
        ultimately show ?thesis using l len h'(2) p(2) False by auto
      qed
    qed
  qed
qed

subsection \<open>An archive to try the properties on\<close>

text \<open>A stored file \<open>A\<close> with the contents \<open>hi\<close>.\<close>

definition mini_local :: bytes where
  "mini_local =
     [80, 75, 3, 4, 10, 0, 0, 0, 0, 0, 0, 0, 0, 0, 172, 42, 147, 216, 2, 0, 0,
      0, 2, 0, 0, 0, 1, 0, 0, 0, 65, 104, 105]"

definition mini_central :: bytes where
  "mini_central =
     [80, 75, 1, 2, 10, 0, 10, 0, 0, 0, 0, 0, 0, 0, 0, 0, 172, 42, 147, 216, 2,
      0, 0, 0, 2, 0, 0, 0, 1, 0, 0, 0, 0, 0, 0, 0, 0, 0, 0, 0, 0, 0, 0, 0, 0, 0,
      65]"

definition mini_end :: bytes where
  "mini_end =
     [80, 75, 5, 6, 0, 0, 0, 0, 1, 0, 1, 0, 47, 0, 0, 0, 33, 0, 0, 0, 0, 0]"

definition mini_zip :: mem_mapping where
  "mini_zip = \<lparr>addr = 0x10000, mem = mini_local @ mini_central @ mini_end\<rparr>"

lemma mini_err: "case mzOpenZipArchive 3 0 (Some mini_zip) of Some (err, _) \<Rightarrow> err = 0 | None \<Rightarrow> False"
  by code_simp

subsection \<open>Properties\<close>

lemma close_blank:
  "mzCloseZipArchive \<lparr>zFd = fd, zNumEntries = 0, zEntries = [], zHash = None, zMap = None\<rparr> =
     Some (\<lparr>zFd = - 1, zNumEntries = 0, zEntries = [], zHash = None, zMap = None\<rparr>,
           if fd \<ge> 0 then [CloseFd fd] else [])"
  by (simp add: mzCloseZipArchive_def mzHashTableFree_def)


lemma open_success:
  assumes "mzOpenZipArchive fd errno mapped = Some (0, a, rel)"
  obtains pm h where "mapped = Some pm" "22 \<le> length (mem pm)"
    "parseZipArchive pm = Some (Some (zEntries a, h))" "zHash a = Some h" "zMap a = Some pm"
    "zNumEntries a = length (zEntries a)"
proof -
  have "\<not> fd < 0" using assms by (auto simp: mzOpenZipArchive_def Let_def close_blank split: if_splits)
  moreover obtain pm where pm: "mapped = Some pm"
    using assms by (cases mapped) (auto simp: mzOpenZipArchive_def Let_def close_blank split: if_splits)
  moreover have l: "22 \<le> length (mem pm)"
    using assms pm calculation
    by (auto simp: mzOpenZipArchive_def Let_def close_blank split: if_splits)
  moreover obtain r where "parseZipArchive pm = Some r" using parse_cases [OF l] by auto
  ultimately show thesis
    using assms that by (cases r) (auto simp: mzOpenZipArchive_def Let_def close_blank)
qed

lemma mini_open: "\<exists>a. mzOpenZipArchive 3 0 (Some mini_zip) = Some (0, a, [])"
proof -
  obtain err a rel where o: "mzOpenZipArchive 3 0 (Some mini_zip) = Some (err, a, rel)"
    using mini_err by (cases "mzOpenZipArchive 3 0 (Some mini_zip)") auto
  then have "err = 0" using mini_err by simp
  moreover have "parseZipArchive mini_zip \<noteq> Some None"
    using o \<open>err = 0\<close> by (auto simp: mzOpenZipArchive_def Let_def close_blank split: if_splits)
  ultimately have "rel = []"
    using o by (auto simp: mzOpenZipArchive_def Let_def close_blank bind_eq_Some_conv
        split: if_splits option.splits)
  with o \<open>err = 0\<close> show ?thesis by blast
qed

text \<open>
  C19: when opening succeeds, the entries are exactly the records of the central directory that the
  last end-of-central-directory record of the file points to, in ascending order of their names;
  every name is printable ASCII shorter than \<open>PATH_MAX\<close> and lies in the file, and every entry's data
  lies in the file: \<open>offset + compLen\<close> is at most its length.
\<close>

theorem zip_open_sound:
  assumes "mzOpenZipArchive fd errno (Some pm) = Some (0, a, rel)"
  shows "sorted (map fileName (zEntries a)) \<and> (\<forall>e\<in>set (zEntries a). entry_in (mem pm) e) \<and>
     zNumEntries a = length (zEntries a) \<and> 0 < zNumEntries a \<and>
     (\<exists>p. eocd_pos (mem pm) p \<and> zNumEntries a = unat (val2 (mem pm) (p + 8)) \<and>
        mset (zEntries a) = mset (map (entry_at (mem pm))
          (records (zNumEntries a) (mem pm) (unat (val4 (mem pm) (p + 16))))))"
proof -
  obtain h where o: "22 \<le> length (mem pm)" "parseZipArchive pm = Some (Some (zEntries a, h))"
    "zNumEntries a = length (zEntries a)"
    using open_success [OF assms] by auto
  obtain p where p: "eocd_pos (mem pm) p" "length (zEntries a) = unat (val2 (mem pm) (p + 8))"
    "zEntries a \<noteq> []"
    "mset (zEntries a) = mset (map (entry_at (mem pm))
       (records (length (zEntries a)) (mem pm) (unat (val4 (mem pm) (p + 16)))))"
    "\<forall>q\<in>set (records (length (zEntries a)) (mem pm) (unat (val4 (mem pm) (p + 16)))). record_ok pm q"
    "name_ordered (zEntries a)"
    using parse_cases [OF o(1)] o(2) by auto
  have "\<forall>e\<in>set (zEntries a). entry_in (mem pm) e"
    using p(5) record_entry_in arg_cong [OF p(4), of set_mset] by auto
  moreover have "0 < length (zEntries a)" using p(3) by simp
  ultimately show ?thesis using p(1,2,4,6) o(3) by auto
qed

theorem zip_open_sound_witness:
  "\<exists>a. mzOpenZipArchive 3 0 (Some mini_zip) = Some (0, a, []) \<and> 0 < zNumEntries a \<and>
       (\<forall>e\<in>set (zEntries a). entry_in (mem mini_zip) e)"
proof -
  obtain a where a: "mzOpenZipArchive 3 0 (Some mini_zip) = Some (0, a, [])" using mini_open by blast
  from zip_open_sound [OF a] a show ?thesis by blast
qed

text \<open>
  C25: on an opened archive \<open>mzFindZipEntry\<close> returns the first entry, in the order of the entry array,
  whose name is the one asked for, and NULL exactly when no entry has that name; in between lie the
  hash function, the table's probing and the two comparison callbacks.
\<close>

theorem zip_find_entry:
  assumes "mzOpenZipArchive fd errno mapped = Some (0, a, rel)"
  shows "mzFindZipEntry a name =
     Some (find (\<lambda>i. fileName (zEntries a ! i) = name) [0..<zNumEntries a])"
proof -
  obtain pm h where o: "mapped = Some pm" "22 \<le> length (mem pm)"
    "parseZipArchive pm = Some (Some (zEntries a, h))" "zHash a = Some h"
    "zNumEntries a = length (zEntries a)"
    using open_success [OF assms] by blast
  have "files (zEntries a) h [0..<length (zEntries a)]"
    using parse_cases [OF o(2)] o(3) by auto
  from find_entry_ok [OF this, of name] show ?thesis
    by (simp add: mzFindZipEntry_def o(4,5) name_of_def)
qed

theorem zip_find_entry_witness:
  "\<exists>a. mzOpenZipArchive 3 0 (Some mini_zip) = Some (0, a, []) \<and>
       mzFindZipEntry a [66] = Some (find (\<lambda>i. fileName (zEntries a ! i) = [66]) [0..<zNumEntries a])"
proof -
  obtain a where a: "mzOpenZipArchive 3 0 (Some mini_zip) = Some (0, a, [])" using mini_open by blast
  from zip_find_entry [OF a] a show ?thesis by blast
qed

end
