(* ===== verification/ZipExtract.thy ===== *)
theory ZipExtract
  imports CLib ZipArchive DirUtil "HOL-Library.Sublist"
begin

text \<open>
  Reading the contents of zip entries and extracting trees: \<open>minzip/Zip.c\<close> from
  \<open>processStoredEntry\<close> to \<open>mzExtractRecursive\<close>.

  The archive descriptor is the contents of the file and an offset.  A \<open>processFunction\<close> maps a
  block of data and its cookie to its answer and the new cookie; \<open>None\<close> is undefined behaviour in
  it.  zlib and the file system are parameters: the record \<open>zlib\<close> of functions over a
  stream state and the \<open>sys_ops\<close> of \<open>DirUtil\<close>.
\<close>

subsection \<open>Streaming an entry\<close>

type_synonym 'c process = "bytes \<Rightarrow> 'c \<Rightarrow> (bool \<times> 'c) ub"

text \<open>\<open>read\<close> on the archive: what the file has at the offset, at most \<open>n\<close> bytes of it.\<close>

definition read_at :: "bytes \<Rightarrow> nat \<Rightarrow> nat \<Rightarrow> bytes" where
  "read_at file pos n = take n (drop pos file)"

function stored_loop :: "bytes \<Rightarrow> nat \<Rightarrow> nat \<Rightarrow> 'c process \<Rightarrow> 'c \<Rightarrow> (bool \<times> 'c) ub" where
  "stored_loop file pos bytesLeft process cookie =
     (if bytesLeft > 0
      then (let cnt = (if bytesLeft > 32 * 1024 then 32 * 1024 else bytesLeft);
                buf = read_at file pos cnt
            in if length buf \<noteq> cnt then Some (False, cookie)
               else do { (ret, cookie') \<leftarrow> process buf cookie;
                         if \<not> ret then Some (False, cookie')
                         else stored_loop file (pos + cnt) (bytesLeft - cnt) process cookie' })
      else Some (True, cookie))"
  by pat_completeness auto
termination
  by (relation "measure (\<lambda>(file, pos, bytesLeft, process, cookie). bytesLeft)") (auto split: if_splits)

definition processStoredEntry ::
  "bytes \<Rightarrow> nat \<Rightarrow> zip_entry \<Rightarrow> 'c process \<Rightarrow> 'c \<Rightarrow> (bool \<times> 'c) ub" where
  "processStoredEntry file pos e process cookie =
     stored_loop file pos (nat (compLen e)) process cookie"

text \<open>
  zlib: \<open>inflateInit2\<close> answers an error code and a stream; \<open>inflate\<close> takes the stream, the input not
  yet consumed and the room left for output, and answers a code, how much of the input it
  consumed, what it produced and the new stream.
\<close>

record 'z zlib =
  inflateInit2 :: "int \<times> 'z"
  inflate :: "'z \<Rightarrow> bytes \<Rightarrow> nat \<Rightarrow> int \<times> nat \<times> bytes \<times> 'z"

definition Z_OK :: int where "Z_OK = 0"
definition Z_STREAM_END :: int where "Z_STREAM_END = 1"

text \<open>
  The inflate loop.  \<open>inbuf\<close> is the input zlib has not consumed, \<open>outbuf\<close> what it has put into
  \<open>procBuf\<close> so far, \<open>tot\<close> its \<open>total_out\<close>.  The result is \<open>zstream.total_out\<close>, or -1 for a
  jump to \<open>z_bail\<close>.
\<close>

partial_function (option) inflate_loop ::
  "'z zlib \<Rightarrow> bytes \<Rightarrow> nat \<Rightarrow> int \<Rightarrow> 'z \<Rightarrow> bytes \<Rightarrow> bytes \<Rightarrow> nat \<Rightarrow> 'c process \<Rightarrow> 'c \<Rightarrow> (int \<times> 'c) ub" where
  "inflate_loop Z file pos compRemaining z inbuf outbuf tot process cookie =
     (let getSize = (if compRemaining > 32 * 1024 then 32 * 1024 else compRemaining);
          refill = (inbuf = []);
          got = read_at file pos (nat getSize)
      in if refill \<and> int (length got) \<noteq> getSize then Some (- 1, cookie)
         else let inbuf1 = (if refill then got else inbuf);
                  pos1 = (if refill then pos + nat getSize else pos);
                  rem1 = (if refill then compRemaining - getSize else compRemaining);
                  (zerr, used, out, z1) = inflate Z z inbuf1 (32 * 1024 - length outbuf)
              in if zerr \<noteq> Z_OK \<and> zerr \<noteq> Z_STREAM_END then Some (- 1, cookie)
                 else let outbuf1 = outbuf @ out;
                          full = (length outbuf1 = 32 * 1024 \<or>
                                  (zerr = Z_STREAM_END \<and> outbuf1 \<noteq> []))
                      in do { (ret, cookie1) \<leftarrow> (if full then process outbuf1 cookie
                                                else Some (True, cookie));
                              if \<not> ret then Some (- 1, cookie1)
                              else if zerr = Z_OK
                              then inflate_loop Z file pos1 rem1 z1 (drop used inbuf1)
                                     (if full then [] else outbuf1) (tot + length out)
                                     process cookie1
                              else Some (int (tot + length out), cookie1) })"

definition processDeflatedEntry ::
  "'z zlib \<Rightarrow> bytes \<Rightarrow> nat \<Rightarrow> zip_entry \<Rightarrow> 'c process \<Rightarrow> 'c \<Rightarrow> (bool \<times> 'c) ub" where
  "processDeflatedEntry Z file pos e process cookie =
     (let (zerr, z) = inflateInit2 Z
      in do { (result, cookie') \<leftarrow>
                (if zerr \<noteq> Z_OK then Some (- 1, cookie)
                 else inflate_loop Z file pos (compLen e) z [] [] 0 process cookie);
              Some (result = uncompLen e, cookie') })"

definition STORED :: int where "STORED = 0"
definition DEFLATED :: int where "DEFLATED = 8"

text \<open>
  \<open>mzProcessZipEntryContents\<close> seeks to the entry and restores the offset afterwards, so the offset
  is local to it.
\<close>

definition mzProcessZipEntryContents ::
  "'z zlib \<Rightarrow> bytes \<Rightarrow> zip_entry \<Rightarrow> 'c process \<Rightarrow> 'c \<Rightarrow> (bool \<times> 'c) ub" where
  "mzProcessZipEntryContents Z file e process cookie =
     (if compression e = STORED then processStoredEntry file (nat (offset e)) e process cookie
      else if compression e = DEFLATED
      then processDeflatedEntry Z file (nat (offset e)) e process cookie
      else Some (False, cookie))"

subsection \<open>Clients of the stream\<close>

definition crcProcessFunction :: "(u64 \<Rightarrow> bytes \<Rightarrow> u64) \<Rightarrow> u64 process" where
  "crcProcessFunction crc32 data' c = Some (True, crc32 c data')"

definition mzIsZipEntryIntact ::
  "'z zlib \<Rightarrow> (u64 \<Rightarrow> bytes \<Rightarrow> u64) \<Rightarrow> u64 \<Rightarrow> bytes \<Rightarrow> zip_entry \<Rightarrow> bool ub" where
  "mzIsZipEntryIntact Z crc32 crc0 file e =
     do { (ret, c) \<leftarrow> mzProcessZipEntryContents Z file e (crcProcessFunction crc32) crc0;
          Some (ret \<and> c = word_of_int (crc e)) }"

text \<open>
  \<open>copyProcessFunction\<close>: the cookie is the caller's buffer, the position of \<open>args->buf\<close> in it and
  \<open>args->bufLen\<close>.
\<close>

definition copyProcessFunction :: "(bytes \<times> nat \<times> int) process" where
  "copyProcessFunction data' args =
     (let (buf, p, bufLen) = args
      in if int (length data') \<le> bufLen
         then do { buf' \<leftarrow> wr_slice buf p data';
                   Some (True, buf', p + length data', bufLen - int (length data')) }
         else Some (False, args))"

definition mzReadZipEntry ::
  "'z zlib \<Rightarrow> bytes \<Rightarrow> zip_entry \<Rightarrow> bytes \<Rightarrow> int \<Rightarrow> (bool \<times> bytes) ub" where
  "mzReadZipEntry Z file e buf bufLen =
     do { (ret, buf', p, left) \<leftarrow> mzProcessZipEntryContents Z file e copyProcessFunction (buf, 0, bufLen);
          Some (ret, buf') }"

text \<open>\<open>bufferProcessFunction\<close> writes first and counts afterwards.\<close>

definition bufferProcessFunction :: "(bytes \<times> nat \<times> int) process" where
  "bufferProcessFunction data' bec =
     (let (buffer, p, len) = bec
      in do { buffer' \<leftarrow> wr_slice buffer p data';
              Some (True, buffer', p + length data', len - int (length data')) })"

definition mzExtractZipEntryToBuffer ::
  "'z zlib \<Rightarrow> bytes \<Rightarrow> zip_entry \<Rightarrow> bytes \<Rightarrow> (bool \<times> bytes) ub" where
  "mzExtractZipEntryToBuffer Z file e buffer =
     do { (ret, buffer', p, len) \<leftarrow>
            mzProcessZipEntryContents Z file e bufferProcessFunction (buffer, 0, uncompLen e);
          Some (ret \<and> len = 0, buffer') }"

subsection \<open>The file system\<close>

definition EINTR :: int where "EINTR = 4"

text \<open>
  \<open>writeProcessFunction\<close>: \<open>sys_write\<close> answers what \<open>write\<close> returned, \<open>errno\<close> and the new state; the
  loop may go on for ever when interrupted writes never end.
\<close>

partial_function (option) write_loop ::
  "'w sys_ops \<Rightarrow> int \<Rightarrow> bytes \<Rightarrow> nat \<Rightarrow> 'w \<Rightarrow> (bool \<times> 'w) ub" where
  "write_loop F fd data' soFar w =
     (let (n, errno, w1) = sys_write F fd (drop soFar data') w
      in if n \<le> 0 then (if errno \<noteq> EINTR then Some (False, w1) else write_loop F fd data' soFar w1)
         else let soFar1 = soFar + nat n
              in if soFar1 = length data' then Some (True, w1)
                 else if soFar1 > length data' then Some (False, w1)
                 else write_loop F fd data' soFar1 w1)"

definition writeProcessFunction :: "'w sys_ops \<Rightarrow> int \<Rightarrow> 'w process" where
  "writeProcessFunction F fd data' w = write_loop F fd data' 0 w"

definition mzExtractZipEntryToFile ::
  "'z zlib \<Rightarrow> 'w sys_ops \<Rightarrow> bytes \<Rightarrow> zip_entry \<Rightarrow> int \<Rightarrow> 'w \<Rightarrow> (bool \<times> 'w) ub" where
  "mzExtractZipEntryToFile Z F file e fd w =
     mzProcessZipEntryContents Z file e (writeProcessFunction F fd) w"

subsection \<open>Paths\<close>

definition str_of :: "bytes \<Rightarrow> string" where
  "str_of bs = map (\<lambda>b. char_of (unat b)) (takeWhile (\<lambda>b. b \<noteq> 0) bs)"

definition SLASH :: byte where "SLASH = 47"

record path_helper =
  h_buf :: "bytes option"
  h_targetDirLen :: nat
  h_bufLen :: nat

text \<open>
  \<open>targetEntryPath\<close>: \<open>zipDirLen\<close> and \<open>targetDir\<close> do not change, so they are arguments.  \<open>realloc\<close>
  keeps the old contents; what follows them is arbitrary (here 0).
\<close>

definition helper_grow :: "path_helper \<Rightarrow> nat \<Rightarrow> bytes \<times> nat" where
  "helper_grow helper needLen =
     (let old = (case h_buf helper of None \<Rightarrow> [] | Some b \<Rightarrow> b)
      in if needLen > h_bufLen helper
         then (old @ replicate (needLen * 2 - length old) 0, needLen * 2)
         else (old, h_bufLen helper))"

definition helper_root :: "bytes \<Rightarrow> path_helper \<Rightarrow> bytes \<Rightarrow> (bytes \<times> nat) ub" where
  "helper_root targetDir helper buf =
     (if h_buf helper = None
      then do { b \<leftarrow> wr_slice buf 0 (take (h_targetDirLen helper) targetDir);
                if h_targetDirLen helper = 0 \<or> b ! (h_targetDirLen helper - 1) \<noteq> SLASH
                then do { b' \<leftarrow> wr b (h_targetDirLen helper) SLASH;
                          Some (b', h_targetDirLen helper + 1) }
                else Some (b, h_targetDirLen helper) }
      else Some (buf, h_targetDirLen helper))"

definition targetEntryPath ::
  "bytes \<Rightarrow> nat \<Rightarrow> path_helper \<Rightarrow> zip_entry \<Rightarrow> (path_helper \<times> bytes) ub" where
  "targetEntryPath targetDir zipDirLen helper e =
     (let needLen = h_targetDirLen helper + 1 + fileNameLen e - zipDirLen + 1;
          (buf0, len0) = helper_grow helper needLen
      in do {
        (buf1, tlen) \<leftarrow> helper_root targetDir helper buf0;
        buf2 \<leftarrow> wr_slice buf1 tlen (drop zipDirLen (fileName e));
        buf3 \<leftarrow> wr buf2 (tlen + (fileNameLen e - zipDirLen)) 0;
        Some (\<lparr>h_buf = Some buf3, h_targetDirLen = tlen, h_bufLen = len0\<rparr>,
              takeWhile (\<lambda>b. b \<noteq> 0) buf3) })"

subsection \<open>Extracting a tree\<close>

definition MZ_EXTRACT_FILES_ONLY :: int where "MZ_EXTRACT_FILES_ONLY = 1"
definition MZ_EXTRACT_DRY_RUN :: int where "MZ_EXTRACT_DRY_RUN = 2"

text \<open>
  What one matching entry does to the loop: it goes on, or breaks with the value the outer \<open>ok\<close>
  then has.  The branch for regular files declares an \<open>ok\<close> of its own, so its failures leave the
  outer one \<open>true\<close>.
\<close>

datatype loop_step = Go_on | Break bool

definition extract_symlink ::
  "'z zlib \<Rightarrow> 'w sys_ops \<Rightarrow> bytes \<Rightarrow> zip_entry \<Rightarrow> string \<Rightarrow> 'w \<Rightarrow> (loop_step \<times> 'w) ub" where
  "extract_symlink Z S file e target w =
     (if uncompLen e = 0 then Some (Break False, w)
      else do {
        (ok, linkTarget) \<leftarrow> mzReadZipEntry Z file e (replicate (nat (uncompLen e) + 1) 0) (uncompLen e);
        if \<not> ok then Some (Break False, w)
        else do {
          linkTarget' \<leftarrow> wr linkTarget (nat (uncompLen e)) 0;
          let (ret, w1) = sys_symlink S (str_of linkTarget') target w;
          Some (if ret \<noteq> 0 then Break False else Go_on, w1) }})"

definition extract_file ::
  "'z zlib \<Rightarrow> 'w sys_ops \<Rightarrow> bytes \<Rightarrow> zip_entry \<Rightarrow> bool \<Rightarrow> string \<Rightarrow> 'w \<Rightarrow> (loop_step \<times> 'w) ub" where
  "extract_file Z S file e timestamp target w =
     (let (fd, w1) = sys_creat S target 420 w
      in if fd < 0 then Some (Break False, w1)
         else do {
           (ok, w2) \<leftarrow> mzExtractZipEntryToFile Z S file e fd w1;
           let w3 = sys_close S fd w2;
           if \<not> ok then Some (Break True, w3)
           else let (u, w4) = (if timestamp then sys_utime S target w3 else (0, w3))
                in Some (if u \<noteq> 0 then Break True else Go_on, w4) })"

definition extract_entry ::
  "'z zlib \<Rightarrow> 'w sys_ops \<Rightarrow> bytes \<Rightarrow> int \<Rightarrow> bool \<Rightarrow> zip_entry \<Rightarrow> string \<Rightarrow> 'w
     \<Rightarrow> (loop_step \<times> 'w) ub" where
  "extract_entry Z S file flags timestamp e target w =
     (if fileName e = [] then None
      else if last (fileName e) = SLASH
      then (if flags AND MZ_EXTRACT_FILES_ONLY = 0
            then do { (ret, w1) \<leftarrow> dirCreateHierarchy S target 493 timestamp False w;
                      Some (if ret \<noteq> 0 then Break False else Go_on, w1) }
            else Some (Go_on, w))
      else do {
        (ret, w1) \<leftarrow> dirCreateHierarchy S target 493 timestamp True w;
        if ret \<noteq> 0 then Some (Break False, w1)
        else if flags AND MZ_EXTRACT_FILES_ONLY = 0 \<and> mzIsZipEntrySymlink e
        then extract_symlink Z S file e target w1
        else extract_file Z S file e timestamp target w1 })"

fun extract_loop ::
  "'z zlib \<Rightarrow> 'w sys_ops \<Rightarrow> bytes \<Rightarrow> bytes \<Rightarrow> bytes \<Rightarrow> int \<Rightarrow> bool \<Rightarrow> (string \<Rightarrow> 'w \<Rightarrow> 'w) option
     \<Rightarrow> zip_entry list \<Rightarrow> bool \<Rightarrow> path_helper \<Rightarrow> 'w \<Rightarrow> (bool \<times> 'w) ub" where
  "extract_loop Z S file zpath targetDir flags ts cb [] seenMatch helper w = Some (True, w)"
| "extract_loop Z S file zpath targetDir flags ts cb (e # es) seenMatch helper w =
     (if fileNameLen e < length zpath \<or> strncmp (fileName e) zpath (length zpath) \<noteq> 0
      then (if seenMatch then Some (True, w)
            else extract_loop Z S file zpath targetDir flags ts cb es seenMatch helper w)
      else do {
        (helper1, targetFile) \<leftarrow> targetEntryPath targetDir (length zpath) helper e;
        let target = str_of targetFile;
        let report = (\<lambda>w. case cb of None \<Rightarrow> w | Some f \<Rightarrow> f target w);
        if flags AND MZ_EXTRACT_DRY_RUN \<noteq> 0
        then extract_loop Z S file zpath targetDir flags ts cb es True helper1 (report w)
        else do {
          (step, w1) \<leftarrow> extract_entry Z S file flags ts e target w;
          case step of
            Break ok \<Rightarrow> Some (ok, w1)
          | Go_on \<Rightarrow> extract_loop Z S file zpath targetDir flags ts cb es True helper1 (report w1) }})"

definition canonical_dir :: "bytes \<Rightarrow> bytes" where
  "canonical_dir zipDir = (if zipDir \<noteq> [] \<and> last zipDir \<noteq> SLASH then zipDir @ [SLASH] else zipDir)"

definition mzExtractRecursive ::
  "'z zlib \<Rightarrow> 'w sys_ops \<Rightarrow> bytes \<Rightarrow> zip_archive \<Rightarrow> bytes \<Rightarrow> bytes \<Rightarrow> int \<Rightarrow> bool
     \<Rightarrow> (string \<Rightarrow> 'w \<Rightarrow> 'w) option \<Rightarrow> 'w \<Rightarrow> (bool \<times> 'w) ub" where
  "mzExtractRecursive Z S file a zipDir targetDir flags timestamp callback w =
     (if zipDir \<noteq> [] \<and> hd zipDir = SLASH then Some (False, w)
      else if targetDir = [] \<or> hd targetDir \<noteq> SLASH then Some (False, w)
      else extract_loop Z S file (canonical_dir zipDir) targetDir flags timestamp callback
             (take (zNumEntries a) (zEntries a)) False
             \<lparr>h_buf = None, h_targetDirLen = length targetDir, h_bufLen = 0\<rparr> w)"

declare stored_loop.simps [simp del]

subsection \<open>Stored entries\<close>

lemma stored_step:
  assumes "0 < n" "k = (if n > 32 * 1024 then 32 * 1024 else n)"
  shows "stored_loop file pos n process c =
     (if length (read_at file pos k) \<noteq> k then Some (False, c)
      else do { (ret, c') \<leftarrow> process (read_at file pos k) c;
                if \<not> ret then Some (False, c')
                else stored_loop file (pos + k) (n - k) process c' })"
  unfolding assms(2) by (subst stored_loop.simps) (simp only: assms(1) if_True Let_def)

lemma stored_to_buffer:
  "pos + n \<le> length file \<Longrightarrow>
   stored_loop file pos n bufferProcessFunction (buf, p, len) =
     (if p + n \<le> length buf
      then Some (True, take p buf @ take n (drop pos file) @ drop (p + n) buf, p + n, len - int n)
      else if n = 0 then Some (True, buf, p, len) else None)"
proof (induction n arbitrary: pos buf p len rule: less_induct)
  case (less n)
  show ?case
  proof (cases "n = 0")
    case True
    then show ?thesis by (subst stored_loop.simps) simp
  next
    case False
    define k where "k = (if n > 32 * 1024 then 32 * 1024 else n)"
    have k: "0 < k" "k \<le> n" using False by (auto simp: k_def)
    define d where "d = take k (drop pos file)"
    have d: "length d = k" using less.prems k by (simp add: d_def)
    have step: "stored_loop file pos n bufferProcessFunction (buf, p, len) =
        do { buf' \<leftarrow> wr_slice buf p d;
             stored_loop file (pos + k) (n - k) bufferProcessFunction (buf', p + k, len - int k) }"
    proof -
      have da: "read_at file pos k = d" by (simp add: read_at_def d_def)
      have "0 < n" using False by simp
      show ?thesis
        by (simp add: stored_step [OF \<open>0 < n\<close> k_def] da d bufferProcessFunction_def)
    qed
    show ?thesis
    proof (cases "p + k \<le> length buf")
      case True
      define buf' where "buf' = take p buf @ d @ drop (p + k) buf"
      have l: "length buf' = length buf" using True d by (simp add: buf'_def)
      have "take n (drop pos file) = take (k + (n - k)) (drop pos file)" using k by simp
      then have "d @ take (n - k) (drop (pos + k) file) = take n (drop pos file)"
        unfolding d_def take_add by (simp add: add.commute)
      moreover have "take (p + k) buf' = take p buf @ d" "drop (p + n) buf' = drop (p + n) buf"
        using True d k by (simp_all add: buf'_def add.commute)
      moreover have "wr_slice buf p d = Some buf'"
        using True d by (simp add: wr_slice_def buf'_def)
      ultimately show ?thesis
        using less.IH [of "n - k" "pos + k" buf' "p + k" "len - int k"] less.prems k l step
        by (cases "p + n \<le> length buf") auto
    next
      case False
      then have "wr_slice buf p d = None" by (simp add: wr_slice_def d)
      then show ?thesis using step False k \<open>n \<noteq> 0\<close> by auto
    qed
  qed
qed

subsection \<open>Deflated entries\<close>

definition collect :: "bytes process" where
  "collect data' c = Some (True, c @ data')"

lemma inflate_loop_collect:
  assumes "inflate_loop (Z :: 'z zlib) fl pos left z inbuf outbuf tot proc c = Some res"
  shows "proc = collect \<longrightarrow> tot = length c + length outbuf \<longrightarrow>
           fst res = - 1 \<or> fst res = int (length (snd res))"
proof (rule inflate_loop.raw_induct [OF _ assms, where P =
      "\<lambda>Z fl pos left z inbuf outbuf tot proc c res. proc = collect \<longrightarrow> tot = length c + length outbuf \<longrightarrow>
           fst res = - 1 \<or> fst res = int (length (snd res))"], intro impI)
  fix rec :: "'z zlib \<Rightarrow> bytes \<Rightarrow> nat \<Rightarrow> int \<Rightarrow> 'z \<Rightarrow> bytes \<Rightarrow> bytes \<Rightarrow> nat \<Rightarrow> bytes process \<Rightarrow> bytes
                \<Rightarrow> (int \<times> bytes) option"
    and Z :: "'z zlib" and fl :: bytes and pos :: nat and left :: int and z :: 'z
    and inbuf outbuf :: bytes and tot :: nat and proc :: "bytes process" and c :: bytes
    and res :: "int \<times> bytes"
  let ?get = "if 32 * 1024 < left then 32 * 1024 else left"
  let ?in1 = "if inbuf = [] then read_at fl pos (nat ?get) else inbuf"
  let ?pos1 = "if inbuf = [] then pos + nat ?get else pos"
  let ?left1 = "if inbuf = [] then left - ?get else left"
  obtain zerr used out z1 where inf: "inflate Z z ?in1 (32 * 1024 - length outbuf) = (zerr, used, out, z1)"
    by (metis prod_cases4)
  let ?full = "length (outbuf @ out) = 32 * 1024 \<or> zerr = Z_STREAM_END \<and> outbuf @ out \<noteq> []"
  let ?c1 = "if ?full then c @ outbuf @ out else c"
  assume IH: "\<And>Z fl pos left z inbuf outbuf tot proc c res.
      rec Z fl pos left z inbuf outbuf tot proc c = Some res \<Longrightarrow>
      proc = collect \<longrightarrow> tot = length c + length outbuf \<longrightarrow>
      fst res = - 1 \<or> fst res = int (length (snd res))"
  assume eq: "(let getSize = ?get; refill = inbuf = []; got = read_at fl pos (nat getSize)
      in if refill \<and> int (length got) \<noteq> getSize then Some (- 1, c)
         else let inbuf1 = if refill then got else inbuf;
                  pos1 = if refill then pos + nat getSize else pos;
                  rem1 = if refill then left - getSize else left;
                  (zerr, used, out, z1) = inflate Z z inbuf1 (32 * 1024 - length outbuf)
              in if zerr \<noteq> Z_OK \<and> zerr \<noteq> Z_STREAM_END then Some (- 1, c)
                 else let outbuf1 = outbuf @ out;
                          full = length outbuf1 = 32 * 1024 \<or> zerr = Z_STREAM_END \<and> outbuf1 \<noteq> []
                      in do { (ret, cookie1) \<leftarrow> (if full then proc outbuf1 c else Some (True, c));
                              if \<not> ret then Some (- 1, cookie1)
                              else if zerr = Z_OK
                              then rec Z fl pos1 rem1 z1 (drop used inbuf1)
                                     (if full then [] else outbuf1) (tot + length out) proc cookie1
                              else Some (int (tot + length out), cookie1) }) = Some res"
  assume proc: "proc = collect" and t: "tot = length c + length outbuf"
  have p: "(if ?full then proc (outbuf @ out) c else Some (True, c)) = Some (True, ?c1)"
    by (simp add: proc collect_def)
  have eq2: "(if inbuf = [] \<and> int (length (read_at fl pos (nat ?get))) \<noteq> ?get then Some (- 1, c)
      else if zerr \<noteq> Z_OK \<and> zerr \<noteq> Z_STREAM_END then Some (- 1, c)
      else if zerr = Z_OK
      then rec Z fl ?pos1 ?left1 z1 (drop used ?in1) (if ?full then [] else outbuf @ out)
             (tot + length out) proc ?c1
      else Some (int (tot + length out), ?c1)) = Some res"
    using eq by (simp only: Let_def inf prod.case p bind.bind_lunit not_True_eq_False if_False)
  have len: "tot + length out = length ?c1 + length (if ?full then [] else outbuf @ out)"
    using t by simp
  show "fst res = - 1 \<or> fst res = int (length (snd res))"
  proof (cases "inbuf = [] \<and> int (length (read_at fl pos (nat ?get))) \<noteq> ?get \<or>
      zerr \<noteq> Z_OK \<and> zerr \<noteq> Z_STREAM_END")
    case True
    then have "Some (- 1, c) = Some res" using eq2 by (auto split: if_splits)
    then show ?thesis by auto
  next
    case False
    then have bad: "\<not> (inbuf = [] \<and> int (length (read_at fl pos (nat ?get))) \<noteq> ?get)"
      "\<not> (zerr \<noteq> Z_OK \<and> zerr \<noteq> Z_STREAM_END)" by blast+
    show ?thesis
    proof (cases "zerr = Z_OK")
      case True
      have "rec Z fl ?pos1 ?left1 z1 (drop used ?in1) (if ?full then [] else outbuf @ out)
             (tot + length out) proc ?c1 = Some res"
        using eq2 unfolding if_not_P [OF bad(1)] if_not_P [OF bad(2)] if_P [OF True] .
      from IH [OF this] proc len show ?thesis by blast
    next
      case fin: False
      have "Some (int (tot + length out), ?c1) = Some res"
        using eq2 unfolding if_not_P [OF bad(1)] if_not_P [OF bad(2)] if_not_P [OF fin] .
      then have r: "(int (tot + length out), ?c1) = res" by (rule option.inject [THEN iffD1])
      have "length (if ?full then [] else outbuf @ out) = 0"
      proof (cases ?full)
        case True
        then show ?thesis unfolding if_P [OF True] by simp
      next
        case nf: False
        then have "outbuf @ out = []" using bad(2) fin by blast
        then show ?thesis unfolding if_not_P [OF nf] by simp
      qed
      then have "int (tot + length out) = int (length ?c1)" using len by linarith
      then show ?thesis unfolding r [symmetric] fst_conv snd_conv by blast
    qed
  qed
qed

subsection \<open>Entries under a directory\<close>

definition under :: "bytes \<Rightarrow> zip_entry \<Rightarrow> bool" where
  "under zpath e \<longleftrightarrow> prefix zpath (fileName e)"

lemma strncmp_prefix:
  "0 \<notin> set z \<Longrightarrow> length z \<le> length a \<Longrightarrow> strncmp a z (length z) = 0 \<longleftrightarrow> prefix z a"
proof (induction z arbitrary: a)
  case (Cons x z)
  then obtain y a' where a: "a = y # a'" by (cases a) auto
  then show ?case using Cons by (auto simp: uint_eq)
qed simp

lemma match_iff:
  "0 \<notin> set z \<Longrightarrow>
   \<not> (fileNameLen e < length z \<or> strncmp (fileName e) z (length z) \<noteq> 0) \<longleftrightarrow> under z e"
  using strncmp_prefix [of z "fileName e"] by (auto simp: under_def not_less dest: prefix_length_le)

text \<open>In the order of the names, what starts with \<open>zpath\<close> is an interval.\<close>

lemma prefix_interval:
  "prefix z a \<Longrightarrow> prefix z c \<Longrightarrow> a \<le> b \<Longrightarrow> b \<le> c \<Longrightarrow> prefix z b" for z a b c :: bytes
proof (induction z arbitrary: a b c)
  case (Cons x z)
  obtain a' c' where ac: "a = x # a'" "c = x # c'" "prefix z a'" "prefix z c'"
  proof -
    obtain ra where "a = (x # z) @ ra" using Cons.prems(1) by (rule prefixE)
    moreover obtain rc where "c = (x # z) @ rc" using Cons.prems(2) by (rule prefixE)
    ultimately show thesis by (intro that [of "z @ ra" "z @ rc"]) simp_all
  qed
  obtain y b' where b: "b = y # b'" using Cons.prems(3) ac(1) by (cases b) auto
  have le: "x < y \<or> x = y \<and> a' \<le> b'" "y < x \<or> y = x \<and> b' \<le> c'"
    using Cons.prems(3,4) unfolding ac b Cons_le_Cons by blast+
  have "\<not> (x < y \<and> y < x)" using less_asym [of x y] by blast
  then have "y = x" "a' \<le> b'" "b' \<le> c'" using le by auto
  then show ?case using Cons.IH [OF ac(3,4)] b by simp
qed simp

lemma none_after:
  assumes "sorted (map fileName (e # es))" "under z e0" "fileName e0 \<le> fileName e" "\<not> under z e"
  shows "filter (under z) es = []"
proof -
  have "\<not> under z x" if "x \<in> set es" for x
  proof
    assume "under z x"
    moreover have "fileName e \<le> fileName x" using assms(1) that by auto
    ultimately have "prefix z (fileName e)"
      using prefix_interval [of z "fileName e0" "fileName x" "fileName e"] assms(2,3)
      by (simp add: under_def)
    then show False using assms(4) by (simp add: under_def)
  qed
  then show ?thesis by (simp add: filter_empty_conv)
qed

subsection \<open>Target paths\<close>

definition target_root :: "bytes \<Rightarrow> bytes" where
  "target_root targetDir = (if targetDir = [] \<or> last targetDir \<noteq> SLASH then targetDir @ [SLASH] else targetDir)"

definition helper_ok :: "bytes \<Rightarrow> path_helper \<Rightarrow> bool" where
  "helper_ok targetDir h \<longleftrightarrow>
     (case h_buf h of
        None \<Rightarrow> h_targetDirLen h = length targetDir \<and> h_bufLen h = 0
      | Some b \<Rightarrow> length b = h_bufLen h \<and> h_targetDirLen h = length (target_root targetDir) \<and>
                  h_targetDirLen h \<le> length b \<and>
                  take (h_targetDirLen h) b = target_root targetDir)"

lemma takeWhile_0: "0 \<notin> set xs \<Longrightarrow> takeWhile (\<lambda>b. b \<noteq> 0) (xs @ 0 # ys) = xs" for xs :: bytes
  by (induction xs) auto

lemma set_take_drop0: "0 \<notin> set xs \<Longrightarrow> 0 \<notin> set (drop n xs)" for xs :: bytes
  by (meson in_set_dropD)

text \<open>Filling in the variable part of a buffer that starts with the root and is long enough.\<close>

lemma fill_path:
  fixes r s b :: bytes
  assumes "length r + length s + 1 \<le> length b" "take (length r) b = r" "0 \<notin> set r" "0 \<notin> set s"
  shows "\<exists>b2 b3. wr_slice b (length r) s = Some b2 \<and> wr b2 (length r + length s) 0 = Some b3 \<and>
     length b3 = length b \<and> take (length r) b3 = r \<and> takeWhile (\<lambda>x. x \<noteq> 0) b3 = r @ s"
proof -
  define b2 where "b2 = r @ s @ drop (length r + length s) b"
  have w2: "wr_slice b (length r) s = Some b2"
    using assms(1,2) by (simp add: wr_slice_def b2_def)
  have l2: "length b2 = length b" using assms(1) by (simp add: b2_def)
  have w3: "wr b2 (length r + length s) 0 = Some (b2[length r + length s := 0])"
    using assms(1) l2 by (simp add: wr_def)
  have "drop (length r + length s) b \<noteq> []" using assms(1) by simp
  then obtain x xs where x: "drop (length r + length s) b = x # xs" by (cases "drop (length r + length s) b") auto
  have b3: "b2[length r + length s := 0] = (r @ s) @ 0 # xs"
    unfolding b2_def x by (simp add: list_update_append)
  have "takeWhile (\<lambda>x. x \<noteq> 0) (b2[length r + length s := 0]) = r @ s"
    unfolding b3 by (rule takeWhile_0) (use assms(3,4) in auto)
  moreover have "take (length r) (b2[length r + length s := 0]) = r" unfolding b3 by simp
  ultimately show ?thesis using w2 w3 l2 by (auto simp del: takeWhile_append)
qed

lemma target_path_step:
  assumes g: "helper_grow h (h_targetDirLen h + 1 + fileNameLen e - zlen + 1) = (b0, l0)"
    and r: "helper_root T h b0 = Some (b1, length r)"
    and b: "length r + (fileNameLen e - zlen) + 1 \<le> length b1" "take (length r) b1 = r" "length b1 = l0"
    and r0: "0 \<notin> set r" and e0: "0 \<notin> set (fileName e)" and rT: "r = target_root T"
  shows "\<exists>h'. targetEntryPath T zlen h e = Some (h', r @ drop zlen (fileName e)) \<and> helper_ok T h'"
proof -
  let ?s = "drop zlen (fileName e)"
  have ls: "length ?s = fileNameLen e - zlen" by simp
  have s0: "0 \<notin> set ?s" by (rule set_take_drop0 [OF e0])
  have en: "length r + length ?s + 1 \<le> length b1" using b(1) by simp
  obtain b2 b3 where f: "wr_slice b1 (length r) ?s = Some b2" "wr b2 (length r + length ?s) 0 = Some b3"
    "length b3 = length b1" "take (length r) b3 = r" "takeWhile (\<lambda>x. x \<noteq> 0) b3 = r @ ?s"
    using fill_path [OF en b(2) r0 s0] by blast
  have "targetEntryPath T zlen h e
      = Some (\<lparr>h_buf = Some b3, h_targetDirLen = length r, h_bufLen = l0\<rparr>, r @ ?s)"
    unfolding targetEntryPath_def Let_def g prod.case r bind.bind_lunit f(1) f(2) [unfolded ls] f(5) ..
  moreover have "helper_ok T \<lparr>h_buf = Some b3, h_targetDirLen = length r, h_bufLen = l0\<rparr>"
    using f(3,4) b(1,3) rT by (simp add: helper_ok_def)
  ultimately show ?thesis by blast
qed

lemma helper_root_first:
  assumes h: "h_buf h = None" "h_targetDirLen h = length T" and l: "length T + 1 \<le> length b0"
  shows "\<exists>b1. helper_root T h b0 = Some (b1, length (target_root T)) \<and> length b1 = length b0 \<and>
           take (length (target_root T)) b1 = target_root T"
proof -
  define b where "b = T @ drop (length T) b0"
  have w: "wr_slice b0 0 T = Some b" using l by (simp add: wr_slice_def b_def)
  have lb: "length b = length b0" using l by (simp add: b_def)
  have nth: "T \<noteq> [] \<Longrightarrow> b ! (length T - 1) = last T" by (simp add: b_def nth_append last_conv_nth)
  show ?thesis
  proof (cases "T = [] \<or> last T \<noteq> SLASH")
    case True
    then have c: "length T = 0 \<or> b ! (length T - 1) \<noteq> SLASH" using nth by auto
    have tr: "target_root T = T @ [SLASH]" using True by (auto simp: target_root_def)
    have "wr b (length T) SLASH = Some (b[length T := SLASH])" using lb l by (simp add: wr_def)
    then have hr: "helper_root T h b0 = Some (b[length T := SLASH], length T + 1)"
      using h w c by (auto simp: helper_root_def)
    obtain x xs where "drop (length T) b0 = x # xs" using l by (cases "drop (length T) b0") auto
    then have "b[length T := SLASH] = (T @ [SLASH]) @ xs" by (simp add: b_def list_update_append)
    then have "take (length (target_root T)) (b[length T := SLASH]) = target_root T" unfolding tr by simp
    then show ?thesis using hr lb tr by auto
  next
    case False
    then have "target_root T = T" by (auto simp: target_root_def)
    moreover have "helper_root T h b0 = Some (b, length T)"
      using h w nth False by (auto simp: helper_root_def)
    ultimately show ?thesis using lb by (simp add: b_def)
  qed
qed

lemma target_path_ok:
  assumes h: "helper_ok T h" and z: "zlen \<le> fileNameLen e" and T0: "0 \<notin> set T" and e0: "0 \<notin> set (fileName e)"
  shows "\<exists>h'. targetEntryPath T zlen h e = Some (h', target_root T @ drop zlen (fileName e)) \<and> helper_ok T h'"
proof -
  let ?r = "target_root T"
  let ?need = "h_targetDirLen h + 1 + fileNameLen e - zlen + 1"
  have r0: "0 \<notin> set ?r" using T0 by (auto simp: target_root_def SLASH_def)
  have lr: "length ?r \<le> length T + 1" by (auto simp: target_root_def)
  show ?thesis
  proof (cases "h_buf h")
    case None
    then have hl: "h_targetDirLen h = length T" "h_bufLen h = 0" using h by (auto simp: helper_ok_def)
    have g: "helper_grow h ?need = (replicate (?need * 2) 0, ?need * 2)"
      using hl None by (simp add: helper_grow_def)
    have "length T + 1 \<le> length (replicate (?need * 2) (0::byte))" using z hl by simp
    from helper_root_first [OF None hl(1) this] obtain b1 where
      b1: "helper_root T h (replicate (?need * 2) 0) = Some (b1, length ?r)" "length b1 = ?need * 2"
        "take (length ?r) b1 = ?r" by auto
    show ?thesis
      by (rule target_path_step [OF g b1(1) _ b1(3,2) r0 e0 refl]) (use lr b1(2) z hl in simp)
  next
    case (Some b)
    then have hb: "length b = h_bufLen h" "h_targetDirLen h = length ?r" "length ?r \<le> length b"
      "take (length ?r) b = ?r"
      using h by (auto simp: helper_ok_def)
    define b0 where "b0 = (if ?need > h_bufLen h then b @ replicate (?need * 2 - length b) 0 else b)"
    define l0 where "l0 = (if ?need > h_bufLen h then ?need * 2 else h_bufLen h)"
    have g: "helper_grow h ?need = (b0, l0)" by (simp add: helper_grow_def Some b0_def l0_def)
    have lb0: "length b0 = l0" using hb(1) by (auto simp: b0_def l0_def)
    have "l0 \<ge> ?need" by (auto simp: l0_def)
    then have enough: "length ?r + (fileNameLen e - zlen) + 1 \<le> length b0" using lb0 hb(2) z by simp
    have b0r: "take (length ?r) b0 = ?r" using hb(3,4) by (simp add: b0_def)
    have hr: "helper_root T h b0 = Some (b0, length ?r)" using Some hb(2) by (simp add: helper_root_def)
    show ?thesis by (rule target_path_step [OF g hr enough b0r lb0 r0 e0 refl])
  qed
qed

subsection \<open>A dry run\<close>

lemma dry_loop:
  assumes flags: "flags AND MZ_EXTRACT_DRY_RUN \<noteq> 0" and z0: "0 \<notin> set z" and T0: "0 \<notin> set T"
  shows "sorted (map fileName es) \<Longrightarrow> clean_names es \<Longrightarrow> helper_ok T h \<Longrightarrow>
    (seen \<longrightarrow> (\<exists>e0. under z e0 \<and> (\<forall>e\<in>set es. fileName e0 \<le> fileName e))) \<Longrightarrow>
    extract_loop Z S file z T flags ts (Some cb) es seen h w =
      Some (True, fold (\<lambda>e. cb (str_of (target_root T @ drop (length z) (fileName e))))
                       (filter (under z) es) w)"
proof (induction es arbitrary: seen h w)
  case (Cons e es)
  have c: "0 \<notin> set (fileName e)" "clean_names es" using Cons.prems(2) by (auto simp: clean_names_def)
  have s: "sorted (map fileName es)" "\<forall>x\<in>set es. fileName e \<le> fileName x" using Cons.prems(1) by auto
  show ?case
  proof (cases "under z e")
    case True
    then have m: "\<not> (fileNameLen e < length z \<or> strncmp (fileName e) z (length z) \<noteq> 0)"
      using match_iff [OF z0] by blast
    then have "length z \<le> fileNameLen e" by simp
    from target_path_ok [OF Cons.prems(3) this T0 c(1)] obtain h' where
      h': "targetEntryPath T (length z) h e = Some (h', target_root T @ drop (length z) (fileName e))"
      "helper_ok T h'" by blast
    have "extract_loop Z S file z T flags ts (Some cb) (e # es) seen h w =
        extract_loop Z S file z T flags ts (Some cb) es True h'
          (cb (str_of (target_root T @ drop (length z) (fileName e))) w)"
      using m flags by (simp add: h'(1))
    also have "\<dots> = Some (True, fold (\<lambda>e. cb (str_of (target_root T @ drop (length z) (fileName e))))
                       (filter (under z) es) (cb (str_of (target_root T @ drop (length z) (fileName e))) w))"
      by (rule Cons.IH [OF s(1) c(2) h'(2)]) (use True s(2) in blast)
    finally show ?thesis using True by simp
  next
    case False
    then have m: "fileNameLen e < length z \<or> strncmp (fileName e) z (length z) \<noteq> 0"
      using match_iff [OF z0] by blast
    show ?thesis
    proof (cases seen)
      case True
      then obtain e0 where "under z e0" "fileName e0 \<le> fileName e" using Cons.prems(4) by auto
      from none_after [OF Cons.prems(1) this False] show ?thesis using m True False by simp
    next
      case ns: False
      then have "extract_loop Z S file z T flags ts (Some cb) (e # es) seen h w =
          extract_loop Z S file z T flags ts (Some cb) es seen h w" using m by simp
      with Cons.IH [OF s(1) c(2) Cons.prems(3)] ns False show ?thesis by simp
    qed
  qed
qed simp

subsection \<open>A failure that is not reported\<close>

text \<open>
  A regular file whose contents cannot be extracted ends the loop with the outer \<open>ok\<close> still true.
\<close>

lemma file_failure_hidden:
  assumes "under z e" "0 \<notin> set z" "flags AND MZ_EXTRACT_DRY_RUN = 0" "fileName e \<noteq> []" "last (fileName e) \<noteq> SLASH"
    and "targetEntryPath T (length z) h e = Some (h', tf)"
    and "dirCreateHierarchy S (str_of tf) 493 ts True w = Some (0, w1)" "\<not> mzIsZipEntrySymlink e"
    and "sys_creat S (str_of tf) 420 w1 = (fd, w2)" "0 \<le> fd"
    and "mzExtractZipEntryToFile Z S fl e fd w2 = Some (False, w3)"
  shows "extract_loop Z S fl z T flags ts cb (e # es) seen h w = Some (True, sys_close S fd w3)"
proof -
  have m: "\<not> (fileNameLen e < length z \<or> strncmp (fileName e) z (length z) \<noteq> 0)"
    using match_iff assms(1,2) by blast
  have "extract_entry Z S fl flags ts e (str_of tf) w = Some (Break True, sys_close S fd w3)"
    using assms(4-) by (simp add: extract_entry_def extract_file_def Let_def)
  then show ?thesis using m assms(3,6) by simp
qed

subsection \<open>Properties\<close>


definition no_zlib :: "unit zlib" where
  "no_zlib = \<lparr>inflateInit2 = (- 1, ()), inflate = (\<lambda>z inp n. (- 3, 0, [], z))\<rparr>"

definition log_ops :: "string list sys_ops" where
  "log_ops = \<lparr>sys_stat = (\<lambda>p w. (StatDir, w)), sys_lstat = (\<lambda>p w. (StatDir, w)),
     sys_mkdir = (\<lambda>p m w. (0, p # w)), sys_utime = (\<lambda>p w. (0, w)), sys_symlink = (\<lambda>t p w. (0, p # w)),
     sys_creat = (\<lambda>p m w. (3, p # w)), sys_write = (\<lambda>f d w. (- 1, 5, w)), sys_close = (\<lambda>f w. w)\<rparr>"


text \<open>
  C31: extracting a stored entry to a buffer that is large enough copies exactly its bytes of the archive
  file into the buffer and answers true exactly when the compressed and the uncompressed length
  agree; a buffer shorter than the compressed length is overrun: the code writes before it counts.
\<close>

theorem stored_extract_buffer:
  assumes "compression e = STORED" "entry_in file e"
  shows "mzExtractZipEntryToBuffer Z file e buf =
     (if nat (compLen e) \<le> length buf
      then Some (compLen e = uncompLen e,
                 take (nat (compLen e)) (drop (nat (offset e)) file) @ drop (nat (compLen e)) buf)
      else None)"
proof -
  have e: "0 \<le> offset e" "0 \<le> compLen e" "offset e + compLen e \<le> int (length file)"
    using assms(2) by (auto simp: entry_in_def)
  then have r: "nat (offset e) + nat (compLen e) \<le> length file" by linarith
  show ?thesis
    using e assms(1)
    by (auto simp: mzExtractZipEntryToBuffer_def mzProcessZipEntryContents_def processStoredEntry_def
        stored_to_buffer [OF r])
qed

theorem stored_extract_buffer_witness:
  "mzExtractZipEntryToBuffer no_zlib [65, 2, 3, 4]
     \<lparr>fileName = [65], offset = 1, compLen = 2, uncompLen = 2, compression = 0, modTime = 0, crc = 0,
      versionMadeBy = 0, externalFileAttributes = 0\<rparr> [9, 9, 9] = Some (True, [2, 3, 9])"
proof -
  let ?e = "\<lparr>fileName = [65], offset = 1, compLen = 2, uncompLen = 2, compression = 0, modTime = 0, crc = 0,
      versionMadeBy = 0, externalFileAttributes = 0\<rparr>"
  have "entry_in [65, 2, 3, 4] ?e"
    unfolding entry_in_def by (intro conjI exI [of _ 0]) (simp_all add: validFilename_def PATH_MAX_def)
  then show ?thesis using stored_extract_buffer [of ?e "[65, 2, 3, 4]" no_zlib "[9, 9, 9]"]
    by (simp add: STORED_def)
qed

text \<open>
  C32: whatever zlib does, when a deflated entry is processed successfully the blocks handed to the
  process function have together exactly the uncompressed length the directory announces.
\<close>

theorem deflated_length:
  assumes "compression e = DEFLATED"
    and "mzProcessZipEntryContents Z fl e collect [] = Some (True, out)"
  shows "int (length out) = uncompLen e \<or> uncompLen e = - 1"
proof -
  obtain zerr z where zi: "inflateInit2 Z = (zerr, z)" by fastforce
  have "compression e \<noteq> STORED" using assms(1) by (simp add: DEFLATED_def STORED_def)
  then obtain r where r: "(if zerr \<noteq> Z_OK then Some (- 1, [])
         else inflate_loop Z fl (nat (offset e)) (compLen e) z [] [] 0 collect []) = Some (r, out)"
    "r = uncompLen e"
    using assms by (auto simp: mzProcessZipEntryContents_def processDeflatedEntry_def zi bind_eq_Some_conv)
  show ?thesis
  proof (cases "zerr = Z_OK")
    case True
    then show ?thesis using r inflate_loop_collect [of Z fl "nat (offset e)" "compLen e" z "[]" "[]" 0 collect "[]" "(r, out)"]
      by auto
  qed (use r in auto)
qed

definition one_shot :: "unit zlib" where
  "one_shot = \<lparr>inflateInit2 = (0, ()), inflate = (\<lambda>z inp n. (1, length inp, inp @ inp, z))\<rparr>"

definition deflated_entry :: zip_entry where
  "deflated_entry = \<lparr>fileName = [65], offset = 1, compLen = 2, uncompLen = 4, compression = 8, modTime = 0,
     crc = 0, versionMadeBy = 0, externalFileAttributes = 0\<rparr>"

theorem deflated_length_witness:
  "mzProcessZipEntryContents one_shot [65, 7, 8] deflated_entry collect [] = Some (True, [7, 8, 7, 8]) \<and>
     (int (length ([7, 8, 7, 8] :: bytes)) = uncompLen deflated_entry \<or> uncompLen deflated_entry = - 1)"
proof -
  have "inflate_loop one_shot [65, 7, 8] 1 2 () [] [] 0 collect [] = Some (4, [7, 8, 7, 8])"
    by (subst inflate_loop.simps)
      (simp add: one_shot_def Let_def read_at_def Z_OK_def Z_STREAM_END_def collect_def)
  then have p: "mzProcessZipEntryContents one_shot [65, 7, 8] deflated_entry collect [] = Some (True, [7, 8, 7, 8])"
    by (simp add: mzProcessZipEntryContents_def processDeflatedEntry_def STORED_def DEFLATED_def deflated_entry_def)
      (simp add: one_shot_def Z_OK_def)
  have "compression deflated_entry = DEFLATED" by (simp add: DEFLATED_def deflated_entry_def)
  from p deflated_length [OF this p] show ?thesis by blast
qed

end
