(* ===== verification/Verifier.thy ===== *)
theory Verifier
  imports Prelude ByteOrder ZipArchive "HOL-Library.Sublist"
begin

text \<open>
  The whole-file signature check of \<open>verifier.c\<close>.

  The package is the contents of the file, \<open>None\<close> when it cannot be opened.  The library mincrypt
  is a parameter: SHA-1 as its three functions over a context, the RSA check and the size of an
  RSA block.  \<open>alloc\<close> says which of the two allocations succeed.  Progress reports and log lines
  are left out.
\<close>

record ('key, 'ctx) mincrypt =
  RSANUMBYTES :: nat
  SHA_init :: 'ctx
  SHA_update :: "'ctx \<Rightarrow> bytes \<Rightarrow> 'ctx"
  SHA_final :: "'ctx \<Rightarrow> bytes"
  RSA_verify :: "'key \<Rightarrow> bytes \<Rightarrow> bytes \<Rightarrow> bool"

definition VERIFY_SUCCESS :: int where "VERIFY_SUCCESS = 0"
definition VERIFY_FAILURE :: int where "VERIFY_FAILURE = 1"
definition FOOTER_SIZE :: nat where "FOOTER_SIZE = 6"
definition EOCD_HEADER_SIZE :: nat where "EOCD_HEADER_SIZE = 22"
definition BUFFER_SIZE :: nat where "BUFFER_SIZE = 4096"

text \<open>A 16-bit field of the footer, \<open>footer[i] + (footer[i+1] << 8)\<close>.\<close>

definition footer_field :: "bytes \<Rightarrow> nat \<Rightarrow> nat" where
  "footer_field footer i = unat (footer ! i) + unat (footer ! (i + 1)) * 256"

text \<open>The marker \<open>$50 $4b $05 $06\<close> at index \<open>i\<close>; \<open>&&\<close> reads no further than it must.\<close>

definition marker_at :: "bytes \<Rightarrow> nat \<Rightarrow> bool ub" where
  "marker_at eocd i =
     do { b0 \<leftarrow> rd eocd i;
          if b0 \<noteq> 0x50 then Some False
          else do { b1 \<leftarrow> rd eocd (i + 1);
                    if b1 \<noteq> 0x4b then Some False
                    else do { b2 \<leftarrow> rd eocd (i + 2);
                              if b2 \<noteq> 0x05 then Some False
                              else do { b3 \<leftarrow> rd eocd (i + 3); Some (b3 = 0x06) }}}}"

text \<open>Whether the marker occurs again at an index from \<open>i\<close> on.\<close>

function marker_loop :: "bytes \<Rightarrow> nat \<Rightarrow> bool ub" where
  "marker_loop eocd i =
     (if i < length eocd - 3
      then do { m \<leftarrow> marker_at eocd i; if m then Some True else marker_loop eocd (i + 1) }
      else Some False)"
  by pat_completeness auto
termination by (relation "measure (\<lambda>(eocd, i). length eocd - i)") auto

text \<open>The hash of the first \<open>signed_len\<close> bytes, block by block; \<open>None\<close> is a short read.\<close>

function sha_loop :: "('key, 'ctx) mincrypt \<Rightarrow> bytes \<Rightarrow> nat \<Rightarrow> 'ctx \<Rightarrow> nat \<Rightarrow> 'ctx option" where
  "sha_loop C f signed_len ctx so_far =
     (if so_far < signed_len
      then (let size = (if signed_len - so_far < BUFFER_SIZE then signed_len - so_far else BUFFER_SIZE);
                buffer = take size (drop so_far f)
            in if length buffer \<noteq> size then None
               else sha_loop C f signed_len (SHA_update C ctx buffer) (so_far + size))
      else Some ctx)"
  by pat_completeness auto
termination
  by (relation "measure (\<lambda>(C, f, signed_len, ctx, so_far). signed_len - so_far)")
    (auto simp: BUFFER_SIZE_def)

text \<open>The keys in turn; the signature block starts \<open>RSANUMBYTES\<close> before the footer.\<close>

fun try_keys :: "('key, 'ctx) mincrypt \<Rightarrow> bytes \<Rightarrow> bytes \<Rightarrow> 'key list \<Rightarrow> int ub" where
  "try_keys C eocd sha1 [] = Some VERIFY_FAILURE"
| "try_keys C eocd sha1 (k # ks) =
     (if length eocd < FOOTER_SIZE + RSANUMBYTES C then None
      else do { sig \<leftarrow> rd_slice eocd (length eocd - FOOTER_SIZE - RSANUMBYTES C) (RSANUMBYTES C);
                if RSA_verify C k sig sha1 then Some VERIFY_SUCCESS else try_keys C eocd sha1 ks })"

text \<open>From the allocation of the buffer for the end record on; \<open>f\<close> stands at the record.\<close>

definition verify_record ::
  "('key, 'ctx) mincrypt \<Rightarrow> (nat \<Rightarrow> bool) \<Rightarrow> bytes \<Rightarrow> 'key list \<Rightarrow> nat \<Rightarrow> int ub" where
  "verify_record C alloc f pKeys eocd_size =
     (let start = length f - eocd_size;
          signed_len = start + EOCD_HEADER_SIZE - 2
      in if \<not> alloc eocd_size then Some VERIFY_FAILURE
         else let eocd = take eocd_size (drop start f)
         in if length eocd \<noteq> eocd_size then Some VERIFY_FAILURE
         else do {
           begins \<leftarrow> marker_at eocd 0;
           if \<not> begins then Some VERIFY_FAILURE
           else do {
             again \<leftarrow> marker_loop eocd 4;
             if again then Some VERIFY_FAILURE
             else if \<not> alloc BUFFER_SIZE then Some VERIFY_FAILURE
             else case sha_loop C f signed_len (SHA_init C) 0 of
               None \<Rightarrow> Some VERIFY_FAILURE
             | Some ctx \<Rightarrow> try_keys C eocd (SHA_final C ctx) pKeys }})"

definition verify_file ::
  "('key, 'ctx) mincrypt \<Rightarrow> (nat \<Rightarrow> bool) \<Rightarrow> bytes option \<Rightarrow> 'key list \<Rightarrow> int ub" where
  "verify_file C alloc fopened pKeys =
     (case fopened of
        None \<Rightarrow> Some VERIFY_FAILURE
      | Some f \<Rightarrow>
          if length f < FOOTER_SIZE then Some VERIFY_FAILURE
          else let footer = drop (length f - FOOTER_SIZE) f
          in if footer ! 2 \<noteq> 0xff \<or> footer ! 3 \<noteq> 0xff then Some VERIFY_FAILURE
          else let comment_size = footer_field footer 4;
                   signature_start = footer_field footer 0
          in if int signature_start - int FOOTER_SIZE < int (RSANUMBYTES C) then Some VERIFY_FAILURE
          else let eocd_size = comment_size + EOCD_HEADER_SIZE
          in if length f < eocd_size then Some VERIFY_FAILURE
          else verify_record C alloc f pKeys eocd_size)"

declare marker_loop.simps [simp del] sha_loop.simps [simp del]

subsection \<open>What is accepted\<close>

text \<open>
  The footer of a package, and the package as its footer describes it: the end record starts
  \<open>comment_size + 22\<close> bytes before the end, carries the marker, and no marker follows it.
\<close>

definition comment_of :: "bytes \<Rightarrow> nat" where
  "comment_of f = footer_field (drop (length f - 6) f) 4"

definition sig_start_of :: "bytes \<Rightarrow> nat" where
  "sig_start_of f = footer_field (drop (length f - 6) f) 0"

definition marker :: "bytes \<Rightarrow> nat \<Rightarrow> bool" where
  "marker f i \<longleftrightarrow> i + 4 \<le> length f \<and> take 4 (drop i f) = [0x50, 0x4b, 0x05, 0x06]"

definition framed :: "nat \<Rightarrow> bytes \<Rightarrow> bool" where
  "framed rsa f \<longleftrightarrow>
     6 \<le> length f \<and> f ! (length f - 4) = 0xff \<and> f ! (length f - 3) = 0xff \<and>
     rsa + 6 \<le> sig_start_of f \<and> comment_of f + 22 \<le> length f \<and>
     marker f (length f - (comment_of f + 22)) \<and>
     (\<forall>i \<ge> length f - (comment_of f + 22) + 4. \<not> marker f i)"

definition signed_part :: "bytes \<Rightarrow> bytes" where
  "signed_part f = take (length f - (comment_of f + 2)) f"

definition signature_of :: "nat \<Rightarrow> bytes \<Rightarrow> bytes" where
  "signature_of rsa f = take rsa (drop (length f - 6 - rsa) f)"

lemma marker_at_val:
  "i + 3 < length e \<Longrightarrow> marker_at e i = Some (marker e i)"
  by (auto simp: marker_at_def marker_def rd_def numeral_eq_Suc take_Suc_conv_app_nth
      simp flip: Cons_nth_drop_Suc)

lemma marker_nth:
  "marker f i \<longleftrightarrow> i + 4 \<le> length f \<and> f ! i = 0x50 \<and> f ! (i + 1) = 0x4b \<and> f ! (i + 2) = 5 \<and> f ! (i + 3) = 6"
  by (cases "i + 4 \<le> length f")
    (auto simp: marker_def numeral_eq_Suc simp flip: Cons_nth_drop_Suc)

lemma marker_loop_val:
  "marker_loop e i = Some (\<exists>j \<ge> i. marker e j)"
proof (induction e i rule: marker_loop.induct)
  case (1 e i)
  show ?case
  proof (cases "i < length e - 3")
    case True
    then have m: "marker_at e i = Some (marker e i)" by (simp add: marker_at_val)
    have "(\<exists>j \<ge> i. marker e j) \<longleftrightarrow> marker e i \<or> (\<exists>j \<ge> i + 1. marker e j)"
      by (auto simp: Suc_le_eq) (metis le_neq_implies_less, meson less_imp_le)
    then show ?thesis using "1.IH" [OF True] m True by (subst marker_loop.simps) auto
  next
    case False
    then have "\<not> (\<exists>j \<ge> i. marker e j)" by (auto simp: marker_def)
    then show ?thesis using False by (subst marker_loop.simps) simp
  qed
qed

text \<open>Hashing in blocks is hashing at once, for a hash that may be fed piecewise.\<close>

lemma sha_loop_val:
  assumes "\<And>c a b. SHA_update C (SHA_update C c a) b = SHA_update C c (a @ b)"
    and "signed_len \<le> length f"
  shows "so_far < signed_len \<Longrightarrow>
    sha_loop C f signed_len ctx so_far = Some (SHA_update C ctx (take (signed_len - so_far) (drop so_far f)))"
proof (induction "signed_len - so_far" arbitrary: so_far ctx rule: less_induct)
  case less
  define s where "s = (if signed_len - so_far < BUFFER_SIZE then signed_len - so_far else BUFFER_SIZE)"
  have s: "0 < s" "so_far + s \<le> signed_len" using less.prems by (auto simp: s_def BUFFER_SIZE_def)
  have len: "length (take s (drop so_far f)) = s" using s assms(2) by simp
  have step: "sha_loop C f signed_len ctx so_far =
      sha_loop C f signed_len (SHA_update C ctx (take s (drop so_far f))) (so_far + s)"
    using less.prems len by (subst sha_loop.simps) (simp add: Let_def flip: s_def)
  show ?case
  proof (cases "so_far + s < signed_len")
    case True
    have d: "signed_len - so_far = s + (signed_len - (so_far + s))" using s by simp
    have "take (signed_len - so_far) (drop so_far f)
        = take s (drop so_far f) @ take (signed_len - (so_far + s)) (drop (so_far + s) f)"
      unfolding d by (simp only: take_add drop_drop add.commute)
    then show ?thesis using less.hyps [OF _ True] s assms(1) by (simp add: step)
  next
    case False
    then have "s = signed_len - so_far" using s by simp
    then show ?thesis unfolding step using False by (subst sha_loop.simps) simp
  qed
qed

lemma try_keys_val:
  assumes "6 + RSANUMBYTES C \<le> length eocd"
  shows "try_keys C eocd h ks =
    Some (if \<exists>k\<in>set ks. RSA_verify C k (take (RSANUMBYTES C) (drop (length eocd - 6 - RSANUMBYTES C) eocd)) h
          then VERIFY_SUCCESS else VERIFY_FAILURE)"
  using assms by (induction ks) (auto simp: rd_slice_def FOOTER_SIZE_def)


lemma footer_nth:
  assumes "6 \<le> length f"
  shows "drop (length f - 6) f ! 2 = f ! (length f - 4)" "drop (length f - 6) f ! 3 = f ! (length f - 3)"
proof -
  have "length f - 6 + 2 = length f - 4" "length f - 6 + 3 = length f - 3" using assms by simp_all
  then show "drop (length f - 6) f ! 2 = f ! (length f - 4)" "drop (length f - 6) f ! 3 = f ! (length f - 3)"
    using assms by (simp_all only: nth_drop diff_le_self)
qed

lemma marker_drop: "s \<le> length f \<Longrightarrow> marker (drop s f) i \<longleftrightarrow> marker f (s + i)"
  by (auto simp: marker_def add.commute)

lemma marker_loop_drop:
  assumes "s \<le> length f"
  shows "marker_loop (drop s f) k = Some (\<exists>j \<ge> s + k. marker f j)"
proof -
  have "(\<exists>j \<ge> k. marker f (s + j)) \<longleftrightarrow> (\<exists>j \<ge> s + k. marker f j)" (is "?l \<longleftrightarrow> ?r")
  proof
    assume ?r
    then obtain j where "s + k \<le> j" "marker f (s + (j - s))" by fastforce
    then have "k \<le> j - s" by simp
    then show ?l using \<open>marker f (s + (j - s))\<close> by blast
  qed (auto intro: add_left_mono)
  then show ?thesis using assms by (simp add: marker_loop_val marker_drop)
qed

lemma verify_record_val:
  assumes "\<And>c a b. SHA_update C (SHA_update C c a) b = SHA_update C c (a @ b)" and "\<And>n. alloc n"
    and "sz = comment_of f + 22" "sz \<le> length f"
  shows "verify_record C alloc f keys sz =
    (if \<not> marker f (length f - sz) \<or> (\<exists>j \<ge> length f - sz + 4. marker f j) then Some VERIFY_FAILURE
     else try_keys C (drop (length f - sz) f)
            (SHA_final C (SHA_update C (SHA_init C) (signed_part f))) keys)"
proof -
  let ?start = "length f - sz"
  have sz: "22 \<le> sz" using assms(3) by simp
  have len: "length (drop ?start f) = sz" using assms(4) by simp
  then have eocd: "take sz (drop ?start f) = drop ?start f" by simp
  have b: "marker_at (drop ?start f) 0 = Some (marker f ?start)"
    using len sz by (simp add: marker_at_val marker_drop)
  have again: "marker_loop (drop ?start f) 4 = Some (\<exists>j \<ge> ?start + 4. marker f j)"
    by (rule marker_loop_drop) simp
  have n: "?start + 22 - 2 = ?start + 20" "0 < ?start + 20" "?start + 20 \<le> length f" using assms(4) sz by simp_all
  have sp: "take (?start + 20) f = signed_part f" using assms(3,4) by (simp add: signed_part_def)
  have sha: "sha_loop C f (?start + 20) (SHA_init C) 0 = Some (SHA_update C (SHA_init C) (signed_part f))"
    using sha_loop_val [OF assms(1) n(3,2)] sp by simp
  show ?thesis
    unfolding verify_record_def Let_def eocd EOCD_HEADER_SIZE_def n(1) b again sha
    using len assms(2) by auto
qed

lemma footer_found:
  assumes "verify_file C alloc (Some f) keys = Some VERIFY_SUCCESS"
  shows "6 \<le> length f \<and> f ! (length f - 4) = 0xff \<and> f ! (length f - 3) = 0xff \<and>
     RSANUMBYTES C + 6 \<le> sig_start_of f \<and> comment_of f + 22 \<le> length f \<and>
     verify_record C alloc f keys (comment_of f + 22) = Some VERIFY_SUCCESS"
  using assms footer_nth [of f]
  by (cases "length f < 6")
    (auto simp: verify_file_def Let_def FOOTER_SIZE_def EOCD_HEADER_SIZE_def VERIFY_SUCCESS_def
      VERIFY_FAILURE_def comment_of_def sig_start_of_def simp del: nth_drop split: if_splits)

lemma record_found:
  assumes "verify_record C alloc f keys sz = Some VERIFY_SUCCESS" "22 \<le> sz" "sz \<le> length f"
  shows "marker f (length f - sz) \<and> (\<forall>j \<ge> length f - sz + 4. \<not> marker f j)"
proof -
  let ?start = "length f - sz"
  have len: "length (drop ?start f) = sz" using assms(3) by simp
  have b: "marker_at (drop ?start f) 0 = Some (marker f ?start)"
    using len assms(2) by (simp add: marker_at_val marker_drop)
  have again: "marker_loop (drop ?start f) 4 = Some (\<exists>j \<ge> ?start + 4. marker f j)"
    by (rule marker_loop_drop) simp
  show ?thesis
    using assms(1) len
    by (auto simp: verify_record_def Let_def b again VERIFY_SUCCESS_def VERIFY_FAILURE_def split: if_splits)
qed

lemma success_framed:
  assumes "verify_file C alloc (Some f) keys = Some VERIFY_SUCCESS"
  shows "framed (RSANUMBYTES C) f"
  using footer_found [OF assms] record_found [of C alloc f keys "comment_of f + 22"]
  by (simp add: framed_def)

text \<open>The marker is what \<open>minzip\<close> looks for.\<close>

lemma marker_overlap:
  assumes "marker f i" "marker f j" "i < j"
  shows "i + 4 \<le> j"
proof -
  have "j \<noteq> i + 1" "j \<noteq> i + 2" "j \<noteq> i + 3" using assms(1,2) by (auto simp: marker_nth)
  then show ?thesis using assms(3) by simp
qed

lemma word4_bytes:
  fixes a b c d :: byte
  defines "w \<equiv> (ucast a :: u32) OR push_bit 8 (ucast b) OR push_bit 16 (ucast c) OR push_bit 24 (ucast d)"
  shows "ucast w = a" "ucast (drop_bit 8 w) = b" "ucast (drop_bit 16 w) = c" "ucast (drop_bit 24 w) = d"
  unfolding w_def
  by (rule bit_word_eqI; auto simp: bit_simps dest: bit_imp_le_length)+

lemma marker_ENDSIG: "get4LE f i = Some ENDSIG \<longleftrightarrow> marker f i"
proof (cases "i + 4 \<le> length f")
  case True
  let ?w = "(ucast (f ! i) :: u32) OR push_bit 8 (ucast (f ! (i + 1)))
      OR push_bit 16 (ucast (f ! (i + 2))) OR push_bit 24 (ucast (f ! (i + 3)))"
  have g: "get4LE f i = Some ?w" using True by (simp add: get4LE_def rd_def)
  have "?w = ENDSIG \<longleftrightarrow> f ! i = 0x50 \<and> f ! (i + 1) = 0x4b \<and> f ! (i + 2) = 5 \<and> f ! (i + 3) = 6"
  proof
    assume w: "?w = ENDSIG"
    show "f ! i = 0x50 \<and> f ! (i + 1) = 0x4b \<and> f ! (i + 2) = 5 \<and> f ! (i + 3) = 6"
      using word4_bytes [of "f ! i" "f ! (i + 1)" "f ! (i + 2)" "f ! (i + 3)", symmetric]
      unfolding w by (simp add: ENDSIG_def)
  next
    assume "f ! i = 0x50 \<and> f ! (i + 1) = 0x4b \<and> f ! (i + 2) = 5 \<and> f ! (i + 3) = 6"
    moreover have "(ucast (0x50 :: byte) :: u32) OR push_bit 8 (ucast (0x4b :: byte)) OR
        push_bit 16 (ucast (5 :: byte)) OR push_bit 24 (ucast (6 :: byte)) = ENDSIG"
      by code_simp
    ultimately show "?w = ENDSIG" by (simp only: simp_thms)
  qed
  then show ?thesis using True g by (simp only: marker_nth option.inject simp_thms)
next
  case False
  then show ?thesis using get4LE_defined [of f i] by (auto simp: marker_def)
qed

lemma framed_eocd:
  assumes "framed rsa f" "eocd_pos f p"
  shows "p = length f - (comment_of f + 22)"
proof -
  let ?s = "length f - (comment_of f + 22)"
  have s: "marker f ?s" "\<forall>j \<ge> ?s + 4. \<not> marker f j" "comment_of f + 22 \<le> length f"
    using assms(1) by (auto simp: framed_def)
  have p: "marker f p" "\<And>q. p < q \<Longrightarrow> q + 22 \<le> length f \<Longrightarrow> \<not> marker f q"
    using assms(2) by (auto simp: eocd_pos_def marker_ENDSIG)
  have "\<not> p < ?s" using p(2) [of ?s] s by auto
  moreover have "\<not> ?s < p" using marker_overlap [OF s(1) p(1)] s(2) p(1) by auto
  ultimately show ?thesis by simp
qed

subsection \<open>Properties\<close>

text \<open>
  C2: \<open>verify_file\<close> answers success exactly for a package that is framed as the comment in the code
  describes (footer marks, a signature block large enough, an end-of-central-directory marker where
  the comment size puts it and none after it) and whose signature block one of the keys verifies
  against the hash of everything up to the comment length; hashing in blocks of 4096 is hashing at
  once.  The comment size is never compared with the size of a signature: when the comment is
  too short for one and a key is tried, the signature is read in front of the buffer.
\<close>

theorem verify_file_exact:
  assumes "\<And>c a b. SHA_update C (SHA_update C c a) b = SHA_update C c (a @ b)" and "\<And>n. alloc n"
  shows "verify_file C alloc (Some f) keys =
    (if \<not> framed (RSANUMBYTES C) f \<or> keys = [] then Some VERIFY_FAILURE
     else if comment_of f + 16 < RSANUMBYTES C then None
     else Some (if \<exists>k\<in>set keys. RSA_verify C k (signature_of (RSANUMBYTES C) f)
                    (SHA_final C (SHA_update C (SHA_init C) (signed_part f)))
                then VERIFY_SUCCESS else VERIFY_FAILURE))"
proof -
  let ?rsa = "RSANUMBYTES C" and ?size = "comment_of f + 22"
  let ?start = "length f - ?size"
  define ft where "ft \<longleftrightarrow> 6 \<le> length f \<and> f ! (length f - 4) = 0xff \<and> f ! (length f - 3) = 0xff \<and>
     ?rsa + 6 \<le> sig_start_of f \<and> ?size \<le> length f"
  show ?thesis
  proof (cases ft)
    case False
    then have "\<not> framed ?rsa f" by (auto simp: framed_def ft_def)
    moreover have "verify_file C alloc (Some f) keys = Some VERIFY_FAILURE"
      using False footer_nth [of f]
      by (cases "length f < 6")
        (auto simp: verify_file_def ft_def Let_def FOOTER_SIZE_def EOCD_HEADER_SIZE_def
          comment_of_def sig_start_of_def simp del: nth_drop)
    ultimately show ?thesis by simp
  next
    case True
    then have ft: "6 \<le> length f" "f ! (length f - 4) = 0xff" "f ! (length f - 3) = 0xff"
      "?rsa + 6 \<le> sig_start_of f" "?size \<le> length f" by (auto simp: ft_def)
    have eocd: "length (drop ?start f) = ?size" using ft(5) by simp
    have "verify_file C alloc (Some f) keys = verify_record C alloc f keys ?size"
      using ft footer_nth [of f]
      by (auto simp: verify_file_def Let_def FOOTER_SIZE_def EOCD_HEADER_SIZE_def
          comment_of_def sig_start_of_def simp del: nth_drop)
    then have run: "verify_file C alloc (Some f) keys =
      (if \<not> marker f ?start \<or> (\<exists>j \<ge> ?start + 4. marker f j) then Some VERIFY_FAILURE
       else try_keys C (drop ?start f) (SHA_final C (SHA_update C (SHA_init C) (signed_part f))) keys)"
      using verify_record_val [OF assms refl ft(5)] by simp
    have frm: "framed ?rsa f \<longleftrightarrow> \<not> (\<not> marker f ?start \<or> (\<exists>j \<ge> ?start + 4. marker f j))"
      using ft by (auto simp: framed_def)
    show ?thesis
    proof (cases "comment_of f + 16 < ?rsa")
      case True
      then show ?thesis using run frm eocd by (cases keys) (auto simp: FOOTER_SIZE_def)
    next
      case False
      then have "6 + ?rsa \<le> length (drop ?start f)" using eocd by simp
      moreover have "drop (?size - 6 - ?rsa) (drop ?start f) = drop (length f - 6 - ?rsa) f"
        using ft(5) False by simp
      ultimately show ?thesis using run frm eocd try_keys_val [of C "drop ?start f"]
        by (auto simp: signature_of_def)
    qed
  qed
qed


definition toy_crypt :: "(bytes, bytes) mincrypt" where
  "toy_crypt = \<lparr>RSANUMBYTES = 2, SHA_init = [], SHA_update = (@), SHA_final = take 1,
     RSA_verify = (\<lambda>k sig h. sig = k @ h)\<rparr>"

definition toy_package :: bytes where
  "toy_package = [0x50, 0x4b, 5, 6, 1, 1, 1, 1, 1, 1, 1, 1, 1, 1, 1, 1, 1, 1, 1, 1, 8, 0,
     7, 0x50, 8, 0, 255, 255, 8, 0]"

lemma toy_framed: "framed 2 toy_package" "comment_of toy_package = 8"
proof -
  have "comment_of toy_package = 8" "sig_start_of toy_package = 8"
    by (simp_all add: comment_of_def sig_start_of_def footer_field_def toy_package_def)
  moreover have "marker_loop toy_package 4 = Some False" by code_simp
  ultimately show "framed 2 toy_package" "comment_of toy_package = 8"
    by (auto simp: framed_def marker_loop_val) (simp_all add: toy_package_def marker_def)
qed

theorem verify_file_exact_witness:
  "verify_file toy_crypt (\<lambda>n. True) (Some toy_package) [[3], [7]] = Some VERIFY_SUCCESS \<and>
   verify_file toy_crypt (\<lambda>n. True) (Some toy_package) [[3], [4]] = Some VERIFY_FAILURE"
proof -
  have "SHA_update toy_crypt (SHA_update toy_crypt c a) b = SHA_update toy_crypt c (a @ b)" for c a b
    by (simp add: toy_crypt_def)
  note v = verify_file_exact [OF this, of "\<lambda>n. True" toy_package]
  have "signature_of 2 toy_package = [7, 0x50]" "signed_part toy_package = take 20 toy_package"
    by (simp_all add: signature_of_def signed_part_def toy_framed) (simp_all add: toy_package_def)
  then show ?thesis
    using v [of "[[3], [7]]"] v [of "[[3], [4]]"] toy_framed
    by (simp add: toy_crypt_def) (simp add: toy_package_def)
qed

text \<open>
  C3: a package that passes \<open>verify_file\<close> and that minzip opens is read from the end record the
  signature covers: the record minzip finds by scanning backwards is the signed one, so the number
  of entries and the directory offset it takes from there, and the marker itself, are bytes the
  key's owner signed.
\<close>

theorem verified_index_signed:
  assumes "verify_file C alloc (Some (mem pm)) keys = Some VERIFY_SUCCESS"
    and "mzOpenZipArchive fd errno (Some pm) = Some (0, a, rel)"
  shows "\<exists>p. p + 20 = length (signed_part (mem pm)) \<and> prefix (signed_part (mem pm)) (mem pm) \<and>
     zNumEntries a = unat (val2 (mem pm) (p + 8)) \<and>
     mset (zEntries a) = mset (map (entry_at (mem pm))
       (records (zNumEntries a) (mem pm) (unat (val4 (mem pm) (p + 16)))))"
proof -
  have fr: "framed (RSANUMBYTES C) (mem pm)" by (rule success_framed [OF assms(1)])
  obtain h where o: "22 \<le> length (mem pm)" "parseZipArchive pm = Some (Some (zEntries a, h))"
    "zNumEntries a = length (zEntries a)"
    using open_success [OF assms(2)] by auto
  then obtain p where p: "eocd_pos (mem pm) p" "length (zEntries a) = unat (val2 (mem pm) (p + 8))"
    "mset (zEntries a) = mset (map (entry_at (mem pm))
       (records (length (zEntries a)) (mem pm) (unat (val4 (mem pm) (p + 16)))))"
    using parse_cases [OF o(1)] by auto
  have "p = length (mem pm) - (comment_of (mem pm) + 22)" by (rule framed_eocd [OF fr p(1)])
  moreover have "comment_of (mem pm) + 22 \<le> length (mem pm)" using fr by (simp add: framed_def)
  ultimately have "p + 20 = length (signed_part (mem pm))" by (simp add: signed_part_def)
  then show ?thesis using p(2,3) o(3) by (auto simp: signed_part_def take_is_prefix)
qed


definition signed_mini :: mem_mapping where
  "signed_mini = \<lparr>addr = 0x10000,
     mem = mini_local @ mini_central @ mini_end @ [7, 80, 8, 0, 255, 255, 8, 0]\<rparr>"

theorem verified_index_signed_witness:
  "\<exists>a rel p. mzOpenZipArchive 3 0 (Some signed_mini) = Some (0, a, rel) \<and>
     verify_file toy_crypt (\<lambda>n. True) (Some (mem signed_mini)) [[7]] = Some VERIFY_SUCCESS \<and>
     p + 20 = length (signed_part (mem signed_mini)) \<and> zNumEntries a = unat (val2 (mem signed_mini) (p + 8))"
proof -
  have v: "verify_file toy_crypt (\<lambda>n. True) (Some (mem signed_mini)) [[7]] = Some VERIFY_SUCCESS"
    by code_simp
  have "case mzOpenZipArchive 3 0 (Some signed_mini) of Some (err, _) \<Rightarrow> err = 0 | None \<Rightarrow> False"
    by code_simp
  then obtain a rel where a: "mzOpenZipArchive 3 0 (Some signed_mini) = Some (0, a, rel)"
    by (cases "mzOpenZipArchive 3 0 (Some signed_mini)") auto
  from verified_index_signed [OF v a] v a show ?thesis by blast
qed

end
