(* ===== verification/MtdUtils.thy ===== *)
theory MtdUtils
  imports Prelude CLib
begin

text \<open>
  Raw access to flash partitions: \<open>mtdutils/mtdutils.c\<close>.

  The kernel's MTD driver is a parameter, the record \<open>mtd_dev\<close> of functions over a state \<open>'w\<close>, one per
  system call the code makes; \<open>read\<close> answers its return value and the bytes it stored.  The contexts
  are the code's structures; \<open>malloc\<close>'s answers are a parameter where the code looks at them.  A loop
  that never ends and an access outside a buffer are both \<open>None\<close>.  Messages are left out.
\<close>

subsection \<open>Data\<close>

record mtd_partition =
  device_index :: int
  psize :: u32
  erase_size :: u32
  pname :: "string option"

record mtd_state =
  partitions :: "mtd_partition list option"
  partition_count :: int

record mtd_read_context =
  r_partition :: mtd_partition
  r_buffer :: bytes
  consumed :: nat
  r_fd :: int

text \<open>\<open>bad_block_offsets\<close> is the array with \<open>bad_block_alloc\<close> places.\<close>

record bad_blocks =
  bad_block_offsets :: "int list"
  bad_block_alloc :: nat
  bad_block_count :: nat

record mtd_write_context =
  w_partition :: mtd_partition
  w_buffer :: bytes
  stored :: nat
  w_fd :: int
  w_bad :: bad_blocks

definition blk :: "mtd_partition \<Rightarrow> nat" where "blk p = unat (erase_size p)"

text \<open>\<open>(int) partition->size\<close>.\<close>

definition isize :: "mtd_partition \<Rightarrow> int" where "isize p = sint (psize p)"

record 'w mtd_dev =
  dev_open :: "string \<Rightarrow> int \<Rightarrow> 'w \<Rightarrow> int \<times> 'w"
  dev_close :: "int \<Rightarrow> 'w \<Rightarrow> int \<times> 'w"
  seek_cur :: "int \<Rightarrow> 'w \<Rightarrow> int \<times> 'w"
  seek_set :: "int \<Rightarrow> int \<Rightarrow> 'w \<Rightarrow> int \<times> 'w"
  dev_read :: "int \<Rightarrow> nat \<Rightarrow> 'w \<Rightarrow> (int \<times> bytes) \<times> 'w"
  dev_write :: "int \<Rightarrow> bytes \<Rightarrow> 'w \<Rightarrow> int \<times> 'w"
  eccgetstats :: "int \<Rightarrow> 'w \<Rightarrow> (int \<times> int) \<times> 'w"
  memgetbadblock :: "int \<Rightarrow> int \<Rightarrow> 'w \<Rightarrow> (int \<times> int) \<times> 'w"
  memerase :: "int \<Rightarrow> int \<Rightarrow> int \<Rightarrow> 'w \<Rightarrow> int \<times> 'w"
  memgetinfo :: "int \<Rightarrow> 'w \<Rightarrow> (int \<times> u32 \<times> u32 \<times> u32) \<times> 'w"
  sys_mount :: "string \<Rightarrow> string \<Rightarrow> string \<Rightarrow> u64 \<Rightarrow> 'w \<Rightarrow> int \<times> 'w"
  stat_mode :: "string \<Rightarrow> 'w \<Rightarrow> (int \<times> u32) \<times> 'w"
  sys_chmod :: "string \<Rightarrow> u32 \<Rightarrow> 'w \<Rightarrow> int \<times> 'w"

subsection \<open>Reading\<close>

text \<open>
  The loop of \<open>read_block\<close> over the positions.  \<open>data\<close> is the array \<open>buf\<close> from \<open>off\<close> on.  A failed
  attempt may have stored a part of the block.
\<close>

partial_function (option) read_attempts ::
  "'w mtd_dev \<Rightarrow> mtd_partition \<Rightarrow> int \<Rightarrow> bytes \<Rightarrow> nat \<Rightarrow> int \<Rightarrow> int \<Rightarrow> 'w \<Rightarrow> (int \<times> bytes \<times> 'w) ub" where
  "read_attempts D p fd buf off before pos w =
     (if pos + int (blk p) \<le> isize p
      then let (at, w1) = seek_set D fd pos w
           in if at \<noteq> pos then read_attempts D p fd buf off before (pos + int (blk p)) w1
              else let ((got, bytes), w2) = dev_read D fd (blk p) w1
              in do {
                buf1 \<leftarrow> wr_slice buf off bytes;
                if got \<noteq> int (blk p) then read_attempts D p fd buf1 off before (pos + int (blk p)) w2
                else let ((err, after), w3) = eccgetstats D fd w2
                in if err \<noteq> 0 then Some (- 1, buf1, w3)
                   else if after \<noteq> before
                   then read_attempts D p fd buf1 off after (pos + int (blk p)) w3
                   else let ((mgbb, errno), w4) = memgetbadblock D fd pos w3
                   in if mgbb \<noteq> 0 then read_attempts D p fd buf1 off before (pos + int (blk p)) w4
                      else Some (0, buf1, w4) }
      else Some (- 1, buf, w))"

definition read_block ::
  "'w mtd_dev \<Rightarrow> mtd_partition \<Rightarrow> int \<Rightarrow> bytes \<Rightarrow> nat \<Rightarrow> 'w \<Rightarrow> (int \<times> bytes \<times> 'w) ub" where
  "read_block D p fd buf off w =
     (let ((err, before), w1) = eccgetstats D fd w
      in if err \<noteq> 0 then Some (- 1, buf, w1)
         else let (pos, w2) = seek_cur D fd w1
              in read_attempts D p fd buf off before pos w2)"

text \<open>Complete blocks go directly into the user's buffer.\<close>

partial_function (option) read_direct ::
  "'w mtd_dev \<Rightarrow> mtd_read_context \<Rightarrow> bytes \<Rightarrow> nat \<Rightarrow> nat \<Rightarrow> 'w \<Rightarrow> (bool \<times> nat \<times> bytes \<times> 'w) ub" where
  "read_direct D ctx data' len read w =
     (if consumed ctx = blk (r_partition ctx) \<and> len - read \<ge> blk (r_partition ctx)
      then do {
        (err, data1, w1) \<leftarrow> read_block D (r_partition ctx) (r_fd ctx) data' read w;
        if err \<noteq> 0 then Some (False, read, data1, w1)
        else read_direct D ctx data1 len (read + blk (r_partition ctx)) w1 }
      else Some (True, read, data', w))"

definition copy_buffered ::
  "mtd_read_context \<Rightarrow> bytes \<Rightarrow> nat \<Rightarrow> nat \<Rightarrow> (mtd_read_context \<times> bytes \<times> nat) ub" where
  "copy_buffered ctx data' len read =
     (if consumed ctx < blk (r_partition ctx)
      then let avail = blk (r_partition ctx) - consumed ctx;
               copy = (if len - read < avail then len - read else avail)
           in do { piece \<leftarrow> rd_slice (r_buffer ctx) (consumed ctx) copy;
                   data1 \<leftarrow> wr_slice data' read piece;
                   Some (ctx\<lparr>consumed := consumed ctx + copy\<rparr>, data1, read + copy) }
      else Some (ctx, data', read))"

text \<open>\<open>(int) len\<close> of a \<open>size_t\<close>.\<close>

definition int_of_size :: "nat \<Rightarrow> int" where
  "int_of_size len = sint (word_of_nat len :: u32)"

partial_function (option) read_loop ::
  "'w mtd_dev \<Rightarrow> mtd_read_context \<Rightarrow> bytes \<Rightarrow> nat \<Rightarrow> nat \<Rightarrow> 'w
     \<Rightarrow> (int \<times> mtd_read_context \<times> bytes \<times> 'w) ub" where
  "read_loop D ctx data' len read w =
     (if int read < int_of_size len
      then do {
        (ctx1, data1, read1) \<leftarrow> copy_buffered ctx data' len read;
        (ok, read2, data2, w2) \<leftarrow> read_direct D ctx1 data1 len read1 w;
        if \<not> ok then Some (- 1, ctx1, data2, w2)
        else if read2 \<ge> len then Some (int read2, ctx1, data2, w2)
        else if consumed ctx1 = blk (r_partition ctx1) \<and> int read2 < int_of_size len
        then do {
          (err, buf, w3) \<leftarrow> read_block D (r_partition ctx1) (r_fd ctx1) (r_buffer ctx1) 0 w2;
          if err \<noteq> 0 then Some (- 1, ctx1\<lparr>r_buffer := buf\<rparr>, data2, w3)
          else read_loop D (ctx1\<lparr>r_buffer := buf, consumed := 0\<rparr>) data2 len read2 w3 }
        else read_loop D ctx1 data2 len read2 w2 }
      else Some (int read, ctx, data', w))"

definition mtd_read_data ::
  "'w mtd_dev \<Rightarrow> mtd_read_context \<Rightarrow> bytes \<Rightarrow> nat \<Rightarrow> 'w \<Rightarrow> (int \<times> mtd_read_context \<times> bytes \<times> 'w) ub" where
  "mtd_read_data D ctx data' len w = read_loop D ctx data' len 0 w"

definition O_RDONLY :: int where "O_RDONLY = 0"
definition O_RDWR :: int where "O_RDWR = 2"

text \<open>
  When the device cannot be opened the code frees the context and then reads \<open>ctx->buffer\<close> to free
  it: undefined behaviour.
\<close>

definition mtd_read_partition ::
  "'w mtd_dev \<Rightarrow> (nat \<Rightarrow> bool) \<Rightarrow> mtd_partition \<Rightarrow> 'w \<Rightarrow> (mtd_read_context option \<times> 'w) ub" where
  "mtd_read_partition D alloc p w =
     (if \<not> alloc 32 then Some (None, w)
      else if \<not> alloc (blk p) then Some (None, w)
      else let (fd, w1) = dev_open D (''/dev/mtd'' @ dec_int (device_index p)) O_RDONLY w
           in if fd < 0 then None
              else Some (Some \<lparr>r_partition = p, r_buffer = replicate (blk p) 0, consumed = blk p, r_fd = fd\<rparr>, w1))"

definition mtd_read_skip_to :: "'w mtd_dev \<Rightarrow> mtd_read_context \<Rightarrow> int \<Rightarrow> 'w \<Rightarrow> 'w" where
  "mtd_read_skip_to D ctx offset w = snd (seek_set D (r_fd ctx) offset w)"

definition mtd_read_close :: "'w mtd_dev \<Rightarrow> mtd_read_context \<Rightarrow> 'w \<Rightarrow> 'w" where
  "mtd_read_close D ctx w = snd (dev_close D (r_fd ctx) w)"

subsection \<open>Writing\<close>

definition add_bad_block_offset :: "bad_blocks \<Rightarrow> int \<Rightarrow> bad_blocks ub" where
  "add_bad_block_offset b pos =
     (let (alloc, offs) =
            (if bad_block_count b + 1 > bad_block_alloc b
             then (bad_block_alloc b * 2 + 1,
                   bad_block_offsets b @ replicate (bad_block_alloc b * 2 + 1 - length (bad_block_offsets b)) 0)
             else (bad_block_alloc b, bad_block_offsets b))
      in do { offs1 \<leftarrow> wr offs (bad_block_count b) pos;
              Some \<lparr>bad_block_offsets = offs1, bad_block_alloc = alloc,
                    bad_block_count = bad_block_count b + 1\<rparr> })"

definition EOPNOTSUPP :: int where "EOPNOTSUPP = 95"

text \<open>
  The two tries at one position.  After a failed write the code goes on to read the block back.
\<close>

fun try_write ::
  "'w mtd_dev \<Rightarrow> int \<Rightarrow> int \<Rightarrow> nat \<Rightarrow> bytes \<Rightarrow> nat \<Rightarrow> 'w \<Rightarrow> bool \<times> 'w" where
  "try_write D fd pos size' data' 0 w = (False, w)"
| "try_write D fd pos size' data' (Suc tries) w =
     (let (e, w1) = memerase D fd pos (int size') w
      in if e < 0 then try_write D fd pos size' data' tries w1
         else let (at, w2) = seek_set D fd pos w1;
                  w3 = (if at \<noteq> pos then w2 else snd (dev_write D fd data' w2));
                  (at2, w4) = seek_set D fd pos w3
              in if at2 \<noteq> pos then try_write D fd pos size' data' tries w4
                 else let ((got, verify), w5) = dev_read D fd size' w4
                 in if got \<noteq> int size' then try_write D fd pos size' data' tries w5
                    else if data' \<noteq> verify then try_write D fd pos size' data' tries w5
                    else (True, w5))"

text \<open>\<open>data\<close> is the array \<open>buf\<close> from \<open>off\<close> on; one block of it is written.\<close>

partial_function (option) write_positions ::
  "'w mtd_dev \<Rightarrow> mtd_partition \<Rightarrow> int \<Rightarrow> bytes \<Rightarrow> nat \<Rightarrow> int \<Rightarrow> bad_blocks \<Rightarrow> 'w
     \<Rightarrow> (int \<times> bad_blocks \<times> 'w) ub" where
  "write_positions D p fd buf off pos bad w =
     (if pos + int (blk p) \<le> isize p
      then let ((ret, errno), w1) = memgetbadblock D fd pos w
           in if ret \<noteq> 0 \<and> \<not> (ret = - 1 \<and> errno = EOPNOTSUPP)
              then do { bad1 \<leftarrow> add_bad_block_offset bad pos;
                        write_positions D p fd buf off (pos + int (blk p)) bad1 w1 }
              else do {
                data' \<leftarrow> rd_slice buf off (blk p);
                let (ok, w2) = try_write D fd pos (blk p) data' 2 w1;
                if ok then Some (0, bad, w2)
                else do { bad1 \<leftarrow> add_bad_block_offset bad pos;
                          let (e, w3) = memerase D fd pos (int (blk p)) w2;
                          write_positions D p fd buf off (pos + int (blk p)) bad1 w3 }}
      else Some (- 1, bad, w))"

definition write_block ::
  "'w mtd_dev \<Rightarrow> mtd_write_context \<Rightarrow> bytes \<Rightarrow> nat \<Rightarrow> 'w \<Rightarrow> (int \<times> mtd_write_context \<times> 'w) ub" where
  "write_block D ctx buf off w =
     (let (pos, w1) = seek_cur D (w_fd ctx) w
      in if pos = - 1 then Some (1, ctx, w1)
         else do {
           (ret, bad, w2) \<leftarrow> write_positions D (w_partition ctx) (w_fd ctx) buf off pos (w_bad ctx) w1;
           Some (ret, ctx\<lparr>w_bad := bad\<rparr>, w2) })"

definition coalesce ::
  "mtd_write_context \<Rightarrow> bytes \<Rightarrow> nat \<Rightarrow> nat \<Rightarrow> (mtd_write_context \<times> nat) ub" where
  "coalesce ctx data' len wrote =
     (if stored ctx > 0 \<or> len - wrote < blk (w_partition ctx)
      then let avail = blk (w_partition ctx) - stored ctx;
               copy = (if len - wrote < avail then len - wrote else avail)
           in do { piece \<leftarrow> rd_slice data' wrote copy;
                   buf \<leftarrow> wr_slice (w_buffer ctx) (stored ctx) piece;
                   Some (ctx\<lparr>w_buffer := buf, stored := stored ctx + copy\<rparr>, wrote + copy) }
      else Some (ctx, wrote))"

definition flush_full ::
  "'w mtd_dev \<Rightarrow> mtd_write_context \<Rightarrow> 'w \<Rightarrow> (bool \<times> mtd_write_context \<times> 'w) ub" where
  "flush_full D ctx w =
     (if stored ctx = blk (w_partition ctx)
      then do { (err, ctx1, w1) \<leftarrow> write_block D ctx (w_buffer ctx) 0 w;
                if err \<noteq> 0 then Some (False, ctx1, w1) else Some (True, ctx1\<lparr>stored := 0\<rparr>, w1) }
      else Some (True, ctx, w))"

partial_function (option) write_direct ::
  "'w mtd_dev \<Rightarrow> mtd_write_context \<Rightarrow> bytes \<Rightarrow> nat \<Rightarrow> nat \<Rightarrow> 'w \<Rightarrow> (bool \<times> nat \<times> mtd_write_context \<times> 'w) ub" where
  "write_direct D ctx data' len wrote w =
     (if stored ctx = 0 \<and> len - wrote \<ge> blk (w_partition ctx)
      then do { (err, ctx1, w1) \<leftarrow> write_block D ctx data' wrote w;
                if err \<noteq> 0 then Some (False, wrote, ctx1, w1)
                else write_direct D ctx1 data' len (wrote + blk (w_partition ctx)) w1 }
      else Some (True, wrote, ctx, w))"

partial_function (option) write_data_loop ::
  "'w mtd_dev \<Rightarrow> mtd_write_context \<Rightarrow> bytes \<Rightarrow> nat \<Rightarrow> nat \<Rightarrow> 'w \<Rightarrow> (int \<times> mtd_write_context \<times> 'w) ub" where
  "write_data_loop D ctx data' len wrote w =
     (if wrote < len
      then do {
        (ctx1, wrote1) \<leftarrow> coalesce ctx data' len wrote;
        (ok, ctx2, w2) \<leftarrow> flush_full D ctx1 w;
        if \<not> ok then Some (- 1, ctx2, w2)
        else do {
          (ok3, wrote3, ctx3, w3) \<leftarrow> write_direct D ctx2 data' len wrote1 w2;
          if \<not> ok3 then Some (- 1, ctx3, w3)
          else write_data_loop D ctx3 data' len wrote3 w3 }}
      else Some (int wrote, ctx, w))"

definition mtd_write_data ::
  "'w mtd_dev \<Rightarrow> mtd_write_context \<Rightarrow> bytes \<Rightarrow> nat \<Rightarrow> 'w \<Rightarrow> (int \<times> mtd_write_context \<times> 'w) ub" where
  "mtd_write_data D ctx data' len w = write_data_loop D ctx data' len 0 w"

definition mtd_write_partition ::
  "'w mtd_dev \<Rightarrow> (nat \<Rightarrow> bool) \<Rightarrow> mtd_partition \<Rightarrow> 'w \<Rightarrow> mtd_write_context option \<times> 'w" where
  "mtd_write_partition D alloc p w =
     (if \<not> alloc 48 then (None, w)
      else if \<not> alloc (blk p) then (None, w)
      else let (fd, w1) = dev_open D (''/dev/mtd'' @ dec_int (device_index p)) O_RDWR w
           in if fd < 0 then (None, w1)
              else (Some \<lparr>w_partition = p, w_buffer = replicate (blk p) 0, stored = 0, w_fd = fd,
                          w_bad = \<lparr>bad_block_offsets = [], bad_block_alloc = 0, bad_block_count = 0\<rparr>\<rparr>, w1))"

fun erase_loop :: "'w mtd_dev \<Rightarrow> mtd_write_context \<Rightarrow> nat \<Rightarrow> int \<Rightarrow> 'w \<Rightarrow> int \<times> 'w" where
  "erase_loop D ctx 0 pos w = (pos, w)"
| "erase_loop D ctx (Suc n) pos w =
     (let ((ret, errno), w1) = memgetbadblock D (w_fd ctx) pos w
      in if ret > 0 then erase_loop D ctx n (pos + int (blk (w_partition ctx))) w1
         else let (e, w2) = memerase D (w_fd ctx) pos (int (blk (w_partition ctx))) w1
              in erase_loop D ctx n (pos + int (blk (w_partition ctx))) w2)"

text \<open>Zero-padding the pending data to a block boundary and writing it.\<close>

definition flush_pending ::
  "'w mtd_dev \<Rightarrow> mtd_write_context \<Rightarrow> 'w \<Rightarrow> (bool \<times> mtd_write_context \<times> 'w) ub" where
  "flush_pending D ctx w =
     (if stored ctx > 0
      then do {
        buf \<leftarrow> wr_slice (w_buffer ctx) (stored ctx) (replicate (blk (w_partition ctx) - stored ctx) 0);
        (err, ctx1, w1) \<leftarrow> write_block D (ctx\<lparr>w_buffer := buf\<rparr>) buf 0 w;
        if err \<noteq> 0 then Some (False, ctx1, w1) else Some (True, ctx1\<lparr>stored := 0\<rparr>, w1) }
      else Some (True, ctx, w))"

definition int_of_long :: "int \<Rightarrow> int" where
  "int_of_long i = sint (word_of_int i :: u32)"

text \<open>A division by a zero erase size is undefined; C divides towards zero.\<close>

definition mtd_erase_blocks ::
  "'w mtd_dev \<Rightarrow> mtd_write_context \<Rightarrow> int \<Rightarrow> 'w \<Rightarrow> (int \<times> mtd_write_context \<times> 'w) ub" where
  "mtd_erase_blocks D ctx blocks w =
     do {
       (ok, ctx1, w1) \<leftarrow> flush_pending D ctx w;
       if \<not> ok then Some (- 1, ctx1, w1)
       else let (pos, w2) = seek_cur D (w_fd ctx1) w1
       in if pos = - 1 then Some (pos, ctx1, w2)
          else if blk (w_partition ctx1) = 0 then None
          else let left = int (unat (psize (w_partition ctx1))) - pos;
                   total = int_of_long (if left < 0 then - (- left div int (blk (w_partition ctx1)))
                                        else left div int (blk (w_partition ctx1)));
                   n = (if blocks < 0 then total else blocks)
          in if n > total then Some (- 1, ctx1, w2)
             else let (end', w3) = erase_loop D ctx1 (nat n) pos w2
                  in Some (end', ctx1, w3) }"

definition mtd_write_close :: "'w mtd_dev \<Rightarrow> mtd_write_context \<Rightarrow> 'w \<Rightarrow> (int \<times> 'w) ub" where
  "mtd_write_close D ctx w =
     do { (e, ctx1, w1) \<leftarrow> mtd_erase_blocks D ctx 0 w;
          let (c, w2) = dev_close D (w_fd ctx1) w1;
          Some (if e = - 1 \<or> c \<noteq> 0 then - 1 else 0, w2) }"

fun write_start_loop :: "bad_blocks \<Rightarrow> nat \<Rightarrow> nat \<Rightarrow> nat \<Rightarrow> int \<Rightarrow> int ub" where
  "write_start_loop b esize i 0 pos = Some pos"
| "write_start_loop b esize i (Suc n) pos =
     do { off \<leftarrow> rd (bad_block_offsets b) i;
          if off = pos then write_start_loop b esize (i + 1) n (pos + int esize)
          else if off > pos then Some pos
          else write_start_loop b esize (i + 1) n pos }"

definition mtd_find_write_start :: "mtd_write_context \<Rightarrow> int \<Rightarrow> int ub" where
  "mtd_find_write_start ctx pos =
     write_start_loop (w_bad ctx) (blk (w_partition ctx)) 0 (bad_block_count (w_bad ctx)) pos"

subsection \<open>A flash to try the properties on\<close>

text \<open>A device without bad blocks: a position and the cells.\<close>

definition flash :: "(int \<times> bytes) mtd_dev" where
  "flash = \<lparr>dev_open = (\<lambda>path flags w. (3, w)), dev_close = (\<lambda>fd w. (0, w)),
     seek_cur = (\<lambda>fd (at, cells). (at, (at, cells))), seek_set = (\<lambda>fd pos (at, cells). (pos, (pos, cells))),
     dev_read = (\<lambda>fd n (at, cells). let got = take n (drop (nat at) cells)
                                     in ((int (length got), got), (at + int (length got), cells))),
     dev_write = (\<lambda>fd bs (at, cells). (int (length bs),
        (at + int (length bs), take (nat at) cells @ bs @ drop (nat at + length bs) cells))),
     eccgetstats = (\<lambda>fd w. ((0, 0), w)), memgetbadblock = (\<lambda>fd pos w. ((0, 0), w)),
     memerase = (\<lambda>fd start n w. (0, w)), memgetinfo = (\<lambda>fd w. ((0, 4, 2, 1), w)),
     sys_mount = (\<lambda>d m f fl w. (0, w)), stat_mode = (\<lambda>p w. ((0, 0), w)), sys_chmod = (\<lambda>p m w. (0, w))\<rparr>"

definition flash_part :: mtd_partition where
  "flash_part = \<lparr>device_index = 0, psize = 4, erase_size = 2, pname = None\<rparr>"

end
