(* ===== verification/MtdWrite.thy ===== *)
theory MtdWrite
  imports MtdUtils
begin

text \<open>
  Writing flash partitions (\<open>mtdutils.c\<close>): the contracts of \<open>write_block\<close>, \<open>mtd_write_data\<close>, the final flush and
  \<open>mtd_find_write_start\<close>, over an arbitrary driver.
\<close>

subsection \<open>The list of bad blocks\<close>

definition bad_ok :: "bad_blocks \<Rightarrow> bool" where
  "bad_ok b \<longleftrightarrow> bad_block_count b \<le> bad_block_alloc b \<and> length (bad_block_offsets b) = bad_block_alloc b"

definition bad_list :: "bad_blocks \<Rightarrow> int list" where
  "bad_list b = take (bad_block_count b) (bad_block_offsets b)"

lemma add_bad_ok:
  assumes "bad_ok b"
  shows "\<exists>b'. add_bad_block_offset b pos = Some b' \<and> bad_ok b' \<and> bad_list b' = bad_list b @ [pos]"
proof (cases "bad_block_count b + 1 > bad_block_alloc b")
  case True
  then have "bad_block_count b = length (bad_block_offsets b)" "bad_block_alloc b = length (bad_block_offsets b)"
    using assms by (auto simp: bad_ok_def)
  then show ?thesis
    by (simp add: add_bad_block_offset_def bad_ok_def bad_list_def mem_simps take_Suc_conv_app_nth)
next
  case False
  then show ?thesis using assms
    by (simp add: add_bad_block_offset_def bad_ok_def bad_list_def mem_simps take_Suc_conv_app_nth)
qed

subsection \<open>Writing one block\<close>

text \<open>The last thing that happened is that the block was read back at \<open>pos\<close>.\<close>

definition read_back :: "'w mtd_dev \<Rightarrow> int \<Rightarrow> int \<Rightarrow> bytes \<Rightarrow> 'w \<Rightarrow> bool" where
  "read_back D fd pos b w' \<longleftrightarrow>
     (\<exists>w0 w1. seek_set D fd pos w0 = (pos, w1) \<and> dev_read D fd (length b) w1 = ((int (length b), b), w'))"

lemma try_write_read_back:
  "try_write D fd pos (length b) b n w = (True, w') \<Longrightarrow> read_back D fd pos b w'"
  by (induction n arbitrary: w) (auto simp: Let_def read_back_def split: prod.splits if_splits)

lemma write_positions_ok:
  assumes "0 < blk p" "off + blk p \<le> length buf"
  shows "bad_ok bad \<Longrightarrow>
    \<exists>r bad' w' n. write_positions D p fd buf off pos bad w = Some (r, bad', w') \<and> bad_ok bad' \<and>
      bad_list bad' = bad_list bad @ map (\<lambda>i. pos + int i * int (blk p)) [0..<n] \<and>
      (if r = 0 then read_back D fd (pos + int n * int (blk p)) (take (blk p) (drop off buf)) w' \<and>
                     pos + int (n + 1) * int (blk p) \<le> isize p
       else r = - 1 \<and> isize p < pos + int (n + 1) * int (blk p))"
proof (induction "nat (isize p - pos)" arbitrary: pos bad w rule: less_induct)
  case less
  let ?E = "int (blk p)" and ?b = "take (blk p) (drop off buf)"
  have rd: "rd_slice buf off (blk p) = Some ?b" using assms(2) by (simp add: mem_simps)
  have lb: "length ?b = blk p" using assms(2) by simp
  have skip: "\<exists>r bad' w' n. write_positions D p fd buf off (pos + ?E) bad1 w1 = Some (r, bad', w') \<and> bad_ok bad' \<and>
      bad_list bad' = bad_list bad @ map (\<lambda>i. pos + int i * ?E) [0..<n] \<and>
      (if r = 0 then read_back D fd (pos + int n * ?E) ?b w' \<and> pos + int (n + 1) * ?E \<le> isize p
       else r = - 1 \<and> isize p < pos + int (n + 1) * ?E)"
    if "pos + ?E \<le> isize p" "bad_ok bad1" "bad_list bad1 = bad_list bad @ [pos]" for bad1 w1
  proof -
    have "nat (isize p - (pos + ?E)) < nat (isize p - pos)" using that(1) assms(1) by linarith
    from less.hyps [OF this that(2), of w1] obtain r bad' w' n where n:
      "write_positions D p fd buf off (pos + ?E) bad1 w1 = Some (r, bad', w')" "bad_ok bad'"
      "bad_list bad' = bad_list bad1 @ map (\<lambda>i. pos + ?E + int i * ?E) [0..<n]"
      "if r = 0 then read_back D fd (pos + ?E + int n * ?E) ?b w' \<and> pos + ?E + int (n + 1) * ?E \<le> isize p
       else r = - 1 \<and> isize p < pos + ?E + int (n + 1) * ?E" by blast
    have "bad_list bad' = bad_list bad @ map (\<lambda>i. pos + int i * ?E) [0..<Suc n]"
      unfolding n(3) that(3) by (simp add: upt_conv_Cons map_Suc_upt [symmetric] algebra_simps del: upt_Suc)
    then show ?thesis using n(1,2,4) by (intro exI [of _ r] exI [of _ bad'] exI [of _ w'] exI [of _ "Suc n"])
        (auto simp: algebra_simps split: if_splits)
  qed
  obtain bad1 where bad1: "add_bad_block_offset bad pos = Some bad1" "bad_ok bad1"
    "bad_list bad1 = bad_list bad @ [pos]"
    using add_bad_ok [OF less.prems] by blast
  show ?case
  proof (cases "pos + ?E \<le> isize p")
    case True
    obtain ret errno w1 where bb: "memgetbadblock D fd pos w = ((ret, errno), w1)" by (metis prod.exhaust)
    obtain ok w2 where tw: "try_write D fd pos (blk p) ?b 2 w1 = (ok, w2)" by fastforce
    obtain e w3 where me: "memerase D fd pos ?E w2 = (e, w3)" by fastforce
    note step = write_positions.simps [of D p fd buf off pos bad w]
    consider "ret \<noteq> 0 \<and> \<not> (ret = - 1 \<and> errno = EOPNOTSUPP)"
      | "\<not> (ret \<noteq> 0 \<and> \<not> (ret = - 1 \<and> errno = EOPNOTSUPP))" "ok"
      | "\<not> (ret \<noteq> 0 \<and> \<not> (ret = - 1 \<and> errno = EOPNOTSUPP))" "\<not> ok" by blast
    then show ?thesis
    proof cases
      case 1
      then have "write_positions D p fd buf off pos bad w = write_positions D p fd buf off (pos + ?E) bad1 w1"
        unfolding step using True by (simp add: bb bad1)
      with skip [OF True bad1(2,3)] show ?thesis by simp
    next
      case 2
      then have "write_positions D p fd buf off pos bad w = Some (0, bad, w2)"
        unfolding step using True by (auto simp: bb rd tw)
      moreover have "read_back D fd pos ?b w2" using tw 2 try_write_read_back [of D fd pos ?b 2 w1 w2] lb by simp
      ultimately show ?thesis using True less.prems
        by (intro exI [of _ 0] exI [of _ bad] exI [of _ w2] exI [of _ "0::nat"]) simp
    next
      case 3
      then have "write_positions D p fd buf off pos bad w = write_positions D p fd buf off (pos + ?E) bad1 w3"
        unfolding step using True by (auto simp: bb rd tw me bad1)
      with skip [OF True bad1(2,3)] show ?thesis by simp
    qed
  next
    case False
    then have "write_positions D p fd buf off pos bad w = Some (- 1, bad, w)"
      by (subst write_positions.simps) simp
    then show ?thesis using False less.prems
      by (intro exI [of _ "- 1"] exI [of _ bad] exI [of _ w] exI [of _ "0::nat"]) simp
  qed
qed

lemma write_positions_slice:
  assumes "0 < blk p" "off + blk p \<le> length buf"
  shows "write_positions D p fd buf off pos bad w
    = write_positions D p fd (take (blk p) (drop off buf)) 0 pos bad w"
proof (induction "nat (isize p - pos)" arbitrary: pos bad w rule: less_induct)
  case less
  have IH: "write_positions D p fd buf off (pos + int (blk p)) bad1 w1
    = write_positions D p fd (take (blk p) (drop off buf)) 0 (pos + int (blk p)) bad1 w1"
    if "pos + int (blk p) \<le> isize p" for bad1 w1
    by (rule less.hyps) (use that assms(1) in linarith)
  have rd: "rd_slice buf off (blk p) = rd_slice (take (blk p) (drop off buf)) 0 (blk p)"
    using assms(2) by (simp add: rd_slice_def)
  show ?case
  proof (cases "pos + int (blk p) \<le> isize p")
    case True
    show ?thesis
      unfolding write_positions.simps [of D p fd buf off pos bad w]
        write_positions.simps [of D p fd "take (blk p) (drop off buf)" 0 pos bad w] IH [OF True] rd ..
  next
    case False
    then show ?thesis by (subst (1 2) write_positions.simps) simp
  qed
qed

subsection \<open>Blocks one after another\<close>

definition put_block ::
  "'w mtd_dev \<Rightarrow> mtd_partition \<Rightarrow> int \<Rightarrow> bad_blocks \<Rightarrow> bytes \<Rightarrow> 'w \<Rightarrow> (int \<times> bad_blocks \<times> 'w) ub" where
  "put_block D p fd bad b w =
     (let (pos, w1) = seek_cur D fd w
      in if pos = - 1 then Some (1, bad, w1) else write_positions D p fd b 0 pos bad w1)"

fun put_blocks ::
  "'w mtd_dev \<Rightarrow> mtd_partition \<Rightarrow> int \<Rightarrow> bad_blocks \<Rightarrow> bytes list \<Rightarrow> 'w \<Rightarrow> (bool \<times> bad_blocks \<times> 'w) ub" where
  "put_blocks D p fd bad [] w = Some (True, bad, w)"
| "put_blocks D p fd bad (b # bs) w =
     do { (e, bad1, w1) \<leftarrow> put_block D p fd bad b w;
          if e \<noteq> 0 then Some (False, bad1, w1) else put_blocks D p fd bad1 bs w1 }"

lemma write_block_put:
  assumes "0 < blk (w_partition ctx)" "off + blk (w_partition ctx) \<le> length buf"
  shows "write_block D ctx buf off w =
    do { (e, bad, w1) \<leftarrow> put_block D (w_partition ctx) (w_fd ctx) (w_bad ctx)
                              (take (blk (w_partition ctx)) (drop off buf)) w;
         Some (e, ctx\<lparr>w_bad := bad\<rparr>, w1) }"
  unfolding write_block_def put_block_def write_positions_slice [OF assms]
  by (auto split: prod.splits)

lemma put_block_ok:
  assumes "0 < blk p" "length b = blk p" "bad_ok bad"
  shows "\<exists>e bad' w'. put_block D p fd bad b w = Some (e, bad', w') \<and> bad_ok bad' \<and>
    (e = 0 \<longrightarrow> (\<exists>pos. read_back D fd pos b w'))"
proof -
  obtain pos w1 where s: "seek_cur D fd w = (pos, w1)" by fastforce
  obtain r bad' w' n where "write_positions D p fd b 0 pos bad w1 = Some (r, bad', w')" "bad_ok bad'"
    "if r = 0 then read_back D fd (pos + int n * int (blk p)) (take (blk p) (drop 0 b)) w' \<and>
         pos + int (n + 1) * int (blk p) \<le> isize p
     else r = - 1 \<and> isize p < pos + int (n + 1) * int (blk p)"
    using write_positions_ok [OF assms(1) _ assms(3), of 0 b D fd pos w1] assms(2) by auto
  then show ?thesis using assms(2,3) s by (auto simp: put_block_def split: if_splits)
qed

text \<open>Cutting a stream into blocks.\<close>

function chunks :: "nat \<Rightarrow> 'a list \<Rightarrow> 'a list list" where
  "chunks n xs = (if n = 0 \<or> length xs < n then [] else take n xs # chunks n (drop n xs))"
  by pat_completeness auto
termination by (relation "measure (\<lambda>(n, xs). length xs)") auto

function remainder :: "nat \<Rightarrow> 'a list \<Rightarrow> 'a list" where
  "remainder n xs = (if n = 0 \<or> length xs < n then xs else remainder n (drop n xs))"
  by pat_completeness auto
termination by (relation "measure (\<lambda>(n, xs). length xs)") auto

declare chunks.simps [simp del] remainder.simps [simp del]

lemma chunks_short [simp]: "length xs < n \<Longrightarrow> chunks n xs = []" "length xs < n \<Longrightarrow> remainder n xs = xs"
  by (simp_all add: chunks.simps [of n xs] remainder.simps [of n xs])

lemma chunks_block:
  "0 < n \<Longrightarrow> length b = n \<Longrightarrow> chunks n (b @ xs) = b # chunks n xs"
  "0 < n \<Longrightarrow> length b = n \<Longrightarrow> remainder n (b @ xs) = remainder n xs"
  by (simp_all add: chunks.simps [of n "b @ xs"] remainder.simps [of n "b @ xs"])

lemma chunks_concat: "concat (chunks n xs) @ remainder n xs = xs"
proof (induction n xs rule: chunks.induct)
  case (1 n xs)
  show ?case
  proof (cases "n = 0 \<or> length xs < n")
    case True
    then show ?thesis by (simp add: chunks.simps [of n xs] remainder.simps [of n xs])
  next
    case False
    then have "chunks n xs = take n xs # chunks n (drop n xs)" "remainder n xs = remainder n (drop n xs)"
      by (simp_all add: chunks.simps [of n xs] remainder.simps [of n xs])
    then show ?thesis using "1.IH" [OF False] by simp
  qed
qed

lemma chunks_length: "b \<in> set (chunks n xs) \<Longrightarrow> length b = n"
proof (induction n xs rule: chunks.induct)
  case (1 n xs)
  have n: "\<not> (n = 0 \<or> length xs < n)"
    using "1.prems" by (cases "n = 0 \<or> length xs < n") (simp_all add: chunks.simps [of n xs])
  then have "b = take n xs \<or> b \<in> set (chunks n (drop n xs))"
    using "1.prems" by (auto simp: chunks.simps [of n xs])
  then show ?case using "1.IH" [OF n] n by auto
qed

lemma remainder_length: "0 < n \<Longrightarrow> length (remainder n xs) < n"
proof (induction n xs rule: remainder.induct)
  case (1 n xs)
  then show ?case by (cases "length xs < n") (simp_all add: remainder.simps [of n xs])
qed

subsection \<open>The write stream\<close>

definition wctx_ok :: "mtd_write_context \<Rightarrow> bool" where
  "wctx_ok ctx \<longleftrightarrow> 0 < blk (w_partition ctx) \<and> length (w_buffer ctx) = blk (w_partition ctx) \<and>
     stored ctx < blk (w_partition ctx) \<and> bad_ok (w_bad ctx)"

definition pending :: "mtd_write_context \<Rightarrow> bytes" where
  "pending ctx = take (stored ctx) (w_buffer ctx)"

text \<open>The part of the caller's array between two indices.\<close>

definition between :: "'a list \<Rightarrow> nat \<Rightarrow> nat \<Rightarrow> 'a list" where
  "between xs i j = take (j - i) (drop i xs)"

lemma between_simps [simp]:
  "between xs i i = []" "j \<le> length xs \<Longrightarrow> length (between xs i j) = j - i"
  by (simp_all add: between_def)

lemma between_split:
  "i \<le> k \<Longrightarrow> k \<le> j \<Longrightarrow> between xs i j = between xs i k @ between xs k j"
  using take_add [of "k - i" "j - k" "drop i xs"] by (simp add: between_def)

lemma write_direct_ok:
  assumes "len \<le> length data'"
  shows "wctx_ok ctx \<Longrightarrow> stored ctx = 0 \<Longrightarrow> wrote \<le> len \<Longrightarrow>
    \<exists>ok bad' w' wrote'. put_blocks D (w_partition ctx) (w_fd ctx) (w_bad ctx)
        (chunks (blk (w_partition ctx)) (between data' wrote len)) w = Some (ok, bad', w') \<and>
      write_direct D ctx data' len wrote w = Some (ok, wrote', ctx\<lparr>w_bad := bad'\<rparr>, w') \<and> bad_ok bad' \<and>
      (ok \<longrightarrow> wrote \<le> wrote' \<and> wrote' \<le> len \<and>
         between data' wrote' len = remainder (blk (w_partition ctx)) (between data' wrote len))"
proof (induction "len - wrote" arbitrary: ctx wrote w rule: less_induct)
  case less
  let ?p = "w_partition ctx"
  let ?E = "blk ?p"
  have E: "0 < ?E" using less.prems by (simp add: wctx_ok_def)
  show ?case
  proof (cases "?E \<le> len - wrote")
    case False
    then have "length (between data' wrote len) < ?E" using assms by simp
    then show ?thesis using False less.prems
      by (subst write_direct.simps) (auto simp: wctx_ok_def)
  next
    case True
    let ?b = "between data' wrote (wrote + ?E)"
    have sp: "between data' wrote len = ?b @ between data' (wrote + ?E) len"
      by (rule between_split) (use True less.prems E in simp_all)
    have lb: "length ?b = ?E" using True assms less.prems by simp
    have off: "wrote + ?E \<le> length data'" using True assms less.prems E by simp
    have wb: "write_block D ctx data' wrote w =
        do { (e, bad, w1) \<leftarrow> put_block D ?p (w_fd ctx) (w_bad ctx) ?b w; Some (e, ctx\<lparr>w_bad := bad\<rparr>, w1) }"
      using write_block_put [OF E off] by (simp add: between_def)
    have bad: "bad_ok (w_bad ctx)" using less.prems by (simp add: wctx_ok_def)
    obtain e bad1 w1 where pb: "put_block D ?p (w_fd ctx) (w_bad ctx) ?b w = Some (e, bad1, w1)" "bad_ok bad1"
      using put_block_ok [OF E lb bad, of D "w_fd ctx" w] by blast
    show ?thesis
    proof (cases "e = 0")
      case False
      then show ?thesis using True less.prems(2) pb(2) sp lb E
        by (subst write_direct.simps) (auto simp: wb pb(1) chunks_block)
    next
      case e0: True
      let ?c = "ctx\<lparr>w_bad := bad1\<rparr>"
      have "len - (wrote + ?E) < len - wrote" using True E by simp
      moreover have "wctx_ok ?c" "stored ?c = 0" "wrote + ?E \<le> len"
        using less.prems pb(2) True E by (simp_all add: wctx_ok_def)
      ultimately obtain ok bad' w' wrote' where r:
        "put_blocks D ?p (w_fd ctx) bad1 (chunks ?E (between data' (wrote + ?E) len)) w1 = Some (ok, bad', w')"
        "write_direct D ?c data' len (wrote + ?E) w1 = Some (ok, wrote', ctx\<lparr>w_bad := bad'\<rparr>, w')" "bad_ok bad'"
        "ok \<longrightarrow> wrote + ?E \<le> wrote' \<and> wrote' \<le> len \<and>
           between data' wrote' len = remainder ?E (between data' (wrote + ?E) len)"
        using less.hyps [of "wrote + ?E" ?c w1] by auto
      have "write_direct D ctx data' len wrote w = Some (ok, wrote', ctx\<lparr>w_bad := bad'\<rparr>, w')"
        using True less.prems(2) r(2) e0 by (subst write_direct.simps) (simp add: wb pb(1))
      then show ?thesis using r(1,3,4) sp lb E pb(1) e0 by (auto simp: chunks_block)
    qed
  qed
qed


lemma coalesce_ok:
  assumes "wctx_ok ctx" "wrote < len" "len \<le> length data'"
    "stored ctx > 0 \<or> len - wrote < blk (w_partition ctx)"
  defines "k \<equiv> min (len - wrote) (blk (w_partition ctx) - stored ctx)"
  shows "\<exists>buf. coalesce ctx data' len wrote = Some (ctx\<lparr>w_buffer := buf, stored := stored ctx + k\<rparr>, wrote + k) \<and>
    length buf = blk (w_partition ctx) \<and> take (stored ctx + k) buf = pending ctx @ between data' wrote (wrote + k) \<and>
    0 < k \<and> wrote + k \<le> len"
proof -
  let ?E = "blk (w_partition ctx)" and ?p = "between data' wrote (wrote + k)"
  have k: "0 < k" "wrote + k \<le> len" "stored ctx + k \<le> ?E"
    using assms(1,2) by (auto simp: k_def wctx_ok_def)
  have lb: "length (w_buffer ctx) = ?E" using assms(1) by (simp add: wctx_ok_def)
  have lp: "length ?p = k" using k(2) assms(3) by simp
  have cp: "(if len - wrote < ?E - stored ctx then len - wrote else ?E - stored ctx) = k" by (simp add: k_def)
  have rd: "rd_slice data' wrote k = Some ?p" using k(2) assms(3) by (simp add: rd_slice_def between_def)
  define buf where "buf = take (stored ctx) (w_buffer ctx) @ ?p @ drop (stored ctx + k) (w_buffer ctx)"
  have wr: "wr_slice (w_buffer ctx) (stored ctx) ?p = Some buf" using k(3) lb lp by (simp add: wr_slice_def buf_def)
  have "coalesce ctx data' len wrote = Some (ctx\<lparr>w_buffer := buf, stored := stored ctx + k\<rparr>, wrote + k)"
    unfolding coalesce_def Let_def cp rd using assms(4) by (simp add: wr)
  moreover have "length buf = ?E" "take (stored ctx + k) buf = pending ctx @ ?p"
    using k lb lp by (simp_all add: buf_def pending_def)
  ultimately show ?thesis using k(1,2) by blast
qed

text \<open>
  The result of the loop, given what putting the blocks of the pending bytes and the rest of the data
  one after another answers.
\<close>

definition write_outcome ::
  "'w mtd_dev \<Rightarrow> mtd_write_context \<Rightarrow> bytes \<Rightarrow> nat \<Rightarrow> 'w \<Rightarrow> (int \<times> mtd_write_context \<times> 'w) ub \<Rightarrow> bool" where
  "write_outcome D ctx stream len w res \<longleftrightarrow>
     (\<exists>ok bad' ctx' w'. put_blocks D (w_partition ctx) (w_fd ctx) (w_bad ctx)
          (chunks (blk (w_partition ctx)) stream) w = Some (ok, bad', w') \<and>
        res = Some (if ok then int len else - 1, ctx', w') \<and>
        w_partition ctx' = w_partition ctx \<and> w_fd ctx' = w_fd ctx \<and> w_bad ctx' = bad' \<and>
        (ok \<longrightarrow> wctx_ok ctx' \<and> pending ctx' = remainder (blk (w_partition ctx)) stream))"

lemma pending_length: "wctx_ok ctx \<Longrightarrow> length (pending ctx) = stored ctx"
  by (simp add: pending_def wctx_ok_def)

lemma write_loop_end:
  "wctx_ok ctx \<Longrightarrow> write_outcome D ctx (pending ctx) len w (write_data_loop D ctx data' len len w)"
  using pending_length [of ctx]
  by (subst write_data_loop.simps) (auto simp: write_outcome_def wctx_ok_def)

lemma write_loop_short:
  assumes "wctx_ok ctx" "wrote \<le> len" "len \<le> length data'" "stored ctx + (len - wrote) < blk (w_partition ctx)"
  shows "write_outcome D ctx (pending ctx @ between data' wrote len) len w (write_data_loop D ctx data' len wrote w)"
proof (cases "wrote = len")
  case True
  then show ?thesis using write_loop_end [OF assms(1)] by simp
next
  case False
  then have lt: "wrote < len" using assms(2) by simp
  define k where "k = len - wrote"
  have mk: "min (len - wrote) (blk (w_partition ctx) - stored ctx) = k" using assms(4) by (simp add: k_def)
  obtain buf where b: "coalesce ctx data' len wrote = Some (ctx\<lparr>w_buffer := buf, stored := stored ctx + k\<rparr>, len)"
    "length buf = blk (w_partition ctx)" "take (stored ctx + k) buf = pending ctx @ between data' wrote len" "0 < k"
    using coalesce_ok [OF assms(1) lt assms(3), unfolded mk] assms(4) lt by (auto simp: k_def)
  let ?c = "ctx\<lparr>w_buffer := buf, stored := stored ctx + k\<rparr>"
  have c: "wctx_ok ?c" "pending ?c = pending ctx @ between data' wrote len" "stored ?c \<noteq> blk (w_partition ctx)"
    "stored ?c \<noteq> 0"
    using assms(1,4) b(2-4) by (auto simp: wctx_ok_def pending_def k_def)
  have "write_direct D ?c data' len len w = Some (True, len, ?c, w)"
    using c(4) by (subst write_direct.simps) auto
  then have "write_data_loop D ctx data' len wrote w = write_data_loop D ?c data' len len w"
    using lt b(1) c(3) by (subst write_data_loop.simps) (simp add: flush_full_def)
  moreover have "write_outcome D ctx (pending ?c) len w r" if "write_outcome D ?c (pending ?c) len w r" for r
    using that by (simp add: write_outcome_def)
  ultimately show ?thesis using write_loop_end [OF c(1)] c(2) by metis
qed

text \<open>With nothing pending.\<close>

lemma write_loop_direct:
  assumes "wctx_ok ctx" "stored ctx = 0" "wrote < len" "len \<le> length data'" "blk (w_partition ctx) \<le> len - wrote"
  shows "write_outcome D ctx (between data' wrote len) len w (write_data_loop D ctx data' len wrote w)"
proof -
  let ?E = "blk (w_partition ctx)" and ?s = "between data' wrote len"
  obtain ok bad' w' wrote' where d: "put_blocks D (w_partition ctx) (w_fd ctx) (w_bad ctx) (chunks ?E ?s) w = Some (ok, bad', w')"
    "write_direct D ctx data' len wrote w = Some (ok, wrote', ctx\<lparr>w_bad := bad'\<rparr>, w')" "bad_ok bad'"
    "ok \<longrightarrow> wrote \<le> wrote' \<and> wrote' \<le> len \<and> between data' wrote' len = remainder ?E ?s"
    using write_direct_ok [OF assms(4,1,2), of wrote D w] assms(3) by auto
  let ?c = "ctx\<lparr>w_bad := bad'\<rparr>"
  have E: "0 < ?E" using assms(1) by (simp add: wctx_ok_def)
  have fl: "coalesce ctx data' len wrote = Some (ctx, wrote)" "flush_full D ctx w = Some (True, ctx, w)"
    using assms(2,5) E by (auto simp: coalesce_def flush_full_def)
  show ?thesis
  proof (cases ok)
    case False
    then have "write_data_loop D ctx data' len wrote w = Some (- 1, ?c, w')"
      using assms(3) fl d(2) by (subst write_data_loop.simps) simp
    then show ?thesis using d(1,3) False by (auto simp: write_outcome_def)
  next
    case True
    then have run: "write_data_loop D ctx data' len wrote w = write_data_loop D ?c data' len wrote' w'"
      using assms(3) fl d(2) by (subst write_data_loop.simps) simp
    have c: "wctx_ok ?c" "pending ?c = []" using assms(1,2) d(3) by (simp_all add: wctx_ok_def pending_def)
    have wr: "wrote' \<le> len" "between data' wrote' len = remainder ?E ?s" using d(4) True by auto
    then have short: "stored ?c + (len - wrote') < blk (w_partition ?c)"
      using remainder_length [OF E, of ?s] assms(2,4) by (metis between_simps(2) add_0 mtd_write_context.select_convs(1,3) mtd_write_context.update_convs(5) mtd_write_context.surjective)
    have "write_outcome D ?c (remainder ?E ?s) len w' (write_data_loop D ?c data' len wrote' w')"
      using write_loop_short [OF c(1) wr(1) assms(4) short, of D w'] wr(2) c(2) by simp
    moreover have "length (remainder ?E ?s) < ?E" by (rule remainder_length [OF E])
    ultimately show ?thesis using d(1) True unfolding run by (auto simp: write_outcome_def)
  qed
qed

lemma write_loop_again:
  assumes "wctx_ok c" "stored c = 0" "wrote \<le> len"
  shows "do { (ok3, wrote3, ctx3, w3) \<leftarrow> write_direct D c data' len wrote w;
              if \<not> ok3 then Some (- 1, ctx3, w3) else write_data_loop D ctx3 data' len wrote3 w3 }
    = write_data_loop D c data' len wrote w"
proof (cases "blk (w_partition c) \<le> len - wrote")
  case True
  then have "wrote < len" "coalesce c data' len wrote = Some (c, wrote)" "flush_full D c w = Some (True, c, w)"
    using assms by (auto simp: coalesce_def flush_full_def wctx_ok_def)
  then show ?thesis by (simp add: write_data_loop.simps [of D c data' len wrote w])
next
  case False
  then show ?thesis using assms(2) by (simp add: write_direct.simps [of D c data' len wrote w])
qed

lemma write_loop_all:
  assumes "wctx_ok ctx" "wrote \<le> len" "len \<le> length data'"
  shows "write_outcome D ctx (pending ctx @ between data' wrote len) len w (write_data_loop D ctx data' len wrote w)"
proof -
  let ?E = "blk (w_partition ctx)"
  have E: "0 < ?E" using assms(1) by (simp add: wctx_ok_def)
  consider "stored ctx + (len - wrote) < ?E" | "stored ctx = 0" "?E \<le> len - wrote"
    | "0 < stored ctx" "?E \<le> stored ctx + (len - wrote)" by linarith
  then show ?thesis
  proof cases
    case 1
    then show ?thesis by (rule write_loop_short [OF assms])
  next
    case 2
    moreover have "wrote < len" "pending ctx = []" using 2 E by (simp_all add: pending_def)
    ultimately show ?thesis using write_loop_direct [OF assms(1) 2(1) _ assms(3)] by simp
  next
    case 3
    have st: "stored ctx < ?E" using assms(1) by (simp add: wctx_ok_def)
    then have lt: "wrote < len" using 3 by simp
    define k where "k = ?E - stored ctx"
    have mk: "min (len - wrote) (?E - stored ctx) = k" and sk: "stored ctx + k = ?E"
      using 3 st by (simp_all add: k_def)
    obtain b where b: "coalesce ctx data' len wrote = Some (ctx\<lparr>w_buffer := b, stored := ?E\<rparr>, wrote + k)"
      "length b = ?E" "b = pending ctx @ between data' wrote (wrote + k)" "wrote + k \<le> len"
      using coalesce_ok [OF assms(1) lt assms(3), unfolded mk sk] 3(1) by auto
    have sp: "pending ctx @ between data' wrote len = b @ between data' (wrote + k) len"
      using b(3,4) between_split [of wrote "wrote + k" len data'] by simp
    let ?c = "ctx\<lparr>w_buffer := b, stored := ?E\<rparr>"
    have bad: "bad_ok (w_bad ctx)" using assms(1) by (simp add: wctx_ok_def)
    obtain e bad1 w1 where pb: "put_block D (w_partition ctx) (w_fd ctx) (w_bad ctx) b w = Some (e, bad1, w1)" "bad_ok bad1"
      using put_block_ok [OF E b(2) bad, of D "w_fd ctx" w] by blast
    have wb: "write_block D ?c b 0 w = Some (e, ?c\<lparr>w_bad := bad1\<rparr>, w1)"
      using write_block_put [of ?c 0 b D w] E b(2) pb(1) by simp
    show ?thesis
    proof (cases "e = 0")
      case False
      then have "write_data_loop D ctx data' len wrote w = Some (- 1, ?c\<lparr>w_bad := bad1\<rparr>, w1)"
        using lt b(1) wb by (subst write_data_loop.simps) (simp add: flush_full_def)
      then show ?thesis unfolding sp
        using E b(2) pb(1) False by (auto simp: write_outcome_def chunks_block)
    next
      case e0: True
      let ?d = "?c\<lparr>w_bad := bad1, stored := 0\<rparr>"
      have d: "wctx_ok ?d" "stored ?d = 0" "pending ?d = []"
        using E b(2) pb(2) by (simp_all add: wctx_ok_def pending_def)
      have "write_data_loop D ctx data' len wrote w =
          do { (ok3, wrote3, ctx3, w3) \<leftarrow> write_direct D ?d data' len (wrote + k) w1;
               if \<not> ok3 then Some (- 1, ctx3, w3) else write_data_loop D ctx3 data' len wrote3 w3 }"
        using lt b(1) wb e0 by (subst write_data_loop.simps) (simp add: flush_full_def)
      then have run: "write_data_loop D ctx data' len wrote w = write_data_loop D ?d data' len (wrote + k) w1"
        using write_loop_again [OF d(1,2) b(4), of D data' w1] by simp
      have "write_outcome D ?d (between data' (wrote + k) len) len w1 (write_data_loop D ?d data' len (wrote + k) w1)"
      proof (cases "?E \<le> len - (wrote + k)")
        case True
        then show ?thesis using write_loop_direct [OF d(1,2) _ assms(3), of "wrote + k" D w1] E by simp
      next
        case False
        then show ?thesis using write_loop_short [OF d(1) b(4) assms(3), of D w1] d(3) by simp
      qed
      then show ?thesis unfolding sp run
        using E b(2) pb(1) e0 by (auto simp: write_outcome_def chunks_block)
    qed
  qed
qed

subsection \<open>Padding\<close>

definition padded :: "nat \<Rightarrow> bytes \<Rightarrow> bytes" where
  "padded n xs = xs @ replicate (if remainder n xs = [] then 0 else n - length (remainder n xs)) 0"

lemma chunks_append_concat:
  "0 < n \<Longrightarrow> \<forall>b\<in>set bs. length b = n \<Longrightarrow> chunks n (concat bs @ ys) = bs @ chunks n ys"
  by (induction bs) (simp_all add: chunks_block)

lemma chunks_padded:
  assumes "0 < n"
  shows "chunks n (padded n xs) = chunks n xs @
    (if remainder n xs = [] then [] else [remainder n xs @ replicate (n - length (remainder n xs)) 0])"
proof -
  let ?z = "replicate (if remainder n xs = [] then 0 else n - length (remainder n xs)) (0 :: byte)"
  have "padded n xs = concat (chunks n xs) @ remainder n xs @ ?z"
    unfolding padded_def using chunks_concat [of n xs] by (metis append.assoc)
  then have c: "chunks n (padded n xs) = chunks n xs @ chunks n (remainder n xs @ ?z)"
    using chunks_append_concat [OF assms] chunks_length by metis
  show ?thesis
  proof (cases "remainder n xs = []")
    case True
    then show ?thesis using c assms by simp
  next
    case False
    have "length (remainder n xs @ ?z) = n" using remainder_length [OF assms, of xs] False by simp
    then have "chunks n ((remainder n xs @ ?z) @ []) = [remainder n xs @ ?z]"
      using chunks_block(1) [OF assms, of "remainder n xs @ ?z" "[]"] assms by simp
    then show ?thesis using c False by simp
  qed
qed

lemma put_blocks_append:
  "put_blocks D p fd bad (bs @ cs) w =
     do { (ok, bad1, w1) \<leftarrow> put_blocks D p fd bad bs w;
          if ok then put_blocks D p fd bad1 cs w1 else Some (False, bad1, w1) }"
  by (induction bs arbitrary: bad w) (auto split: Option.bind_splits)

lemma flush_pending_put:
  assumes "wctx_ok ctx"
  shows "\<exists>ok bad' ctx' w'. put_blocks D (w_partition ctx) (w_fd ctx) (w_bad ctx)
       (if pending ctx = [] then [] else [pending ctx @ replicate (blk (w_partition ctx) - length (pending ctx)) 0]) w
       = Some (ok, bad', w') \<and>
     flush_pending D ctx w = Some (ok, ctx', w') \<and> w_bad ctx' = bad' \<and> (ok \<longrightarrow> stored ctx' = 0)"
proof (cases "stored ctx = 0")
  case True
  then show ?thesis by (auto simp: pending_def flush_pending_def)
next
  case False
  let ?E = "blk (w_partition ctx)"
  let ?z = "replicate (?E - stored ctx) (0 :: byte)"
  have l: "length (pending ctx) = stored ctx" "pending ctx \<noteq> []" "stored ctx < ?E" "length (w_buffer ctx) = ?E"
    using pending_length [OF assms] False assms by (auto simp: wctx_ok_def)
  have E: "0 < ?E" using l by simp
  define b where "b = pending ctx @ ?z"
  have b: "length b = ?E" using l by (simp add: b_def)
  have wr: "wr_slice (w_buffer ctx) (stored ctx) ?z = Some b" using l by (simp add: wr_slice_def b_def pending_def)
  have bad: "bad_ok (w_bad ctx)" using assms by (simp add: wctx_ok_def)
  obtain e bad1 w1 where pb: "put_block D (w_partition ctx) (w_fd ctx) (w_bad ctx) b w = Some (e, bad1, w1)"
    using put_block_ok [OF E b bad, of D "w_fd ctx" w] by blast
  have wb: "write_block D (ctx\<lparr>w_buffer := b\<rparr>) b 0 w = Some (e, ctx\<lparr>w_buffer := b, w_bad := bad1\<rparr>, w1)"
    using write_block_put [of "ctx\<lparr>w_buffer := b\<rparr>" 0 b D w] E b pb by simp
  show ?thesis
    using False l(1,2) wr wb pb by (auto simp: flush_pending_def b_def)
qed

lemma write_start_ok:
  assumes "0 < E"
  shows "sorted (drop i bs) \<Longrightarrow> i + n = length bs \<Longrightarrow>
    \<exists>r k. write_start_loop \<lparr>bad_block_offsets = bs @ rest, bad_block_alloc = a, bad_block_count = c\<rparr> E i n pos = Some r \<and>
      r = pos + int k * int E \<and> r \<notin> set (drop i bs) \<and> (\<forall>j<k. pos + int j * int E \<in> set (drop i bs))"
proof (induction n arbitrary: i pos)
  case 0
  then show ?case by (intro exI [of _ pos] exI [of _ "0::nat"]) simp
next
  case (Suc n)
  then have i: "i < length bs" by simp
  then have d: "drop i bs = bs ! i # drop (i + 1) bs" by (simp add: Cons_nth_drop_Suc)
  have s: "sorted (drop (i + 1) bs)" "\<forall>x\<in>set (drop (i + 1) bs). bs ! i \<le> x" using Suc.prems(1) unfolding d by auto
  let ?b = "\<lparr>bad_block_offsets = bs @ rest, bad_block_alloc = a, bad_block_count = c\<rparr>"
  have rd: "rd (bad_block_offsets ?b) i = Some (bs ! i)" using i by (simp add: rd_def nth_append)
  have n: "i + 1 + n = length bs" using Suc.prems(2) by simp
  consider "bs ! i = pos" | "bs ! i > pos" | "bs ! i < pos" by linarith
  then show ?case
  proof cases
    case 1
    obtain r k where r: "write_start_loop ?b E (i + 1) n (pos + int E) = Some r"
      "r = pos + int E + int k * int E" "r \<notin> set (drop (i + 1) bs)"
      "\<forall>j<k. pos + int E + int j * int E \<in> set (drop (i + 1) bs)"
      using Suc.IH [OF s(1) n] by blast
    have "\<forall>j<Suc k. pos + int j * int E \<in> set (drop i bs)"
    proof (intro allI impI)
      fix j assume "j < Suc k"
      then show "pos + int j * int E \<in> set (drop i bs)"
        using r(4) 1 unfolding d by (cases j) (auto simp: algebra_simps)
    qed
    moreover have "0 \<le> int k * int E" by simp
    then have "r \<noteq> bs ! i" using r(2) 1 assms by linarith
    ultimately show ?thesis using 1 rd r(1-3) unfolding d
      by (intro exI [of _ r] exI [of _ "Suc k"]) (simp add: algebra_simps)
  next
    case 2
    then have "pos \<notin> set (drop i bs)" using s(2) unfolding d by auto
    then show ?thesis using 2 rd by (intro exI [of _ pos] exI [of _ "0::nat"]) simp
  next
    case 3
    obtain r k where r: "write_start_loop ?b E (i + 1) n pos = Some r"
      "r = pos + int k * int E" "r \<notin> set (drop (i + 1) bs)"
      "\<forall>j<k. pos + int j * int E \<in> set (drop (i + 1) bs)"
      using Suc.IH [OF s(1) n] by blast
    moreover have "0 \<le> int k * int E" by simp
    then have "r \<noteq> bs ! i" using 3 r(2) by linarith
    ultimately show ?thesis using 3 rd unfolding d by (intro exI [of _ r] exI [of _ k]) auto
  qed
qed
definition flash_writer :: mtd_write_context where
  "flash_writer = \<lparr>w_partition = flash_part, w_buffer = [0, 0], stored = 0, w_fd = 3,
     w_bad = \<lparr>bad_block_offsets = [], bad_block_alloc = 0, bad_block_count = 0\<rparr>\<rparr>"

lemma flash_writer_ok: "wctx_ok flash_writer" "pending flash_writer = []"
  by (simp_all add: wctx_ok_def flash_writer_def flash_part_def bad_ok_def blk_def pending_def)

subsection \<open>Properties\<close>

text \<open>
  C16: \<open>write_block\<close> tries the positions from the current one on in steps of the erase size; it answers 0
  only after the block was read back from the chosen position and found equal, records exactly the
  positions it skipped in the list of bad blocks, in order, and otherwise fails when no whole block
  is left before the end of the partition, its size taken as a signed \<open>int\<close>.
\<close>

theorem write_block_verified:
  assumes "wctx_ok ctx" "off + blk (w_partition ctx) \<le> length buf"
    and "seek_cur D (w_fd ctx) w = (pos, w0)" "pos \<noteq> - 1"
  shows "\<exists>r ctx' w' n. write_block D ctx buf off w = Some (r, ctx', w') \<and>
    bad_list (w_bad ctx') = bad_list (w_bad ctx) @ map (\<lambda>i. pos + int i * int (blk (w_partition ctx))) [0..<n] \<and>
    (if r = 0
     then read_back D (w_fd ctx) (pos + int n * int (blk (w_partition ctx)))
            (take (blk (w_partition ctx)) (drop off buf)) w' \<and>
          pos + int (n + 1) * int (blk (w_partition ctx)) \<le> isize (w_partition ctx)
     else r = - 1 \<and> isize (w_partition ctx) < pos + int (n + 1) * int (blk (w_partition ctx)))"
proof -
  have E: "0 < blk (w_partition ctx)" "bad_ok (w_bad ctx)" using assms(1) by (simp_all add: wctx_ok_def)
  from write_positions_ok [OF E(1) assms(2) E(2), of D "w_fd ctx" pos w0] obtain r bad' w' n where
    "write_positions D (w_partition ctx) (w_fd ctx) buf off pos (w_bad ctx) w0 = Some (r, bad', w')"
    "bad_list bad' = bad_list (w_bad ctx) @ map (\<lambda>i. pos + int i * int (blk (w_partition ctx))) [0..<n]"
    "if r = 0
     then read_back D (w_fd ctx) (pos + int n * int (blk (w_partition ctx)))
            (take (blk (w_partition ctx)) (drop off buf)) w' \<and>
          pos + int (n + 1) * int (blk (w_partition ctx)) \<le> isize (w_partition ctx)
     else r = - 1 \<and> isize (w_partition ctx) < pos + int (n + 1) * int (blk (w_partition ctx))" by blast
  then show ?thesis using assms(3,4)
    by (intro exI [of _ r] exI [of _ "ctx\<lparr>w_bad := bad'\<rparr>"] exI [of _ w'] exI [of _ n])
      (simp add: write_block_def)
qed

theorem write_block_verified_witness:
  "\<exists>r ctx' w' n. write_block flash flash_writer [7, 8] 0 (0, [1, 2, 3, 4]) = Some (r, ctx', w') \<and>
     bad_list (w_bad ctx') = map (\<lambda>i. int i * 2) [0..<n]"
proof -
  have "blk (w_partition flash_writer) = 2" "bad_list (w_bad flash_writer) = []"
    by (simp_all add: flash_writer_def flash_part_def blk_def bad_list_def)
  with write_block_verified [OF flash_writer_ok(1), of 0 "[7, 8]" flash "(0, [1, 2, 3, 4])" 0 "(0, [1, 2, 3, 4])"]
  show ?thesis by (auto simp: flash_def)
qed

text \<open>
  \<open>mtd_write_data\<close> is a block stream: whatever the sizes of the calls, the blocks it writes are
  those of the pending bytes followed by the data, one after another and each exactly once; on
  success it answers the length and keeps what does not fill a block pending, on a failure it
  answers -1 after the blocks before the failing one.
\<close>

theorem mtd_write_stream:
  assumes "wctx_ok ctx" "len \<le> length data'"
  shows "\<exists>ok bad' ctx' w'. put_blocks D (w_partition ctx) (w_fd ctx) (w_bad ctx)
       (chunks (blk (w_partition ctx)) (pending ctx @ take len data')) w = Some (ok, bad', w') \<and>
     mtd_write_data D ctx data' len w = Some (if ok then int len else - 1, ctx', w') \<and> w_bad ctx' = bad' \<and>
     (ok \<longrightarrow> wctx_ok ctx' \<and> pending ctx' = remainder (blk (w_partition ctx)) (pending ctx @ take len data'))"
  using write_loop_all [OF assms(1) _ assms(2), of 0 D w]
  by (auto simp: write_outcome_def mtd_write_data_def between_def)

theorem mtd_write_stream_witness:
  "\<exists>ok bad' ctx' w'. put_blocks flash flash_part 3 (w_bad flash_writer) [[5, 6]] (0, [1, 2, 3, 4]) = Some (ok, bad', w') \<and>
     mtd_write_data flash flash_writer [5, 6, 7] 3 (0, [1, 2, 3, 4]) = Some (if ok then 3 else - 1, ctx', w')"
proof -
  have "chunks 2 [5, 6, 7 :: byte] = [[5, 6]]" by (simp add: chunks.simps)
  with mtd_write_stream [OF flash_writer_ok(1), of 3 "[5, 6, 7]" flash "(0, [1, 2, 3, 4])"] flash_writer_ok(2)
  show ?thesis by (auto simp: flash_writer_def flash_part_def blk_def)
qed

text \<open>
  C9: writing an image and then flushing, as \<open>mtd_erase_blocks\<close> and \<open>mtd_write_close\<close> do first, writes
  exactly the blocks of the image padded with zero bytes to a multiple of the erase size.
\<close>

theorem mtd_write_image:
  assumes "wctx_ok ctx" "len \<le> length data'"
  shows "\<exists>ok bad' ctx' w'. put_blocks D (w_partition ctx) (w_fd ctx) (w_bad ctx)
       (chunks (blk (w_partition ctx)) (padded (blk (w_partition ctx)) (pending ctx @ take len data'))) w
         = Some (ok, bad', w') \<and>
     do { (r, ctx1, w1) \<leftarrow> mtd_write_data D ctx data' len w;
          if r = - 1 then Some (False, ctx1, w1) else flush_pending D ctx1 w1 } = Some (ok, ctx', w') \<and>
     w_bad ctx' = bad' \<and> (ok \<longrightarrow> stored ctx' = 0)"
proof -
  let ?E = "blk (w_partition ctx)" and ?s = "pending ctx @ take len data'"
  have E: "0 < ?E" using assms(1) by (simp add: wctx_ok_def)
  have "write_outcome D ctx ?s len w (mtd_write_data D ctx data' len w)"
    using write_loop_all [OF assms(1) _ assms(2), of 0 D w] by (simp add: mtd_write_data_def between_def)
  then obtain ok bad1 ctx1 w1 where wr:
    "put_blocks D (w_partition ctx) (w_fd ctx) (w_bad ctx) (chunks ?E ?s) w = Some (ok, bad1, w1)"
    "mtd_write_data D ctx data' len w = Some (if ok then int len else - 1, ctx1, w1)"
    "w_partition ctx1 = w_partition ctx" "w_fd ctx1 = w_fd ctx" "w_bad ctx1 = bad1"
    "ok \<Longrightarrow> wctx_ok ctx1 \<and> pending ctx1 = remainder ?E ?s"
    unfolding write_outcome_def by blast
  show ?thesis
  proof (cases ok)
    case False
    then show ?thesis using wr by (auto simp: chunks_padded [OF E] put_blocks_append)
  next
    case True
    then have c1: "wctx_ok ctx1" "pending ctx1 = remainder ?E ?s" using wr(6) by auto
    from flush_pending_put [OF c1(1), of D w1] show ?thesis
      using wr(1-5) True c1(2) by (auto simp: chunks_padded [OF E] put_blocks_append)
  qed
qed

theorem mtd_write_image_witness:
  "\<exists>ok bad' ctx' w'. put_blocks flash flash_part 3 (w_bad flash_writer) [[5, 6], [7, 0]] (0, [1, 2, 3, 4]) = Some (ok, bad', w') \<and>
     do { (r, ctx1, w1) \<leftarrow> mtd_write_data flash flash_writer [5, 6, 7] 3 (0, [1, 2, 3, 4]);
          if r = - 1 then Some (False, ctx1, w1) else flush_pending flash ctx1 w1 } = Some (ok, ctx', w')"
proof -
  have "chunks 2 (padded 2 [5, 6, 7 :: byte]) = [[5, 6], [7, 0]]"
    by (simp add: padded_def chunks.simps remainder.simps)
  with mtd_write_image [OF flash_writer_ok(1), of 3 "[5, 6, 7]" flash "(0, [1, 2, 3, 4])"] flash_writer_ok(2)
  show ?thesis by (auto simp: flash_writer_def flash_part_def blk_def)
qed

text \<open>
  \<open>mtd_find_write_start\<close> steps over the bad blocks: for an ascending list it answers the first
  position, counting in erase sizes from the one given, that is not in the list.
\<close>

theorem mtd_find_write_start_first:
  assumes "wctx_ok ctx" "sorted (bad_list (w_bad ctx))"
  shows "\<exists>r k. mtd_find_write_start ctx pos = Some r \<and> r = pos + int k * int (blk (w_partition ctx)) \<and>
    r \<notin> set (bad_list (w_bad ctx)) \<and>
    (\<forall>j<k. pos + int j * int (blk (w_partition ctx)) \<in> set (bad_list (w_bad ctx)))"
proof -
  let ?b = "w_bad ctx" and ?E = "blk (w_partition ctx)"
  have E: "0 < ?E" and b: "bad_ok ?b" using assms(1) by (simp_all add: wctx_ok_def)
  have l: "0 + bad_block_count ?b = length (bad_list ?b)" using b by (simp add: bad_list_def bad_ok_def)
  have s: "sorted (drop 0 (bad_list ?b))" using assms(2) by simp
  have "?b = \<lparr>bad_block_offsets = bad_list ?b @ drop (bad_block_count ?b) (bad_block_offsets ?b),
      bad_block_alloc = bad_block_alloc ?b, bad_block_count = bad_block_count ?b\<rparr>"
    by (simp add: bad_list_def)
  with write_start_ok [OF E s l, of "drop (bad_block_count ?b) (bad_block_offsets ?b)" "bad_block_alloc ?b" "bad_block_count ?b" pos]
  show ?thesis by (simp add: mtd_find_write_start_def)
qed

theorem mtd_find_write_start_first_witness:
  "\<exists>r k. mtd_find_write_start (flash_writer\<lparr>w_bad := \<lparr>bad_block_offsets = [2, 4], bad_block_alloc = 2, bad_block_count = 2\<rparr>\<rparr>) 2
     = Some r \<and> r = 2 + int k * 2 \<and> r \<notin> {2, 4} \<and> (\<forall>j<k. 2 + int j * 2 \<in> {2, 4})"
proof -
  let ?c = "flash_writer\<lparr>w_bad := \<lparr>bad_block_offsets = [2, 4], bad_block_alloc = 2, bad_block_count = 2\<rparr>\<rparr>"
  have "wctx_ok ?c" "bad_list (w_bad ?c) = [2, 4]" "blk (w_partition ?c) = 2"
    by (simp_all add: wctx_ok_def flash_writer_def flash_part_def blk_def bad_ok_def bad_list_def)
  with mtd_find_write_start_first [of ?c 2] show ?thesis by simp
qed

end
