(* ===== verification/MtdRead.thy ===== *)
theory MtdRead
  imports MtdUtils
begin

text \<open>
  Reading flash partitions (\<open>mtdutils.c\<close>): the contracts of \<open>read_block\<close> and \<open>mtd_read_data\<close>, over an
  arbitrary driver that stores no more than it is asked for.
\<close>

subsection \<open>Reading one block\<close>

text \<open>What the code relies on in \<open>read\<close>: it stores no more than it is asked for, and as much as it says.\<close>

definition read_law :: "'w mtd_dev \<Rightarrow> bool" where
  "read_law D \<longleftrightarrow> (\<forall>fd n w. length (snd (fst (dev_read D fd n w))) \<le> n \<and>
     (fst (fst (dev_read D fd n w)) = int n \<longrightarrow> length (snd (fst (dev_read D fd n w))) = n))"

text \<open>\<open>buf'\<close> is \<open>buf\<close> with the \<open>n\<close> bytes from \<open>off\<close> on replaced by others.\<close>

definition patched :: "bytes \<Rightarrow> nat \<Rightarrow> nat \<Rightarrow> bytes \<Rightarrow> bool" where
  "patched buf off n buf' \<longleftrightarrow>
     length buf' = length buf \<and> take off buf' = take off buf \<and> drop (off + n) buf' = drop (off + n) buf"

lemma patched_refl [simp]: "patched buf off n buf"
  by (simp add: patched_def)

lemma patched_trans: "patched a off n b \<Longrightarrow> patched b off n c \<Longrightarrow> patched a off n c"
  by (simp add: patched_def)

lemma patched_wr:
  assumes "off + n \<le> length buf" "length bs \<le> n"
  shows "\<exists>buf'. wr_slice buf off bs = Some buf' \<and> patched buf off n buf' \<and>
    (length bs = n \<longrightarrow> take n (drop off buf') = bs)"
  using assms by (auto simp: mem_simps patched_def add.commute)

lemma read_attempts_ok:
  assumes "0 < blk p" "read_law D"
  shows "\<exists>r b w'. length b = blk p \<and> (r = 0 \<or> r = - 1) \<and>
    (\<forall>buf off. off + blk p \<le> length buf \<longrightarrow>
       (\<exists>buf'. read_attempts D p fd buf off before pos w = Some (r, buf', w') \<and> patched buf off (blk p) buf' \<and>
          (r = 0 \<longrightarrow> take (blk p) (drop off buf') = b)))"
proof (induction "nat (isize p - pos)" arbitrary: pos before w rule: less_induct)
  case less
  let ?E = "blk p"
  note step = read_attempts.simps [of D p fd _ _ before pos w]
  show ?case
  proof (cases "pos + int ?E \<le> isize p")
    case False
    then show ?thesis
      by (intro exI [of _ "- 1"] exI [of _ "replicate ?E 0"] exI [of _ w]) (simp add: step)
  next
    case True
    then have dec: "nat (isize p - (pos + int ?E)) < nat (isize p - pos)" using assms(1) by linarith
    obtain at w1 where sk: "seek_set D fd pos w = (at, w1)" by fastforce
    obtain got bs w2 where rd: "dev_read D fd ?E w1 = ((got, bs), w2)" by (metis prod.exhaust)
    obtain err aft w3 where ec: "eccgetstats D fd w2 = ((err, aft), w3)" by (metis prod.exhaust)
    obtain mg errno w4 where mb: "memgetbadblock D fd pos w3 = ((mg, errno), w4)" by (metis prod.exhaust)
    have lbs: "length bs \<le> ?E" "got = int ?E \<Longrightarrow> length bs = ?E"
      using assms(2) rd unfolding read_law_def by (metis fst_conv snd_conv)+
    have again: ?thesis
      if run: "\<And>buf off. off + ?E \<le> length buf \<Longrightarrow> \<exists>buf1. patched buf off ?E buf1 \<and>
          read_attempts D p fd buf off before pos w = read_attempts D p fd buf1 off bf (pos + int ?E) wx" for bf wx
    proof -
      obtain r b w' where ih: "length b = ?E" "r = 0 \<or> r = - 1"
        "\<And>buf off. off + ?E \<le> length buf \<Longrightarrow>
           \<exists>buf'. read_attempts D p fd buf off bf (pos + int ?E) wx = Some (r, buf', w') \<and> patched buf off ?E buf' \<and>
             (r = 0 \<longrightarrow> take ?E (drop off buf') = b)"
        using less.hyps [OF dec, of bf wx] by blast
      have "\<exists>buf'. read_attempts D p fd buf off before pos w = Some (r, buf', w') \<and> patched buf off ?E buf' \<and>
             (r = 0 \<longrightarrow> take ?E (drop off buf') = b)" if le: "off + ?E \<le> length buf" for buf off
      proof -
        obtain buf1 where b1: "patched buf off ?E buf1"
          "read_attempts D p fd buf off before pos w = read_attempts D p fd buf1 off bf (pos + int ?E) wx"
          using run [OF le] by blast
        moreover have "off + ?E \<le> length buf1" using b1(1) le by (simp add: patched_def)
        ultimately show ?thesis using ih(3) patched_trans by metis
      qed
      then show ?thesis using ih(1,2) by blast
    qed
    have wr: "\<exists>buf1. wr_slice buf off bs = Some buf1 \<and> patched buf off ?E buf1 \<and>
        (length bs = ?E \<longrightarrow> take ?E (drop off buf1) = bs)" if "off + ?E \<le> length buf" for buf off
      by (rule patched_wr [OF that lbs(1)])
    consider "at \<noteq> pos" | "at = pos" "got \<noteq> int ?E" | "at = pos" "got = int ?E" "err \<noteq> 0"
      | "at = pos" "got = int ?E" "err = 0" "aft \<noteq> before"
      | "at = pos" "got = int ?E" "err = 0" "aft = before" "mg \<noteq> 0"
      | "at = pos" "got = int ?E" "err = 0" "aft = before" "mg = 0" by blast
    then show ?thesis
    proof cases
      case 1
      show ?thesis
        by (rule again [of before w1], rule exI, rule conjI, rule patched_refl) (use 1 True sk in \<open>simp add: step\<close>)
    next
      case 2
      show ?thesis
      proof (rule again [of before w2])
        fix buf off assume "off + ?E \<le> length (buf :: bytes)"
        from wr [OF this] 2 True sk rd
        show "\<exists>buf1. patched buf off ?E buf1 \<and>
          read_attempts D p fd buf off before pos w = read_attempts D p fd buf1 off before (pos + int ?E) w2"
          by (auto simp: step)
      qed
    next
      case 3
      have "\<exists>buf'. read_attempts D p fd buf off before pos w = Some (- 1, buf', w3) \<and> patched buf off ?E buf'"
        if "off + ?E \<le> length buf" for buf off
        using wr [OF that] 3 True sk rd ec by (auto simp: step)
      then show ?thesis by (intro exI [of _ "- 1"] exI [of _ "replicate ?E 0"] exI [of _ w3]) simp
    next
      case 4
      show ?thesis
      proof (rule again [of aft w3])
        fix buf off assume "off + ?E \<le> length (buf :: bytes)"
        from wr [OF this] 4 True sk rd ec
        show "\<exists>buf1. patched buf off ?E buf1 \<and>
          read_attempts D p fd buf off before pos w = read_attempts D p fd buf1 off aft (pos + int ?E) w3"
          by (auto simp: step)
      qed
    next
      case 5
      show ?thesis
      proof (rule again [of before w4])
        fix buf off assume "off + ?E \<le> length (buf :: bytes)"
        from wr [OF this] 5 True sk rd ec mb
        show "\<exists>buf1. patched buf off ?E buf1 \<and>
          read_attempts D p fd buf off before pos w = read_attempts D p fd buf1 off before (pos + int ?E) w4"
          by (auto simp: step)
      qed
    next
      case 6
      have "\<exists>buf'. read_attempts D p fd buf off before pos w = Some (0, buf', w4) \<and> patched buf off ?E buf' \<and>
          take ?E (drop off buf') = bs"
        if "off + ?E \<le> length buf" for buf off
        using wr [OF that] 6 True sk rd ec mb lbs(2) by (auto simp: step)
      then show ?thesis using lbs(2) 6 by (intro exI [of _ 0] exI [of _ bs] exI [of _ w4]) simp
    qed
  qed
qed

text \<open>The reference: one block into a fresh buffer, and several of them.\<close>

definition get_block :: "'w mtd_dev \<Rightarrow> mtd_partition \<Rightarrow> int \<Rightarrow> 'w \<Rightarrow> (bytes option \<times> 'w) ub" where
  "get_block D p fd w =
     do { (r, b, w1) \<leftarrow> read_block D p fd (replicate (blk p) 0) 0 w;
          Some (if r = 0 then Some b else None, w1) }"

fun get_blocks :: "'w mtd_dev \<Rightarrow> mtd_partition \<Rightarrow> int \<Rightarrow> nat \<Rightarrow> 'w \<Rightarrow> (bytes list option \<times> 'w) ub" where
  "get_blocks D p fd 0 w = Some (Some [], w)"
| "get_blocks D p fd (Suc n) w =
     do { (b, w1) \<leftarrow> get_block D p fd w;
          case b of None \<Rightarrow> Some (None, w1)
          | Some b \<Rightarrow> do { (bs, w2) \<leftarrow> get_blocks D p fd n w1; Some (map_option ((#) b) bs, w2) }}"

lemma read_block_get:
  assumes "0 < blk p" "read_law D"
  obtains b w' where "get_block D p fd w = Some (b, w')" "\<And>x. b = Some x \<Longrightarrow> length x = blk p"
    "\<And>buf off. off + blk p \<le> length buf \<Longrightarrow>
       \<exists>buf'. read_block D p fd buf off w = Some (if b = None then - 1 else 0, buf', w') \<and>
         patched buf off (blk p) buf' \<and> (b = None \<or> b = Some (take (blk p) (drop off buf')))"
proof -
  obtain err before w1 where ec: "eccgetstats D fd w = ((err, before), w1)" by (metis prod.exhaust)
  obtain pos w2 where sk: "seek_cur D fd w1 = (pos, w2)" by fastforce
  show thesis
  proof (cases "err = 0")
    case False
    then show thesis using ec
      by (intro that [of None w1]) (auto simp: get_block_def read_block_def)
  next
    case True
    obtain r b w' where r: "length b = blk p" "r = 0 \<or> r = - 1"
      "\<And>buf off. off + blk p \<le> length buf \<Longrightarrow>
         \<exists>buf'. read_attempts D p fd buf off before pos w2 = Some (r, buf', w') \<and> patched buf off (blk p) buf' \<and>
           (r = 0 \<longrightarrow> take (blk p) (drop off buf') = b)"
      using read_attempts_ok [OF assms] by metis
    have rb: "read_block D p fd buf off w = read_attempts D p fd buf off before pos w2" for buf off
      using ec sk True by (simp add: read_block_def)
    obtain b0 where b0: "read_attempts D p fd (replicate (blk p) 0) 0 before pos w2 = Some (r, b0, w')"
      "length b0 = blk p" "r = 0 \<longrightarrow> b0 = b"
      using r(3) [of 0 "replicate (blk p) 0"] by (auto simp: patched_def)
    show thesis
    proof (rule that [of "if r = 0 then Some b else None" w'])
      show "get_block D p fd w = Some (if r = 0 then Some b else None, w')"
        using b0 by (simp add: get_block_def rb)
      show "length x = blk p" if "(if r = 0 then Some b else None) = Some x" for x
        using that r(1) by (auto split: if_splits)
      show "\<exists>buf'. read_block D p fd buf off w
           = Some (if (if r = 0 then Some b else None) = None then - 1 else 0, buf', w') \<and>
         patched buf off (blk p) buf' \<and>
         ((if r = 0 then Some b else None) = None \<or>
          (if r = 0 then Some b else None) = Some (take (blk p) (drop off buf')))"
        if "off + blk p \<le> length buf" for buf off
        using r(3) [OF that] r(2) by (auto simp: rb)
    qed
  qed
qed

subsection \<open>The read stream\<close>

definition rctx_ok :: "mtd_read_context \<Rightarrow> bool" where
  "rctx_ok ctx \<longleftrightarrow> 0 < blk (r_partition ctx) \<and> length (r_buffer ctx) = blk (r_partition ctx) \<and>
     consumed ctx \<le> blk (r_partition ctx)"

definition unread :: "mtd_read_context \<Rightarrow> bytes" where
  "unread ctx = drop (consumed ctx) (r_buffer ctx)"

lemma unread_length: "rctx_ok ctx \<Longrightarrow> length (unread ctx) = blk (r_partition ctx) - consumed ctx"
  by (simp add: unread_def rctx_ok_def)

lemma copy_buffered_ok:
  assumes "rctx_ok ctx" "read \<le> len" "len \<le> length data'"
  defines "k \<equiv> min (len - read) (length (unread ctx))"
  shows "copy_buffered ctx data' len read = Some (ctx\<lparr>consumed := consumed ctx + k\<rparr>,
           take read data' @ take k (unread ctx) @ drop (read + k) data', read + k)"
proof (cases "consumed ctx < blk (r_partition ctx)")
  case False
  then have "k = 0" using unread_length [OF assms(1)] by (simp add: k_def)
  then show ?thesis using False by (simp add: copy_buffered_def)
next
  case True
  have k: "(if len - read < blk (r_partition ctx) - consumed ctx then len - read
      else blk (r_partition ctx) - consumed ctx) = k"
    using unread_length [OF assms(1)] by (simp add: k_def)
  have le: "k \<le> len - read" "k \<le> length (unread ctx)" by (simp_all add: k_def)
  then have rd: "rd_slice (r_buffer ctx) (consumed ctx) k = Some (take k (unread ctx))"
    using assms(1) True by (simp add: mem_simps unread_def rctx_ok_def)
  have wr: "wr_slice data' read (take k (unread ctx))
      = Some (take read data' @ take k (unread ctx) @ drop (read + k) data')"
    using le assms(2,3) by (simp add: mem_simps)
  show ?thesis unfolding copy_buffered_def Let_def k rd using True wr by simp
qed

lemma read_direct_ok:
  assumes "rctx_ok ctx" "consumed ctx = blk (r_partition ctx)" "read_law D"
  shows "read \<le> len \<Longrightarrow> len \<le> length data' \<Longrightarrow>
    \<exists>n bs w' read' data2. get_blocks D (r_partition ctx) (r_fd ctx) n w = Some (bs, w') \<and>
      read_direct D ctx data' len read w = Some (bs \<noteq> None, read', data2, w') \<and> length data2 = length data' \<and>
      (\<forall>x. bs = Some x \<longrightarrow> data2 = take read data' @ concat x @ drop read' data' \<and>
         read' = read + length (concat x) \<and> read' \<le> len \<and> len - read' < blk (r_partition ctx))"
proof (induction "len - read" arbitrary: read data' w rule: less_induct)
  case less
  let ?p = "r_partition ctx"
  let ?E = "blk ?p"
  have E: "0 < ?E" using assms(1) by (simp add: rctx_ok_def)
  note step = read_direct.simps [of D ctx data' len read w]
  show ?case
  proof (cases "?E \<le> len - read")
    case False
    then show ?thesis using less.prems
      by (intro exI [of _ "0::nat"] exI [of _ "Some []"] exI [of _ w] exI [of _ read] exI [of _ data'])
        (simp add: step)
  next
    case True
    obtain b w1 where g: "get_block D ?p (r_fd ctx) w = Some (b, w1)" "\<And>x. b = Some x \<Longrightarrow> length x = ?E"
      "\<And>buf off. off + ?E \<le> length buf \<Longrightarrow>
       \<exists>buf'. read_block D ?p (r_fd ctx) buf off w = Some (if b = None then - 1 else 0, buf', w1) \<and>
         patched buf off ?E buf' \<and> (b = None \<or> b = Some (take ?E (drop off buf')))"
      using read_block_get [OF E assms(3)] by metis
    have "read + ?E \<le> length data'" using True less.prems by simp
    from g(3) [OF this] obtain d1 where d1:
      "read_block D ?p (r_fd ctx) data' read w = Some (if b = None then - 1 else 0, d1, w1)"
      "patched data' read ?E d1" "b = None \<or> b = Some (take ?E (drop read d1))" by blast
    have ld: "length d1 = length data'" using d1(2) by (simp add: patched_def)
    show ?thesis
    proof (cases b)
      case None
      then show ?thesis using True assms(2) d1(1) g(1) ld
        by (intro exI [of _ "1::nat"] exI [of _ None] exI [of _ w1] exI [of _ read] exI [of _ d1])
          (simp add: step)
    next
      case (Some x)
      then have x: "x = take ?E (drop read d1)" "length x = ?E" using d1(3) g(2) by auto
      have dec: "len - (read + ?E) < len - read" "read + ?E \<le> len" "len \<le> length d1"
        using True E less.prems ld by simp_all
      obtain n bs w' read' data2 where ih: "get_blocks D ?p (r_fd ctx) n w1 = Some (bs, w')"
        "read_direct D ctx d1 len (read + ?E) w1 = Some (bs \<noteq> None, read', data2, w')" "length data2 = length d1"
        "\<forall>y. bs = Some y \<longrightarrow> data2 = take (read + ?E) d1 @ concat y @ drop read' d1 \<and>
           read' = read + ?E + length (concat y) \<and> read' \<le> len \<and> len - read' < ?E"
        using less.hyps [OF dec, of w1] by blast
      have run: "read_direct D ctx data' len read w = Some (bs \<noteq> None, read', data2, w')"
        using True assms(2) d1(1) Some ih(2) by (simp add: step)
      have gs: "get_blocks D ?p (r_fd ctx) (Suc n) w = Some (map_option ((#) x) bs, w')"
        using g(1) Some ih(1) by simp
      have t: "take (read + ?E) d1 = take read data' @ x"
        using d1(2) x(1) by (simp add: patched_def take_add)
      have dr: "drop r d1 = drop r data'" if "read + ?E \<le> r" for r
        using d1(2) that unfolding patched_def by (metis drop_drop le_add_diff_inverse2)
      show ?thesis
        using run gs ih(3,4) ld t dr x(2)
        by (intro exI [of _ "Suc n"] exI [of _ "map_option ((#) x) bs"] exI [of _ w'] exI [of _ read'] exI [of _ data2])
          auto
    qed
  qed
qed

lemma int_of_size_small: "len < 2 ^ 31 \<Longrightarrow> int_of_size len = int len"
  unfolding int_of_size_def
  by (simp add: sint_uint signed_take_bit_int_eq_self unsigned_of_nat take_bit_nat_eq_self)

lemma get_blocks_snoc:
  "get_blocks D p fd n w = Some (Some x, w2) \<Longrightarrow> get_block D p fd w2 = Some (b, w3) \<Longrightarrow>
   get_blocks D p fd (n + 1) w = Some (case b of None \<Rightarrow> None | Some y \<Rightarrow> Some (x @ [y]), w3)"
proof (induction n arbitrary: w x)
  case (Suc n)
  obtain c w1 x1 where c: "get_block D p fd w = Some (Some c, w1)" "get_blocks D p fd n w1 = Some (Some x1, w2)"
    "x = c # x1"
    using Suc.prems(1) by (auto simp: bind_eq_Some_conv split: option.splits)
  have "get_blocks D p fd (Suc (n + 1)) w =
      do { (bs, w2) \<leftarrow> get_blocks D p fd (n + 1) w1; Some (map_option ((#) c) bs, w2) }"
    by (subst get_blocks.simps(2)) (simp add: c(1) del: get_blocks.simps)
  then show ?case unfolding Suc.IH [OF c(2) Suc.prems(2)] using c(3) by (simp split: option.splits)
qed (auto split: option.splits)

text \<open>What the result says: \<open>n\<close> blocks were read, and the caller got the unread bytes and the blocks in order.\<close>

definition read_outcome ::
  "'w mtd_dev \<Rightarrow> mtd_read_context \<Rightarrow> bytes \<Rightarrow> nat \<Rightarrow> nat \<Rightarrow> 'w
     \<Rightarrow> (int \<times> mtd_read_context \<times> bytes \<times> 'w) ub \<Rightarrow> bool" where
  "read_outcome D ctx data' len read w res \<longleftrightarrow>
     (\<exists>n bs w' ctx' data2. get_blocks D (r_partition ctx) (r_fd ctx) n w = Some (bs, w') \<and>
        res = Some (if bs = None then - 1 else int len, ctx', data2, w') \<and> length data2 = length data' \<and>
        (\<forall>x. bs = Some x \<longrightarrow>
           rctx_ok ctx' \<and> r_partition ctx' = r_partition ctx \<and> r_fd ctx' = r_fd ctx \<and>
           (\<exists>got. unread ctx @ concat x = got @ unread ctx' \<and> length got = len - read \<and>
              data2 = take read data' @ got @ drop len data') \<and>
           (n = 0 \<or> length (unread ctx') < blk (r_partition ctx))))"

lemma read_outcome_fail:
  assumes "get_blocks D (r_partition ctx) (r_fd ctx) n w = Some (None, w')"
    "res = Some (- 1, ctx', data2, w')" "length data2 = length data'"
  shows "read_outcome D ctx data' len read w res"
  unfolding read_outcome_def
  by (intro exI [of _ n] exI [of _ None] exI [of _ w'] exI [of _ ctx'] exI [of _ data2]) (simp add: assms)

lemma read_outcome_good:
  assumes "get_blocks D (r_partition ctx) (r_fd ctx) n w = Some (Some x, w')"
    "res = Some (int len, ctx', data2, w')" "length data2 = length data'"
    "rctx_ok ctx'" "r_partition ctx' = r_partition ctx" "r_fd ctx' = r_fd ctx"
    "unread ctx @ concat x = got @ unread ctx'" "length got = len - read"
    "data2 = take read data' @ got @ drop len data'" "n = 0 \<or> length (unread ctx') < blk (r_partition ctx)"
  shows "read_outcome D ctx data' len read w res"
  unfolding read_outcome_def
  using assms
  by (intro exI [of _ n] exI [of _ "Some x"] exI [of _ w'] exI [of _ ctx'] exI [of _ data2]) auto

lemma read_loop_buffered:
  assumes "rctx_ok ctx" "read \<le> len" "len \<le> length data'" "len < 2 ^ 31" "len - read \<le> length (unread ctx)"
  shows "read_loop D ctx data' len read w = Some (int len, ctx\<lparr>consumed := consumed ctx + (len - read)\<rparr>,
    take read data' @ take (len - read) (unread ctx) @ drop len data', w)"
proof (cases "read = len")
  case True
  then show ?thesis by (subst read_loop.simps) (simp add: int_of_size_small [OF assms(4)])
next
  case False
  then have lt: "int read < int_of_size len" using assms(2) by (simp add: int_of_size_small [OF assms(4)])
  let ?k = "len - read"
  have k: "min ?k (length (unread ctx)) = ?k" "read + ?k = len" using assms(2,5) by simp_all
  note cp = copy_buffered_ok [OF assms(1-3), unfolded k]
  let ?c = "ctx\<lparr>consumed := consumed ctx + ?k\<rparr>" and ?d = "take read data' @ take ?k (unread ctx) @ drop len data'"
  have "0 < blk (r_partition ctx)" using assms(1) by (simp add: rctx_ok_def)
  then have "read_direct D ?c ?d len len w = Some (True, len, ?d, w)"
    by (subst read_direct.simps) simp
  then show ?thesis by (subst read_loop.simps) (simp add: lt cp)
qed

lemma read_loop_ok:
  assumes "rctx_ok ctx" "read \<le> len" "len \<le> length data'" "len < 2 ^ 31" "read_law D"
  shows "read_outcome D ctx data' len read w (read_loop D ctx data' len read w)"
proof (cases "len - read \<le> length (unread ctx)")
  case True
  have "rctx_ok (ctx\<lparr>consumed := consumed ctx + (len - read)\<rparr>)"
    using assms(1) True unread_length [OF assms(1)] by (simp add: rctx_ok_def le_diff_conv2 add.commute)
  moreover have "unread (ctx\<lparr>consumed := consumed ctx + (len - read)\<rparr>) = drop (len - read) (unread ctx)"
    by (simp add: unread_def add.commute)
  ultimately show ?thesis
    unfolding read_loop_buffered [OF assms(1-4) True] read_outcome_def
    using True assms(2,3)
    by (intro exI [of _ "0::nat"] exI [of _ "Some []"] exI [of _ w]
        exI [of _ "ctx\<lparr>consumed := consumed ctx + (len - read)\<rparr>"]
        exI [of _ "take read data' @ take (len - read) (unread ctx) @ drop len data'"]) (auto intro!: exI [of _ "take (len - read) (unread ctx)"])
next
  case False
  let ?p = "r_partition ctx"
  let ?E = "blk ?p" and ?u = "unread ctx"
  let ?k = "length ?u"
  have E: "0 < ?E" using assms(1) by (simp add: rctx_ok_def)
  have lt: "int read < int_of_size len" using False by (simp add: int_of_size_small [OF assms(4)])
  have k: "min (len - read) ?k = ?k" "read + ?k \<le> len" using False by simp_all
  define d1 where "d1 = take read data' @ ?u @ drop (read + ?k) data'"
  define c1 where "c1 = ctx\<lparr>consumed := consumed ctx + ?k\<rparr>"
  have cp: "copy_buffered ctx data' len read = Some (c1, d1, read + ?k)"
    using copy_buffered_ok [OF assms(1-3), unfolded k(1)] by (simp add: c1_def d1_def)
  have c1: "rctx_ok c1" "consumed c1 = ?E" "r_partition c1 = ?p" "r_fd c1 = r_fd ctx"
    using assms(1) unread_length [OF assms(1)] by (simp_all add: c1_def rctx_ok_def)
  have ld1: "length d1 = length data'" using k(2) assms(2,3) by (simp add: d1_def)
  then have le1: "len \<le> length d1" using assms(3) by simp
  obtain n bs w2 read2 d2 where dr: "get_blocks D ?p (r_fd ctx) n w = Some (bs, w2)"
    "read_direct D c1 d1 len (read + ?k) w = Some (bs \<noteq> None, read2, d2, w2)" "length d2 = length d1"
    "\<forall>x. bs = Some x \<longrightarrow> d2 = take (read + ?k) d1 @ concat x @ drop read2 d1 \<and>
       read2 = read + ?k + length (concat x) \<and> read2 \<le> len \<and> len - read2 < ?E"
    using read_direct_ok [OF c1(1) _ assms(5) k(2) le1, of w] c1(2) unfolding c1(3,4) by blast
  show ?thesis
  proof (cases bs)
    case None
    then have "read_loop D ctx data' len read w = Some (- 1, c1, d2, w2)"
      using dr(2) by (subst read_loop.simps) (simp add: lt cp)
    then show ?thesis by (rule read_outcome_fail [rotated]) (use dr(1,3) None ld1 in simp_all)
  next
    case (Some x)
    have tk: "take (read + ?k) d1 = take read data' @ ?u" using assms(2,3) k(2) by (simp add: d1_def)
    have d1r: "drop r d1 = drop r data'" if "read + ?k \<le> r" for r
      using that assms(2,3) k(2) by (simp add: d1_def)
    have x: "d2 = take read data' @ ?u @ concat x @ drop read2 data'" "read2 = read + ?k + length (concat x)"
      "read2 \<le> len" "len - read2 < ?E"
      using dr(4) Some tk d1r by auto
    have u1: "unread c1 = []" using unread_length [OF c1(1)] c1(2,3) by simp
    show ?thesis
    proof (cases "read2 = len")
      case True
      have "read_loop D ctx data' len read w = Some (int len, c1, d2, w2)"
        using dr(2) Some True by (subst read_loop.simps) (simp add: lt cp)
      moreover have "length (?u @ concat x) = len - read" using x(2) True by simp
      ultimately show ?thesis
        by (intro read_outcome_good [of D ctx n w x w2 _ len c1 d2 data' "?u @ concat x"])
          (use dr(1,3) Some ld1 c1 u1 x(1) True E in simp_all)
    next
      case ne: False
      obtain b w3 where g: "get_block D ?p (r_fd ctx) w2 = Some (b, w3)" "\<And>y. b = Some y \<Longrightarrow> length y = ?E"
        "\<And>buf off. off + ?E \<le> length buf \<Longrightarrow>
         \<exists>buf'. read_block D ?p (r_fd ctx) buf off w2 = Some (if b = None then - 1 else 0, buf', w3) \<and>
           patched buf off ?E buf' \<and> (b = None \<or> b = Some (take ?E (drop off buf')))"
        using read_block_get [OF E assms(5)] by metis
      have lb: "length (r_buffer c1) = ?E" using c1 by (simp add: rctx_ok_def)
      then have "0 + ?E \<le> length (r_buffer c1)" by simp
      from g(3) [OF this] obtain b1 where b1:
        "read_block D ?p (r_fd ctx) (r_buffer c1) 0 w2 = Some (if b = None then - 1 else 0, b1, w3)"
        "patched (r_buffer c1) 0 ?E b1" "b = None \<or> b = Some (take ?E (drop 0 b1))" by blast
      have lb1: "length b1 = ?E" using b1(2) lb by (simp add: patched_def)
      have gs: "get_blocks D ?p (r_fd ctx) (n + 1) w =
          Some (case b of None \<Rightarrow> None | Some y \<Rightarrow> Some (x @ [y]), w3)"
        using get_blocks_snoc [OF _ g(1)] dr(1) Some by blast
      have lt2: "int read2 < int_of_size len" using ne x(3) by (simp add: int_of_size_small [OF assms(4)])
      show ?thesis
      proof (cases b)
        case None
        then have "read_loop D ctx data' len read w = Some (- 1, c1\<lparr>r_buffer := b1\<rparr>, d2, w3)"
          using dr(2) Some ne x(3) b1(1) c1 lt2 by (subst read_loop.simps) (simp add: lt cp)
        moreover have "get_blocks D ?p (r_fd ctx) (n + 1) w = Some (None, w3)" using gs None by simp
        ultimately show ?thesis using read_outcome_fail dr(3) ld1 by metis
      next
        case b: (Some y)
        then have y: "y = b1" "length y = ?E" using b1(3) lb1 by auto
        let ?c2 = "c1\<lparr>r_buffer := b1, consumed := 0\<rparr>" and ?m = "len - read2"
        have c2: "rctx_ok ?c2" "unread ?c2 = y" "r_partition ?c2 = ?p" "r_fd ?c2 = r_fd ctx"
          using c1 lb1 y(1) E by (simp_all add: rctx_ok_def unread_def)
        have ld2: "len \<le> length d2" "?m \<le> length (unread ?c2)" using dr(3) ld1 assms(3) c2(2) y(2) x(4) by simp_all
        have "read_loop D ctx data' len read w = read_loop D ?c2 d2 len read2 w3"
          using dr(2) Some ne x(3) b1(1) c1 lt2 b by (subst read_loop.simps) (simp add: lt cp)
        also have "\<dots> = Some (int len, ?c2\<lparr>consumed := ?m\<rparr>, take read2 d2 @ take ?m y @ drop len d2, w3)"
          using read_loop_buffered [OF c2(1) x(3) ld2(1) assms(4) ld2(2), of D w3] c2(2) by simp
        finally have run: "read_loop D ctx data' len read w =
          Some (int len, ?c2\<lparr>consumed := ?m\<rparr>, take read2 d2 @ take ?m y @ drop len d2, w3)" .
        have lu: "length (take read data' @ ?u @ concat x) = read2" using x(2) assms(2,3) by simp
        have tr: "take read2 d2 = take read data' @ ?u @ concat x"
          unfolding x(1) using lu by (metis append.assoc append_eq_conv_conj)
        have dl: "drop len d2 = drop len data'"
        proof -
          have "drop read2 d2 = drop read2 data'"
            unfolding x(1) using lu by (metis append.assoc append_eq_conv_conj)
          then show ?thesis using x(3) by (metis drop_drop le_add_diff_inverse2)
        qed
        let ?c3 = "?c2\<lparr>consumed := ?m\<rparr>"
        have c3: "rctx_ok ?c3" "unread ?c3 = drop ?m y" "r_partition ?c3 = ?p" "r_fd ?c3 = r_fd ctx"
          using c2 ld2(2) y x(4) lb1 E c1 by (simp_all add: rctx_ok_def unread_def)
        have "length (?u @ concat x @ take ?m y) = len - read" using x(2,3) ld2(2) c2(2) by simp
        moreover have "?u @ concat (x @ [y]) = (?u @ concat x @ take ?m y) @ unread ?c3" unfolding c3(2) by simp
        moreover have "length (unread ?c3) < ?E" using c3(2) y(2) ne x(3) E by simp
        ultimately show ?thesis unfolding run tr dl
          by (intro read_outcome_good [of D ctx "n + 1" w "x @ [y]" w3 _ len ?c3 _ data' "?u @ concat x @ take ?m y"])
            (use gs b c3(1,3,4) ld1 dr(3) assms(2,3) lu x(3) ld2(2) c2(2) in \<open>simp_all del: get_blocks.simps\<close>)
      qed
    qed
  qed
qed

definition flash_reader :: mtd_read_context where
  "flash_reader = \<lparr>r_partition = flash_part, r_buffer = [0, 0], consumed = 2, r_fd = 3\<rparr>"

lemma flash_reader_ok: "rctx_ok flash_reader" "read_law flash"
  by (simp_all add: rctx_ok_def read_law_def flash_reader_def flash_part_def blk_def flash_def Let_def split: prod.splits)

subsection \<open>Properties\<close>

text \<open>
  C21: \<open>mtd_read_data\<close> is the stream of the partition's good blocks: for lengths below 2 GB and a buffer
  that is large enough it always returns, the bytes it delivers are the unread rest of the buffered
  block followed by the next blocks in order, cut at the length asked for, the rest stays buffered for the
  next call, and nothing outside the \<open>len\<close> bytes of the caller's buffer changes; it answers -1
  exactly when one of the blocks it needs cannot be read.
\<close>

theorem mtd_read_stream:
  assumes "rctx_ok ctx" "read_law D" "len \<le> length data'" "len < 2 ^ 31"
  shows "\<exists>n bs ctx' data2 w'. get_blocks D (r_partition ctx) (r_fd ctx) n w = Some (bs, w') \<and>
     mtd_read_data D ctx data' len w = Some (if bs = None then - 1 else int len, ctx', data2, w') \<and>
     (\<forall>x. bs = Some x \<longrightarrow> rctx_ok ctx' \<and>
        unread ctx @ concat x = take len data2 @ unread ctx' \<and> drop len data2 = drop len data' \<and>
        (n = 0 \<or> length (unread ctx') < blk (r_partition ctx)))"
proof -
  obtain n bs w' ctx' data2 where o: "get_blocks D (r_partition ctx) (r_fd ctx) n w = Some (bs, w')"
    "mtd_read_data D ctx data' len w = Some (if bs = None then - 1 else int len, ctx', data2, w')"
    "\<And>x. bs = Some x \<Longrightarrow> rctx_ok ctx' \<and>
       (\<exists>got. unread ctx @ concat x = got @ unread ctx' \<and> length got = len \<and> data2 = got @ drop len data') \<and>
       (n = 0 \<or> length (unread ctx') < blk (r_partition ctx))"
    using read_loop_ok [OF assms(1) _ assms(3,4,2), of 0 w]
    unfolding read_outcome_def mtd_read_data_def by auto
  then show ?thesis
    by (intro exI [of _ n] exI [of _ bs] exI [of _ ctx'] exI [of _ data2] exI [of _ w']) auto
qed

theorem mtd_read_stream_witness:
  "\<exists>n bs ctx' data2 w'. get_blocks flash flash_part 3 n (0, [1, 2, 3, 4]) = Some (bs, w') \<and>
     mtd_read_data flash flash_reader [0, 0, 0, 9] 3 (0, [1, 2, 3, 4])
       = Some (if bs = None then - 1 else 3, ctx', data2, w') \<and>
     (\<forall>x. bs = Some x \<longrightarrow> concat x = take 3 data2 @ unread ctx' \<and> drop 3 data2 = [9])"
proof -
  have "r_partition flash_reader = flash_part" "r_fd flash_reader = 3" "unread flash_reader = []"
    by (simp_all add: flash_reader_def unread_def)
  note r = mtd_read_stream [OF flash_reader_ok, of 3 "[0, 0, 0, 9]" "(0, [1, 2, 3, 4])", unfolded this]
  obtain n bs ctx' data2 w' where "get_blocks flash flash_part 3 n (0, [1, 2, 3, 4]) = Some (bs, w')"
    "mtd_read_data flash flash_reader [0, 0, 0, 9] 3 (0, [1, 2, 3, 4])
       = Some (if bs = None then - 1 else int 3, ctx', data2, w')"
    "\<And>x. bs = Some x \<Longrightarrow> [] @ concat x = take 3 data2 @ unread ctx' \<and> drop 3 data2 = drop 3 [0, 0, 0, 9 :: byte]"
    using r by auto
  then show ?thesis
    by (intro exI [of _ n] exI [of _ bs] exI [of _ ctx'] exI [of _ data2] exI [of _ w']) auto
qed

text \<open>A length of 2 GB or more is negative as an \<open>int\<close>: nothing is read and 0 is answered.\<close>

lemma mtd_read_huge:
  assumes "2 ^ 31 \<le> len" "len < 2 ^ 32"
  shows "mtd_read_data D ctx data' len w = Some (0, ctx, data', w)"
proof -
  have "len div 2147483648 = 1" by (rule div_nat_eqI) (use assms in simp_all)
  then have "int len div 2147483648 = 1" using zdiv_int [of len 2147483648] by simp
  then have "int_of_size len < 0"
    using assms unfolding int_of_size_def
    by (simp add: sint_uint unsigned_of_nat take_bit_nat_eq_self signed_take_bit_eq_take_bit_minus take_bit_int_eq_self bit_iff_odd)
  then show ?thesis unfolding mtd_read_data_def by (subst read_loop.simps) simp
qed

end
