(* ===== verification/MtdScan.thy ===== *)
theory MtdScan
  imports MtdUtils CLib
begin

text \<open>
  The partition table of \<open>mtdutils.c\<close>: parsing \<open>/proc/mtd\<close>, searching it, and the two operations on a
  named partition as a whole.

  \<open>sscanf\<close> is modelled for the one format the code uses, directive by directive: a blank matches
  any white space, \<open>%d\<close> and \<open>%x\<close> skip white space and take an optional sign, and the result counts
  only when all four conversions succeed.  A number that does not fit is cut to 32 bits.
\<close>

subsection \<open>Scanning a line\<close>

definition read_unsigned :: "nat \<Rightarrow> string \<Rightarrow> (nat \<times> string) option" where
  "read_unsigned base s =
     (let s1 = (if base = 16 \<and> length s \<ge> 2 \<and> s ! 0 = CHR ''0'' \<and> (s ! 1 = CHR ''x'' \<or> s ! 1 = CHR ''X'')
                then drop 2 s else s)
      in case s1 of
           [] \<Rightarrow> None
         | c # cs \<Rightarrow> if digit_val base c = None then None else Some (read_digits base 0 s1))"

definition scan_int :: "nat \<Rightarrow> string \<Rightarrow> (int \<times> string) option" where
  "scan_int base s =
     (case dropWhile is_space s of
        [] \<Rightarrow> None
      | c # cs \<Rightarrow>
          if c = CHR ''-'' then map_option (\<lambda>(n, r). (- int n, r)) (read_unsigned base cs)
          else if c = CHR ''+'' then map_option (\<lambda>(n, r). (int n, r)) (read_unsigned base cs)
          else map_option (\<lambda>(n, r). (int n, r)) (read_unsigned base (c # cs)))"

definition scan_lit :: "string \<Rightarrow> string \<Rightarrow> string option" where
  "scan_lit l s = (if take (length l) s = l then Some (drop (length l) s) else None)"

definition scan_name :: "string \<Rightarrow> string option" where
  "scan_name s = (let n = take 63 (takeWhile (\<lambda>c. c \<noteq> CHR 0x22) s) in if n = [] then None else Some n)"

text \<open>\<open>sscanf(bufp, "mtd%d: %x %x \"%63[^\"]", ...)\<close> when it answers 4.\<close>

definition sscanf_mtd :: "string \<Rightarrow> (int \<times> int \<times> int \<times> string) option" where
  "sscanf_mtd s0 =
     (let s = takeWhile (\<lambda>c. c \<noteq> CHR 0x00) s0
      in do {
        s1 \<leftarrow> scan_lit ''mtd'' s;
        (mtdnum, s2) \<leftarrow> scan_int 10 s1;
        s3 \<leftarrow> scan_lit '':'' s2;
        (mtdsize, s4) \<leftarrow> scan_int 16 (dropWhile is_space s3);
        (mtderasesize, s5) \<leftarrow> scan_int 16 (dropWhile is_space s4);
        s6 \<leftarrow> scan_lit [CHR 0x22] (dropWhile is_space s5);
        mtdname \<leftarrow> scan_name s6;
        Some (mtdnum, mtdsize, mtderasesize, mtdname) })"

subsection \<open>The table\<close>

definition nump :: nat where "nump = 32"

definition blank_partition :: mtd_partition where
  "blank_partition = \<lparr>device_index = 0, psize = 0, erase_size = 0, pname = None\<rparr>"

definition entry_of :: "int \<Rightarrow> int \<Rightarrow> int \<Rightarrow> string option \<Rightarrow> mtd_partition" where
  "entry_of mtdnum mtdsize mtderasesize name =
     \<lparr>device_index = mtdnum, psize = word_of_int mtdsize, erase_size = word_of_int mtderasesize, pname = name\<rparr>"

definition eat_line :: "string \<Rightarrow> string" where
  "eat_line s = drop 1 (dropWhile (\<lambda>c. c \<noteq> CHR 0x0A) s)"

lemma eat_line_shorter: "s \<noteq> [] \<Longrightarrow> length (eat_line s) < length s"
proof -
  assume "s \<noteq> []"
  then have "0 < length s" by simp
  moreover have "length (dropWhile (\<lambda>c. c \<noteq> CHR 0x0A) s) \<le> length s" by (rule length_dropWhile_le)
  ultimately show ?thesis unfolding eat_line_def length_drop by linarith
qed

text \<open>
  The loop over the lines; the result is \<open>False\<close> when \<open>strdup\<close> fails.  The number in the line is not
  checked against the 32 places of the table.
\<close>

function scan_lines ::
  "(nat \<Rightarrow> bool) \<Rightarrow> string \<Rightarrow> mtd_partition list \<Rightarrow> int \<Rightarrow> (bool \<times> mtd_partition list \<times> int) ub" where
  "scan_lines alloc bufp parts cnt =
     (if bufp = [] then Some (True, parts, cnt)
      else case sscanf_mtd bufp of
        None \<Rightarrow> scan_lines alloc (eat_line bufp) parts cnt
      | Some (mtdnum, mtdsize, mtderasesize, mtdname) \<Rightarrow>
          if mtdnum < 0 then None
          else if \<not> alloc (length mtdname + 1)
          then do { parts1 \<leftarrow> wr parts (nat mtdnum) (entry_of mtdnum mtdsize mtderasesize None);
                    Some (False, parts1, cnt) }
          else do { parts1 \<leftarrow> wr parts (nat mtdnum) (entry_of mtdnum mtdsize mtderasesize (Some mtdname));
                    scan_lines alloc (eat_line bufp) parts1 (cnt + 1) })"
  by pat_completeness auto

termination
  by (relation "measure (\<lambda>(alloc, bufp, parts, cnt). length bufp)") (auto simp: eat_line_shorter)

declare scan_lines.simps [simp del]

text \<open>\<open>proc\<close> is what \<open>/proc/mtd\<close> holds, \<open>None\<close> when it cannot be opened or read.\<close>

definition mtd_scan_partitions ::
  "(nat \<Rightarrow> bool) \<Rightarrow> string option \<Rightarrow> mtd_state \<Rightarrow> (int \<times> mtd_state) ub" where
  "mtd_scan_partitions alloc proc g =
     (if partitions g = None \<and> \<not> alloc (nump * 24) then Some (- 1, g)
      else let parts = (case partitions g of None \<Rightarrow> replicate nump blank_partition | Some ps \<Rightarrow> ps);
               parts0 = map (\<lambda>p. p\<lparr>pname := None, device_index := - 1\<rparr>) parts
           in case proc of
             None \<Rightarrow> Some (- 1, \<lparr>partitions = Some parts0, partition_count = - 1\<rparr>)
           | Some text \<Rightarrow>
               do { (ok, parts1, cnt) \<leftarrow> scan_lines alloc (take 2047 text) parts0 0;
                    Some (if ok then (cnt, \<lparr>partitions = Some parts1, partition_count = cnt\<rparr>)
                          else (- 1, \<lparr>partitions = Some parts1, partition_count = - 1\<rparr>)) })"

definition mtd_find_partition_by_name :: "mtd_state \<Rightarrow> string \<Rightarrow> mtd_partition option" where
  "mtd_find_partition_by_name g name =
     (case partitions g of
        None \<Rightarrow> None
      | Some ps \<Rightarrow> find (\<lambda>p. device_index p \<ge> 0 \<and> pname p = Some name) ps)"

subsection \<open>A partition as a whole\<close>

definition MS_RDONLY :: u64 where "MS_RDONLY = 1"
definition MS_NODEV :: u64 where "MS_NODEV = 4"
definition MS_NOATIME :: u64 where "MS_NOATIME = 1024"
definition MS_NODIRATIME :: u64 where "MS_NODIRATIME = 2048"

text \<open>The execute bits are \<open>S_IXUSR | S_IXGRP | S_IXOTH\<close>, octal 111.\<close>

definition fix_root_mode :: "'w mtd_dev \<Rightarrow> string \<Rightarrow> 'w \<Rightarrow> int \<times> 'w" where
  "fix_root_mode D mount_point w =
     (let ((rv, mode), w1) = stat_mode D mount_point w
      in if rv < 0 then (rv, w1)
         else let new_mode = mode OR 73
              in if new_mode \<noteq> mode then sys_chmod D mount_point new_mode w1 else (rv, w1))"

definition mtd_mount_partition ::
  "'w mtd_dev \<Rightarrow> mtd_partition \<Rightarrow> string \<Rightarrow> string \<Rightarrow> bool \<Rightarrow> 'w \<Rightarrow> int \<times> 'w" where
  "mtd_mount_partition D p mount_point filesystem read_only w =
     (let fl = MS_NOATIME OR MS_NODEV OR MS_NODIRATIME;
          devname = ''/dev/block/mtdblock'' @ dec_int (device_index p);
          (rv, w1) = (if \<not> read_only then sys_mount D devname mount_point filesystem fl w else (- 1, w));
          (rv2, w2) = (if read_only \<or> rv < 0
                       then sys_mount D devname mount_point filesystem (fl OR MS_RDONLY) w1 else (rv, w1))
      in if rv2 \<ge> 0 then fix_root_mode D mount_point w2 else (rv2, w2))"

definition mtd_partition_info ::
  "'w mtd_dev \<Rightarrow> mtd_partition \<Rightarrow> 'w \<Rightarrow> (int \<times> (u32 \<times> u32 \<times> u32) option) \<times> 'w" where
  "mtd_partition_info D p w =
     (let (fd, w1) = dev_open D (''/dev/mtd'' @ dec_int (device_index p)) O_RDONLY w
      in if fd < 0 then ((- 1, None), w1)
         else let ((ret, total_size, esize, write_size), w2) = memgetinfo D fd w1;
                  (c, w3) = dev_close D fd w2
              in if ret < 0 then ((- 1, None), w3)
                 else ((0, Some (total_size, esize, write_size)), w3))"

subsection \<open>Reading back a printed table\<close>

text \<open>The layout of \<open>/proc/mtd\<close> that the comment in \<open>mtd_scan_partitions\<close> shows.\<close>

type_synonym mtd_line = "nat \<times> u32 \<times> u32 \<times> string"

definition print_line :: "mtd_line \<Rightarrow> string" where
  "print_line l = (case l of (i, s, e, n) \<Rightarrow>
     ''mtd'' @ dec_nat i @ '': '' @ hex_digits 8 (unat s) @ '' '' @ hex_digits 8 (unat e) @ '' '' @
     [CHR 0x22] @ n @ [CHR 0x22, CHR 0x0A])"

definition proc_header :: string where
  "proc_header = ''dev:    size   erasesize  name'' @ [CHR 0x0A]"

definition print_table :: "mtd_line list \<Rightarrow> string" where
  "print_table ls = proc_header @ concat (map print_line ls)"

definition line_ok :: "mtd_line \<Rightarrow> bool" where
  "line_ok l \<longleftrightarrow> (case l of (i, s, e, n) \<Rightarrow> i < nump \<and> n \<noteq> [] \<and> length n \<le> 63 \<and>
     (\<forall>c\<in>set n. c \<noteq> CHR 0x22 \<and> c \<noteq> CHR 0x0A \<and> c \<noteq> CHR 0x00))"

lemma scan_int_dec:
  assumes "digit_val 10 c = None"
  shows "scan_int 10 (dec_nat n @ c # s) = Some (int n, c # s)"
proof -
  obtain x xs where x: "dec_nat n = x # xs" using dec_nat_nonempty by (cases "dec_nat n") auto
  then obtain d where d: "d < 10" "x = dec_digit d" using dec_nat_chars [of x n] by auto
  have p: "plain x" using plain_chars(1) d by simp
  have "read_digits 10 0 (x # xs @ c # s) = (n, c # s)"
    using read_digits_dec [of 0 n "c # s"] assms unfolding x by simp
  then show ?thesis using p d digit_val_char(1) [OF d(1)] unfolding x
    by (simp add: scan_int_def plainD read_unsigned_def Let_def)
qed

lemma scan_int_hex:
  fixes v :: u32
  assumes "digit_val 16 c = None" "c \<noteq> CHR ''x''" "c \<noteq> CHR ''X''"
  shows "scan_int 16 (hex_digits 8 (unat v) @ c # s) = Some (uint v, c # s)"
proof -
  have "unat v < 16 ^ 8" using unsigned_less [of v] by simp
  then have rd: "read_digits 16 0 (hex_digits 8 (unat v) @ c # s) = (unat v, c # s)"
    using read_digits_hex [of "unat v" 8 0 "c # s"] assms by simp
  obtain x y zs where x: "hex_digits 8 (unat v) = x # y # zs"
    using hex_digits_length [of 8 "unat v"]
    by (cases "hex_digits 8 (unat v)"; cases "tl (hex_digits 8 (unat v))") auto
  have pl: "plain x" "plain y" using hex_digits_chars [of _ 8 "unat v"] plain_chars(2) unfolding x by auto
  obtain d where d: "d < 16" "x = hex_char d" using hex_digits_chars [of x 8 "unat v"] x by auto
  show ?thesis using rd pl d digit_val_char(2) [OF d(1)] unfolding x
    by (simp add: scan_int_def plainD read_unsigned_def Let_def)
qed


lemma scan_lit_append: "scan_lit l (l @ s) = Some s"
  by (simp add: scan_lit_def)

lemma blank_space: "is_space (CHR '' '')"
  by (simp add: is_space_def)

lemma no_skip: "c \<noteq> [] \<Longrightarrow> \<not> is_space (hd c) \<Longrightarrow> dropWhile is_space (c @ s) = c @ s"
  by (cases c) auto

lemma hex_hd: "hex_digits 8 v \<noteq> [] \<and> plain (hd (hex_digits 8 v))"
proof -
  have ne: "hex_digits 8 v \<noteq> []" by (simp flip: length_0_conv)
  then have "hd (hex_digits 8 v) \<in> set (hex_digits 8 v)" by simp
  then show ?thesis using ne hex_digits_chars plain_chars(2) by metis
qed

lemma scan_name_ok:
  assumes "n \<noteq> []" "length n \<le> 63" "\<forall>c\<in>set n. c \<noteq> CHR 0x22"
  shows "scan_name (n @ CHR 0x22 # s) = Some n"
proof -
  have "takeWhile (\<lambda>c. c \<noteq> CHR 0x22) (n @ CHR 0x22 # s) = n" using assms(3) by (simp add: takeWhile_append2)
  then show ?thesis using assms(1,2) by (simp add: scan_name_def)
qed

lemma line_chars:
  assumes "line_ok l"
  shows "\<exists>p. print_line l = p @ [CHR 0x0A] \<and> (\<forall>c\<in>set p. c \<noteq> CHR 0x0A \<and> c \<noteq> CHR 0x00)"
proof -
  obtain i s e n where l: "l = (i, s, e, n)" by (cases l)
  let ?p = "''mtd'' @ dec_nat i @ '': '' @ hex_digits 8 (unat s) @ '' '' @ hex_digits 8 (unat e) @ '' '' @
     [CHR 0x22] @ n @ [CHR 0x22]"
  have d: "c \<noteq> CHR 0x0A \<and> c \<noteq> CHR 0x00" if "c \<in> set (dec_nat i)" for c
    using dec_nat_chars [OF that] plain_chars(1) plainD by metis
  have h: "c \<noteq> CHR 0x0A \<and> c \<noteq> CHR 0x00" if "c \<in> set (hex_digits 8 v)" for c v
    using hex_digits_chars [OF that] plain_chars(2) plainD by metis
  have n: "c \<noteq> CHR 0x0A \<and> c \<noteq> CHR 0x00" if "c \<in> set n" for c
    using assms that unfolding l line_ok_def by auto
  have "\<forall>c\<in>set ?p. c \<noteq> CHR 0x0A \<and> c \<noteq> CHR 0x00"
    using d h n by (simp add: ball_Un)
  moreover have "print_line l = ?p @ [CHR 0x0A]" by (simp add: l print_line_def)
  ultimately show ?thesis by blast
qed

lemma eat_ok:
  assumes "\<forall>c\<in>set p. c \<noteq> CHR 0x0A"
  shows "eat_line (p @ CHR 0x0A # s) = s"
  using assms by (simp add: eat_line_def dropWhile_append2)

lemma sscanf_line:
  assumes "line_ok (i, s, e, n)"
  shows "sscanf_mtd (print_line (i, s, e, n) @ r) = Some (int i, uint s, uint e, n)"
proof -
  let ?l = "print_line (i, s, e, n)"
  obtain p where p: "?l = p @ [CHR 0x0A]" "\<forall>c\<in>set p. c \<noteq> CHR 0x0A \<and> c \<noteq> CHR 0x00"
    using line_chars [OF assms] by blast
  then have "\<forall>c\<in>set ?l. c \<noteq> CHR 0x00" by auto
  then have "takeWhile (\<lambda>c. c \<noteq> CHR 0x00) (?l @ r) = ?l @ takeWhile (\<lambda>c. c \<noteq> CHR 0x00) r"
    by (simp add: takeWhile_append2)
  moreover define r' where "r' = CHR 0x0A # takeWhile (\<lambda>c. c \<noteq> CHR 0x00) r"
  moreover have "?l @ takeWhile (\<lambda>c. c \<noteq> CHR 0x00) r = ''mtd'' @ dec_nat i @ CHR '':'' # CHR '' '' #
      hex_digits 8 (unat s) @ CHR '' '' # hex_digits 8 (unat e) @ CHR '' '' # CHR 0x22 # n @ CHR 0x22 # r'"
    by (simp add: print_line_def r'_def)
  ultimately have str: "takeWhile (\<lambda>c. c \<noteq> CHR 0x00) (?l @ r) = ''mtd'' @ dec_nat i @ CHR '':'' # CHR '' '' #
      hex_digits 8 (unat s) @ CHR '' '' # hex_digits 8 (unat e) @ CHR '' '' # CHR 0x22 # n @ CHR 0x22 # r'" by simp
  have d: "digit_val 10 (CHR '':'') = None" "digit_val 16 (CHR '' '') = None" by (simp_all add: digit_val_def)
  have q: "\<not> is_space (CHR 0x22)" by (simp add: is_space_def)
  have n: "scan_name (n @ CHR 0x22 # r') = Some n" using assms scan_name_ok by (auto simp: line_ok_def)
  have h: "dropWhile is_space (hex_digits 8 v @ x) = hex_digits 8 v @ x" for v x
    using hex_hd [of v] no_skip plainD(7) by blast
  have lits: "scan_lit '':'' (CHR '':'' # x) = Some x" "scan_lit [CHR 0x22] (CHR 0x22 # x) = Some x" for x
    by (simp_all add: scan_lit_def)
  show ?thesis
    unfolding sscanf_mtd_def Let_def str scan_lit_append
    by (simp add: scan_int_dec d lits blank_space h scan_int_hex q n)
qed

lemma sscanf_header: "sscanf_mtd (proc_header @ r) = None"
  by (simp add: sscanf_mtd_def proc_header_def scan_lit_def Let_def)


lemma scan_line_step:
  assumes "line_ok (i, s, e, n)" "\<And>k. alloc k" "length parts = nump"
  shows "scan_lines alloc (print_line (i, s, e, n) @ r) parts cnt =
    scan_lines alloc r (parts[i := entry_of (int i) (uint s) (uint e) (Some n)]) (cnt + 1)"
proof -
  obtain p where p: "print_line (i, s, e, n) = p @ [CHR 0x0A]" "\<forall>c\<in>set p. c \<noteq> CHR 0x0A"
    using line_chars [OF assms(1)] by blast
  have eat: "eat_line (print_line (i, s, e, n) @ r) = r" using eat_ok [OF p(2)] by (simp add: p(1))
  have "wr parts i x = Some (parts[i := x])" for x
    using assms(1,3) by (simp add: mem_simps line_ok_def)
  then show ?thesis
    using sscanf_line [OF assms(1), of r] eat assms(2) p(1) by (subst scan_lines.simps) simp
qed

text \<open>The table after the lines.\<close>

definition fill_table :: "mtd_line list \<Rightarrow> mtd_partition list \<Rightarrow> mtd_partition list" where
  "fill_table ls parts = fold (\<lambda>(i, s, e, n) ps. ps[i := entry_of (int i) (uint s) (uint e) (Some n)]) ls parts"

lemma fill_table_length [simp]: "length (fill_table ls parts) = length parts"
  by (induction ls arbitrary: parts) (auto simp: fill_table_def)

lemma scan_table:
  shows "\<forall>l\<in>set ls. line_ok l \<Longrightarrow> length parts = nump \<Longrightarrow>
    scan_lines (\<lambda>k. True) (concat (map print_line ls)) parts cnt = Some (True, fill_table ls parts, cnt + int (length ls))"
proof (induction ls arbitrary: parts cnt)
  case Nil
  then show ?case by (subst scan_lines.simps) (simp add: fill_table_def)
next
  case (Cons l ls)
  obtain i s e n where l: "l = (i, s, e, n)" by (cases l)
  then show ?case
    using Cons scan_line_step [of i s e n "\<lambda>k. True" parts "concat (map print_line ls)" cnt]
    by (simp add: fill_table_def algebra_simps)
qed

lemma fill_table_out: "i \<notin> fst ` set ls \<Longrightarrow> fill_table ls parts ! i = parts ! i"
  by (induction ls arbitrary: parts) (auto simp: fill_table_def split: prod.splits)

lemma fill_table_in:
  "distinct (map fst ls) \<Longrightarrow> (i, s, e, n) \<in> set ls \<Longrightarrow> i < length parts \<Longrightarrow>
   fill_table ls parts ! i = entry_of (int i) (uint s) (uint e) (Some n)"
proof (induction ls arbitrary: parts)
  case (Cons l ls)
  obtain i' s' e' n' where l: "l = (i', s', e', n')" by (cases l)
  let ?parts = "parts[i' := entry_of (int i') (uint s') (uint e') (Some n')]"
  have f: "fill_table (l # ls) parts = fill_table ls ?parts" by (simp add: fill_table_def l)
  show ?case
  proof (cases "(i, s, e, n) = l")
    case True
    then have "i \<notin> fst ` set ls" using Cons.prems(1) l by auto
    then show ?thesis unfolding f using True l Cons.prems(3) by (simp add: fill_table_out)
  next
    case False
    then show ?thesis unfolding f using Cons by simp
  qed
qed simp

subsection \<open>Properties\<close>

subsection \<open>Searching the table\<close>

lemma table_at:
  assumes "\<forall>l\<in>set ls. line_ok l" "distinct (map fst ls)" "length ps = nump" "(i, s, e, n) \<in> set ls"
  shows "i < nump" and "fill_table ls ps ! i = \<lparr>device_index = int i, psize = s, erase_size = e, pname = Some n\<rparr>"
proof -
  show "i < nump" using assms(1,4) by (auto simp: line_ok_def)
  then show "fill_table ls ps ! i = \<lparr>device_index = int i, psize = s, erase_size = e, pname = Some n\<rparr>"
    using fill_table_in [OF assms(2,4), of ps] assms(1,3,4) by (auto simp: line_ok_def entry_of_def)
qed

text \<open>A place of a filled table that is in use belongs to one of the lines.\<close>

lemma table_used:
  assumes "\<forall>l\<in>set ls. line_ok l" "distinct (map fst ls)" "length ps = nump" "\<forall>p\<in>set ps. device_index p = - 1"
    and "i < nump" "0 \<le> device_index (fill_table ls ps ! i)" "pname (fill_table ls ps ! i) = Some n"
  shows "\<exists>s e. (i, s, e, n) \<in> set ls"
proof -
  have "i \<in> fst ` set ls"
  proof (rule ccontr)
    assume "i \<notin> fst ` set ls"
    then have "fill_table ls ps ! i = ps ! i" using assms(3,5) by (simp add: fill_table_out)
    then show False using assms(3-6) by fastforce
  qed
  then obtain s e n' where l: "(i, s, e, n') \<in> set ls" by auto
  then have "n' = n" using table_at(2) [OF assms(1-3) l] assms(7) by simp
  then show ?thesis using l by blast
qed

lemma table_find:
  assumes "\<forall>l\<in>set ls. line_ok l" "distinct (map fst ls)" "length ps = nump" "\<forall>p\<in>set ps. device_index p = - 1"
    and "distinct (map (\<lambda>(i, s, e, n). n) ls)" "(i, s, e, n) \<in> set ls"
  shows "find (\<lambda>p. device_index p \<ge> 0 \<and> pname p = Some n) (fill_table ls ps) =
    Some \<lparr>device_index = int i, psize = s, erase_size = e, pname = Some n\<rparr>"
proof -
  let ?P = "\<lambda>p. device_index p \<ge> 0 \<and> pname p = Some n"
  have "\<not> ?P (fill_table ls ps ! j)" if j: "j < i" for j
  proof
    assume "?P (fill_table ls ps ! j)"
    then obtain s' e' where l': "(j, s', e', n) \<in> set ls"
      using table_used [OF assms(1-4), of j n] j table_at(1) [OF assms(1-3,6)] by auto
    have inj: "inj_on (\<lambda>(i, s, e, n). n) (set ls)" using assms(5) by (simp add: distinct_map)
    have "(\<lambda>(i, s, e, n). n) (j, s', e', n) = (\<lambda>(i, s, e, n). n) (i, s, e, n)" by simp
    from inj_onD [OF inj this l' assms(6)] show False using j by simp
  qed
  moreover have "?P (fill_table ls ps ! i)" "i < length (fill_table ls ps)"
    using table_at [OF assms(1-3,6)] assms(3) by simp_all
  ultimately have "find ?P (fill_table ls ps) = Some (fill_table ls ps ! i)" unfolding find_Some_iff by blast
  then show ?thesis using table_at(2) [OF assms(1-3,6)] by simp
qed

lemma table_find_none:
  assumes "\<forall>l\<in>set ls. line_ok l" "distinct (map fst ls)" "length ps = nump" "\<forall>p\<in>set ps. device_index p = - 1"
    and "n \<notin> (\<lambda>(i, s, e, n). n) ` set ls"
  shows "find (\<lambda>p. device_index p \<ge> 0 \<and> pname p = Some n) (fill_table ls ps) = None"
proof -
  have "\<not> (device_index (fill_table ls ps ! i) \<ge> 0 \<and> pname (fill_table ls ps ! i) = Some n)" if "i < nump" for i
    using table_used [OF assms(1-4) that, of n] assms(5) by force
  then show ?thesis using assms(3) by (auto simp: find_None_iff in_set_conv_nth)
qed

subsection \<open>The scan as a whole\<close>



end
