(* ===== verification/Edify.thy ===== *)
theory Edify
  imports Prelude CLib "HOL-Library.List_Lexorder" "HOL-Library.Char_ord"
begin

text \<open>
  The evaluator of the update script language: \<open>edify/expr.c\<close> and \<open>edify/expr.h\<close>.

  A C \<open>Function\<close> is a HOL function of the same arguments: the name, the arguments and the state.  An
  argument is what the function can do with an \<open>Expr*\<close>: evaluate it, and ask for its place in
  the script.  The result is the \<open>Value*\<close>, \<open>None\<close> for NULL, and the state; \<open>None\<close> in front is undefined
  behaviour, in particular reading \<open>argv\<close> beyond \<open>argc\<close>.  The state has besides the code's members what was
  written to standard output and the sleeps; \<open>'w\<close> is the cookie of the application.
\<close>

subsection \<open>Values and states\<close>

datatype val_type = VAL_STRING | VAL_BLOB

record edify_value =
  vtype :: val_type
  vsize :: int
  vdata :: string

record 'w edify_state =
  cookie :: 'w
  script :: string
  errmsg :: "string option"
  printed :: string
  slept :: "int list"

type_synonym 'w edify_result = "(edify_value option \<times> 'w edify_state) ub"

record 'w edify_arg =
  arg_run :: "'w edify_state \<Rightarrow> 'w edify_result"
  arg_start :: int
  arg_end :: int

type_synonym 'w edify_fun = "string \<Rightarrow> 'w edify_arg list \<Rightarrow> 'w edify_state \<Rightarrow> 'w edify_result"

datatype 'w expr = Expr "'w edify_fun" string "'w expr list" int int

subsection \<open>Evaluation\<close>

definition span_of :: "'w expr \<Rightarrow> int \<times> int" where
  "span_of e = (case e of Expr f n argv s t \<Rightarrow> (s, t))"

definition make_args :: "('w edify_state \<Rightarrow> 'w edify_result) list \<Rightarrow> (int \<times> int) list \<Rightarrow> 'w edify_arg list" where
  "make_args runs spans =
     map (\<lambda>(r, s, t). \<lparr>arg_run = r, arg_start = s, arg_end = t\<rparr>) (zip runs spans)"

text \<open>\<open>expr->fn(expr->name, state, expr->argc, expr->argv)\<close>.\<close>

primrec run_expr :: "'w expr \<Rightarrow> 'w edify_state \<Rightarrow> 'w edify_result" where
  "run_expr (Expr f name argv s t) = f name (make_args (map run_expr argv) (map span_of argv))"

definition BooleanString :: "string \<Rightarrow> bool" where
  "BooleanString s \<longleftrightarrow> s \<noteq> []"

definition EvaluateValue :: "'w edify_arg \<Rightarrow> 'w edify_state \<Rightarrow> 'w edify_result" where
  "EvaluateValue a st = arg_run a st"

text \<open>\<open>vsnprintf\<close> into 4096 bytes keeps 4095 characters.\<close>

definition ErrorAbort :: "'w edify_state \<Rightarrow> string \<Rightarrow> edify_value option \<times> 'w edify_state" where
  "ErrorAbort st msg = (None, st\<lparr>errmsg := Some (take 4095 msg)\<rparr>)"

definition type_code :: "val_type \<Rightarrow> int" where
  "type_code t = (case t of VAL_STRING \<Rightarrow> 1 | VAL_BLOB \<Rightarrow> 2)"

definition Evaluate :: "'w edify_arg \<Rightarrow> 'w edify_state \<Rightarrow> (string option \<times> 'w edify_state) ub" where
  "Evaluate a st =
     do { (v, st1) \<leftarrow> arg_run a st;
          case v of
            None \<Rightarrow> Some (None, st1)
          | Some v \<Rightarrow>
              if vtype v \<noteq> VAL_STRING
              then Some (None, snd (ErrorAbort st1 (''expecting string, got value type '' @ dec_int (type_code (vtype v)))))
              else Some (Some (vdata v), st1) }"

definition StringValue :: "string option \<Rightarrow> edify_value option" where
  "StringValue s = map_option (\<lambda>s. \<lparr>vtype = VAL_STRING, vsize = int (length s), vdata = s\<rparr>) s"

definition set_error :: "'w edify_state \<Rightarrow> string \<Rightarrow> 'w edify_state" where
  "set_error st msg = st\<lparr>errmsg := Some msg\<rparr>"

subsection \<open>Evaluating the arguments\<close>

text \<open>
  \<open>ReadVarArgs\<close> and \<open>ReadValueVarArgs\<close> evaluate all arguments, left to right, up to the first NULL;
  \<open>ReadArgs\<close> and \<open>ReadValueArgs\<close> a given number of them, which they do not compare with \<open>argc\<close>.
\<close>

fun ReadVarArgs :: "'w edify_arg list \<Rightarrow> 'w edify_state \<Rightarrow> (string list option \<times> 'w edify_state) ub" where
  "ReadVarArgs [] st = Some (Some [], st)"
| "ReadVarArgs (a # as) st =
     do { (v, st1) \<leftarrow> Evaluate a st;
          case v of
            None \<Rightarrow> Some (None, st1)
          | Some s \<Rightarrow> do { (vs, st2) \<leftarrow> ReadVarArgs as st1; Some (map_option ((#) s) vs, st2) }}"

fun ReadValueVarArgs :: "'w edify_arg list \<Rightarrow> 'w edify_state \<Rightarrow> (edify_value list option \<times> 'w edify_state) ub" where
  "ReadValueVarArgs [] st = Some (Some [], st)"
| "ReadValueVarArgs (a # as) st =
     do { (v, st1) \<leftarrow> EvaluateValue a st;
          case v of
            None \<Rightarrow> Some (None, st1)
          | Some s \<Rightarrow> do { (vs, st2) \<leftarrow> ReadValueVarArgs as st1; Some (map_option ((#) s) vs, st2) }}"

fun read_args_from ::
  "'w edify_arg list \<Rightarrow> nat \<Rightarrow> nat \<Rightarrow> 'w edify_state \<Rightarrow> (string list option \<times> 'w edify_state) ub" where
  "read_args_from argv i 0 st = Some (Some [], st)"
| "read_args_from argv i (Suc n) st =
     do { a \<leftarrow> rd argv i;
          (v, st1) \<leftarrow> Evaluate a st;
          case v of
            None \<Rightarrow> Some (None, st1)
          | Some s \<Rightarrow> do { (vs, st2) \<leftarrow> read_args_from argv (i + 1) n st1; Some (map_option ((#) s) vs, st2) }}"

definition ReadArgs ::
  "'w edify_arg list \<Rightarrow> nat \<Rightarrow> 'w edify_state \<Rightarrow> (string list option \<times> 'w edify_state) ub" where
  "ReadArgs argv n st = read_args_from argv 0 n st"

fun read_value_args_from ::
  "'w edify_arg list \<Rightarrow> nat \<Rightarrow> nat \<Rightarrow> 'w edify_state \<Rightarrow> (edify_value list option \<times> 'w edify_state) ub" where
  "read_value_args_from argv i 0 st = Some (Some [], st)"
| "read_value_args_from argv i (Suc n) st =
     do { a \<leftarrow> rd argv i;
          (v, st1) \<leftarrow> EvaluateValue a st;
          case v of
            None \<Rightarrow> Some (None, st1)
          | Some s \<Rightarrow> do { (vs, st2) \<leftarrow> read_value_args_from argv (i + 1) n st1; Some (map_option ((#) s) vs, st2) }}"

definition ReadValueArgs ::
  "'w edify_arg list \<Rightarrow> nat \<Rightarrow> 'w edify_state \<Rightarrow> (edify_value list option \<times> 'w edify_state) ub" where
  "ReadValueArgs argv n st = read_value_args_from argv 0 n st"

subsection \<open>The functions\<close>

definition ConcatFn :: "'w edify_fun" where
  "ConcatFn name argv st =
     (if length argv = 0 then Some (StringValue (Some []), st)
      else do { (strings, st1) \<leftarrow> ReadVarArgs argv st;
                Some (StringValue (map_option concat strings), st1) })"

definition IfElseFn :: "'w edify_fun" where
  "IfElseFn name argv st =
     (if length argv \<noteq> 2 \<and> length argv \<noteq> 3
      then Some (None, set_error st ''ifelse expects 2 or 3 arguments'')
      else do {
        a0 \<leftarrow> rd argv 0;
        (c, st1) \<leftarrow> Evaluate a0 st;
        case c of
          None \<Rightarrow> Some (None, st1)
        | Some c \<Rightarrow>
            if BooleanString c then do { a1 \<leftarrow> rd argv 1; EvaluateValue a1 st1 }
            else if length argv = 3 then do { a2 \<leftarrow> rd argv 2; EvaluateValue a2 st1 }
            else Some (StringValue (Some c), st1) })"

definition AbortFn :: "'w edify_fun" where
  "AbortFn name argv st =
     do { (msg, st1) \<leftarrow> (if length argv > 0 then do { a0 \<leftarrow> rd argv 0; Evaluate a0 st } else Some (None, st));
          Some (None, set_error st1 (case msg of Some m \<Rightarrow> m | None \<Rightarrow> ''called abort()'')) }"

text \<open>The source text of a failed assertion; its bounds are those the parser stored.\<close>

definition assert_message :: "'w edify_state \<Rightarrow> 'w edify_arg \<Rightarrow> string ub" where
  "assert_message st a =
     (if arg_start a < 0 \<or> arg_end a < arg_start a then None
      else do { src \<leftarrow> rd_slice (script st) (nat (arg_start a)) (nat (arg_end a - arg_start a));
                Some (''assert failed: '' @ src) })"

fun assert_loop :: "'w edify_arg list \<Rightarrow> 'w edify_state \<Rightarrow> 'w edify_result" where
  "assert_loop [] st = Some (StringValue (Some []), st)"
| "assert_loop (a # as) st =
     do { (v, st1) \<leftarrow> Evaluate a st;
          case v of
            None \<Rightarrow> Some (None, st1)
          | Some s \<Rightarrow>
              if \<not> BooleanString s
              then do { err_src \<leftarrow> assert_message st1 a; Some (None, set_error st1 err_src) }
              else assert_loop as st1 }"

definition AssertFn :: "'w edify_fun" where
  "AssertFn name argv st = assert_loop argv st"

text \<open>\<open>int v = strtol(val, NULL, 10)\<close> cuts the \<open>long\<close> to 32 bits.\<close>

definition SleepFn :: "'w edify_fun" where
  "SleepFn name argv st =
     do { a0 \<leftarrow> rd argv 0;
          (val, st1) \<leftarrow> Evaluate a0 st;
          case val of
            None \<Rightarrow> Some (None, st1)
          | Some s \<Rightarrow>
              (let v = sint (word_of_int (fst (strtol10 s)) :: u32)
               in Some (StringValue (Some s), st1\<lparr>slept := slept st1 @ [v]\<rparr>)) }"

fun stdout_loop :: "'w edify_arg list \<Rightarrow> 'w edify_state \<Rightarrow> 'w edify_result" where
  "stdout_loop [] st = Some (StringValue (Some []), st)"
| "stdout_loop (a # as) st =
     do { (v, st1) \<leftarrow> Evaluate a st;
          case v of
            None \<Rightarrow> Some (None, st1)
          | Some s \<Rightarrow> stdout_loop as (st1\<lparr>printed := printed st1 @ s\<rparr>) }"

definition StdoutFn :: "'w edify_fun" where
  "StdoutFn name argv st = stdout_loop argv st"

definition LogicalAndFn :: "'w edify_fun" where
  "LogicalAndFn name argv st =
     do { a0 \<leftarrow> rd argv 0;
          (left, st1) \<leftarrow> Evaluate a0 st;
          case left of
            None \<Rightarrow> Some (None, st1)
          | Some l \<Rightarrow> if BooleanString l then do { a1 \<leftarrow> rd argv 1; EvaluateValue a1 st1 }
                      else Some (StringValue (Some l), st1) }"

definition LogicalOrFn :: "'w edify_fun" where
  "LogicalOrFn name argv st =
     do { a0 \<leftarrow> rd argv 0;
          (left, st1) \<leftarrow> Evaluate a0 st;
          case left of
            None \<Rightarrow> Some (None, st1)
          | Some l \<Rightarrow> if \<not> BooleanString l then do { a1 \<leftarrow> rd argv 1; EvaluateValue a1 st1 }
                      else Some (StringValue (Some l), st1) }"

definition bool_string :: "bool \<Rightarrow> string" where
  "bool_string b = (if b then ''t'' else [])"

definition LogicalNotFn :: "'w edify_fun" where
  "LogicalNotFn name argv st =
     do { a0 \<leftarrow> rd argv 0;
          (val, st1) \<leftarrow> Evaluate a0 st;
          case val of
            None \<Rightarrow> Some (None, st1)
          | Some s \<Rightarrow> Some (StringValue (Some (if BooleanString s then [] else ''t'')), st1) }"

text \<open>The three functions of two strings.\<close>

definition two_strings ::
  "(string \<Rightarrow> string \<Rightarrow> bool) \<Rightarrow> 'w edify_arg list \<Rightarrow> 'w edify_state \<Rightarrow> 'w edify_result" where
  "two_strings rel argv st =
     do { a0 \<leftarrow> rd argv 0;
          (left, st1) \<leftarrow> Evaluate a0 st;
          case left of
            None \<Rightarrow> Some (None, st1)
          | Some l \<Rightarrow> do {
              a1 \<leftarrow> rd argv 1;
              (right, st2) \<leftarrow> Evaluate a1 st1;
              case right of
                None \<Rightarrow> Some (None, st2)
              | Some r \<Rightarrow> Some (StringValue (Some (bool_string (rel l r))), st2) }}"

definition SubstringFn :: "'w edify_fun" where
  "SubstringFn name argv st = two_strings (\<lambda>needle haystack. strstr_found haystack needle) argv st"

definition EqualityFn :: "'w edify_fun" where
  "EqualityFn name argv st = two_strings (=) argv st"

definition InequalityFn :: "'w edify_fun" where
  "InequalityFn name argv st = two_strings (\<noteq>) argv st"

definition SequenceFn :: "'w edify_fun" where
  "SequenceFn name argv st =
     do { a0 \<leftarrow> rd argv 0;
          (left, st1) \<leftarrow> EvaluateValue a0 st;
          case left of
            None \<Rightarrow> Some (None, st1)
          | Some l \<Rightarrow> do { a1 \<leftarrow> rd argv 1; EvaluateValue a1 st1 }}"

text \<open>A string that is not a number makes the comparison false.\<close>

definition less_than_strings :: "string \<Rightarrow> string \<Rightarrow> bool" where
  "less_than_strings left right =
     (let (l_int, l_end) = strtol10 left
      in if left = [] \<or> l_end \<noteq> [] then False
         else let (r_int, r_end) = strtol10 right
              in if right = [] \<or> r_end \<noteq> [] then False else l_int < r_int)"

definition LessThanIntFn :: "'w edify_fun" where
  "LessThanIntFn name argv st =
     (if length argv \<noteq> 2 then Some (None, set_error st ''less_than_int expects 2 arguments'')
      else do { (vs, st1) \<leftarrow> ReadArgs argv 2 st;
                case vs of
                  None \<Rightarrow> Some (None, st1)
                | Some vs \<Rightarrow> Some (StringValue (Some (bool_string (less_than_strings (vs ! 0) (vs ! 1)))), st1) })"

definition GreaterThanIntFn :: "'w edify_fun" where
  "GreaterThanIntFn name argv st =
     (if length argv \<noteq> 2 then Some (None, set_error st ''greater_than_int expects 2 arguments'')
      else LessThanIntFn name [argv ! 1, argv ! 0] st)"

definition Literal :: "'w edify_fun" where
  "Literal name argv st = Some (StringValue (Some name), st)"

definition Build :: "'w edify_fun \<Rightarrow> int \<times> int \<Rightarrow> 'w expr list \<Rightarrow> 'w expr" where
  "Build fn loc args = Expr fn ''(operator)'' args (fst loc) (snd loc)"

subsection \<open>The function table\<close>

record 'w fn_registry =
  fn_entries :: nat
  fn_size :: nat
  fn_table :: "(string \<times> 'w edify_fun) list"

definition RegisterFunction :: "string \<Rightarrow> 'w edify_fun \<Rightarrow> 'w fn_registry \<Rightarrow> 'w fn_registry ub" where
  "RegisterFunction name fn T =
     (let (size', table) =
            (if fn_entries T \<ge> fn_size T
             then (fn_size T * 2 + 1,
                   fn_table T @ replicate (fn_size T * 2 + 1 - length (fn_table T)) ([], Literal))
             else (fn_size T, fn_table T))
      in do { table1 \<leftarrow> wr table (fn_entries T) (name, fn);
              Some \<lparr>fn_entries = fn_entries T + 1, fn_size = size', fn_table = table1\<rparr> })"

text \<open>\<open>qsort\<close> by \<open>strcmp\<close> of the names; names are distinct, so how equal ones are placed does not matter.\<close>

definition FinishRegistration :: "'w fn_registry \<Rightarrow> 'w fn_registry" where
  "FinishRegistration T =
     T\<lparr>fn_table := sort_key fst (take (fn_entries T) (fn_table T)) @ drop (fn_entries T) (fn_table T)\<rparr>"

text \<open>\<open>bsearch\<close> between the indices \<open>l\<close> and \<open>u\<close>.\<close>

function table_bsearch :: "(string \<times> 'w edify_fun) list \<Rightarrow> string \<Rightarrow> nat \<Rightarrow> nat \<Rightarrow> 'w edify_fun option" where
  "table_bsearch tab key l u =
     (if l < u
      then let m = (l + u) div 2
           in if key < fst (tab ! m) then table_bsearch tab key l m
              else if key > fst (tab ! m) then table_bsearch tab key (m + 1) u
              else Some (snd (tab ! m))
      else None)"
  by pat_completeness auto
termination by (relation "measure (\<lambda>(tab, key, l, u). u - l)") auto

definition FindFunction :: "string \<Rightarrow> 'w fn_registry \<Rightarrow> 'w edify_fun option" where
  "FindFunction name T = table_bsearch (fn_table T) name 0 (fn_entries T)"

definition register_all :: "(string \<times> 'w edify_fun) list \<Rightarrow> 'w fn_registry \<Rightarrow> 'w fn_registry ub" where
  "register_all fs T = fold (\<lambda>(n, f) r. do { T \<leftarrow> r; RegisterFunction n f T }) fs (Some T)"

definition RegisterBuiltins :: "'w fn_registry \<Rightarrow> 'w fn_registry ub" where
  "RegisterBuiltins T = register_all
     [(''ifelse'', IfElseFn), (''abort'', AbortFn), (''assert'', AssertFn), (''concat'', ConcatFn),
      (''is_substring'', SubstringFn), (''stdout'', StdoutFn), (''sleep'', SleepFn),
      (''less_than_int'', LessThanIntFn), (''greater_than_int'', GreaterThanIntFn)] T"

declare table_bsearch.simps [simp del]


subsection \<open>What a script means\<close>

definition arg_of :: "'w expr \<Rightarrow> 'w edify_arg" where
  "arg_of e = \<lparr>arg_run = run_expr e, arg_start = fst (span_of e), arg_end = snd (span_of e)\<rparr>"

lemma make_args_eq: "make_args (map run_expr es) (map span_of es) = map arg_of es"
  by (induction es) (auto simp: make_args_def arg_of_def split: prod.splits)

text \<open>
  A reference semantics of the string part of the language: an expression denotes a string, or the
  message it aborts with.
\<close>

datatype sexp =
    SLit string | SConcat "sexp list" | SIf sexp sexp | SIfElse sexp sexp sexp | SAbort sexp
  | SAnd sexp sexp | SOr sexp sexp | SNot sexp | SSubstring sexp sexp | SEq sexp sexp | SNe sexp sexp
  | SSeq sexp sexp | SLess sexp sexp | SGreater sexp sexp

type_synonym outcome = "string + string"

definition and_then :: "outcome \<Rightarrow> (string \<Rightarrow> outcome) \<Rightarrow> outcome" where
  "and_then d f = (case d of Inl m \<Rightarrow> Inl m | Inr s \<Rightarrow> f s)"

fun all_of :: "outcome list \<Rightarrow> string + string list" where
  "all_of [] = Inr []"
| "all_of (d # ds) = (case d of Inl m \<Rightarrow> Inl m | Inr s \<Rightarrow> map_sum id ((#) s) (all_of ds))"

definition binary :: "(string \<Rightarrow> string \<Rightarrow> bool) \<Rightarrow> outcome \<Rightarrow> outcome \<Rightarrow> outcome" where
  "binary rel a b = and_then a (\<lambda>l. and_then b (\<lambda>r. Inr (bool_string (rel l r))))"

primrec denote :: "sexp \<Rightarrow> outcome" where
  "denote (SLit s) = Inr s"
| "denote (SConcat es) = map_sum id concat (all_of (map denote es))"
| "denote (SIf c a) = and_then (denote c) (\<lambda>s. if s \<noteq> [] then denote a else Inr s)"
| "denote (SIfElse c a b) = and_then (denote c) (\<lambda>s. if s \<noteq> [] then denote a else denote b)"
| "denote (SAbort e) = Inl (case denote e of Inl m \<Rightarrow> ''called abort()'' | Inr m \<Rightarrow> m)"
| "denote (SAnd a b) = and_then (denote a) (\<lambda>s. if s \<noteq> [] then denote b else Inr s)"
| "denote (SOr a b) = and_then (denote a) (\<lambda>s. if s \<noteq> [] then Inr s else denote b)"
| "denote (SNot a) = and_then (denote a) (\<lambda>s. Inr (bool_string (s = [])))"
| "denote (SSubstring n h) = binary (\<lambda>n h. \<exists>a b. h = a @ n @ b) (denote n) (denote h)"
| "denote (SEq a b) = binary (=) (denote a) (denote b)"
| "denote (SNe a b) = binary (\<noteq>) (denote a) (denote b)"
| "denote (SSeq a b) = and_then (denote a) (\<lambda>s. denote b)"
| "denote (SLess a b) = binary less_than_strings (denote a) (denote b)"
| "denote (SGreater a b) = binary less_than_strings (denote b) (denote a)"

text \<open>The expression the parser builds: calls of named functions and operators.\<close>

primrec compile :: "sexp \<Rightarrow> 'w expr" where
  "compile (SLit s) = Expr Literal s [] 0 0"
| "compile (SConcat es) = Expr ConcatFn ''concat'' (map compile es) 0 0"
| "compile (SIf c a) = Build IfElseFn (0, 0) [compile c, compile a]"
| "compile (SIfElse c a b) = Build IfElseFn (0, 0) [compile c, compile a, compile b]"
| "compile (SAbort e) = Expr AbortFn ''abort'' [compile e] 0 0"
| "compile (SAnd a b) = Build LogicalAndFn (0, 0) [compile a, compile b]"
| "compile (SOr a b) = Build LogicalOrFn (0, 0) [compile a, compile b]"
| "compile (SNot a) = Build LogicalNotFn (0, 0) [compile a]"
| "compile (SSubstring n h) = Expr SubstringFn ''is_substring'' [compile n, compile h] 0 0"
| "compile (SEq a b) = Build EqualityFn (0, 0) [compile a, compile b]"
| "compile (SNe a b) = Build InequalityFn (0, 0) [compile a, compile b]"
| "compile (SSeq a b) = Build SequenceFn (0, 0) [compile a, compile b]"
| "compile (SLess a b) = Expr LessThanIntFn ''less_than_int'' [compile a, compile b] 0 0"
| "compile (SGreater a b) = Expr GreaterThanIntFn ''greater_than_int'' [compile a, compile b] 0 0"

definition result_of :: "outcome \<Rightarrow> 'w edify_state \<Rightarrow> 'w edify_result" where
  "result_of d st = Some (case d of Inl m \<Rightarrow> (None, set_error st m) | Inr s \<Rightarrow> (StringValue (Some s), st))"

named_theorems edify_simps \<open>evaluation of arguments with a known outcome\<close>

lemma set_error_twice [edify_simps]: "set_error (set_error st m) m' = set_error st m'"
  by (simp add: set_error_def)

lemma run_expr_Build [edify_simps]:
  "run_expr (Build f loc es) = f ''(operator)'' (map arg_of es)"
  "run_expr (Expr f n es s t) = f n (map arg_of es)"
  by (simp_all add: Build_def make_args_eq)

declare run_expr.simps [simp del]

lemma eval_value_of [edify_simps]:
  "run_expr e = result_of d \<Longrightarrow> EvaluateValue (arg_of e) st = result_of d st"
  by (simp add: EvaluateValue_def arg_of_def)

lemma evaluate_of [edify_simps]:
  "run_expr e = result_of d \<Longrightarrow>
   Evaluate (arg_of e) st = Some (case d of Inl m \<Rightarrow> (None, set_error st m) | Inr s \<Rightarrow> (Some s, st))"
  by (auto simp: Evaluate_def arg_of_def result_of_def StringValue_def split: sum.splits)

lemma read_var_args_of:
  "(\<And>e. e \<in> set es \<Longrightarrow> run_expr (f e) = result_of (d e)) \<Longrightarrow>
   ReadVarArgs (map arg_of (map f es)) st =
     Some (case all_of (map d es) of Inl m \<Rightarrow> (None, set_error st m) | Inr vs \<Rightarrow> (Some vs, st))"
proof (induction es)
  case (Cons a es)
  have a: "run_expr (f a) = result_of (d a)" using Cons.prems by simp
  have "ReadVarArgs (map arg_of (map f es)) st =
      Some (case all_of (map d es) of Inl m \<Rightarrow> (None, set_error st m) | Inr vs \<Rightarrow> (Some vs, st))"
    by (rule Cons.IH) (use Cons.prems in simp)
  then show ?case by (auto simp: evaluate_of [OF a] split: sum.splits)
qed simp

lemma two_strings_of [edify_simps]:
  "run_expr a = result_of d1 \<Longrightarrow> run_expr b = result_of d2 \<Longrightarrow>
   two_strings rel [arg_of a, arg_of b] st = result_of (binary rel d1 d2) st"
  by (auto simp: two_strings_def rd_def evaluate_of result_of_def binary_def and_then_def split: sum.splits)

lemma read_two_of [edify_simps]:
  "run_expr a = result_of d1 \<Longrightarrow> run_expr b = result_of d2 \<Longrightarrow>
   ReadArgs [arg_of a, arg_of b] 2 st =
     Some (case all_of [d1, d2] of Inl m \<Rightarrow> (None, set_error st m) | Inr vs \<Rightarrow> (Some vs, st))"
  by (auto simp: ReadArgs_def numeral_2_eq_2 rd_def evaluate_of split: sum.splits)

lemma less_than_of [edify_simps]:
  assumes "run_expr a = result_of d1" "run_expr b = result_of d2"
  shows "LessThanIntFn name [arg_of a, arg_of b] st = result_of (binary less_than_strings d1 d2) st"
  unfolding LessThanIntFn_def read_two_of [OF assms]
  by (cases d1; cases d2) (auto simp: result_of_def binary_def and_then_def)

lemma if_of [edify_simps]:
  assumes "run_expr c = result_of d" "run_expr a = result_of d1"
  shows "IfElseFn name [arg_of c, arg_of a] st = result_of (and_then d (\<lambda>s. if s \<noteq> [] then d1 else Inr s)) st"
  using evaluate_of [OF assms(1), of st] eval_value_of [OF assms(2)]
  by (cases d) (simp_all add: IfElseFn_def rd_def and_then_def BooleanString_def result_of_def)

lemma if_else_of [edify_simps]:
  assumes "run_expr c = result_of d" "run_expr a = result_of d1" "run_expr b = result_of d2"
  shows "IfElseFn name [arg_of c, arg_of a, arg_of b] st = result_of (and_then d (\<lambda>s. if s \<noteq> [] then d1 else d2)) st"
  using evaluate_of [OF assms(1), of st] eval_value_of [OF assms(2)] eval_value_of [OF assms(3)]
  by (cases d) (simp_all add: IfElseFn_def rd_def and_then_def BooleanString_def result_of_def)

lemma short_circuit_of [edify_simps]:
  assumes "run_expr a = result_of d1" "run_expr b = result_of d2"
  shows "LogicalAndFn name [arg_of a, arg_of b] st = result_of (and_then d1 (\<lambda>s. if s \<noteq> [] then d2 else Inr s)) st"
    "LogicalOrFn name [arg_of a, arg_of b] st = result_of (and_then d1 (\<lambda>s. if s \<noteq> [] then Inr s else d2)) st"
    "SequenceFn name [arg_of a, arg_of b] st = result_of (and_then d1 (\<lambda>s. d2)) st"
  using evaluate_of [OF assms(1), of st] eval_value_of [OF assms(1), of st] eval_value_of [OF assms(2)]
  by (cases d1; simp add: LogicalAndFn_def LogicalOrFn_def SequenceFn_def rd_def and_then_def BooleanString_def
      result_of_def StringValue_def)+

lemma one_string_of [edify_simps]:
  assumes "run_expr a = result_of d"
  shows "LogicalNotFn name [arg_of a] st = result_of (and_then d (\<lambda>s. Inr (bool_string (s = [])))) st"
    "AbortFn name [arg_of a] st = result_of (Inl (case d of Inl m \<Rightarrow> ''called abort()'' | Inr m \<Rightarrow> m)) st"
  using evaluate_of [OF assms, of st]
  by (cases d; simp add: LogicalNotFn_def AbortFn_def rd_def and_then_def BooleanString_def result_of_def
      bool_string_def set_error_twice)+

lemma compile_denote: "run_expr (compile e :: 'w expr) = result_of (denote e)"
proof (induction e)
  case (SConcat es)
  show ?case
  proof (rule ext)
    fix st :: "'w edify_state"
    have args: "ReadVarArgs (map arg_of (map compile es)) st =
        Some (case all_of (map denote es) of Inl m \<Rightarrow> (None, set_error st m) | Inr vs \<Rightarrow> (Some vs, st))"
      by (rule read_var_args_of) (rule SConcat.IH)
    have "run_expr (compile (SConcat es)) st = ConcatFn ''concat'' (map arg_of (map compile es)) st"
      by (simp only: compile.simps run_expr_Build)
    also have "\<dots> = result_of (denote (SConcat es)) st"
    proof (cases es)
      case Nil
      then show ?thesis by (simp add: ConcatFn_def result_of_def)
    next
      case (Cons a as)
      then have "ConcatFn ''concat'' (map arg_of (map compile es)) st =
          do { (strings, st1) \<leftarrow> ReadVarArgs (map arg_of (map compile es)) st;
               Some (StringValue (map_option concat strings), st1) }"
        by (simp add: ConcatFn_def)
      then show ?thesis unfolding args
        by (cases "all_of (map denote es)") (simp_all add: result_of_def StringValue_def)
    qed
    finally show "run_expr (compile (SConcat es)) st = result_of (denote (SConcat es)) st" .
  qed
next
  case (SSubstring n h)
  then show ?case by (intro ext) (simp add: edify_simps SubstringFn_def strstr_found_iff)
next
  case (SLit s)
  show ?case by (intro ext) (simp add: edify_simps Literal_def result_of_def)
qed (intro ext, simp add: edify_simps EqualityFn_def InequalityFn_def GreaterThanIntFn_def)+

subsection \<open>Searching the table\<close>

lemma table_bsearch_ok:
  "u \<le> length tab \<Longrightarrow> (\<And>i j. i \<le> j \<Longrightarrow> j < u \<Longrightarrow> fst (tab ! i) \<le> fst (tab ! j)) \<Longrightarrow>
   case table_bsearch tab key l u of
     Some f \<Rightarrow> (\<exists>i. l \<le> i \<and> i < u \<and> tab ! i = (key, f))
   | None \<Rightarrow> (\<forall>i. l \<le> i \<and> i < u \<longrightarrow> fst (tab ! i) \<noteq> key)"
proof (induction tab key l u rule: table_bsearch.induct)
  case (1 tab key l u)
  show ?case
  proof (cases "l < u")
    case False
    then show ?thesis by (auto simp: table_bsearch.simps [of tab key l u])
  next
    case True
    define m where "m = (l + u) div 2"
    have m: "l \<le> m" "m < u" using True by (simp_all add: m_def)
    consider "key < fst (tab ! m)" | "fst (tab ! m) < key" | "key = fst (tab ! m)" by fastforce
    then show ?thesis
    proof cases
      case 1
      have s: "table_bsearch tab key l u = table_bsearch tab key l m"
        using True 1 by (simp add: table_bsearch.simps [of tab key l u] m_def)
      have n: "fst (tab ! i) \<noteq> key" if "m \<le> i" "i < u" for i
        using "1.prems"(2) [OF that] 1 by auto
      have "case table_bsearch tab key l m of
         Some f \<Rightarrow> (\<exists>i. l \<le> i \<and> i < m \<and> tab ! i = (key, f))
       | None \<Rightarrow> (\<forall>i. l \<le> i \<and> i < m \<longrightarrow> fst (tab ! i) \<noteq> key)"
        by (rule "1.IH"(1) [OF True m_def 1]) (use "1.prems" m in auto)
      moreover have "i < m" if "i < u" "fst (tab ! i) = key" for i using n [of i] that by (meson not_le)
      ultimately show ?thesis unfolding s using m
        by (cases "table_bsearch tab key l m") (simp, blast, simp, meson order_less_trans)
    next
      case 2
      then have s: "table_bsearch tab key l u = table_bsearch tab key (m + 1) u"
        using True order_less_not_sym [OF 2] unfolding table_bsearch.simps [of tab key l u] Let_def
        by (simp flip: m_def)
      have n: "fst (tab ! i) \<noteq> key" if "i \<le> m" for i
        using "1.prems"(2) [OF that m(2)] 2 by auto
      have ih: "case table_bsearch tab key (m + 1) u of
         Some f \<Rightarrow> (\<exists>i. m + 1 \<le> i \<and> i < u \<and> tab ! i = (key, f))
       | None \<Rightarrow> (\<forall>i. m + 1 \<le> i \<and> i < u \<longrightarrow> fst (tab ! i) \<noteq> key)"
        by (rule "1.IH"(2) [OF True m_def order_less_not_sym [OF 2] 2]) (use "1.prems" in auto)
      have lb: "m + 1 \<le> i" if "fst (tab ! i) = key" for i
        using n [of i] that by (cases "i \<le> m") simp_all
      show ?thesis
      proof (cases "table_bsearch tab key (m + 1) u")
        case None
        then show ?thesis using ih s lb by auto
      next
        case (Some f)
        then obtain i where "m + 1 \<le> i" "i < u" "tab ! i = (key, f)" using ih by auto
        then have "l \<le> i \<and> i < u \<and> tab ! i = (key, f)" using m by simp
        then show ?thesis using s Some by auto
      qed
    next
      case 3
      then have "table_bsearch tab key l u = Some (snd (tab ! m))"
        using True unfolding table_bsearch.simps [of tab key l u] Let_def by (simp flip: m_def)
      then show ?thesis using m 3 by (auto intro!: exI [of _ m] simp: prod_eq_iff)
    qed
  qed
qed

definition reg_ok :: "'w fn_registry \<Rightarrow> bool" where
  "reg_ok T \<longleftrightarrow> fn_entries T \<le> fn_size T \<and> length (fn_table T) = fn_size T"

definition registered :: "'w fn_registry \<Rightarrow> (string \<times> 'w edify_fun) list" where
  "registered T = take (fn_entries T) (fn_table T)"

lemma register_ok:
  assumes "reg_ok T"
  shows "\<exists>T'. RegisterFunction n f T = Some T' \<and> reg_ok T' \<and> registered T' = registered T @ [(n, f)]"
proof (cases "fn_entries T \<ge> fn_size T")
  case True
  then have "fn_entries T = length (fn_table T)" "fn_size T = length (fn_table T)"
    using assms by (auto simp: reg_ok_def)
  then show ?thesis
    by (simp add: RegisterFunction_def reg_ok_def registered_def mem_simps take_Suc_conv_app_nth)
next
  case False
  then show ?thesis using assms
    by (simp add: RegisterFunction_def reg_ok_def registered_def mem_simps take_Suc_conv_app_nth)
qed

lemma register_all_ok:
  "reg_ok T \<Longrightarrow> \<exists>T'. register_all fs T = Some T' \<and> reg_ok T' \<and> registered T' = registered T @ fs"
proof (induction fs arbitrary: T)
  case (Cons nf fs)
  obtain n f where nf: "nf = (n, f)" by (cases nf)
  obtain T1 where T1: "RegisterFunction n f T = Some T1" "reg_ok T1" "registered T1 = registered T @ [(n, f)]"
    using register_ok [OF Cons.prems] by blast
  have "register_all (nf # fs) T = register_all fs T1" by (simp add: register_all_def nf T1(1))
  then show ?case using Cons.IH [OF T1(2)] T1(3) nf by auto
qed (simp add: register_all_def)

lemma find_function_ok:
  assumes "reg_ok T" "distinct (map fst (registered T))"
  shows "FindFunction name (FinishRegistration T) = map_of (registered T) name"
proof -
  let ?s = "sort_key fst (registered T)" and ?n = "fn_entries T"
  let ?tab = "?s @ drop ?n (fn_table T)"
  have l: "length ?s = ?n" using assms(1) by (simp add: registered_def reg_ok_def)
  have at: "?tab ! i = ?s ! i" if "i < ?n" for i using that l by (simp add: nth_append)
  have "sorted (map fst ?s)" by simp
  then have "fst (?tab ! i) \<le> fst (?tab ! j)" if "i \<le> j" "j < ?n" for i j
    using that l sorted_nth_mono [of "map fst ?s" i j] at by simp
  moreover have "?n \<le> length ?tab" using l by simp
  ultimately have b: "case table_bsearch ?tab name 0 ?n of
     Some f \<Rightarrow> (\<exists>i. 0 \<le> i \<and> i < ?n \<and> ?tab ! i = (name, f))
   | None \<Rightarrow> (\<forall>i. 0 \<le> i \<and> i < ?n \<longrightarrow> fst (?tab ! i) \<noteq> name)"
    using table_bsearch_ok [where u = ?n and tab = ?tab and key = name and l = 0] by blast
  have find: "FindFunction name (FinishRegistration T) = table_bsearch ?tab name 0 ?n"
    by (simp add: FindFunction_def FinishRegistration_def registered_def)
  show ?thesis
  proof (cases "table_bsearch ?tab name 0 ?n")
    case None
    then have "\<forall>i<?n. fst (?s ! i) \<noteq> name" using b at by auto
    then have "fst x \<noteq> name" if "x \<in> set ?s" for x using that l unfolding in_set_conv_nth by metis
    then have "name \<notin> fst ` set ?s" by auto
    then have "map_of (registered T) name = None" by (simp add: map_of_eq_None_iff)
    then show ?thesis using find None by simp
  next
    case (Some f)
    then obtain i where i: "i < ?n" "?s ! i = (name, f)" using b at by auto
    then have "(name, f) \<in> set ?s" using l by (metis nth_mem)
    then have "map_of (registered T) name = Some f" using assms(2) by simp
    then show ?thesis using find Some by simp
  qed
qed

subsection \<open>Properties\<close>

text \<open>
  C14: the evaluator implements the reference semantics of the string language: every expression
  built from literals, \<open>concat\<close>, \<open>ifelse\<close>, \<open>abort\<close>, \<open>is_substring\<close>, the comparisons and the operators
  evaluates, without undefined behaviour and without changing anything else in the state, to the string it
  denotes, or to NULL with the message it aborts with; \<open>&&\<close>, \<open>||\<close> and \<open>ifelse\<close> evaluate only the branch
  they need.
\<close>

theorem script_semantics:
  "run_expr (compile e) st =
     Some (case denote e of
             Inl m \<Rightarrow> (None, st\<lparr>errmsg := Some m\<rparr>)
           | Inr s \<Rightarrow> (Some \<lparr>vtype = VAL_STRING, vsize = int (length s), vdata = s\<rparr>, st))"
  by (cases "denote e") (simp_all add: compile_denote result_of_def set_error_def StringValue_def)

text \<open>
  An argument that evaluates to NULL ends the call: whenever the first of two arguments answers NULL,
  every built-in function and operator that evaluates it first answers NULL with the state the argument left,
  its error message included, and without evaluating the other argument.
\<close>

theorem null_argument:
  assumes "arg_run a st = Some (None, st1)"
    and "f \<in> {ConcatFn, IfElseFn, AssertFn, StdoutFn, SleepFn, LogicalAndFn, LogicalOrFn, LogicalNotFn,
      SubstringFn, EqualityFn, InequalityFn, SequenceFn, LessThanIntFn}"
  shows "f name [a, b] st = Some (None, st1)"
proof -
  have e: "Evaluate a st = Some (None, st1)" "EvaluateValue a st = Some (None, st1)"
    by (simp_all add: Evaluate_def EvaluateValue_def assms(1))
  show ?thesis
    using assms(2)
    by (elim insertE emptyE)
      (simp_all add: e rd_def ConcatFn_def StringValue_def IfElseFn_def AssertFn_def StdoutFn_def SleepFn_def
        LogicalAndFn_def LogicalOrFn_def LogicalNotFn_def SubstringFn_def EqualityFn_def InequalityFn_def
        SequenceFn_def LessThanIntFn_def two_strings_def ReadArgs_def numeral_2_eq_2)
qed

theorem null_argument_witness:
  "IfElseFn ''ifelse'' [arg_of (Expr AbortFn ''abort'' [] 0 0), arg_of (Expr Literal ''x'' [] 0 0)]
     \<lparr>cookie = (), script = ''abort()'', errmsg = None, printed = [], slept = []\<rparr>
   = Some (None, \<lparr>cookie = (), script = ''abort()'', errmsg = Some ''called abort()'', printed = [], slept = []\<rparr>)"
proof (rule null_argument)
  show "arg_run (arg_of (Expr AbortFn ''abort'' [] 0 0)) \<lparr>cookie = (), script = ''abort()'', errmsg = None, printed = [], slept = []\<rparr>
     = Some (None, \<lparr>cookie = (), script = ''abort()'', errmsg = Some ''called abort()'', printed = [], slept = []\<rparr>)"
    by (simp add: arg_of_def run_expr_Build AbortFn_def set_error_def)
qed simp

text \<open>
  \<open>less_than_int\<close> and \<open>greater_than_int\<close> on the decimal representations of two \<open>long\<close> values
  answer the string of the comparison of the values: reading the numbers is exact on the whole range.
\<close>

theorem int_comparison:
  assumes "LONG_MIN \<le> i" "i \<le> LONG_MAX" "LONG_MIN \<le> j" "j \<le> LONG_MAX"
  shows "run_expr (compile (SLess (SLit (dec_int i)) (SLit (dec_int j)))) st =
      Some (StringValue (Some (if i < j then ''t'' else [])), st) \<and>
    run_expr (compile (SGreater (SLit (dec_int i)) (SLit (dec_int j)))) st =
      Some (StringValue (Some (if i > j then ''t'' else [])), st)"
  using strtol_dec_int [OF assms(1,2)] strtol_dec_int [OF assms(3,4)]
  by (simp add: compile_denote result_of_def binary_def and_then_def less_than_strings_def bool_string_def
      del: compile.simps)

definition blank_state :: "unit edify_state" where
  "blank_state = \<lparr>cookie = (), script = [], errmsg = None, printed = [], slept = []\<rparr>"

theorem int_comparison_witness:
  "run_expr (compile (SLess (SLit (dec_int (- 9))) (SLit (dec_int 10)))) blank_state
     = Some (StringValue (Some ''t''), blank_state) \<and>
   run_expr (compile (SGreater (SLit (dec_int (- 9))) (SLit (dec_int 10)))) blank_state
     = Some (StringValue (Some []), blank_state)"
  using int_comparison [of "- 9" 10 blank_state] by (simp add: LONG_MIN_def LONG_MAX_def del: compile.simps)

text \<open>
  after registering functions under distinct names in any order and sorting the table,
  \<open>FindFunction\<close> finds under each name the function registered for it and NULL under every other name; the
  growing table is never written out of bounds.
\<close>

theorem find_registered:
  assumes "distinct (map fst fs)"
  shows "\<exists>T. register_all fs \<lparr>fn_entries = 0, fn_size = 0, fn_table = []\<rparr> = Some T \<and>
    (\<forall>name. FindFunction name (FinishRegistration T) = map_of fs name)"
proof -
  have "reg_ok \<lparr>fn_entries = 0, fn_size = 0, fn_table = []\<rparr>" by (simp add: reg_ok_def)
  from register_all_ok [OF this, of fs] obtain T where
    "register_all fs \<lparr>fn_entries = 0, fn_size = 0, fn_table = []\<rparr> = Some T" "reg_ok T" "registered T = fs"
    by (auto simp: registered_def)
  then show ?thesis using find_function_ok [of T] assms by auto
qed

theorem find_registered_witness:
  "\<exists>T. RegisterBuiltins \<lparr>fn_entries = 0, fn_size = 0, fn_table = []\<rparr> = Some T \<and>
     FindFunction ''concat'' (FinishRegistration T) = Some ConcatFn \<and>
     FindFunction ''cat'' (FinishRegistration T) = None"
  unfolding RegisterBuiltins_def
  using find_registered [of "[(''ifelse'', IfElseFn), (''abort'', AbortFn), (''assert'', AssertFn), (''concat'', ConcatFn),
      (''is_substring'', SubstringFn), (''stdout'', StdoutFn), (''sleep'', SleepFn),
      (''less_than_int'', LessThanIntFn), (''greater_than_int'', GreaterThanIntFn)]"]
  by auto

text \<open>The functions that do not compare \<open>argc\<close> read past the arguments they were given.\<close>

lemma missing_arguments:
  "SleepFn name [] st = None" "SubstringFn name [] st = None"
  "Evaluate a st = Some (Some s, st1) \<Longrightarrow> SubstringFn name [a] st = None"
  by (simp_all add: SleepFn_def SubstringFn_def two_strings_def rd_def)

end
