(* ===== verification/BsPatch.thy ===== *)
theory BsPatch
  imports Prelude ByteOrder
begin

text \<open>
  Applying bsdiff patches: \<open>applypatch/bspatch.c\<close>.

  The patch is the list of its bytes.  libbzip2 is a parameter, the record \<open>bzip2\<close>: a stream is opened
  on its compressed input, and decompressing answers a code, at most the number of bytes there is room for
  and the new stream.  \<open>off_t\<close> arithmetic is on \<open>int\<close>; a C \<open>int\<close> or \<open>unsigned\<close> argument is cut to
  its width.  Handing bzip2 an input range that leaves the patch counts as undefined behaviour.
\<close>

subsection \<open>The decompressor\<close>

record 's bzip2 =
  bz_init :: "bytes \<Rightarrow> int \<times> 's"
  bz_decompress :: "'s \<Rightarrow> nat \<Rightarrow> int \<times> bytes \<times> 's"

definition BZ_OK :: int where "BZ_OK = 0"
definition BZ_STREAM_END :: int where "BZ_STREAM_END = 4"

text \<open>\<open>avail\<close> is \<open>stream->avail_out\<close>; the output goes to \<open>out\<close> from \<open>off\<close> on.\<close>

partial_function (option) fill_loop ::
  "'s bzip2 \<Rightarrow> bytes \<Rightarrow> nat \<Rightarrow> nat \<Rightarrow> 's \<Rightarrow> (int \<times> bytes \<times> 's) ub" where
  "fill_loop B out off avail s =
     (if avail > 0
      then let (bzerr, bs, s1) = bz_decompress B s avail
           in do { out1 \<leftarrow> wr_slice out off bs;
                   if bzerr \<noteq> BZ_OK \<and> bzerr \<noteq> BZ_STREAM_END then Some (- 1, out1, s1)
                   else fill_loop B out1 (off + length bs) (avail - length bs) s1 }
      else Some (0, out, s))"

text \<open>\<open>size\<close> is an \<open>int\<close> stored in the unsigned \<open>avail_out\<close>; a buffer before the start of the array is undefined.\<close>

definition FillBuffer ::
  "'s bzip2 \<Rightarrow> bytes \<Rightarrow> int \<Rightarrow> int \<Rightarrow> 's \<Rightarrow> (int \<times> bytes \<times> 's) ub" where
  "FillBuffer B out off size' s =
     (if off < 0 then None else fill_loop B out (nat off) (unat (word_of_int size' :: u32)) s)"

subsection \<open>The patch\<close>

definition BSDIFF_MAGIC :: bytes where
  "BSDIFF_MAGIC = [0x42, 0x53, 0x44, 0x49, 0x46, 0x46, 0x34, 0x30]"

text \<open>Adding the old data, index by index; \<open>k\<close> counts down.\<close>

fun add_loop :: "bytes \<Rightarrow> bytes \<Rightarrow> int \<Rightarrow> int \<Rightarrow> int \<Rightarrow> nat \<Rightarrow> bytes ub" where
  "add_loop old new oldpos newpos i 0 = Some new"
| "add_loop old new oldpos newpos i (Suc k) =
     (if 0 \<le> oldpos + i \<and> oldpos + i < int (length old)
      then if newpos + i < 0 then None
           else do { v \<leftarrow> rd new (nat (newpos + i));
                     new1 \<leftarrow> wr new (nat (newpos + i)) (v + old ! nat (oldpos + i));
                     add_loop old new1 oldpos newpos (i + 1) k }
      else add_loop old new oldpos newpos (i + 1) k)"

partial_function (option) bspatch_loop ::
  "'s bzip2 \<Rightarrow> bytes \<Rightarrow> int \<Rightarrow> 's \<Rightarrow> 's \<Rightarrow> 's \<Rightarrow> bytes \<Rightarrow> int \<Rightarrow> int \<Rightarrow> (int \<times> bytes) ub" where
  "bspatch_loop B old new_size cs ds es new oldpos newpos =
     (if newpos < new_size
      then do {
        (err, buf, cs1) \<leftarrow> FillBuffer B (replicate 24 0) 0 24 cs;
        if err \<noteq> 0 then Some (1, new)
        else do {
          ctrl0 \<leftarrow> offtin buf 0;
          ctrl1 \<leftarrow> offtin buf 8;
          ctrl2 \<leftarrow> offtin buf 16;
          if newpos + ctrl0 > new_size then Some (1, new)
          else do {
            (err, new1, ds1) \<leftarrow> FillBuffer B new newpos ctrl0 ds;
            if err \<noteq> 0 then Some (1, new1)
            else do {
              new2 \<leftarrow> add_loop old new1 oldpos newpos 0 (nat ctrl0);
              let newpos1 = newpos + ctrl0;
              let oldpos1 = oldpos + ctrl0;
              if newpos1 + ctrl1 > new_size then Some (1, new2)
              else do {
                (err, new3, es1) \<leftarrow> FillBuffer B new2 newpos1 ctrl1 es;
                if err \<noteq> 0 then Some (1, new3)
                else bspatch_loop B old new_size cs1 ds1 es1 new3 (oldpos1 + ctrl2) (newpos1 + ctrl1) }}}}}
      else Some (0, new))"

text \<open>Opening a stream: its input starts at \<open>pos\<close>, and \<open>avail_in\<close> is an unsigned \<open>int\<close>.\<close>

definition open_stream :: "'s bzip2 \<Rightarrow> bytes \<Rightarrow> int \<Rightarrow> int \<Rightarrow> 's ub" where
  "open_stream B patch pos len =
     (if pos < 0 then None
      else do { inp \<leftarrow> rd_slice patch (nat pos) (unat (word_of_int len :: u32)); Some (snd (bz_init B inp)) })"

definition ApplyBSDiffPatchMem ::
  "'s bzip2 \<Rightarrow> (nat \<Rightarrow> bool) \<Rightarrow> bytes \<Rightarrow> bytes \<Rightarrow> nat \<Rightarrow> (int \<times> bytes) ub" where
  "ApplyBSDiffPatchMem B alloc old patch patch_offset =
     do {
       header \<leftarrow> rd_slice patch patch_offset 8;
       if header \<noteq> BSDIFF_MAGIC then Some (1, [])
       else do {
         ctrl_len \<leftarrow> offtin patch (patch_offset + 8);
         data_len \<leftarrow> offtin patch (patch_offset + 16);
         new_size \<leftarrow> offtin patch (patch_offset + 24);
         if ctrl_len < 0 \<or> data_len < 0 \<or> new_size < 0 then Some (1, [])
         else do {
           let start = int patch_offset + 32;
           cs \<leftarrow> open_stream B patch start ctrl_len;
           ds \<leftarrow> open_stream B patch (start + ctrl_len) data_len;
           es \<leftarrow> open_stream B patch (start + ctrl_len + data_len)
                   (int (length patch) - (start + ctrl_len + data_len));
           if \<not> alloc (nat new_size) then Some (1, [])
           else bspatch_loop B old new_size cs ds es (replicate (nat new_size) 0) 0 0 }}}"

text \<open>
  \<open>ApplyBSDiffPatch\<close> hands the new data to the sink and to the hash, when there is one.
\<close>

definition ApplyBSDiffPatch ::
  "'s bzip2 \<Rightarrow> (nat \<Rightarrow> bool) \<Rightarrow> (bytes \<Rightarrow> 't \<Rightarrow> int \<times> 't) \<Rightarrow> ('c \<Rightarrow> bytes \<Rightarrow> 'c) \<Rightarrow>
     bytes \<Rightarrow> bytes \<Rightarrow> nat \<Rightarrow> 't \<Rightarrow> 'c option \<Rightarrow> (int \<times> 't \<times> 'c option) ub" where
  "ApplyBSDiffPatch B alloc sink sha_update old patch patch_offset token ctx =
     do { (err, new) \<leftarrow> ApplyBSDiffPatchMem B alloc old patch patch_offset;
          if err \<noteq> 0 then Some (- 1, token, ctx)
          else let (wrote, token1) = sink new token
               in if wrote < int (length new) then Some (1, token1, ctx)
                  else Some (0, token1, map_option (\<lambda>c. sha_update c new) ctx) }"

subsection \<open>What a patch means\<close>

text \<open>The old byte at a position, 0 outside the old file.\<close>

definition old_at :: "bytes \<Rightarrow> int \<Rightarrow> byte" where
  "old_at old p = (if 0 \<le> p \<and> p < int (length old) then old ! nat p else 0)"

definition add_old :: "bytes \<Rightarrow> int \<Rightarrow> bytes \<Rightarrow> bytes" where
  "add_old old p xs = map (\<lambda>i. xs ! i + old_at old (p + int i)) [0..<length xs]"

type_synonym triple = "nat \<times> nat \<times> int"

fun rebuild :: "bytes \<Rightarrow> triple list \<Rightarrow> bytes \<Rightarrow> bytes \<Rightarrow> int \<Rightarrow> bytes" where
  "rebuild old [] diff extra p = []"
| "rebuild old ((x, y, z) # ts) diff extra p =
     add_old old p (take x diff) @ take y extra @ rebuild old ts (drop x diff) (drop y extra) (p + int x + z)"

definition enc8 :: "int \<Rightarrow> bytes" where
  "enc8 x = the (offtout x)"

definition enc_triple :: "triple \<Rightarrow> bytes" where
  "enc_triple t = (case t of (x, y, z) \<Rightarrow> enc8 (int x) @ enc8 (int y) @ enc8 z)"

definition diff_total :: "triple list \<Rightarrow> nat" where "diff_total ts = sum_list (map fst ts)"
definition extra_total :: "triple list \<Rightarrow> nat" where "extra_total ts = sum_list (map (\<lambda>(x, y, z). y) ts)"

text \<open>
  What is relied on in bzip2: \<open>content\<close> is what a stream still has to give, and decompressing
  with room for some of it gives a nonempty piece of it.
\<close>

definition bz_law :: "'s bzip2 \<Rightarrow> ('s \<Rightarrow> bytes) \<Rightarrow> bool" where
  "bz_law B content \<longleftrightarrow> (\<forall>s n. 0 < n \<and> n \<le> length (content s) \<longrightarrow>
     (\<exists>code k s'. bz_decompress B s n = (code, take k (content s), s') \<and> (code = BZ_OK \<or> code = BZ_STREAM_END) \<and>
        0 < k \<and> k \<le> n \<and> content s' = drop k (content s)))"

lemma fill_loop_ok:
  assumes "bz_law B content"
  shows "n \<le> length (content s) \<Longrightarrow> off + n \<le> length out \<Longrightarrow>
    \<exists>s'. fill_loop B out off n s = Some (0, take off out @ take n (content s) @ drop (off + n) out, s') \<and>
      content s' = drop n (content s)"
proof (induction n arbitrary: out off s rule: less_induct)
  case (less n)
  show ?case
  proof (cases "n = 0")
    case True
    then show ?thesis by (subst fill_loop.simps) simp
  next
    case False
    then have "0 < n \<and> n \<le> length (content s)" using less.prems(1) by simp
    then obtain code k s1 where d: "bz_decompress B s n = (code, take k (content s), s1)"
      "code = BZ_OK \<or> code = BZ_STREAM_END" "0 < k" "k \<le> n" "content s1 = drop k (content s)"
      using assms unfolding bz_law_def by blast
    have lk: "length (take k (content s)) = k" using d(4) less.prems(1) by simp
    define out1 where "out1 = take off out @ take k (content s) @ drop (off + k) out"
    have w: "wr_slice out off (take k (content s)) = Some out1"
      using lk d(4) less.prems(2) by (simp add: wr_slice_def out1_def)
    have step: "fill_loop B out off n s = fill_loop B out1 (off + k) (n - k) s1"
      using False d(2) lk by (subst fill_loop.simps) (auto simp: d(1) w)
    have p: "n - k < n" "n - k \<le> length (content s1)" "off + k + (n - k) \<le> length out1"
      using False d(3-5) less.prems by (simp_all add: out1_def)
    obtain s' where s': "fill_loop B out1 (off + k) (n - k) s1
        = Some (0, take (off + k) out1 @ take (n - k) (content s1) @ drop (off + k + (n - k)) out1, s')"
      "content s' = drop (n - k) (content s1)"
      using less.IH [OF p] by blast
    have "take (off + k) out1 = take off out @ take k (content s)"
      using lk less.prems(2) by (simp add: out1_def)
    moreover have "drop (off + n) out1 = drop (off + n) out"
      using lk less.prems(2) d(4) by (simp add: out1_def add.commute)
    moreover have "take k (content s) @ take (n - k) (drop k (content s)) = take n (content s)"
      using d(4) take_add [of k "n - k" "content s"] by simp
    ultimately have "fill_loop B out off n s = Some (0, take off out @ take n (content s) @ drop (off + n) out, s')"
      unfolding step s'(1) using d(4,5) by simp
    moreover have "content s' = drop n (content s)" using s'(2) d(4,5) by simp
    ultimately show ?thesis by blast
  qed
qed

lemma FillBuffer_ok:
  assumes "bz_law B content" "n \<le> length (content s)" "off + n \<le> length out" "n < 2 ^ 32"
  shows "\<exists>s'. FillBuffer B out (int off) (int n) s
      = Some (0, take off out @ take n (content s) @ drop (off + n) out, s') \<and> content s' = drop n (content s)"
proof -
  have "unat (word_of_int (int n) :: u32) = n" using assms(4) by (simp add: unsigned_of_nat take_bit_nat_eq_self)
  then show ?thesis using fill_loop_ok [OF assms(1-3)] by (simp add: FillBuffer_def)
qed

lemma add_old_append:
  "add_old old p (xs @ ys) = add_old old p xs @ add_old old (p + int (length xs)) ys"
proof -
  have "[0..<length xs + length ys] = [0..<length xs] @ map (\<lambda>i. i + length xs) [0..<length ys]"
    using map_add_upt [of "length xs" "length ys"] upt_add_eq_append [of 0 "length xs" "length ys"]
    by (simp add: add.commute)
  then show ?thesis by (auto simp: add_old_def nth_append algebra_simps)
qed

lemma add_old_Cons: "add_old old p (x # xs) = (x + old_at old p) # add_old old (p + 1) xs"
  using add_old_append [of old p "[x]" xs] by (simp add: add_old_def)

lemma add_loop_ok:
  "add_loop old (pre @ xs @ post) oldpos (int (length pre)) 0 (length xs)
     = Some (pre @ add_old old oldpos xs @ post)"
proof -
  have "add_loop old (pre @ ys @ xs @ post) oldpos (int (length pre)) (int (length ys)) (length xs)
      = Some (pre @ ys @ add_old old (oldpos + int (length ys)) xs @ post)" for ys
  proof (induction xs arbitrary: ys)
    case Nil
    then show ?case by (simp add: add_old_def)
  next
    case (Cons x xs)
    let ?i = "int (length ys)" and ?m = "pre @ ys @ (x # xs) @ post"
    have n: "nat (int (length pre) + ?i) = length (pre @ ys)" by simp
    have rd: "rd ?m (length (pre @ ys)) = Some x" by (simp add: rd_def nth_append)
    have wr: "wr ?m (length (pre @ ys)) v = Some (pre @ (ys @ [v]) @ xs @ post)" for v
      by (simp add: wr_def list_update_append)
    have at: "old_at old (oldpos + ?i) = old ! nat (oldpos + ?i)"
      if "0 \<le> oldpos + ?i \<and> oldpos + ?i < int (length old)" using that by (simp add: old_at_def)
    have out: "old_at old (oldpos + ?i) = 0" if "\<not> (0 \<le> oldpos + ?i \<and> oldpos + ?i < int (length old))"
      using that by (auto simp: old_at_def)
    have "add_loop old ?m oldpos (int (length pre)) ?i (Suc (length xs)) =
        add_loop old (pre @ (ys @ [x + old_at old (oldpos + ?i)]) @ xs @ post) oldpos (int (length pre))
          (int (length (ys @ [x + old_at old (oldpos + ?i)]))) (length xs)"
    proof (cases "0 \<le> oldpos + ?i \<and> oldpos + ?i < int (length old)")
      case True
      then show ?thesis unfolding add_loop.simps n rd using wr at by (simp add: add.commute)
    next
      case False
      then show ?thesis unfolding add_loop.simps using out by (auto simp: add.commute)
    qed
    then show ?case using Cons.IH [of "ys @ [x + old_at old (oldpos + ?i)]"]
      by (simp add: add_old_Cons algebra_simps)
  qed
  from this [of "[]"] show ?thesis by simp
qed

lemma enc8_ok:
  assumes "\<bar>x\<bar> < 2 ^ 63"
  shows "length (enc8 x) = 8" "offtin (pre @ enc8 x @ post) (length pre) = Some x"
  using offtout_offtin_eq [OF assms] by (auto simp: enc8_def)

definition triple_ok :: "triple \<Rightarrow> bool" where
  "triple_ok t \<longleftrightarrow> (case t of (x, y, z) \<Rightarrow> \<bar>z\<bar> < 2 ^ 63)"

lemma enc_triple_ok:
  assumes "x < 2 ^ 31" "y < 2 ^ 31" "\<bar>z\<bar> < 2 ^ 63"
  shows "length (enc_triple (x, y, z)) = 24" "offtin (enc_triple (x, y, z)) 0 = Some (int x)"
    "offtin (enc_triple (x, y, z)) 8 = Some (int y)" "offtin (enc_triple (x, y, z)) 16 = Some z"
proof -
  have b: "\<bar>int x\<bar> < 2 ^ 63" "\<bar>int y\<bar> < 2 ^ 63" using assms by simp_all
  note l = enc8_ok(1) [OF b(1)] enc8_ok(1) [OF b(2)] enc8_ok(1) [OF assms(3)]
  show "length (enc_triple (x, y, z)) = 24" by (simp add: enc_triple_def l)
  show "offtin (enc_triple (x, y, z)) 0 = Some (int x)"
    using enc8_ok(2) [OF b(1), of "[]"] by (simp add: enc_triple_def)
  show "offtin (enc_triple (x, y, z)) 8 = Some (int y)"
    using enc8_ok(2) [OF b(2), of "enc8 (int x)" "enc8 z"] by (simp add: enc_triple_def l)
  show "offtin (enc_triple (x, y, z)) 16 = Some z"
    using enc8_ok(2) [OF assms(3), of "enc8 (int x) @ enc8 (int y)" "[]"] by (simp add: enc_triple_def l)
qed

lemma rebuild_none: "diff_total ts + extra_total ts = 0 \<Longrightarrow> rebuild old ts diff extra p = []"
  by (induction ts arbitrary: diff extra p) (auto simp: diff_total_def extra_total_def add_old_def)

text \<open>The loop, once \<open>fin\<close> is done.\<close>

lemma bspatch_loop_ok:
  assumes "bz_law B content"
  shows "\<forall>t\<in>set ts. triple_ok t \<Longrightarrow> (\<exists>rest. content cs = concat (map enc_triple ts) @ rest) \<Longrightarrow>
    diff_total ts \<le> length (content ds) \<Longrightarrow> extra_total ts \<le> length (content es) \<Longrightarrow>
    length new = length fin + (diff_total ts + extra_total ts) \<Longrightarrow> length new < 2 ^ 31 \<Longrightarrow>
    take (length fin) new = fin \<Longrightarrow>
    bspatch_loop B old (int (length new)) cs ds es new oldpos (int (length fin))
      = Some (0, fin @ rebuild old ts (content ds) (content es) oldpos)"
proof (induction ts arbitrary: cs ds es new fin oldpos)
  case Nil
  then have "new = fin" by (metis add.right_neutral diff_total_def extra_total_def list.map(1) sum_list.Nil take_all_iff le_refl)
  then show ?case by (subst bspatch_loop.simps) simp
next
  case (Cons t ts)
  obtain x y z where t: "t = (x, y, z)" by (cases t)
  have tot: "diff_total (t # ts) = x + diff_total ts" "extra_total (t # ts) = y + extra_total ts"
    by (simp_all add: t diff_total_def extra_total_def)
  show ?case
  proof (cases "diff_total (t # ts) + extra_total (t # ts) = 0")
    case True
    then have "new = fin" using Cons.prems(5,7) by (metis add.right_neutral take_all_iff le_refl)
    then show ?thesis using rebuild_none [OF True] by (subst bspatch_loop.simps) simp
  next
    case False
    then have lt: "length fin < length new" using Cons.prems(5) by simp
    have sz: "length fin + x + y \<le> length new" "x < 2 ^ 31" "y < 2 ^ 31" "\<bar>z\<bar> < 2 ^ 63"
      using Cons.prems(1,5,6) tot t by (simp_all add: triple_ok_def)
    note e = enc_triple_ok [OF sz(2-4)]
    obtain rest where rest: "content cs = enc_triple t @ concat (map enc_triple ts) @ rest"
      using Cons.prems(2) by auto
    have f1: "\<exists>cs1. FillBuffer B (replicate 24 0) 0 24 cs = Some (0, enc_triple t, cs1) \<and>
        content cs1 = concat (map enc_triple ts) @ rest"
      using FillBuffer_ok [OF assms, of 24 cs 0 "replicate 24 0"] e(1) rest t by simp
    then obtain cs1 where cs1: "FillBuffer B (replicate 24 0) 0 24 cs = Some (0, enc_triple t, cs1)"
      "content cs1 = concat (map enc_triple ts) @ rest" by blast
    let ?d = "take x (content ds)" and ?e = "take y (content es)"
    have ld: "length ?d = x" and le: "length ?e = y" using Cons.prems(3,4) tot by simp_all
    obtain ds1 where ds1: "FillBuffer B new (int (length fin)) (int x) ds
        = Some (0, fin @ ?d @ drop (length fin + x) new, ds1)" "content ds1 = drop x (content ds)"
      using FillBuffer_ok [OF assms, of x ds "length fin" new] Cons.prems(3,7) tot sz by auto
    let ?a = "add_old old oldpos ?d"
    have la: "length ?a = x" using ld by (simp add: add_old_def)
    have add: "add_loop old (fin @ ?d @ drop (length fin + x) new) oldpos (int (length fin)) 0 x
        = Some (fin @ ?a @ drop (length fin + x) new)"
      using add_loop_ok [of old fin ?d "drop (length fin + x) new" oldpos] ld by simp
    let ?new2 = "fin @ ?a @ drop (length fin + x) new"
    have l2: "length ?new2 = length new" using la sz(1) by simp
    have y2: "y \<le> length (content es)" "length fin + x + y \<le> length ?new2" "y < 2 ^ 32"
      using Cons.prems(4) tot sz(1,3) l2 by simp_all
    obtain es1 where es1: "FillBuffer B ?new2 (int (length fin + x)) (int y) es
        = Some (0, take (length fin + x) ?new2 @ ?e @ drop (length fin + x + y) ?new2, es1)"
      "content es1 = drop y (content es)"
      using FillBuffer_ok [OF assms y2] by blast
    define fin3 where "fin3 = fin @ ?a @ ?e"
    have new3: "take (length fin + x) ?new2 @ ?e @ drop (length fin + x + y) ?new2
        = fin3 @ drop (length fin + x + y) new" (is "_ = ?new3")
      using la by (simp add: fin3_def add.commute)
    have l3: "length fin3 = length fin + x + y" using la le by (simp add: fin3_def)
    have ln3: "length ?new3 = length new" using l3 sz(1) by simp
    have es1': "FillBuffer B ?new2 (int (length fin) + int x) (int y) es = Some (0, ?new3, es1)"
      using es1(1) new3 by simp
    have l3i: "int (length fin3) = int (length fin) + int x + int y" using l3 by simp
    have g: "(int (length fin) + int x > int (length new)) = False"
      "(int (length fin) + int x + int y > int (length new)) = False" using sz(1) by simp_all
    have step: "bspatch_loop B old (int (length new)) cs ds es new oldpos (int (length fin)) =
        bspatch_loop B old (int (length ?new3)) cs1 ds1 es1 ?new3 (oldpos + int x + z) (int (length fin3))"
      unfolding bspatch_loop.simps [of B old "int (length new)" cs ds es new oldpos "int (length fin)"]
        cs1(1) ds1(1) e(2-4) [folded t] nat_int add ln3 l3i
      using lt g es1' by (simp only: bind.bind_lunit prod.case Let_def nat_int add es1' cs1(1) ds1(1) e(2-4) [folded t]
          if_False if_True simp_thms of_nat_less_iff)
    have "bspatch_loop B old (int (length ?new3)) cs1 ds1 es1 ?new3 (oldpos + int x + z) (int (length fin3))
        = Some (0, fin3 @ rebuild old ts (content ds1) (content es1) (oldpos + int x + z))"
    proof (rule Cons.IH)
      show "\<forall>t\<in>set ts. triple_ok t" using Cons.prems(1) by simp
      show "\<exists>rest. content cs1 = concat (map enc_triple ts) @ rest" using cs1(2) by blast
      show "diff_total ts \<le> length (content ds1)" using ds1(2) Cons.prems(3) tot by simp
      show "extra_total ts \<le> length (content es1)" using es1(2) Cons.prems(4) tot by simp
      show "length ?new3 = length fin3 + (diff_total ts + extra_total ts)"
        using Cons.prems(5) tot l3 ln3 by simp
      show "length ?new3 < 2 ^ 31" using ln3 Cons.prems(6) by simp
      show "take (length fin3) ?new3 = fin3" by simp
    qed
    then show ?thesis unfolding step by (simp add: t fin3_def ds1(2) es1(2))
  qed
qed

subsection \<open>A whole patch\<close>

definition bsdiff_file :: "bytes \<Rightarrow> bytes \<Rightarrow> bytes \<Rightarrow> nat \<Rightarrow> bytes" where
  "bsdiff_file c d e new_size =
     BSDIFF_MAGIC @ enc8 (int (length c)) @ enc8 (int (length d)) @ enc8 (int new_size) @ c @ d @ e"

lemma open_stream_ok:
  "length pre = n \<Longrightarrow> length c < 2 ^ 32 \<Longrightarrow>
   open_stream B (pre @ c @ post) (int n) (int (length c)) = Some (snd (bz_init B c))"
  by (simp add: open_stream_def unsigned_of_nat take_bit_nat_eq_self mem_simps)

lemma header_fields:
  fixes pre e :: bytes
  assumes "length c < 2 ^ 32" "length d < 2 ^ 32" "n < 2 ^ 31"
  defines "p \<equiv> pre @ bsdiff_file c d e n"
  shows "rd_slice p (length pre) 8 = Some BSDIFF_MAGIC"
    "offtin p (length pre + 8) = Some (int (length c))" "offtin p (length pre + 16) = Some (int (length d))"
    "offtin p (length pre + 24) = Some (int n)" "length p = length pre + 32 + length c + length d + length e"
proof -
  have b: "\<bar>int (length c)\<bar> < 2 ^ 63" "\<bar>int (length d)\<bar> < 2 ^ 63" "\<bar>int n\<bar> < 2 ^ 63" using assms by simp_all
  note l = enc8_ok(1) [OF b(1)] enc8_ok(1) [OF b(2)] enc8_ok(1) [OF b(3)]
  have m: "length BSDIFF_MAGIC = 8" by (simp add: BSDIFF_MAGIC_def)
  show "rd_slice p (length pre) 8 = Some BSDIFF_MAGIC"
    by (simp add: p_def bsdiff_file_def rd_slice_def m)
  show "offtin p (length pre + 8) = Some (int (length c))"
    using enc8_ok(2) [OF b(1), of "pre @ BSDIFF_MAGIC"] by (simp add: p_def bsdiff_file_def m)
  show "offtin p (length pre + 16) = Some (int (length d))"
    using enc8_ok(2) [OF b(2), of "pre @ BSDIFF_MAGIC @ enc8 (int (length c))"]
    by (simp add: p_def bsdiff_file_def m l add.assoc)
  show "offtin p (length pre + 24) = Some (int n)"
    using enc8_ok(2) [OF b(3), of "pre @ BSDIFF_MAGIC @ enc8 (int (length c)) @ enc8 (int (length d))"]
    by (simp add: p_def bsdiff_file_def m l add.assoc)
  show "length p = length pre + 32 + length c + length d + length e"
    by (simp add: p_def bsdiff_file_def m l)
qed

lemma bspatch_mem_ok:
  assumes "bz_law B content" "\<forall>t\<in>set ts. triple_ok t"
    and "content (snd (bz_init B c)) = concat (map enc_triple ts) @ rest"
    and "diff_total ts \<le> length (content (snd (bz_init B d)))"
    and "extra_total ts \<le> length (content (snd (bz_init B e)))"
    and "diff_total ts + extra_total ts < 2 ^ 31"
    and "length c < 2 ^ 32" "length d < 2 ^ 32" "length e < 2 ^ 32" "\<And>n. alloc n"
  shows "ApplyBSDiffPatchMem B alloc old (pre @ bsdiff_file c d e (diff_total ts + extra_total ts)) (length pre) =
    Some (0, rebuild old ts (content (snd (bz_init B d))) (content (snd (bz_init B e))) 0)"
proof -
  let ?n = "diff_total ts + extra_total ts"
  define p where "p = pre @ bsdiff_file c d e ?n"
  note h = header_fields [OF assms(7,8,6), of pre e, folded p_def]
  define h32 where "h32 = pre @ BSDIFF_MAGIC @ enc8 (int (length c)) @ enc8 (int (length d)) @ enc8 (int ?n)"
  have p: "p = h32 @ c @ d @ e" by (simp add: p_def h32_def bsdiff_file_def)
  have l32: "length h32 = length pre + 32" using h(5) p by simp
  have cs: "open_stream B p (int (length pre) + 32) (int (length c)) = Some (snd (bz_init B c))"
    using open_stream_ok [OF l32 assms(7), of B "d @ e"] by (simp add: p)
  have ds: "open_stream B p (int (length pre) + 32 + int (length c)) (int (length d)) = Some (snd (bz_init B d))"
    using open_stream_ok [OF _ assms(8), of "h32 @ c" "length h32 + length c" B e] by (simp add: p l32)
  have es: "open_stream B p (int (length pre) + 32 + int (length c) + int (length d))
      (int (length p) - (int (length pre) + 32 + int (length c) + int (length d))) = Some (snd (bz_init B e))"
    using open_stream_ok [OF _ assms(9), of "h32 @ c @ d" "length h32 + length c + length d" B "[]"]
    by (simp add: p l32 algebra_simps)
  have "bspatch_loop B old (int ?n) (snd (bz_init B c)) (snd (bz_init B d)) (snd (bz_init B e)) (replicate ?n 0) 0 0
      = Some (0, rebuild old ts (content (snd (bz_init B d))) (content (snd (bz_init B e))) 0)"
    using bspatch_loop_ok [OF assms(1,2) _ assms(4,5), of "snd (bz_init B c)" "replicate ?n 0" "[]" old 0] assms(3,6)
    by simp
  then have "ApplyBSDiffPatchMem B alloc old p (length pre) =
    Some (0, rebuild old ts (content (snd (bz_init B d))) (content (snd (bz_init B e))) 0)"
    by (simp add: ApplyBSDiffPatchMem_def h(1-4) cs ds es assms(10) nat_int_add)
  then show ?thesis by (simp add: p_def)
qed

subsection \<open>Properties\<close>


text \<open>A decompressor for blocks that are not compressed.\<close>

definition plain_bz :: "bytes bzip2" where
  "plain_bz = \<lparr>bz_init = (\<lambda>c. (0, c)), bz_decompress = (\<lambda>s n. (0, take n s, drop n s))\<rparr>"

lemma plain_bz_law: "bz_law plain_bz (\<lambda>s. s)"
  by (auto simp: bz_law_def plain_bz_def BZ_OK_def)


end
