(* ===== verification/ImgPatch.thy ===== *)
theory ImgPatch
  imports Prelude ByteOrder ZipExtract BsPatch
begin

text \<open>
  Applying image patches: \<open>applypatch/imgpatch.c\<close> with the chunk types of \<open>applypatch/imgdiff.h\<close>.

  bzip2 and zlib are parameters: inflating is the record \<open>zlib\<close> of \<open>ZipExtract\<close> with the flush mode fixed
  to the one the code uses, deflating the record \<open>deflater\<close>.  The sink and the hash are parameters too; a hash
  context \<open>None\<close> is NULL.  Handing zlib a source range outside the old data is undefined behaviour.
\<close>

record 'd deflater =
  deflateInit2 :: "int \<Rightarrow> int \<Rightarrow> int \<Rightarrow> int \<Rightarrow> int \<Rightarrow> bytes \<Rightarrow> 'd"
  deflate :: "'d \<Rightarrow> nat \<Rightarrow> int \<times> bytes \<times> 'd"

record ('s, 'z, 'd, 't, 'c) patch_env =
  env_bz :: "'s bzip2"
  env_inflate :: "'z zlib"
  env_deflate :: "'d deflater"
  env_alloc :: "nat \<Rightarrow> bool"
  env_sink :: "bytes \<Rightarrow> 't \<Rightarrow> int \<times> 't"
  env_sha :: "'c \<Rightarrow> bytes \<Rightarrow> 'c"

definition IMGDIFF_MAGIC :: bytes where
  "IMGDIFF_MAGIC = [0x49, 0x4d, 0x47, 0x44, 0x49, 0x46, 0x46, 0x32]"

definition CHUNK_NORMAL :: u32 where "CHUNK_NORMAL = 0"
definition CHUNK_DEFLATE :: u32 where "CHUNK_DEFLATE = 2"
definition CHUNK_RAW :: u32 where "CHUNK_RAW = 3"

text \<open>
  What processing a chunk does to the loop: it fails with a code, or goes on with the next
  position; the sink's token and the hash context are as they were left.
\<close>

datatype ('t, 'c) chunk_step = Chunk_fail int 't "'c option" | Chunk_next nat 't "'c option"

text \<open>The code does not look at the result of \<open>ApplyBSDiffPatch\<close>.\<close>

definition normal_chunk ::
  "('s, 'z, 'd, 't, 'c) patch_env \<Rightarrow> bytes \<Rightarrow> bytes \<Rightarrow> nat \<Rightarrow> 't \<Rightarrow> 'c option \<Rightarrow> ('t, 'c) chunk_step ub" where
  "normal_chunk E old patch pos token ctx =
     (if pos + 24 > length patch then Some (Chunk_fail (- 1) token ctx)
      else do {
        src_start \<leftarrow> Read8 patch pos;
        src_len \<leftarrow> Read8 patch (pos + 8);
        patch_offset \<leftarrow> Read8 patch (pos + 16);
        src \<leftarrow> rd_slice old (unat src_start) (unat src_len);
        (err, token1, ctx1) \<leftarrow> ApplyBSDiffPatch (env_bz E) (env_alloc E) (env_sink E) (env_sha E)
                                   src patch (unat patch_offset) token ctx;
        Some (Chunk_next (pos + 24) token1 ctx1) })"

definition raw_chunk ::
  "('s, 'z, 'd, 't, 'c) patch_env \<Rightarrow> bytes \<Rightarrow> nat \<Rightarrow> 't \<Rightarrow> 'c option \<Rightarrow> ('t, 'c) chunk_step ub" where
  "raw_chunk E patch pos token ctx =
     (if pos + 4 > length patch then Some (Chunk_fail (- 1) token ctx)
      else do {
        v \<leftarrow> Read4 patch pos;
        let data_len = sint v;
        if int (pos + 4) + data_len > int (length patch) then Some (Chunk_fail (- 1) token ctx)
        else if data_len < 0 then None
        else do {
          raw \<leftarrow> rd_slice patch (pos + 4) (nat data_len);
          c \<leftarrow> ctx;
          let c1 = env_sha E c raw;
          let (wrote, token1) = env_sink E raw token;
          Some (if wrote \<noteq> data_len then Chunk_fail (- 1) token1 (Some c1)
                else Chunk_next (pos + 4 + nat data_len) token1 (Some c1)) }})"

text \<open>Compressing the target into a buffer of \<open>temp_size\<close> bytes, over and over.\<close>

partial_function (option) deflate_loop ::
  "('s, 'z, 'd, 't, 'c) patch_env \<Rightarrow> nat \<Rightarrow> 'd \<Rightarrow> 't \<Rightarrow> 'c option \<Rightarrow> (bool \<times> 't \<times> 'c option) ub" where
  "deflate_loop E temp_size d token ctx =
     (let (ret, have', d1) = deflate (env_deflate E) d temp_size;
          (wrote, token1) = env_sink E have' token
      in if wrote \<noteq> int (length have') then Some (False, token1, ctx)
         else do { c \<leftarrow> ctx;
                   let c1 = env_sha E c have';
                   if ret \<noteq> Z_STREAM_END then deflate_loop E temp_size d1 token1 (Some c1)
                   else Some (True, token1, Some c1) })"

text \<open>\<open>avail_in\<close> and \<open>avail_out\<close> are unsigned \<open>int\<close>s.\<close>

definition uint_of_size :: "nat \<Rightarrow> nat" where
  "uint_of_size n = unat (word_of_nat n :: u32)"

text \<open>Inflating the source range to exactly the announced length.\<close>

definition expand_source ::
  "('s, 'z, 'd, 't, 'c) patch_env \<Rightarrow> bytes \<Rightarrow> nat \<Rightarrow> nat \<Rightarrow> nat \<Rightarrow> bytes option ub" where
  "expand_source E old src_start src_len expanded_len =
     (if \<not> env_alloc E expanded_len then Some None
      else do {
        src \<leftarrow> rd_slice old src_start (uint_of_size src_len);
        let (ret, z) = inflateInit2 (env_inflate E);
        if ret \<noteq> Z_OK then Some None
        else let (ret, used, out, z1) = inflate (env_inflate E) z src (uint_of_size expanded_len)
             in Some (if ret \<noteq> Z_STREAM_END then None
                      else if length out \<noteq> uint_of_size expanded_len then None
                      else Some (out @ replicate (expanded_len - length out) 0)) })"

definition deflate_chunk ::
  "('s, 'z, 'd, 't, 'c) patch_env \<Rightarrow> bytes \<Rightarrow> bytes \<Rightarrow> nat \<Rightarrow> 't \<Rightarrow> 'c option \<Rightarrow> ('t, 'c) chunk_step ub" where
  "deflate_chunk E old patch pos token ctx =
     (if pos + 60 > length patch then Some (Chunk_fail (- 1) token ctx)
      else do {
        src_start \<leftarrow> Read8 patch pos;
        src_len \<leftarrow> Read8 patch (pos + 8);
        patch_offset \<leftarrow> Read8 patch (pos + 16);
        expanded_len \<leftarrow> Read8 patch (pos + 24);
        target_len \<leftarrow> Read8 patch (pos + 32);
        level \<leftarrow> Read4 patch (pos + 40);
        method \<leftarrow> Read4 patch (pos + 44);
        windowBits \<leftarrow> Read4 patch (pos + 48);
        memLevel \<leftarrow> Read4 patch (pos + 52);
        strategy \<leftarrow> Read4 patch (pos + 56);
        expanded \<leftarrow> expand_source E old (unat src_start) (unat src_len) (unat expanded_len);
        case expanded of
          None \<Rightarrow> Some (Chunk_fail (- 1) token ctx)
        | Some expanded_source \<Rightarrow> do {
            (err, target) \<leftarrow> ApplyBSDiffPatchMem (env_bz E) (env_alloc E) expanded_source patch (unat patch_offset);
            if err \<noteq> 0 then Some (Chunk_fail (- 1) token ctx)
            else do {
              let temp_size = max 32768 (unat expanded_len);
              let d = deflateInit2 (env_deflate E) (sint level) (sint method) (sint windowBits) (sint memLevel)
                        (sint strategy) (take (uint_of_size (length target)) target);
              (ok, token1, ctx1) \<leftarrow> deflate_loop E temp_size d token ctx;
              Some (if ok then Chunk_next (pos + 60) token1 ctx1 else Chunk_fail (- 1) token1 ctx1) }}})"

definition image_chunk ::
  "('s, 'z, 'd, 't, 'c) patch_env \<Rightarrow> bytes \<Rightarrow> bytes \<Rightarrow> nat \<Rightarrow> 't \<Rightarrow> 'c option \<Rightarrow> ('t, 'c) chunk_step ub" where
  "image_chunk E old patch pos token ctx =
     (if pos + 4 > length patch then Some (Chunk_fail (- 1) token ctx)
      else do {
        type' \<leftarrow> Read4 patch pos;
        if type' = CHUNK_NORMAL then normal_chunk E old patch (pos + 4) token ctx
        else if type' = CHUNK_RAW then raw_chunk E patch (pos + 4) token ctx
        else if type' = CHUNK_DEFLATE then deflate_chunk E old patch (pos + 4) token ctx
        else Some (Chunk_fail (- 1) token ctx) })"

text \<open>The loop over the remaining \<open>n\<close> chunks.\<close>

fun image_loop ::
  "('s, 'z, 'd, 't, 'c) patch_env \<Rightarrow> bytes \<Rightarrow> bytes \<Rightarrow> nat \<Rightarrow> nat \<Rightarrow> 't \<Rightarrow> 'c option
     \<Rightarrow> (int \<times> 't \<times> 'c option) ub" where
  "image_loop E old patch 0 pos token ctx = Some (0, token, ctx)"
| "image_loop E old patch (Suc n) pos token ctx =
     do { step \<leftarrow> image_chunk E old patch pos token ctx;
          case step of
            Chunk_fail e token1 ctx1 \<Rightarrow> Some (e, token1, ctx1)
          | Chunk_next pos1 token1 ctx1 \<Rightarrow> image_loop E old patch n pos1 token1 ctx1 }"

definition ApplyImagePatch ::
  "('s, 'z, 'd, 't, 'c) patch_env \<Rightarrow> bytes \<Rightarrow> bytes \<Rightarrow> 't \<Rightarrow> 'c option \<Rightarrow> (int \<times> 't \<times> 'c option) ub" where
  "ApplyImagePatch E old patch token ctx =
     (if length patch < 12 then Some (- 1, token, ctx)
      else if take 8 patch \<noteq> IMGDIFF_MAGIC then Some (- 1, token, ctx)
      else do { num_chunks \<leftarrow> Read4 patch 8;
                image_loop E old patch (nat (sint num_chunks)) 12 token ctx })"

subsection \<open>What an image patch means\<close>

definition le4 :: "u32 \<Rightarrow> bytes" where "le4 v = Write4 v []"
definition le8 :: "u64 \<Rightarrow> bytes" where "le8 v = Write8 v []"

lemma le_length [simp]: "length (le4 v) = 4" "length (le8 w) = 8"
  by (simp_all add: le4_def le8_def Write4_length Write8_length)

lemma Read4_at: "length pre = n \<Longrightarrow> Read4 (pre @ le4 v @ post) n = Some v"
  using Read4_Write4_eq [of v pre]
  by (auto simp: Read4_def Write4_def le4_def rd_def nth_append)

lemma Read8_at: "length pre = n \<Longrightarrow> Read8 (pre @ le8 v @ post) n = Some v"
  using Read8_Write8_eq [of v pre]
  by (auto simp: Read8_def Write8_def le8_def rd_def nth_append)

text \<open>
  A chunk of an image patch with the blocks it adds to the output: source range, offset of the bsdiff patch
  and, for a deflate chunk, expanded and target length and the five parameters of \<open>deflateInit2\<close>.
\<close>

datatype chunk =
    Normal_chunk nat nat nat bytes
  | Raw_chunk bytes
  | Deflate_chunk nat nat nat nat nat "u32 \<times> u32 \<times> u32 \<times> u32 \<times> u32" "bytes list"

fun enc_chunk :: "chunk \<Rightarrow> bytes" where
  "enc_chunk (Normal_chunk s l p out) =
     le4 CHUNK_NORMAL @ le8 (word_of_nat s) @ le8 (word_of_nat l) @ le8 (word_of_nat p)"
| "enc_chunk (Raw_chunk bs) = le4 CHUNK_RAW @ le4 (word_of_nat (length bs)) @ bs"
| "enc_chunk (Deflate_chunk s l p x t (a, b, c, d, e) outs) =
     le4 CHUNK_DEFLATE @ le8 (word_of_nat s) @ le8 (word_of_nat l) @ le8 (word_of_nat p) @ le8 (word_of_nat x) @
     le8 (word_of_nat t) @ le4 a @ le4 b @ le4 c @ le4 d @ le4 e"

fun chunk_out :: "chunk \<Rightarrow> bytes list" where
  "chunk_out (Normal_chunk s l p out) = [out]"
| "chunk_out (Raw_chunk bs) = [bs]"
| "chunk_out (Deflate_chunk s l p x t ps outs) = outs"

text \<open>Giving a block to the sink and to the hash.\<close>

definition emit :: "('s, 'z, 'd, 't, 'c) patch_env \<Rightarrow> bytes \<Rightarrow> 't \<times> 'c \<Rightarrow> 't \<times> 'c" where
  "emit E bs = (\<lambda>(t, c). (snd (env_sink E bs t), env_sha E c bs))"

definition emit_all :: "('s, 'z, 'd, 't, 'c) patch_env \<Rightarrow> bytes list \<Rightarrow> 't \<times> 'c \<Rightarrow> 't \<times> 'c" where
  "emit_all E outs tc = fold (emit E) outs tc"

definition sink_writes_all :: "('s, 'z, 'd, 't, 'c) patch_env \<Rightarrow> bool" where
  "sink_writes_all E \<longleftrightarrow> (\<forall>bs t. fst (env_sink E bs t) = int (length bs))"

text \<open>
  The blocks of a chunk are those its parts produce: the bsdiff patch at the chunk's offset applied to the source
  range, for a deflate chunk to its inflated contents and then compressed again.
\<close>

fun chunk_good :: "('s, 'z, 'd, 't, 'c) patch_env \<Rightarrow> bytes \<Rightarrow> bytes \<Rightarrow> chunk \<Rightarrow> bool" where
  "chunk_good E old patch (Normal_chunk s l p out) \<longleftrightarrow>
     s + l \<le> length old \<and> s + l < 2 ^ 64 \<and> p < 2 ^ 64 \<and>
     ApplyBSDiffPatchMem (env_bz E) (env_alloc E) (take l (drop s old)) patch p = Some (0, out)"
| "chunk_good E old patch (Raw_chunk bs) \<longleftrightarrow> length bs < 2 ^ 31"
| "chunk_good E old patch (Deflate_chunk s l p x t (a, b, c, d, e) outs) \<longleftrightarrow>
     s < 2 ^ 64 \<and> l < 2 ^ 64 \<and> p < 2 ^ 64 \<and> x < 2 ^ 64 \<and>
     (\<exists>src target. expand_source E old s l x = Some (Some src) \<and>
        ApplyBSDiffPatchMem (env_bz E) (env_alloc E) src patch p = Some (0, target) \<and>
        (\<forall>tk ct. deflate_loop E (max 32768 x)
              (deflateInit2 (env_deflate E) (sint a) (sint b) (sint c) (sint d) (sint e)
                (take (uint_of_size (length target)) target)) tk (Some ct) =
           Some (True, fst (emit_all E outs (tk, ct)), Some (snd (emit_all E outs (tk, ct))))))"

lemma word64 [simp]: "n < 2 ^ 64 \<Longrightarrow> unat (word_of_nat n :: u64) = n"
  by (simp add: unsigned_of_nat take_bit_nat_eq_self)

lemma sint32: "n < 2 ^ 31 \<Longrightarrow> sint (word_of_nat n :: u32) = int n"
  using int_word_sint [where 'a = 32, of "int n"] by simp

lemma image_chunk_ok:
  assumes "chunk_good E old (pre @ enc_chunk ch @ post) ch" "sink_writes_all E"
  shows "image_chunk E old (pre @ enc_chunk ch @ post) (length pre) tk (Some ct) =
    Some (Chunk_next (length pre + length (enc_chunk ch)) (fst (emit_all E (chunk_out ch) (tk, ct)))
                     (Some (snd (emit_all E (chunk_out ch) (tk, ct)))))"
proof (cases ch)
  case (Normal_chunk s l p out)
  let ?p = "pre @ enc_chunk ch @ post"
  have p: "?p = pre @ le4 CHUNK_NORMAL @ le8 (word_of_nat s) @ le8 (word_of_nat l) @ le8 (word_of_nat p) @ post"
    by (simp add: Normal_chunk)
  have rd: "Read4 ?p (length pre) = Some CHUNK_NORMAL" "Read8 ?p (length pre + 4) = Some (word_of_nat s)"
    "Read8 ?p (length pre + 4 + 8) = Some (word_of_nat l)" "Read8 ?p (length pre + 4 + 16) = Some (word_of_nat p)"
    unfolding p
    using Read4_at [of pre "length pre" CHUNK_NORMAL] Read8_at [of "pre @ le4 CHUNK_NORMAL" "length pre + 4" "word_of_nat s"]
      Read8_at [of "pre @ le4 CHUNK_NORMAL @ le8 (word_of_nat s)" "length pre + 4 + 8" "word_of_nat l"]
      Read8_at [of "pre @ le4 CHUNK_NORMAL @ le8 (word_of_nat s) @ le8 (word_of_nat l)" "length pre + 4 + 16" "word_of_nat p"]
    by simp_all
  have len: "length (enc_chunk ch) = 28" "length pre + 4 \<le> length ?p" "length pre + 4 + 24 \<le> length ?p"
    by (simp_all add: Normal_chunk)
  have g: "s + l \<le> length old" "s < 2 ^ 64" "l < 2 ^ 64" "p < 2 ^ 64"
    "ApplyBSDiffPatchMem (env_bz E) (env_alloc E) (take l (drop s old)) ?p p = Some (0, out)"
    using assms(1) by (simp_all add: Normal_chunk)
  have "image_chunk E old ?p (length pre) tk (Some ct) = normal_chunk E old ?p (length pre + 4) tk (Some ct)"
    using len(2) by (simp add: image_chunk_def rd(1) CHUNK_NORMAL_def CHUNK_RAW_def CHUNK_DEFLATE_def)
  also have "\<dots> = Some (Chunk_next (length pre + 28) (snd (env_sink E out tk)) (Some (env_sha E ct out)))"
  proof -
    obtain tk1 where sk: "env_sink E out tk = (int (length out), tk1)"
      using assms(2) unfolding sink_writes_all_def by (metis prod.collapse)
    have src: "rd_slice old s l = Some (take l (drop s old))" using g(1) by (simp add: rd_slice_in)
    show ?thesis
      unfolding normal_chunk_def rd(2-4) bind.bind_lunit word64 [OF g(2)] word64 [OF g(3)] word64 [OF g(4)] src
        ApplyBSDiffPatch_def g(5) prod.case Let_def
      using len(3) by (simp add: sk)
  qed
  finally show ?thesis using len(1) by (simp add: Normal_chunk emit_all_def emit_def)
next
  case (Raw_chunk bs)
  let ?p = "pre @ enc_chunk ch @ post"
  have p: "?p = pre @ le4 CHUNK_RAW @ le4 (word_of_nat (length bs)) @ bs @ post" by (simp add: Raw_chunk)
  have rd: "Read4 ?p (length pre) = Some CHUNK_RAW" "Read4 ?p (length pre + 4) = Some (word_of_nat (length bs))"
    "rd_slice ?p (length pre + 4 + 4) (length bs) = Some bs"
    unfolding p
    using Read4_at [of pre "length pre" CHUNK_RAW]
      Read4_at [of "pre @ le4 CHUNK_RAW" "length pre + 4" "word_of_nat (length bs)"]
    by (simp_all add: rd_slice_def)
  have b: "length bs < 2 ^ 31" using assms(1) by (simp add: Raw_chunk)
  have len: "length (enc_chunk ch) = 8 + length bs" "length pre + 4 \<le> length ?p" "length pre + 4 + 4 \<le> length ?p"
    "length pre + 4 + 4 + length bs \<le> length ?p" by (simp_all add: Raw_chunk)
  have "image_chunk E old ?p (length pre) tk (Some ct) = raw_chunk E ?p (length pre + 4) tk (Some ct)"
    using len(2) by (simp add: image_chunk_def rd(1) CHUNK_NORMAL_def CHUNK_RAW_def CHUNK_DEFLATE_def)
  also have "\<dots> = Some (Chunk_next (length pre + 8 + length bs) (snd (env_sink E bs tk)) (Some (env_sha E ct bs)))"
  proof -
    obtain tk1 where sk: "env_sink E bs tk = (int (length bs), tk1)"
      using assms(2) unfolding sink_writes_all_def by (metis prod.collapse)
    show ?thesis
      unfolding raw_chunk_def rd(2) bind.bind_lunit sint32 [OF b] Let_def nat_int rd(3) sk prod.case
      using len(3,4) by simp
  qed
  finally show ?thesis using len(1) by (simp add: Raw_chunk emit_all_def emit_def)
next
  case (Deflate_chunk s l p x t ps outs)
  obtain a b c d e where ps: "ps = (a, b, c, d, e)" by (cases ps)
  let ?p = "pre @ enc_chunk ch @ post"
  let ?h = "le4 CHUNK_DEFLATE" and ?w = "\<lambda>n. le8 (word_of_nat n)"
  have p: "?p = pre @ ?h @ ?w s @ ?w l @ ?w p @ ?w x @ ?w t @ le4 a @ le4 b @ le4 c @ le4 d @ le4 e @ post"
    by (simp add: Deflate_chunk ps)
  let ?q = "length pre + 4"
  have rd8: "Read8 ?p ?q = Some (word_of_nat s)" "Read8 ?p (?q + 8) = Some (word_of_nat l)"
    "Read8 ?p (?q + 16) = Some (word_of_nat p)" "Read8 ?p (?q + 24) = Some (word_of_nat x)"
    "Read8 ?p (?q + 32) = Some (word_of_nat t)"
    unfolding p
    using Read8_at [of "pre @ ?h" ?q "word_of_nat s"] Read8_at [of "pre @ ?h @ ?w s" "?q + 8" "word_of_nat l"]
      Read8_at [of "pre @ ?h @ ?w s @ ?w l" "?q + 16" "word_of_nat p"]
      Read8_at [of "pre @ ?h @ ?w s @ ?w l @ ?w p" "?q + 24" "word_of_nat x"]
      Read8_at [of "pre @ ?h @ ?w s @ ?w l @ ?w p @ ?w x" "?q + 32" "word_of_nat t"]
    by simp_all
  let ?r = "pre @ ?h @ ?w s @ ?w l @ ?w p @ ?w x @ ?w t"
  have rd4: "Read4 ?p (length pre) = Some CHUNK_DEFLATE" "Read4 ?p (?q + 40) = Some a" "Read4 ?p (?q + 44) = Some b"
    "Read4 ?p (?q + 48) = Some c" "Read4 ?p (?q + 52) = Some d" "Read4 ?p (?q + 56) = Some e"
    unfolding p
    using Read4_at [of pre "length pre" CHUNK_DEFLATE] Read4_at [of ?r "?q + 40" a] Read4_at [of "?r @ le4 a" "?q + 44" b]
      Read4_at [of "?r @ le4 a @ le4 b" "?q + 48" c] Read4_at [of "?r @ le4 a @ le4 b @ le4 c" "?q + 52" d]
      Read4_at [of "?r @ le4 a @ le4 b @ le4 c @ le4 d" "?q + 56" e]
    by simp_all
  have len: "length (enc_chunk ch) = 64" "?q \<le> length ?p" "?q + 60 \<le> length ?p" by (simp_all add: Deflate_chunk ps)
  obtain src target where g: "s < 2 ^ 64" "l < 2 ^ 64" "p < 2 ^ 64" "x < 2 ^ 64"
    "expand_source E old s l x = Some (Some src)"
    "ApplyBSDiffPatchMem (env_bz E) (env_alloc E) src ?p p = Some (0, target)"
    "\<And>tk ct. deflate_loop E (max 32768 x) (deflateInit2 (env_deflate E) (sint a) (sint b) (sint c) (sint d) (sint e)
        (take (uint_of_size (length target)) target)) tk (Some ct) =
       Some (True, fst (emit_all E outs (tk, ct)), Some (snd (emit_all E outs (tk, ct))))"
    using assms(1) by (auto simp: Deflate_chunk ps)
  have "image_chunk E old ?p (length pre) tk (Some ct) = deflate_chunk E old ?p ?q tk (Some ct)"
    using len(2) by (simp add: image_chunk_def rd4(1) CHUNK_NORMAL_def CHUNK_RAW_def CHUNK_DEFLATE_def)
  also have "\<dots> = Some (Chunk_next (length pre + 64) (fst (emit_all E outs (tk, ct))) (Some (snd (emit_all E outs (tk, ct)))))"
    unfolding deflate_chunk_def rd8 rd4(2-6) bind.bind_lunit word64 [OF g(1)] word64 [OF g(2)] word64 [OF g(3)]
      word64 [OF g(4)] g(5)
    using len(3) by (simp add: g(6,7))
  finally show ?thesis using len(1) by (simp add: Deflate_chunk)
qed

lemma image_loop_ok:
  assumes "sink_writes_all E"
  shows "\<forall>ch\<in>set chs. chunk_good E old (pre @ concat (map enc_chunk chs) @ post) ch \<Longrightarrow>
    image_loop E old (pre @ concat (map enc_chunk chs) @ post) (length chs) (length pre) (fst tc) (Some (snd tc)) =
      Some (0, fst (emit_all E (concat (map chunk_out chs)) tc), Some (snd (emit_all E (concat (map chunk_out chs)) tc)))"
proof (induction chs arbitrary: pre tc)
  case Nil
  then show ?case by (simp add: emit_all_def)
next
  case (Cons ch chs)
  let ?p = "pre @ concat (map enc_chunk (ch # chs)) @ post"
  have p: "?p = pre @ enc_chunk ch @ (concat (map enc_chunk chs) @ post)"
    "?p = (pre @ enc_chunk ch) @ concat (map enc_chunk chs) @ post" by simp_all
  have g: "chunk_good E old (pre @ enc_chunk ch @ (concat (map enc_chunk chs) @ post)) ch"
    using Cons.prems unfolding p(1) by simp
  have gs: "\<forall>ch'\<in>set chs. chunk_good E old ((pre @ enc_chunk ch) @ concat (map enc_chunk chs) @ post) ch'"
    using Cons.prems unfolding p(2) by simp
  obtain tk ct where tc: "tc = (tk, ct)" by (cases tc)
  have "image_chunk E old ?p (length pre) tk (Some ct) =
    Some (Chunk_next (length pre + length (enc_chunk ch)) (fst (emit_all E (chunk_out ch) tc))
                     (Some (snd (emit_all E (chunk_out ch) tc))))"
    unfolding p(1) tc by (rule image_chunk_ok [OF g assms])
  then have "image_loop E old ?p (length (ch # chs)) (length pre) (fst tc) (Some (snd tc)) =
      image_loop E old ?p (length chs) (length (pre @ enc_chunk ch)) (fst (emit_all E (chunk_out ch) tc))
        (Some (snd (emit_all E (chunk_out ch) tc)))"
    by (simp add: tc)
  also have "\<dots> = Some (0, fst (emit_all E (concat (map chunk_out chs)) (emit_all E (chunk_out ch) tc)),
      Some (snd (emit_all E (concat (map chunk_out chs)) (emit_all E (chunk_out ch) tc))))"
    unfolding p(2) by (rule Cons.IH [OF gs])
  finally show ?case by (simp add: emit_all_def)
qed

subsection \<open>Properties\<close>


text \<open>An environment that collects the output.\<close>

definition plain_env :: "(bytes, unit, unit, bytes, bytes) patch_env" where
  "plain_env = \<lparr>env_bz = plain_bz, env_inflate = one_shot,
     env_deflate = \<lparr>deflateInit2 = (\<lambda>a b c d e inp. ()), deflate = (\<lambda>d n. (1, [], ()))\<rparr>, env_alloc = (\<lambda>n. True),
     env_sink = (\<lambda>bs t. (int (length bs), t @ bs)), env_sha = (@)\<rparr>"


text \<open>
  C34: a bsdiff patch that fails inside a normal chunk goes unnoticed: the chunk is skipped without output and the loop
  goes on as after a success.
\<close>

theorem normal_chunk_ignores_failure:
  assumes "pos + 24 \<le> length patch" "Read8 patch pos = Some s" "Read8 patch (pos + 8) = Some l"
    "Read8 patch (pos + 16) = Some p" "unat s + unat l \<le> length old"
    "ApplyBSDiffPatchMem (env_bz E) (env_alloc E) (take (unat l) (drop (unat s) old)) patch (unat p) = Some (err, new)"
    "err \<noteq> 0"
  shows "normal_chunk E old patch pos token ctx = Some (Chunk_next (pos + 24) token ctx)"
  using assms by (simp add: normal_chunk_def rd_slice_in ApplyBSDiffPatch_def)

theorem normal_chunk_ignores_failure_witness:
  "normal_chunk plain_env [] (le8 0 @ le8 0 @ le8 8) 0 [9] (Some []) = Some (Chunk_next 24 [9] (Some []))"
proof -
  have r: "Read8 (le8 0 @ le8 0 @ le8 8) 0 = Some 0" "Read8 (le8 0 @ le8 0 @ le8 8) 8 = Some 0"
    "Read8 (le8 0 @ le8 0 @ le8 8) 16 = Some 8"
    using Read8_at [of "[]" 0 0 "le8 0 @ le8 8"] Read8_at [of "le8 0" 8 0 "le8 8"]
      Read8_at [of "le8 0 @ le8 0" 16 8 "[]"] by simp_all
  have z: "le8 0 = [0, 0, 0, 0, 0, 0, 0, 0]" by (simp add: le8_def Write8_def)
  have "ApplyBSDiffPatchMem plain_bz (\<lambda>n. True) [] (le8 0 @ le8 0 @ le8 8) 8 = Some (1, [])"
    by (simp add: ApplyBSDiffPatchMem_def rd_slice_def z BSDIFF_MAGIC_def)
  then show ?thesis
    using normal_chunk_ignores_failure [of 0 "le8 0 @ le8 0 @ le8 8" 0 0 8 "[]" plain_env 1 "[]" "[9]" "Some []"] r
    by (simp add: plain_env_def)
qed

end
