(* ===== verification/SuffixSort.thy ===== *)
theory SuffixSort
  imports Prelude
begin

text \<open>
  The suffix sort of \<open>applypatch/bsdiff.c\<close>: \<open>split\<close> and \<open>qsufsort\<close>.

  \<open>off_t\<close> values are \<open>int\<close>.  \<open>I\<close> and \<open>V\<close> are lists, every access is checked, and a loop that does not
  end is \<open>None\<close> like an access outside them.  Fresh memory holds zeros here; the code writes
  every place before it reads it.
\<close>

subsection \<open>Accesses with an \<open>off_t\<close> index\<close>

definition rdi :: "'a list \<Rightarrow> int \<Rightarrow> 'a ub" where
  "rdi m i = (if i < 0 then None else rd m (nat i))"

definition wri :: "'a list \<Rightarrow> int \<Rightarrow> 'a \<Rightarrow> 'a list ub" where
  "wri m i v = (if i < 0 then None else wr m (nat i) v)"

lemma rdi_in [mem_simps]: "0 \<le> i \<Longrightarrow> i < int (length m) \<Longrightarrow> rdi m i = Some (m ! nat i)"
  by (simp add: rdi_def rd_in nat_less_iff)

lemma wri_in [mem_simps]: "0 \<le> i \<Longrightarrow> i < int (length m) \<Longrightarrow> wri m i v = Some (m[nat i := v])"
  by (simp add: wri_def wr_in nat_less_iff)

text \<open>\<open>V[I[k]+h]\<close>.\<close>

definition key :: "int list \<Rightarrow> int list \<Rightarrow> int \<Rightarrow> int \<Rightarrow> int ub" where
  "key I V h k = do { p \<leftarrow> rdi I k; rdi V (p + h) }"

text \<open>\<open>tmp=I[a];I[a]=I[b];I[b]=tmp;\<close>\<close>

definition swap :: "int list \<Rightarrow> int \<Rightarrow> int \<Rightarrow> int list ub" where
  "swap I a b = do { tmp \<leftarrow> rdi I a; t \<leftarrow> rdi I b; I1 \<leftarrow> wri I a t; wri I1 b tmp }"

subsection \<open>Small groups\<close>

text \<open>One turn of \<open>for(i=1;k+i<start+len;i++)\<close>, and the loop, \<open>n\<close> turns.\<close>

definition least_step ::
  "int list \<Rightarrow> int \<Rightarrow> int \<Rightarrow> int \<Rightarrow> int \<times> int \<times> int list \<Rightarrow> (int \<times> int \<times> int list) ub" where
  "least_step V h k i s =
     (case s of (j, x, I) \<Rightarrow> do {
        v \<leftarrow> key I V h (k + i);
        let (j1, x1) = (if v < x then (0, v) else (j, x));
        if v = x1 then do { I1 \<leftarrow> swap I (k + j1) (k + i); Some (j1 + 1, x1, I1) }
        else Some (j1, x1, I) })"

fun least_loop ::
  "int list \<Rightarrow> int \<Rightarrow> int \<Rightarrow> nat \<Rightarrow> int \<Rightarrow> int \<times> int \<times> int list \<Rightarrow> (int \<times> int \<times> int list) ub" where
  "least_loop V h k 0 i s = Some s"
| "least_loop V h k (Suc n) i s = do { s1 \<leftarrow> least_step V h k i s; least_loop V h k n (i + 1) s1 }"

text \<open>\<open>for(i=0;i<n;i++) V[I[k+i]]=v\<close>.\<close>

fun rank_loop :: "int list \<Rightarrow> int \<Rightarrow> int \<Rightarrow> nat \<Rightarrow> int \<Rightarrow> int list \<Rightarrow> int list ub" where
  "rank_loop I k v 0 i V = Some V"
| "rank_loop I k v (Suc n) i V =
     do { p \<leftarrow> rdi I (k + i); V1 \<leftarrow> wri V p v; rank_loop I k v n (i + 1) V1 }"

text \<open>\<open>for(k=start;k<start+len;k+=j)\<close>, with \<open>en\<close> for \<open>start+len\<close>.\<close>

partial_function (option) select_loop :: "int \<Rightarrow> int \<Rightarrow> int \<Rightarrow> int list \<Rightarrow> int list \<Rightarrow> (int list \<times> int list) ub" where
  "select_loop en h k I V =
     (if k < en
      then do {
        x \<leftarrow> key I V h k;
        (j, x1, I1) \<leftarrow> least_loop V h k (nat (en - (k + 1))) 1 (1, x, I);
        V1 \<leftarrow> rank_loop I1 k (k + j - 1) (nat j) 0 V;
        I2 \<leftarrow> (if j = 1 then wri I1 k (- 1) else Some I1);
        select_loop en h (k + j) I2 V1 }
      else Some (I, V))"

subsection \<open>Large groups\<close>

text \<open>The numbers of keys below and equal to the pivot; \<open>n\<close> places are left.\<close>

fun count_loop :: "int list \<Rightarrow> int list \<Rightarrow> int \<Rightarrow> int \<Rightarrow> nat \<Rightarrow> int \<Rightarrow> int \<Rightarrow> int \<Rightarrow> (int \<times> int) ub" where
  "count_loop I V h x 0 i jj kk = Some (jj, kk)"
| "count_loop I V h x (Suc n) i jj kk =
     do { v \<leftarrow> key I V h i;
          count_loop I V h x n (i + 1) (if v < x then jj + 1 else jj) (if v = x then kk + 1 else kk) }"

text \<open>\<open>while(i<jj)\<close>: the result has \<open>j\<close>, \<open>k\<close> and \<open>I\<close>.\<close>

partial_function (option) low_loop ::
  "int list \<Rightarrow> int \<Rightarrow> int \<Rightarrow> int \<Rightarrow> int \<Rightarrow> int \<Rightarrow> int \<Rightarrow> int \<Rightarrow> int list \<Rightarrow> (int \<times> int \<times> int list) ub" where
  "low_loop V h x jj kk i j k I =
     (if i < jj
      then do {
        v \<leftarrow> key I V h i;
        if v < x then low_loop V h x jj kk (i + 1) j k I
        else if v = x
        then do { I1 \<leftarrow> swap I i (jj + j); low_loop V h x jj kk i (j + 1) k I1 }
        else do { I1 \<leftarrow> swap I i (kk + k); low_loop V h x jj kk i j (k + 1) I1 }}
      else Some (j, k, I))"

text \<open>\<open>while(jj+j<kk)\<close>.\<close>

partial_function (option) mid_loop ::
  "int list \<Rightarrow> int \<Rightarrow> int \<Rightarrow> int \<Rightarrow> int \<Rightarrow> int \<Rightarrow> int \<Rightarrow> int list \<Rightarrow> int list ub" where
  "mid_loop V h x jj kk j k I =
     (if jj + j < kk
      then do {
        v \<leftarrow> key I V h (jj + j);
        if v = x then mid_loop V h x jj kk (j + 1) k I
        else do { I1 \<leftarrow> swap I (jj + j) (kk + k); mid_loop V h x jj kk j (k + 1) I1 }}
      else Some I)"

partial_function (option) split_group ::
  "int \<Rightarrow> int \<Rightarrow> int \<Rightarrow> int list \<Rightarrow> int list \<Rightarrow> (int list \<times> int list) ub" where
  "split_group start len h I V =
     (if len < 16 then select_loop (start + len) h start I V
      else do {
        x \<leftarrow> key I V h (start + len div 2);
        (below, equal) \<leftarrow> count_loop I V h x (nat len) start 0 0;
        let jj = below + start;
        let kk = equal + jj;
        (j, k, I1) \<leftarrow> low_loop V h x jj kk start 0 0 I;
        I2 \<leftarrow> mid_loop V h x jj kk j k I1;
        (I3, V3) \<leftarrow> (if jj > start then split_group start (jj - start) h I2 V else Some (I2, V));
        V4 \<leftarrow> rank_loop I3 jj (kk - 1) (nat (kk - jj)) 0 V3;
        I4 \<leftarrow> (if jj = kk - 1 then wri I3 jj (- 1) else Some I3);
        if start + len > kk then split_group kk (start + len - kk) h I4 V4 else Some (I4, V4) })"

subsection \<open>The sort\<close>

text \<open>\<open>buckets[old[i]]++\<close> for every byte.\<close>

fun bucket_count :: "bytes \<Rightarrow> int list \<Rightarrow> int list" where
  "bucket_count [] b = b"
| "bucket_count (c # old) b = bucket_count old (b[unat c := b ! unat c + 1])"

fun bucket_sum :: "nat \<Rightarrow> nat \<Rightarrow> int list \<Rightarrow> int list" where
  "bucket_sum 0 i b = b"
| "bucket_sum (Suc n) i b = bucket_sum n (i + 1) (b[i := b ! i + b ! (i - 1)])"

text \<open>\<open>I[++buckets[old[i]]]=i\<close>.\<close>

fun bucket_place :: "bytes \<Rightarrow> int \<Rightarrow> int list \<Rightarrow> int list \<Rightarrow> (int list \<times> int list) ub" where
  "bucket_place [] i b I = Some (b, I)"
| "bucket_place (c # old) i b I =
     do { let b1 = b[unat c := b ! unat c + 1];
          I1 \<leftarrow> wri I (b1 ! unat c) i;
          bucket_place old (i + 1) b1 I1 }"

fun single_loop :: "nat \<Rightarrow> nat \<Rightarrow> int list \<Rightarrow> int list \<Rightarrow> int list ub" where
  "single_loop 0 i b I = Some I"
| "single_loop (Suc n) i b I =
     do { I1 \<leftarrow> (if b ! i = b ! (i - 1) + 1 then wri I (b ! i) (- 1) else Some I);
          single_loop n (i + 1) b I1 }"

text \<open>The pass over the groups for one \<open>h\<close>; \<open>en\<close> is \<open>oldsize+1\<close>.\<close>

partial_function (option) pass_loop ::
  "int \<Rightarrow> int \<Rightarrow> int \<Rightarrow> int \<Rightarrow> int list \<Rightarrow> int list \<Rightarrow> (int list \<times> int list) ub" where
  "pass_loop en h i len I V =
     (if i < en
      then do {
        p \<leftarrow> rdi I i;
        if p < 0 then pass_loop en h (i - p) (len - p) I V
        else do {
          I1 \<leftarrow> (if len \<noteq> 0 then wri I (i - len) (- len) else Some I);
          p1 \<leftarrow> rdi I1 i;
          v \<leftarrow> rdi V p1;
          let len1 = v + 1 - i;
          (I2, V2) \<leftarrow> split_group i len1 h I1 V;
          pass_loop en h (i + len1) 0 I2 V2 }}
      else do { I1 \<leftarrow> (if len \<noteq> 0 then wri I (i - len) (- len) else Some I); Some (I1, V) })"

partial_function (option) sort_loop :: "int \<Rightarrow> int \<Rightarrow> int list \<Rightarrow> int list \<Rightarrow> (int list \<times> int list) ub" where
  "sort_loop en h I V =
     do { p \<leftarrow> rdi I 0;
          if p \<noteq> - en
          then do { (I1, V1) \<leftarrow> pass_loop en h 0 0 I V; sort_loop en (h + h) I1 V1 }
          else Some (I, V) }"

text \<open>\<open>for(i=0;i<oldsize+1;i++) I[V[i]]=i\<close>.\<close>

fun invert_loop :: "int list \<Rightarrow> int \<Rightarrow> int list \<Rightarrow> int list ub" where
  "invert_loop [] i I = Some I"
| "invert_loop (v # V) i I = do { I1 \<leftarrow> wri I v i; invert_loop V (i + 1) I1 }"

definition qsufsort :: "bytes \<Rightarrow> int list ub" where
  "qsufsort old =
     do {
       let n = length old;
       let sums = bucket_sum 255 1 (bucket_count old (replicate 256 0));
       let starts = 0 # butlast sums;
       (b, I1) \<leftarrow> bucket_place old 0 starts (replicate (n + 1) 0);
       I2 \<leftarrow> wri I1 0 (int n);
       let V = map (\<lambda>c. b ! unat c) old @ [0];
       I3 \<leftarrow> single_loop 255 1 b I2;
       I4 \<leftarrow> wri I3 0 (- 1);
       (I5, V5) \<leftarrow> sort_loop (int n + 1) 1 I4 V;
       invert_loop V5 0 I5 }"

end
