(* ===== verification/BsDiff.thy ===== *)
theory BsDiff
  imports SuffixSort ByteOrder ZipArchive BsPatch
begin

text \<open>
  Making bsdiff patches: \<open>matchlen\<close>, \<open>search\<close> and \<open>bsdiff\<close> of \<open>applypatch/bsdiff.c\<close>.  The suffix array is the
  caller's, or made by \<open>qsufsort\<close> when there is none yet.  What a patch rebuilds does not depend on the order
  of the suffix array, only how small the patch is.

  \<open>off_t\<close> values are \<open>int\<close>; every access to \<open>old\<close>, \<open>new\<close>, \<open>I\<close>, \<open>db\<close> and \<open>eb\<close> is checked.  Compression is a parameter;
  the program exits when memory, the file or bzip2 fails, which is not modelled.
\<close>

subsection \<open>Searching\<close>

fun matchlen :: "bytes \<Rightarrow> bytes \<Rightarrow> int" where
  "matchlen (x # xs) (y # ys) = (if x \<noteq> y then 0 else 1 + matchlen xs ys)"
| "matchlen xs ys = 0"

text \<open>\<open>old + p\<close>, with the length \<open>oldsize - p\<close>.\<close>

definition old_from :: "bytes \<Rightarrow> int \<Rightarrow> bytes ub" where
  "old_from old p = (if 0 \<le> p \<and> p \<le> int (length old) then Some (drop (nat p) old) else None)"

text \<open>\<open>new\<close> is what is searched for; the result is the length of the match and its position.\<close>

function search :: "int list \<Rightarrow> bytes \<Rightarrow> bytes \<Rightarrow> nat \<Rightarrow> nat \<Rightarrow> (int \<times> int) ub" where
  "search I old new st en =
     (if en - st < 2
      then do {
        ist \<leftarrow> rd I st; ien \<leftarrow> rd I en;
        ost \<leftarrow> old_from old ist; oen \<leftarrow> old_from old ien;
        let x = matchlen ost new; let y = matchlen oen new;
        Some (if x > y then (x, ist) else (y, ien)) }
      else do {
        let x = st + (en - st) div 2;
        ix \<leftarrow> rd I x;
        ox \<leftarrow> old_from old ix;
        if memcmp (take (min (length ox) (length new)) ox) (take (min (length ox) (length new)) new) < 0
        then search I old new x en
        else search I old new st x })"
  by pat_completeness auto
termination by (relation "measure (\<lambda>(I, old, new, st, en). en - st)") auto

declare search.simps [simp del]

subsection \<open>The scan for the next match\<close>

text \<open>Whether \<open>old\<close> at the last offset agrees with \<open>new\<close> at \<open>i\<close>; \<open>&&\<close> protects the accesses.\<close>

definition agrees :: "bytes \<Rightarrow> bytes \<Rightarrow> int \<Rightarrow> int \<Rightarrow> bool ub" where
  "agrees old new lastoffset i =
     (if i + lastoffset < int (length old)
      then do { a \<leftarrow> rdi old (i + lastoffset); b \<leftarrow> rdi new i; Some (a = b) }
      else Some False)"

text \<open>\<open>for(;scsc<scan+len;scsc++)\<close>, \<open>n\<close> times.\<close>

fun score_loop :: "bytes \<Rightarrow> bytes \<Rightarrow> int \<Rightarrow> nat \<Rightarrow> int \<Rightarrow> int \<Rightarrow> int ub" where
  "score_loop old new lastoffset 0 scsc oldscore = Some oldscore"
| "score_loop old new lastoffset (Suc n) scsc oldscore =
     do { a \<leftarrow> agrees old new lastoffset scsc;
          score_loop old new lastoffset n (scsc + 1) (if a then oldscore + 1 else oldscore) }"

record scan_state =
  sc_scan :: int
  sc_len :: int
  sc_pos :: int
  sc_score :: int

function scan_loop :: "int list \<Rightarrow> bytes \<Rightarrow> bytes \<Rightarrow> int \<Rightarrow> int \<Rightarrow> scan_state \<Rightarrow> scan_state ub" where
  "scan_loop I old new lastoffset scsc s =
     (if sc_scan s < int (length new)
      then if sc_scan s < 0 then None
      else do {
        (len, pos) \<leftarrow> search I old (drop (nat (sc_scan s)) new) 0 (length old);
        oldscore \<leftarrow> score_loop old new lastoffset (nat (sc_scan s + len - scsc)) scsc (sc_score s);
        let scsc1 = max scsc (sc_scan s + len);
        if len = oldscore \<and> len \<noteq> 0 \<or> len > oldscore + 8
        then Some \<lparr>sc_scan = sc_scan s, sc_len = len, sc_pos = pos, sc_score = oldscore\<rparr>
        else do {
          a \<leftarrow> agrees old new lastoffset (sc_scan s);
          scan_loop I old new lastoffset scsc1
            \<lparr>sc_scan = sc_scan s + 1, sc_len = len, sc_pos = pos,
             sc_score = (if a then oldscore - 1 else oldscore)\<rparr> }}
      else Some s)"
  by pat_completeness auto
termination
  by (relation "measure (\<lambda>(I, old, new, lastoffset, scsc, s). nat (int (length new) - sc_scan s))") auto

declare scan_loop.simps [simp del]

subsection \<open>Cutting the region between two matches\<close>

text \<open>The length extending the last match forwards; \<open>n\<close> bounds the loop.\<close>

fun forward_loop :: "bytes \<Rightarrow> bytes \<Rightarrow> int \<Rightarrow> int \<Rightarrow> int \<Rightarrow> nat \<Rightarrow> int \<Rightarrow> int \<Rightarrow> int \<Rightarrow> int \<Rightarrow> int ub" where
  "forward_loop old new scan lastscan lastpos 0 i s Sf lenf = Some lenf"
| "forward_loop old new scan lastscan lastpos (Suc n) i s Sf lenf =
     (if lastscan + i < scan \<and> lastpos + i < int (length old)
      then do {
        a \<leftarrow> rdi old (lastpos + i);
        b \<leftarrow> rdi new (lastscan + i);
        let s1 = (if a = b then s + 1 else s);
        let i1 = i + 1;
        if s1 * 2 - i1 > Sf * 2 - lenf
        then forward_loop old new scan lastscan lastpos n i1 s1 s1 i1
        else forward_loop old new scan lastscan lastpos n i1 s1 Sf lenf }
      else Some lenf)"

text \<open>The length extending the new match backwards.\<close>

fun backward_loop :: "bytes \<Rightarrow> bytes \<Rightarrow> int \<Rightarrow> int \<Rightarrow> int \<Rightarrow> nat \<Rightarrow> int \<Rightarrow> int \<Rightarrow> int \<Rightarrow> int \<Rightarrow> int ub" where
  "backward_loop old new scan lastscan pos 0 i s Sb lenb = Some lenb"
| "backward_loop old new scan lastscan pos (Suc n) i s Sb lenb =
     (if scan \<ge> lastscan + i \<and> pos \<ge> i
      then do {
        a \<leftarrow> rdi old (pos - i);
        b \<leftarrow> rdi new (scan - i);
        let s1 = (if a = b then s + 1 else s);
        if s1 * 2 - i > Sb * 2 - lenb
        then backward_loop old new scan lastscan pos n (i + 1) s1 s1 i
        else backward_loop old new scan lastscan pos n (i + 1) s1 Sb lenb }
      else Some lenb)"

text \<open>Where to divide an overlap of the two: \<open>f\<close> and \<open>g\<close> are the starts in \<open>new\<close> and \<open>old\<close> of the one, \<open>b\<close> and \<open>c\<close> of the other.\<close>

fun overlap_loop :: "bytes \<Rightarrow> bytes \<Rightarrow> int \<Rightarrow> int \<Rightarrow> int \<Rightarrow> int \<Rightarrow> nat \<Rightarrow> int \<Rightarrow> int \<Rightarrow> int \<Rightarrow> int \<Rightarrow> int ub" where
  "overlap_loop old new f g b c 0 i s Ss lens = Some lens"
| "overlap_loop old new f g b c (Suc n) i s Ss lens =
     do { p \<leftarrow> rdi new (f + i); q \<leftarrow> rdi old (g + i);
          let s1 = (if p = q then s + 1 else s);
          p' \<leftarrow> rdi new (b + i); q' \<leftarrow> rdi old (c + i);
          let s2 = (if p' = q' then s1 - 1 else s1);
          if s2 > Ss then overlap_loop old new f g b c n (i + 1) s2 s2 (i + 1)
          else overlap_loop old new f g b c n (i + 1) s2 Ss lens }"

definition cut_region :: "bytes \<Rightarrow> bytes \<Rightarrow> int \<Rightarrow> int \<Rightarrow> int \<Rightarrow> int \<Rightarrow> (int \<times> int) ub" where
  "cut_region old new scan pos lastscan lastpos =
     do {
       lenf \<leftarrow> forward_loop old new scan lastscan lastpos (nat (scan - lastscan)) 0 0 0 0;
       lenb \<leftarrow> (if scan < int (length new)
                 then backward_loop old new scan lastscan pos (nat (scan - lastscan)) 1 0 0 0
                 else Some 0);
       if lastscan + lenf > scan - lenb
       then do {
         let overlap = (lastscan + lenf) - (scan - lenb);
         lens \<leftarrow> overlap_loop old new (lastscan + lenf - overlap) (lastpos + lenf - overlap) (scan - lenb) (pos - lenb)
                   (nat overlap) 0 0 0 0;
         Some (lenf + (lens - overlap), lenb - lens) }
       else Some (lenf, lenb) }"

subsection \<open>The differences\<close>

text \<open>What was written so far: the control stream, \<open>db\<close> and \<open>eb\<close>, both of size \<open>newsize + 1\<close>.\<close>

record diff_out =
  out_ctrl :: bytes
  out_db :: bytes
  out_eb :: bytes

fun db_loop :: "bytes \<Rightarrow> bytes \<Rightarrow> int \<Rightarrow> int \<Rightarrow> nat \<Rightarrow> bytes \<Rightarrow> bytes ub" where
  "db_loop old new lastscan lastpos 0 db = Some db"
| "db_loop old new lastscan lastpos (Suc n) db =
     (if length db \<ge> length new + 1 then None
      else do { a \<leftarrow> rdi new lastscan; b \<leftarrow> rdi old lastpos;
                db_loop old new (lastscan + 1) (lastpos + 1) n (db @ [a - b]) })"

fun eb_loop :: "bytes \<Rightarrow> int \<Rightarrow> nat \<Rightarrow> bytes \<Rightarrow> bytes ub" where
  "eb_loop new from 0 eb = Some eb"
| "eb_loop new from (Suc n) eb =
     (if length eb \<ge> length new + 1 then None
      else do { a \<leftarrow> rdi new from; eb_loop new (from + 1) n (eb @ [a]) })"

definition emit_triple :: "bytes \<Rightarrow> bytes \<Rightarrow> int \<Rightarrow> int \<Rightarrow> int \<Rightarrow> int \<Rightarrow> diff_out \<Rightarrow> (int \<times> int \<times> diff_out) ub" where
  "emit_triple old new scan pos lastscan lastpos out =
     do {
       (lenf, lenb) \<leftarrow> cut_region old new scan pos lastscan lastpos;
       db \<leftarrow> db_loop old new lastscan lastpos (nat lenf) (out_db out);
       eb \<leftarrow> eb_loop new (lastscan + lenf) (nat ((scan - lenb) - (lastscan + lenf))) (out_eb out);
       b1 \<leftarrow> offtout lenf;
       b2 \<leftarrow> offtout ((scan - lenb) - (lastscan + lenf));
       b3 \<leftarrow> offtout ((pos - lenb) - (lastpos + lenf));
       Some (scan - lenb, pos - lenb, \<lparr>out_ctrl = out_ctrl out @ b1 @ b2 @ b3, out_db = db, out_eb = eb\<rparr>) }"

partial_function (option) diff_loop ::
  "int list \<Rightarrow> bytes \<Rightarrow> bytes \<Rightarrow> int \<Rightarrow> int \<Rightarrow> int \<Rightarrow> int \<Rightarrow> int \<Rightarrow> int \<Rightarrow> diff_out \<Rightarrow> diff_out ub" where
  "diff_loop I old new scan len pos lastscan lastpos lastoffset out =
     (if scan < int (length new)
      then do {
        s \<leftarrow> scan_loop I old new lastoffset (scan + len)
               \<lparr>sc_scan = scan + len, sc_len = len, sc_pos = pos, sc_score = 0\<rparr>;
        if sc_len s \<noteq> sc_score s \<or> sc_scan s = int (length new)
        then do {
          (lastscan1, lastpos1, out1) \<leftarrow> emit_triple old new (sc_scan s) (sc_pos s) lastscan lastpos out;
          diff_loop I old new (sc_scan s) (sc_len s) (sc_pos s) lastscan1 lastpos1 (sc_pos s - sc_scan s) out1 }
        else diff_loop I old new (sc_scan s) (sc_len s) (sc_pos s) lastscan lastpos lastoffset out }
      else Some out)"

text \<open>
  The patch file: the header is written with zero lengths first and again at the end, when the positions after the
  compressed blocks are known.
\<close>

definition write_patch :: "(bytes \<Rightarrow> bytes) \<Rightarrow> bytes \<Rightarrow> int list \<Rightarrow> bytes \<Rightarrow> bytes ub" where
  "write_patch compress old I new =
     do {
       out \<leftarrow> diff_loop I old new 0 0 0 0 0 0 \<lparr>out_ctrl = [], out_db = [], out_eb = []\<rparr>;
       let ctrl = compress (out_ctrl out);
       let len = 32 + int (length ctrl);
       h8 \<leftarrow> offtout (len - 32);
       let db = compress (out_db out);
       let end' = len + int (length db);
       h16 \<leftarrow> offtout (end' - len);
       h24 \<leftarrow> offtout (int (length new));
       Some (BSDIFF_MAGIC @ h8 @ h16 @ h24 @ ctrl @ db @ compress (out_eb out)) }"

text \<open>\<open>IP\<close> is what \<open>*IP\<close> holds before; the result has what it holds after, and the file.\<close>

definition bsdiff :: "(bytes \<Rightarrow> bytes) \<Rightarrow> bytes \<Rightarrow> int list option \<Rightarrow> bytes \<Rightarrow> (int list \<times> bytes) ub" where
  "bsdiff compress old IP new =
     do { I \<leftarrow> (case IP of None \<Rightarrow> qsufsort old | Some I \<Rightarrow> Some I);
          p \<leftarrow> write_patch compress old I new;
          Some (I, p) }"

subsection \<open>Searching stays in the data\<close>

definition sa_ok :: "int list \<Rightarrow> bytes \<Rightarrow> bool" where
  "sa_ok I old \<longleftrightarrow> length I = Suc (length old) \<and> (\<forall>p\<in>set I. 0 \<le> p \<and> p \<le> int (length old))"

lemma matchlen_bounds: "0 \<le> matchlen xs ys \<and> matchlen xs ys \<le> int (length xs) \<and> matchlen xs ys \<le> int (length ys)"
  by (induction xs ys rule: matchlen.induct) auto

lemma sa_entry:
  assumes "sa_ok I old" "i < length I"
  shows "rd I i = Some (I ! i)" "0 \<le> I ! i" "I ! i \<le> int (length old)"
    "old_from old (I ! i) = Some (drop (nat (I ! i)) old)"
proof -
  have "I ! i \<in> set I" using assms(2) by simp
  then show "0 \<le> I ! i" "I ! i \<le> int (length old)" "old_from old (I ! i) = Some (drop (nat (I ! i)) old)"
    using assms(1) by (auto simp: sa_ok_def old_from_def)
  show "rd I i = Some (I ! i)" using assms(2) by (rule rd_in)
qed

lemma search_ok:
  "sa_ok I old \<Longrightarrow> st < length I \<Longrightarrow> en < length I \<Longrightarrow>
   \<exists>len pos. search I old new st en = Some (len, pos) \<and> 0 \<le> len \<and> len \<le> int (length new) \<and>
     0 \<le> pos \<and> pos + len \<le> int (length old)"
proof (induction I old new st en rule: search.induct)
  case (1 I old new st en)
  show ?case
  proof (cases "en - st < 2")
    case True
    note s = sa_entry [OF 1(3,4)] and e = sa_entry [OF 1(3,5)]
    have "search I old new st en =
      (let x = matchlen (drop (nat (I ! st)) old) new; y = matchlen (drop (nat (I ! en)) old) new
       in Some (if x > y then (x, I ! st) else (y, I ! en)))"
      using True by (simp add: search.simps [of I old new st en] s e Let_def)
    moreover have "I ! st + matchlen (drop (nat (I ! st)) old) new \<le> int (length old)"
      using matchlen_bounds [of "drop (nat (I ! st)) old" new] s by simp
    moreover have "I ! en + matchlen (drop (nat (I ! en)) old) new \<le> int (length old)"
      using matchlen_bounds [of "drop (nat (I ! en)) old" new] e by simp
    ultimately show ?thesis using matchlen_bounds s(2) e(2) by (auto simp: Let_def)
  next
    case False
    let ?x = "st + (en - st) div 2"
    have x: "?x < length I" using 1(4,5) by linarith
    note m = sa_entry [OF 1(3) x]
    let ?c = "memcmp (take (min (length (drop (nat (I ! ?x)) old)) (length new)) (drop (nat (I ! ?x)) old))
      (take (min (length (drop (nat (I ! ?x)) old)) (length new)) new) < 0"
    have step: "search I old new st en = (if ?c then search I old new ?x en else search I old new st ?x)"
      unfolding search.simps [of I old new st en] Let_def m(1,4) bind.bind_lunit if_not_P [OF False] ..
    show ?thesis
    proof (cases ?c)
      case True
      show ?thesis unfolding step if_P [OF True] by (rule 1(1) [OF False refl m(1) m(4) True 1(3) x 1(5)])
    next
      case c: False
      show ?thesis unfolding step if_not_P [OF c] by (rule 1(2) [OF False refl m(1) m(4) c 1(3) 1(4) x])
    qed
  qed
qed

lemma agrees_ok:
  assumes "0 \<le> i + lastoffset" "0 \<le> i" "i < int (length new)"
  shows "\<exists>a. agrees old new lastoffset i = Some a"
  using assms by (auto simp: agrees_def mem_simps)

lemma score_loop_ok:
  "0 \<le> scsc \<Longrightarrow> 0 \<le> scsc + lastoffset \<Longrightarrow> scsc + int n \<le> int (length new) \<Longrightarrow>
   \<exists>r. score_loop old new lastoffset n scsc oldscore = Some r \<and> oldscore \<le> r"
proof (induction n arbitrary: scsc oldscore)
  case 0
  then show ?case by simp
next
  case (Suc n)
  obtain a where a: "agrees old new lastoffset scsc = Some a"
    using agrees_ok [of scsc lastoffset new old] Suc.prems by fastforce
  obtain r where "score_loop old new lastoffset n (scsc + 1) (if a then oldscore + 1 else oldscore) = Some r"
    "(if a then oldscore + 1 else oldscore) \<le> r"
    using Suc.IH [of "scsc + 1" "if a then oldscore + 1 else oldscore"] Suc.prems by auto
  then show ?case using a by (auto split: if_splits)
qed

lemma scan_loop_ok:
  assumes "sa_ok I old"
  shows "0 \<le> sc_scan s \<Longrightarrow> sc_scan s \<le> int (length new) \<Longrightarrow> 0 \<le> sc_pos s \<Longrightarrow> sc_pos s \<le> int (length old) \<Longrightarrow>
    0 \<le> scsc \<Longrightarrow> 0 \<le> scsc + lastoffset \<Longrightarrow> scsc \<le> int (length new) \<Longrightarrow> 0 \<le> sc_scan s + lastoffset \<Longrightarrow>
    \<exists>r. scan_loop I old new lastoffset scsc s = Some r \<and> sc_scan s \<le> sc_scan r \<and> sc_scan r \<le> int (length new) \<and>
      0 \<le> sc_pos r \<and> sc_pos r \<le> int (length old) \<and>
      (sc_scan r < int (length new) \<longrightarrow> 0 \<le> sc_len r \<and> sc_scan r + sc_len r \<le> int (length new) \<and>
        (0 \<le> sc_score s \<longrightarrow> sc_scan s < sc_scan r + sc_len r))"
proof (induction "nat (int (length new) - sc_scan s)" arbitrary: s scsc rule: less_induct)
  case less
  show ?case
  proof (cases "sc_scan s < int (length new)")
    case False
    then show ?thesis using less.prems by (simp add: scan_loop.simps [of I old new lastoffset scsc s])
  next
    case True
    have l0: "0 < length I" "length old < length I" using assms by (auto simp: sa_ok_def)
    obtain len pos where f: "search I old (drop (nat (sc_scan s)) new) 0 (length old) = Some (len, pos)"
      "0 \<le> len" "len \<le> int (length (drop (nat (sc_scan s)) new))" "0 \<le> pos" "pos + len \<le> int (length old)"
      using search_ok [OF assms l0] by blast
    have len: "sc_scan s + len \<le> int (length new)" using f(3) True less.prems(1) by simp
    let ?n = "nat (sc_scan s + len - scsc)" and ?m = "max scsc (sc_scan s + len)"
    have n: "scsc + int ?n \<le> int (length new)" using len less.prems(7) by simp
    obtain score where sc: "score_loop old new lastoffset ?n scsc (sc_score s) = Some score" "sc_score s \<le> score"
      using score_loop_ok [OF less.prems(5,6) n] by blast
    obtain a where a: "agrees old new lastoffset (sc_scan s) = Some a"
      using agrees_ok [OF less.prems(8,1) True] by blast
    let ?q = "len = score \<and> len \<noteq> 0 \<or> len > score + 8"
    let ?s1 = "\<lparr>sc_scan = sc_scan s + 1, sc_len = len, sc_pos = pos, sc_score = (if a then score - 1 else score)\<rparr>"
    have step: "scan_loop I old new lastoffset scsc s =
        (if ?q then Some \<lparr>sc_scan = sc_scan s, sc_len = len, sc_pos = pos, sc_score = score\<rparr>
         else scan_loop I old new lastoffset ?m ?s1)"
      using True less.prems(1) by (simp add: scan_loop.simps [of I old new lastoffset scsc s] f(1) sc(1) a Let_def)
    show ?thesis
    proof (cases ?q)
      case q: True
      then have "0 \<le> sc_score s \<Longrightarrow> 0 < len" using sc(2) f(2) by auto
      then show ?thesis using step q less.prems len f True by auto
    next
      case q: False
      have "\<exists>r. scan_loop I old new lastoffset ?m ?s1 = Some r \<and> sc_scan ?s1 \<le> sc_scan r \<and>
        sc_scan r \<le> int (length new) \<and> 0 \<le> sc_pos r \<and> sc_pos r \<le> int (length old) \<and>
        (sc_scan r < int (length new) \<longrightarrow> 0 \<le> sc_len r \<and> sc_scan r + sc_len r \<le> int (length new) \<and>
          (0 \<le> sc_score ?s1 \<longrightarrow> sc_scan ?s1 < sc_scan r + sc_len r))"
        by (rule less.hyps) (use True less.prems f len in auto)
      then obtain r where r: "scan_loop I old new lastoffset ?m ?s1 = Some r" "sc_scan s + 1 \<le> sc_scan r"
        "sc_scan r \<le> int (length new)" "0 \<le> sc_pos r" "sc_pos r \<le> int (length old)"
        "sc_scan r < int (length new) \<Longrightarrow> 0 \<le> sc_len r \<and> sc_scan r + sc_len r \<le> int (length new)"
        by auto
      have "sc_scan s < sc_scan r + sc_len r" if "sc_scan r < int (length new)" using r(2) r(6) [OF that] by simp
      moreover have "scan_loop I old new lastoffset scsc s = Some r"
        using step q r(1) by (simp only: if_False)
      ultimately show ?thesis using r(2-6) by auto
    qed
  qed
qed

subsection \<open>The cut stays between the matches\<close>

lemma forward_loop_ok:
  "0 \<le> i \<Longrightarrow> 0 \<le> lastscan \<Longrightarrow> 0 \<le> lastpos \<Longrightarrow> scan \<le> int (length new) \<Longrightarrow>
   0 \<le> lenf \<Longrightarrow> lastscan + lenf \<le> scan \<Longrightarrow> lastpos + lenf \<le> int (length old) \<Longrightarrow>
   \<exists>r. forward_loop old new scan lastscan lastpos n i s Sf lenf = Some r \<and>
     0 \<le> r \<and> lastscan + r \<le> scan \<and> lastpos + r \<le> int (length old)"
proof (induction n arbitrary: i s Sf lenf)
  case 0
  then show ?case by simp
next
  case (Suc n)
  show ?case
  proof (cases "lastscan + i < scan \<and> lastpos + i < int (length old)")
    case True
    then show ?thesis using Suc.prems Suc.IH [of "i + 1"] by (auto simp: mem_simps Let_def)
  qed (use Suc.prems in auto)
qed

lemma backward_loop_ok:
  "1 \<le> i \<Longrightarrow> 0 \<le> lastscan \<Longrightarrow> pos \<le> int (length old) \<Longrightarrow> scan \<le> int (length new) \<Longrightarrow>
   0 \<le> lenb \<Longrightarrow> lastscan + lenb \<le> scan \<Longrightarrow> lenb \<le> pos \<Longrightarrow>
   \<exists>r. backward_loop old new scan lastscan pos n i s Sb lenb = Some r \<and>
     0 \<le> r \<and> lastscan + r \<le> scan \<and> r \<le> pos"
proof (induction n arbitrary: i s Sb lenb)
  case 0
  then show ?case by simp
next
  case (Suc n)
  show ?case
  proof (cases "scan \<ge> lastscan + i \<and> pos \<ge> i")
    case True
    then show ?thesis using Suc.prems Suc.IH [of "i + 1"] by (auto simp: mem_simps Let_def)
  qed (use Suc.prems in auto)
qed

lemma overlap_loop_ok:
  "0 \<le> i \<Longrightarrow> 0 \<le> f \<Longrightarrow> f + i + int n \<le> int (length new) \<Longrightarrow> 0 \<le> g \<Longrightarrow> g + i + int n \<le> int (length old) \<Longrightarrow>
   0 \<le> b \<Longrightarrow> b + i + int n \<le> int (length new) \<Longrightarrow> 0 \<le> c \<Longrightarrow> c + i + int n \<le> int (length old) \<Longrightarrow>
   0 \<le> lens \<Longrightarrow> lens \<le> i + int n \<Longrightarrow>
   \<exists>r. overlap_loop old new f g b c n i s Ss lens = Some r \<and> 0 \<le> r \<and> r \<le> i + int n"
proof (induction n arbitrary: i s Ss lens)
  case 0
  then show ?case by simp
next
  case (Suc n)
  have IH: "\<exists>r. overlap_loop old new f g b c n (i + 1) s' S' l' = Some r \<and> 0 \<le> r \<and> r \<le> i + int (Suc n)"
    if "0 \<le> l'" "l' \<le> i + int (Suc n)" for s' S' l'
    using Suc.IH [of "i + 1" l' s' S'] Suc.prems that by (simp add: algebra_simps)
  show ?case using Suc.prems IH by (simp add: mem_simps Let_def)
qed

lemma cut_region_ok:
  assumes "0 \<le> lastscan" "lastscan \<le> scan" "scan \<le> int (length new)" "0 \<le> lastpos" "lastpos \<le> int (length old)"
    "0 \<le> pos" "pos \<le> int (length old)"
  shows "\<exists>lenf lenb. cut_region old new scan pos lastscan lastpos = Some (lenf, lenb) \<and> 0 \<le> lenf \<and> 0 \<le> lenb \<and>
    lenb \<le> pos \<and> lastscan + lenf \<le> scan - lenb \<and> lastpos + lenf \<le> int (length old) \<and>
    (scan = int (length new) \<longrightarrow> lenb = 0)"
proof -
  obtain lf where f: "forward_loop old new scan lastscan lastpos (nat (scan - lastscan)) 0 0 0 0 = Some lf"
    "0 \<le> lf" "lastscan + lf \<le> scan" "lastpos + lf \<le> int (length old)"
    using forward_loop_ok [of 0 lastscan lastpos scan new 0 old "nat (scan - lastscan)" 0 0] assms by auto
  have "\<exists>lb. (if scan < int (length new) then backward_loop old new scan lastscan pos (nat (scan - lastscan)) 1 0 0 0
      else Some 0) = Some lb \<and> 0 \<le> lb \<and> lastscan + lb \<le> scan \<and> lb \<le> pos \<and> (scan = int (length new) \<longrightarrow> lb = 0)"
    using backward_loop_ok [of 1 lastscan pos old scan new 0 "nat (scan - lastscan)" 0 0] assms by auto
  then obtain lb where b: "(if scan < int (length new)
      then backward_loop old new scan lastscan pos (nat (scan - lastscan)) 1 0 0 0 else Some 0) = Some lb"
    "0 \<le> lb" "lastscan + lb \<le> scan" "lb \<le> pos" "scan = int (length new) \<longrightarrow> lb = 0" by blast
  let ?o = "(lastscan + lf) - (scan - lb)"
  show ?thesis
  proof (cases "lastscan + lf > scan - lb")
    case False
    then show ?thesis using f b assms by (simp add: cut_region_def)
  next
    case True
    obtain lens where o: "overlap_loop old new (lastscan + lf - ?o) (lastpos + lf - ?o) (scan - lb) (pos - lb)
        (nat ?o) 0 0 0 0 = Some lens" "0 \<le> lens" "lens \<le> ?o"
      using overlap_loop_ok [of 0 "lastscan + lf - ?o" "nat ?o" new "lastpos + lf - ?o" old "scan - lb" "pos - lb" 0 0 0]
        True f b assms by auto
    have "cut_region old new scan pos lastscan lastpos = Some (lf + (lens - ?o), lb - lens)"
      unfolding cut_region_def f(1) b(1) bind.bind_lunit Let_def if_P [OF True] o(1) ..
    moreover have "scan = int (length new) \<Longrightarrow> lens = 0" using b(5) o f(3) True by auto
    ultimately show ?thesis using o f b assms by auto
  qed
qed

subsection \<open>What is written\<close>

lemma add_old_diff:
  assumes "0 \<le> b" "b < int (length old)"
  shows "add_old old b ((x - old ! nat b) # ds) = x # add_old old (b + 1) ds"
  using assms by (simp add: add_old_Cons old_at_def)

lemma db_loop_ok:
  "0 \<le> a \<Longrightarrow> a + int n \<le> int (length new) \<Longrightarrow> 0 \<le> b \<Longrightarrow> b + int n \<le> int (length old) \<Longrightarrow>
   length db + n \<le> length new + 1 \<Longrightarrow>
   \<exists>ds. db_loop old new a b n db = Some (db @ ds) \<and> length ds = n \<and> add_old old b ds = take n (drop (nat a) new)"
proof (induction n arbitrary: a b db)
  case 0
  then show ?case by (simp add: add_old_def)
next
  case (Suc n)
  let ?d = "new ! nat a - old ! nat b"
  obtain ds where ds: "db_loop old new (a + 1) (b + 1) n (db @ [?d]) = Some ((db @ [?d]) @ ds)" "length ds = n"
    "add_old old (b + 1) ds = take n (drop (nat (a + 1)) new)"
    using Suc.IH [of "a + 1" "b + 1" "db @ [?d]"] Suc.prems by auto
  have "take (Suc n) (drop (nat a) new) = new ! nat a # take n (drop (nat (a + 1)) new)"
    using Suc.prems by (simp add: Cons_nth_drop_Suc [symmetric] nat_add_distrib)
  moreover have "db_loop old new a b (Suc n) db = Some (db @ ?d # ds)"
    using Suc.prems ds(1) by (simp add: mem_simps)
  moreover have "add_old old b (?d # ds) = new ! nat a # add_old old (b + 1) ds"
    using Suc.prems by (intro add_old_diff) simp_all
  ultimately show ?case using ds(2,3) by (intro exI [of _ "?d # ds"]) simp
qed

lemma eb_loop_ok:
  "0 \<le> a \<Longrightarrow> a + int n \<le> int (length new) \<Longrightarrow> length eb + n \<le> length new + 1 \<Longrightarrow>
   eb_loop new a n eb = Some (eb @ take n (drop (nat a) new))"
proof (induction n arbitrary: a eb)
  case 0
  then show ?case by simp
next
  case (Suc n)
  have "take (Suc n) (drop (nat a) new) = new ! nat a # take n (drop (nat (a + 1)) new)"
    using Suc.prems by (simp add: Cons_nth_drop_Suc [symmetric] nat_add_distrib)
  then show ?case using Suc.prems Suc.IH [of "a + 1"] by (simp add: mem_simps)
qed

text \<open>The old position after a list of triples, and adding one triple.\<close>

definition end_pos :: "triple list \<Rightarrow> int" where
  "end_pos ts = sum_list (map (\<lambda>(x, y, z). int x + z) ts)"

lemma totals_snoc [simp]:
  "diff_total (ts @ [(x, y, z)]) = diff_total ts + x" "extra_total (ts @ [(x, y, z)]) = extra_total ts + y"
  "end_pos (ts @ [(x, y, z)]) = end_pos ts + int x + z"
  by (simp_all add: diff_total_def extra_total_def end_pos_def)

lemma rebuild_snoc:
  "length db = diff_total ts \<Longrightarrow> length eb = extra_total ts \<Longrightarrow> length d = x \<Longrightarrow> length e = y \<Longrightarrow>
   rebuild old (ts @ [(x, y, z)]) (db @ d) (eb @ e) p =
     rebuild old ts db eb p @ add_old old (p + end_pos ts) d @ e"
proof (induction ts arbitrary: db eb p)
  case Nil
  then show ?case by (simp add: diff_total_def extra_total_def end_pos_def)
next
  case (Cons t ts)
  obtain x' y' z' where t: "t = (x', y', z')" by (cases t)
  have "x' \<le> length db" "y' \<le> length eb" using Cons.prems by (simp_all add: t diff_total_def extra_total_def)
  moreover have "rebuild old (ts @ [(x, y, z)]) (drop x' db @ d) (drop y' eb @ e) (p + int x' + z') =
      rebuild old ts (drop x' db) (drop y' eb) (p + int x' + z') @ add_old old (p + int x' + z' + end_pos ts) d @ e"
    by (rule Cons.IH) (use Cons.prems in \<open>simp_all add: t diff_total_def extra_total_def\<close>)
  moreover have "p + int x' + z' + end_pos ts = p + end_pos (t # ts)" by (simp add: t end_pos_def)
  ultimately show ?case by (simp add: t)
qed

text \<open>The streams hold a patch for the first \<open>lastscan\<close> bytes of \<open>new\<close>, ending at \<open>lastpos\<close>.\<close>

definition diff_ok :: "bytes \<Rightarrow> bytes \<Rightarrow> int \<Rightarrow> int \<Rightarrow> diff_out \<Rightarrow> triple list \<Rightarrow> bool" where
  "diff_ok old new lastscan lastpos out ts \<longleftrightarrow>
     out_ctrl out = concat (map enc_triple ts) \<and> (\<forall>t\<in>set ts. triple_ok t) \<and>
     length (out_db out) = diff_total ts \<and> length (out_eb out) = extra_total ts \<and>
     lastscan = int (diff_total ts + extra_total ts) \<and> lastpos = end_pos ts \<and>
     rebuild old ts (out_db out) (out_eb out) 0 = take (nat lastscan) new"

lemma offtout_enc8: "\<bar>x\<bar> < 2 ^ 63 \<Longrightarrow> offtout x = Some (enc8 x)"
  using offtout_offtin_eq [of x] by (auto simp: enc8_def)

lemma emit_triple_ok:
  assumes "diff_ok old new lastscan lastpos out ts"
    and "lastscan \<le> scan" "scan \<le> int (length new)" "0 \<le> lastpos" "lastpos \<le> int (length old)"
    and "0 \<le> pos" "pos \<le> int (length old)" "length new < 2 ^ 31" "length old < 2 ^ 62"
  shows "\<exists>lastscan' lastpos' out' t. emit_triple old new scan pos lastscan lastpos out = Some (lastscan', lastpos', out') \<and>
    diff_ok old new lastscan' lastpos' out' (ts @ [t]) \<and> lastscan' \<le> scan \<and> 0 \<le> lastpos' \<and>
    lastpos' \<le> int (length old) \<and> (scan = int (length new) \<longrightarrow> lastscan' = scan)"
proof -
  have ls: "0 \<le> lastscan" "lastscan = int (diff_total ts + extra_total ts)" using assms(1) by (simp_all add: diff_ok_def)
  obtain lenf lenb where c: "cut_region old new scan pos lastscan lastpos = Some (lenf, lenb)" "0 \<le> lenf" "0 \<le> lenb"
    "lenb \<le> pos" "lastscan + lenf \<le> scan - lenb" "lastpos + lenf \<le> int (length old)"
    "scan = int (length new) \<longrightarrow> lenb = 0"
    using cut_region_ok [OF ls(1) assms(2-7)] by blast
  define y z where "y = (scan - lenb) - (lastscan + lenf)" and "z = (pos - lenb) - (lastpos + lenf)"
  have yz: "0 \<le> y" "lastscan + lenf + y \<le> int (length new)" "scan - lenb = lastscan + lenf + y" "pos - lenb = lastpos + lenf + z"
    using c assms(3) by (simp_all add: y_def z_def)
  have lim: "int (length new) < 2 ^ 31" "int (length old) < 2 ^ 62" using assms(8,9) by simp_all
  have "lenf \<le> int (length new)" "y \<le> int (length new)" "z \<le> int (length old)" "- int (length old) \<le> z"
    using c(2-6) yz ls(1) assms(3,4,7) by (simp_all add: z_def)
  then have small: "\<bar>lenf\<bar> < 2 ^ 63" "\<bar>y\<bar> < 2 ^ 63" "\<bar>z\<bar> < 2 ^ 63" using lim c(2) yz(1) by simp_all
  have lens: "length (out_db out) = diff_total ts" "length (out_eb out) = extra_total ts"
    using assms(1) by (simp_all add: diff_ok_def)
  have room: "lastscan + int (nat lenf) \<le> int (length new)" "lastpos + int (nat lenf) \<le> int (length old)"
    "length (out_db out) + nat lenf \<le> length new + 1" "lastscan + lenf + int (nat y) \<le> int (length new)"
    "length (out_eb out) + nat y \<le> length new + 1" "0 \<le> lastscan + lenf"
    using c(2,6) yz(1,2) ls lens by linarith+
  obtain ds where ds: "db_loop old new lastscan lastpos (nat lenf) (out_db out) = Some (out_db out @ ds)"
    "length ds = nat lenf" "add_old old lastpos ds = take (nat lenf) (drop (nat lastscan) new)"
    using db_loop_ok [OF ls(1) room(1) assms(4) room(2,3)] by blast
  define es where "es = take (nat y) (drop (nat (lastscan + lenf)) new)"
  have es: "eb_loop new (lastscan + lenf) (nat y) (out_eb out) = Some (out_eb out @ es)" "length es = nat y"
    using eb_loop_ok [OF room(6,4,5)] room(4,6) yz(1) by (auto simp: es_def min_def)
  let ?out = "\<lparr>out_ctrl = out_ctrl out @ enc8 lenf @ enc8 y @ enc8 z, out_db = out_db out @ ds, out_eb = out_eb out @ es\<rparr>"
  have e: "emit_triple old new scan pos lastscan lastpos out = Some (scan - lenb, pos - lenb, ?out)"
    unfolding emit_triple_def c(1) bind.bind_lunit prod.case ds(1) y_def [symmetric] z_def [symmetric] es(1)
      offtout_enc8 [OF small(1)] offtout_enc8 [OF small(2)] offtout_enc8 [OF small(3)] ..
  have cat: "take (nat lastscan) new @ take (nat lenf) (drop (nat lastscan) new) @ es = take (nat (scan - lenb)) new"
  proof -
    have "nat (scan - lenb) = nat lastscan + nat lenf + nat y" using ls(1) c(2) yz by simp
    moreover have "nat (lastscan + lenf) = nat lastscan + nat lenf" using ls(1) c(2) by simp
    ultimately show ?thesis by (simp only: es_def take_add append_assoc)
  qed
  have "diff_ok old new (scan - lenb) (pos - lenb) ?out (ts @ [(nat lenf, nat y, z)])"
    using assms(1) small c(2) yz ds(2,3) es(2) cat ls
    by (auto simp: diff_ok_def rebuild_snoc enc_triple_def triple_ok_def)
  moreover have "scan - lenb \<le> scan" "0 \<le> pos - lenb" "pos - lenb \<le> int (length old)"
    "scan = int (length new) \<longrightarrow> scan - lenb = scan"
    using c assms(7) by simp_all
  ultimately show ?thesis using e by blast
qed

subsection \<open>The whole loop\<close>

definition loop_ok :: "bytes \<Rightarrow> bytes \<Rightarrow> int \<Rightarrow> int \<Rightarrow> int \<Rightarrow> int \<Rightarrow> int \<Rightarrow> int \<Rightarrow> diff_out \<Rightarrow> triple list \<Rightarrow> bool" where
  "loop_ok old new scan len pos lastscan lastpos lastoffset out ts \<longleftrightarrow>
     diff_ok old new lastscan lastpos out ts \<and> lastscan \<le> scan \<and> scan \<le> int (length new) \<and>
     (scan < int (length new) \<longrightarrow> 0 \<le> len \<and> scan + len \<le> int (length new)) \<and>
     (scan = int (length new) \<longrightarrow> lastscan = scan) \<and>
     0 \<le> pos \<and> pos \<le> int (length old) \<and> 0 \<le> lastpos \<and> lastpos \<le> int (length old) \<and> 0 \<le> lastoffset + scan \<and>
     length ts \<le> length new + 1 \<and> (scan < int (length new) \<longrightarrow> int (length ts) \<le> scan + len)"

text \<open>One turn of the loop keeps the invariant and gets further.\<close>

lemma diff_step:
  assumes "sa_ok I old" "length new < 2 ^ 31" "length old < 2 ^ 62"
    and "loop_ok old new scan len pos lastscan lastpos lastoffset out ts" "scan < int (length new)"
  shows "\<exists>scan' len' pos' lastscan' lastpos' lastoffset' out' ts'.
    diff_loop I old new scan len pos lastscan lastpos lastoffset out =
      diff_loop I old new scan' len' pos' lastscan' lastpos' lastoffset' out' \<and>
    loop_ok old new scan' len' pos' lastscan' lastpos' lastoffset' out' ts' \<and>
    (scan' < int (length new) \<longrightarrow> scan + len < scan' + len')"
proof -
  have p: "diff_ok old new lastscan lastpos out ts" "lastscan \<le> scan" "0 \<le> len" "scan + len \<le> int (length new)"
    "0 \<le> pos" "pos \<le> int (length old)" "0 \<le> lastpos" "lastpos \<le> int (length old)" "0 \<le> lastoffset + scan"
    "int (length ts) \<le> scan + len"
    using assms(4,5) by (simp_all add: loop_ok_def)
  have ls: "0 \<le> lastscan" using p(1) by (simp add: diff_ok_def)
  let ?s = "\<lparr>sc_scan = scan + len, sc_len = len, sc_pos = pos, sc_score = 0\<rparr>"
  have "\<exists>r. scan_loop I old new lastoffset (scan + len) ?s = Some r \<and> sc_scan ?s \<le> sc_scan r \<and>
    sc_scan r \<le> int (length new) \<and> 0 \<le> sc_pos r \<and> sc_pos r \<le> int (length old) \<and>
    (sc_scan r < int (length new) \<longrightarrow> 0 \<le> sc_len r \<and> sc_scan r + sc_len r \<le> int (length new) \<and>
      (0 \<le> sc_score ?s \<longrightarrow> sc_scan ?s < sc_scan r + sc_len r))"
    by (rule scan_loop_ok [OF assms(1)]) (use p ls in simp_all)
  then obtain r where r: "scan_loop I old new lastoffset (scan + len) ?s = Some r" "scan + len \<le> sc_scan r"
    "sc_scan r \<le> int (length new)" "0 \<le> sc_pos r" "sc_pos r \<le> int (length old)"
    "sc_scan r < int (length new) \<longrightarrow> 0 \<le> sc_len r \<and> sc_scan r + sc_len r \<le> int (length new) \<and>
      scan + len < sc_scan r + sc_len r" by auto
  have le: "lastscan \<le> sc_scan r" using p(2,3) r(2) by simp
  note unf = diff_loop.simps [of I old new scan len pos lastscan lastpos lastoffset out] if_P [OF assms(5)]
    r(1) bind.bind_lunit
  show ?thesis
  proof (cases "sc_len r \<noteq> sc_score r \<or> sc_scan r = int (length new)")
    case True
    obtain lastscan' lastpos' out' t where e:
      "emit_triple old new (sc_scan r) (sc_pos r) lastscan lastpos out = Some (lastscan', lastpos', out')"
      "diff_ok old new lastscan' lastpos' out' (ts @ [t])" "lastscan' \<le> sc_scan r" "0 \<le> lastpos'"
      "lastpos' \<le> int (length old)" "sc_scan r = int (length new) \<longrightarrow> lastscan' = sc_scan r"
      using emit_triple_ok [OF p(1) le r(3) p(7,8) r(4,5) assms(2,3)] by blast
    have "diff_loop I old new scan len pos lastscan lastpos lastoffset out =
        diff_loop I old new (sc_scan r) (sc_len r) (sc_pos r) lastscan' lastpos' (sc_pos r - sc_scan r) out'"
      unfolding unf if_P [OF True] e(1) prod.case ..
    moreover have "loop_ok old new (sc_scan r) (sc_len r) (sc_pos r) lastscan' lastpos' (sc_pos r - sc_scan r) out' (ts @ [t])"
      using e r p(4,10) by (auto simp: loop_ok_def)
    ultimately show ?thesis using r(6) by blast
  next
    case False
    have "diff_loop I old new scan len pos lastscan lastpos lastoffset out =
        diff_loop I old new (sc_scan r) (sc_len r) (sc_pos r) lastscan lastpos lastoffset out"
      unfolding unf if_not_P [OF False] ..
    moreover have "loop_ok old new (sc_scan r) (sc_len r) (sc_pos r) lastscan lastpos lastoffset out ts"
      using False le p r by (simp add: loop_ok_def)
    ultimately show ?thesis using r(6) by blast
  qed
qed

lemma diff_loop_ok:
  assumes "sa_ok I old" "length new < 2 ^ 31" "length old < 2 ^ 62"
  shows "loop_ok old new scan len pos lastscan lastpos lastoffset out ts \<Longrightarrow>
    \<exists>out' ts' lastpos'. diff_loop I old new scan len pos lastscan lastpos lastoffset out = Some out' \<and>
      diff_ok old new (int (length new)) lastpos' out' ts' \<and> length ts' \<le> length new + 1"
proof (induction "if scan < int (length new) then Suc (nat (int (length new) - (scan + len))) else 0"
    arbitrary: scan len pos lastscan lastpos lastoffset out ts rule: less_induct)
  case less
  show ?case
  proof (cases "scan < int (length new)")
    case False
    then have "scan = int (length new)" "lastscan = int (length new)" using less.prems by (auto simp: loop_ok_def)
    then have "diff_loop I old new scan len pos lastscan lastpos lastoffset out = Some out"
      "diff_ok old new (int (length new)) lastpos out ts" "length ts \<le> length new + 1"
      using less.prems by (simp_all add: loop_ok_def diff_loop.simps [where scan = "int (length new)"])
    then show ?thesis by blast
  next
    case True
    obtain scan' len' pos' lastscan' lastpos' lastoffset' out' ts' where s:
      "diff_loop I old new scan len pos lastscan lastpos lastoffset out =
        diff_loop I old new scan' len' pos' lastscan' lastpos' lastoffset' out'"
      "loop_ok old new scan' len' pos' lastscan' lastpos' lastoffset' out' ts'"
      "scan' < int (length new) \<longrightarrow> scan + len < scan' + len'"
      using diff_step [OF assms less.prems True] by blast
    have "scan + len \<le> int (length new)" using less.prems True by (simp add: loop_ok_def)
    then have m: "(if scan' < int (length new) then Suc (nat (int (length new) - (scan' + len'))) else 0)
        < (if scan < int (length new) then Suc (nat (int (length new) - (scan + len))) else 0)"
      using s(2,3) True by (auto simp: loop_ok_def)
    show ?thesis unfolding s(1) by (rule less.hyps [OF m s(2)])
  qed
qed

lemma length_ctrl:
  "\<forall>t\<in>set ts. triple_ok t \<Longrightarrow> diff_total ts + extra_total ts < 2 ^ 31 \<Longrightarrow>
   length (concat (map enc_triple ts)) = 24 * length ts"
proof (induction ts)
  case Nil
  then show ?case by simp
next
  case (Cons t ts)
  obtain x y z where t: "t = (x, y, z)" by (cases t)
  have "x < 2 ^ 31" "y < 2 ^ 31" "\<bar>z\<bar> < 2 ^ 63" "diff_total ts + extra_total ts < 2 ^ 31"
    using Cons.prems by (simp_all add: t diff_total_def extra_total_def triple_ok_def)
  then show ?case using Cons by (simp add: t enc_triple_ok(1))
qed

lemma write_patch_ok:
  assumes "sa_ok I old" "length new < 2 ^ 31" "length old < 2 ^ 62"
    and small: "\<forall>x. length x \<le> 24 * (length new + 1) \<longrightarrow> length (compress x) < 2 ^ 32"
  shows "\<exists>out ts. write_patch compress old I new = Some (bsdiff_file (compress (out_ctrl out)) (compress (out_db out))
        (compress (out_eb out)) (length new)) \<and> diff_ok old new (int (length new)) (end_pos ts) out ts \<and>
      length (compress (out_ctrl out)) < 2 ^ 32 \<and> length (compress (out_db out)) < 2 ^ 32 \<and>
      length (compress (out_eb out)) < 2 ^ 32"
proof -
  let ?o = "\<lparr>out_ctrl = [], out_db = [], out_eb = []\<rparr>"
  have "loop_ok old new 0 0 0 0 0 0 ?o []"
    by (simp add: loop_ok_def diff_ok_def diff_total_def extra_total_def end_pos_def)
  then obtain out ts lp where o: "diff_loop I old new 0 0 0 0 0 0 ?o = Some out"
    "diff_ok old new (int (length new)) lp out ts" "length ts \<le> length new + 1"
    using diff_loop_ok [OF assms(1-3)] by blast
  have t: "length new = diff_total ts + extra_total ts" "\<forall>t\<in>set ts. triple_ok t" "lp = end_pos ts"
    "out_ctrl out = concat (map enc_triple ts)" "length (out_db out) = diff_total ts" "length (out_eb out) = extra_total ts"
    using o(2) unfolding diff_ok_def of_nat_eq_iff by blast+
  have l: "length (out_ctrl out) \<le> 24 * (length new + 1)" "length (out_db out) \<le> 24 * (length new + 1)"
    "length (out_eb out) \<le> 24 * (length new + 1)"
    using length_ctrl [OF t(2)] o(3) assms(2) t by simp_all
  note c = small [rule_format, OF l(1)] small [rule_format, OF l(2)] small [rule_format, OF l(3)]
  have "\<bar>int (length (compress (out_ctrl out)))\<bar> < 2 ^ 63" "\<bar>int (length (compress (out_db out)))\<bar> < 2 ^ 63"
    "\<bar>int (length new)\<bar> < 2 ^ 63" using c assms(2) by simp_all
  then have "write_patch compress old I new = Some (bsdiff_file (compress (out_ctrl out)) (compress (out_db out))
        (compress (out_eb out)) (length new))"
    by (simp add: write_patch_def o(1) Let_def offtout_enc8 bsdiff_file_def)
  then show ?thesis using o(2) t(3) c by blast
qed

subsection \<open>Properties\<close>

text \<open>
  C7: making a patch and applying it gives the new data back: for a suffix array with one entry per position of the old
  data, in whatever order, \<open>bsdiff\<close> ends, makes no access outside its buffers, and the
  patch it writes turns the old data into the new data, provided bzip2 decompresses what it compressed.
\<close>

theorem bsdiff_bspatch:
  assumes "sa_ok I old" "length new < 2 ^ 31" "length old < 2 ^ 62"
    and "\<forall>x. length x \<le> 24 * (length new + 1) \<longrightarrow> length (compress x) < 2 ^ 32"
    and "bz_law B content" "\<forall>x. content (snd (bz_init B (compress x))) = x" "\<And>n. alloc n"
  shows "\<exists>p. bsdiff compress old (Some I) new = Some (I, p) \<and> ApplyBSDiffPatchMem B alloc old p 0 = Some (0, new)"
proof -
  obtain out ts where o: "write_patch compress old I new = Some (bsdiff_file (compress (out_ctrl out)) (compress (out_db out))
        (compress (out_eb out)) (length new))" "diff_ok old new (int (length new)) (end_pos ts) out ts"
      "length (compress (out_ctrl out)) < 2 ^ 32" "length (compress (out_db out)) < 2 ^ 32"
      "length (compress (out_eb out)) < 2 ^ 32"
    using write_patch_ok [OF assms(1-4)] by blast
  have t: "length new = diff_total ts + extra_total ts" "\<forall>t\<in>set ts. triple_ok t"
    "out_ctrl out = concat (map enc_triple ts)" "length (out_db out) = diff_total ts" "length (out_eb out) = extra_total ts"
    "rebuild old ts (out_db out) (out_eb out) 0 = new"
    using o(2) by (simp_all add: diff_ok_def)
  have "ApplyBSDiffPatchMem B alloc old ([] @ bsdiff_file (compress (out_ctrl out)) (compress (out_db out))
      (compress (out_eb out)) (diff_total ts + extra_total ts)) (length ([] :: bytes)) =
      Some (0, rebuild old ts (content (snd (bz_init B (compress (out_db out)))))
        (content (snd (bz_init B (compress (out_eb out))))) 0)"
    by (rule bspatch_mem_ok [OF assms(5) t(2), where rest = "[]"]) (use assms(2,6,7) o t in simp_all)
  then show ?thesis using o(1) t by (simp add: bsdiff_def assms(6))
qed

theorem bsdiff_bspatch_witness:
  "\<exists>p. bsdiff (\<lambda>x. x) [1, 2, 3, 4] (Some [4, 0, 1, 2, 3]) [9, 2, 3, 4, 4] = Some ([4, 0, 1, 2, 3], p) \<and>
     ApplyBSDiffPatchMem plain_bz (\<lambda>n. True) [1, 2, 3, 4] p 0 = Some (0, [9, 2, 3, 4, 4])"
  by (rule bsdiff_bspatch [OF _ _ _ _ plain_bz_law]) (auto simp: sa_ok_def plain_bz_def)

end
