(* ===== verification/FileSys.thy ===== *)
theory FileSys
  imports Prelude
begin

text \<open>
  The file system the patching code works on, and the system calls it makes.

  A disk is a map from names to files; names are not resolved, so links and different spellings of a
  name are outside the model.  The kernel's freedom to fail, to move fewer bytes than asked and to report free
  space is the parameter \<open>sys\<close>: \<open>answer n\<close> decides the \<open>n\<close>-th call.  \<open>past\<close> is a ghost: the disks that were there
  before each change, what a power cut would have left; writes reach the disk in the order they are made.
\<close>

subsection \<open>Disks\<close>

record inode =
  i_data :: bytes
  i_mode :: nat
  i_uid :: nat
  i_gid :: nat
  i_reg :: bool

type_synonym disk = "string \<Rightarrow> inode option"

record 'x fs_world =
  now :: disk
  past :: "disk list"
  calls :: nat
  ext :: 'x

record sys =
  answer :: "nat \<Rightarrow> int"
  dir_names :: "nat \<Rightarrow> string \<Rightarrow> string list option"
  proc_links :: "nat \<Rightarrow> (string \<times> string option list option) list option"

definition tick :: "'x fs_world \<Rightarrow> 'x fs_world" where
  "tick w = w\<lparr>calls := Suc (calls w)\<rparr>"

definition ask :: "sys \<Rightarrow> 'x fs_world \<Rightarrow> int" where
  "ask S w = answer S (calls w)"

definition change :: "(disk \<Rightarrow> disk) \<Rightarrow> 'x fs_world \<Rightarrow> 'x fs_world" where
  "change f w = w\<lparr>now := f (now w), past := now w # past w\<rparr>"

text \<open>Every disk there was from the start of \<open>past\<close> on.\<close>

definition disks :: "'x fs_world \<Rightarrow> disk set" where
  "disks w = insert (now w) (set (past w))"

subsection \<open>System calls\<close>

definition fs_stat :: "sys \<Rightarrow> string \<Rightarrow> 'x fs_world \<Rightarrow> inode option \<times> 'x fs_world" where
  "fs_stat S name w = (if ask S w < 0 then None else now w name, tick w)"

text \<open>\<open>fopen(name, "rb")\<close>: the contents, to be read from.\<close>

definition fs_open_read :: "sys \<Rightarrow> string \<Rightarrow> 'x fs_world \<Rightarrow> bytes option \<times> 'x fs_world" where
  "fs_open_read S name w = (if ask S w < 0 then None else map_option i_data (now w name), tick w)"

text \<open>\<open>fread(p, 1, n, f)\<close> from the contents that are left: a failing read stops early.\<close>

definition fs_fread :: "sys \<Rightarrow> bytes \<Rightarrow> nat \<Rightarrow> 'x fs_world \<Rightarrow> bytes \<times> 'x fs_world" where
  "fs_fread S left n w =
     (take (if ask S w < 0 then min n (nat (- ask S w - 1)) else n) left, tick w)"

text \<open>\<open>open(name, O_WRONLY | O_CREAT | O_TRUNC)\<close>: there is no mode argument, so a new file has any mode.\<close>

definition fs_open_trunc :: "sys \<Rightarrow> string \<Rightarrow> 'x fs_world \<Rightarrow> bool \<times> 'x fs_world" where
  "fs_open_trunc S name w =
     (if ask S w < 0 then (False, tick w)
      else (True, tick (change (\<lambda>d. d(name \<mapsto>
        (case d name of
           Some i \<Rightarrow> i\<lparr>i_data := []\<rparr>
         | None \<Rightarrow> \<lparr>i_data = [], i_mode = nat (ask S w), i_uid = 0, i_gid = 0, i_reg = True\<rparr>))) w)))"

text \<open>\<open>write(fd, bs, n)\<close> at the end of the file that is open; when its name is gone, so is what is written.\<close>

definition append :: "string \<Rightarrow> bytes \<Rightarrow> disk \<Rightarrow> disk" where
  "append name bs d = d(name := map_option (\<lambda>i. i\<lparr>i_data := i_data i @ bs\<rparr>) (d name))"

definition fs_write :: "sys \<Rightarrow> string \<Rightarrow> bytes \<Rightarrow> 'x fs_world \<Rightarrow> int \<times> 'x fs_world" where
  "fs_write S name bs w =
     (if ask S w \<le> 0 then (ask S w, tick w)
      else let k = min (nat (ask S w)) (length bs)
           in (int k, tick (change (append name (take k bs)) w)))"

text \<open>
  Writing in place.  Opening a device with \<open>fopen(name, "wb")\<close> leaves its contents alone, and writing never makes it
  longer.  A small \<open>fwrite\<close> only fills the buffer of the stream; its bytes reach the disk when \<open>fclose\<close> flushes
  it, all of them or, when it fails, a part.  Bytes that are skipped are zero.
\<close>

definition fs_open_write :: "sys \<Rightarrow> string \<Rightarrow> 'x fs_world \<Rightarrow> bool \<times> 'x fs_world" where
  "fs_open_write S name w =
     (case now w name of
        Some i \<Rightarrow> if i_reg i then fs_open_trunc S name w else (\<not> ask S w < 0, tick w)
      | None \<Rightarrow> fs_open_trunc S name w)"

definition place :: "nat \<Rightarrow> bytes \<Rightarrow> inode \<Rightarrow> inode" where
  "place off bs i =
     (let d = i_data i; d1 = take off d @ replicate (off - length d) 0 @ bs @ drop (off + length bs) d
      in i\<lparr>i_data := (if bs = [] then d else if i_reg i then d1 else take (length d) d1)\<rparr>)"

definition fs_close_write :: "sys \<Rightarrow> string \<Rightarrow> nat \<Rightarrow> bytes \<Rightarrow> 'x fs_world \<Rightarrow> int \<times> 'x fs_world" where
  "fs_close_write S name off bs w =
     (let room = (case now w name of
                    Some i \<Rightarrow> if i_reg i then length bs else min (length bs) (length (i_data i) - off)
                  | None \<Rightarrow> length bs);
          k = (if ask S w < 0 then min room (nat (- ask S w - 1)) else room)
      in (if ask S w < 0 \<or> k < length bs then - 1 else 0,
          tick (change (\<lambda>d. d(name := map_option (place off (take k bs)) (d name))) w)))"

definition fs_chmod :: "sys \<Rightarrow> string \<Rightarrow> nat \<Rightarrow> 'x fs_world \<Rightarrow> int \<times> 'x fs_world" where
  "fs_chmod S name mode w =
     (if ask S w < 0 \<or> now w name = None then (- 1, tick w)
      else (0, tick (change (\<lambda>d. d(name := map_option (\<lambda>i. i\<lparr>i_mode := mode\<rparr>) (d name))) w)))"

definition fs_chown :: "sys \<Rightarrow> string \<Rightarrow> nat \<Rightarrow> nat \<Rightarrow> 'x fs_world \<Rightarrow> int \<times> 'x fs_world" where
  "fs_chown S name uid gid w =
     (if ask S w < 0 \<or> now w name = None then (- 1, tick w)
      else (0, tick (change (\<lambda>d. d(name := map_option (\<lambda>i. i\<lparr>i_uid := uid, i_gid := gid\<rparr>) (d name))) w)))"

definition fs_unlink :: "sys \<Rightarrow> string \<Rightarrow> 'x fs_world \<Rightarrow> int \<times> 'x fs_world" where
  "fs_unlink S name w =
     (if ask S w < 0 \<or> now w name = None then (- 1, tick w)
      else (0, tick (change (\<lambda>d. d(name := None)) w)))"

definition fs_rename :: "sys \<Rightarrow> string \<Rightarrow> string \<Rightarrow> 'x fs_world \<Rightarrow> int \<times> 'x fs_world" where
  "fs_rename S from to w =
     (if ask S w < 0 \<or> now w from = None then (- 1, tick w)
      else (0, tick (change (\<lambda>d. d(from := None, to := d from)) w)))"

text \<open>\<open>statfs\<close>: the product of block size and free blocks as a \<open>size_t\<close>.\<close>

definition fs_statfs :: "sys \<Rightarrow> string \<Rightarrow> 'x fs_world \<Rightarrow> u64 option \<times> 'x fs_world" where
  "fs_statfs S name w = (if ask S w < 0 then None else Some (word_of_int (ask S w)), tick w)"

subsection \<open>What calls leave alone\<close>

named_theorems fs_defs \<open>definitions of the system calls\<close>

lemmas [fs_defs] = fs_stat_def fs_open_read_def fs_fread_def fs_open_trunc_def fs_write_def fs_chmod_def fs_chown_def
  fs_unlink_def fs_rename_def fs_statfs_def

lemma tick_simps [simp]:
  "now (tick w) = now w" "past (tick w) = past w" "ext (tick w) = ext w" "disks (tick w) = disks w"
  by (simp_all add: tick_def disks_def)

lemma change_simps [simp]:
  "now (change f w) = f (now w)" "past (change f w) = now w # past w" "ext (change f w) = ext w"
  "disks (change f w) = insert (f (now w)) (disks w)"
  by (auto simp: change_def disks_def)

lemma now_in_disks [simp]: "now w \<in> disks w"
  by (simp add: disks_def)

lemma read_calls [simp]:
  "now (snd (fs_stat S n w)) = now w" "disks (snd (fs_stat S n w)) = disks w"
  "now (snd (fs_open_read S n w)) = now w" "disks (snd (fs_open_read S n w)) = disks w"
  "now (snd (fs_fread S l k w)) = now w" "disks (snd (fs_fread S l k w)) = disks w"
  "now (snd (fs_statfs S n w)) = now w" "disks (snd (fs_statfs S n w)) = disks w"
  by (simp_all add: fs_defs)

text \<open>
  A law that must hold of every disk there ever is.  \<open>keeps P w w'\<close>: between \<open>w\<close> and \<open>w'\<close> no disk breaks it.
\<close>

definition keeps :: "(disk \<Rightarrow> bool) \<Rightarrow> 'x fs_world \<Rightarrow> 'x fs_world \<Rightarrow> bool" where
  "keeps P w w' \<longleftrightarrow> (\<forall>d\<in>disks w'. d \<in> disks w \<or> P d)"

lemma keeps_refl [simp, intro]: "keeps P w w"
  by (simp add: keeps_def)

lemma keeps_trans [trans]: "keeps P w w' \<Longrightarrow> keeps P w' w'' \<Longrightarrow> keeps P w w''"
  by (auto simp: keeps_def)

lemma keeps_tick [simp]: "keeps P w (tick w') \<longleftrightarrow> keeps P w w'"
  by (simp add: keeps_def)

lemma keeps_change: "P (f (now w)) \<Longrightarrow> keeps P w (tick (change f w))"
  by (simp add: keeps_def)

lemma keeps_same: "disks w' = disks w \<Longrightarrow> keeps P w w'"
  by (simp add: keeps_def)

end
