(* ===== verification/FreeCache.thy ===== *)
theory FreeCache
  imports FileSys
begin

text \<open>
  Making room on the cache partition: \<open>applypatch/freecache.c\<close>, with \<open>FreeSpaceForFile\<close> and \<open>CacheSizeCheck\<close>
  of \<open>applypatch/applypatch.c\<close>.

  \<open>dir_names\<close> is what \<open>readdir\<close> gives of a directory (\<open>None\<close>: \<open>opendir\<close> fails), \<open>proc_links\<close> the numeric and other entries
  of \<open>/proc\<close>, each with what \<open>readlink\<close> says of its file descriptors.  Messages and memory are left out.
\<close>

definition CACHE_TEMP_SOURCE :: string where "CACHE_TEMP_SOURCE = ''/cache/saved.file''"

text \<open>The error value -1 is the largest \<open>size_t\<close>.\<close>

definition FreeSpaceForFile :: "sys \<Rightarrow> string \<Rightarrow> 'x fs_world \<Rightarrow> u64 \<times> 'x fs_world" where
  "FreeSpaceForFile S filename w =
     (case fs_statfs S filename w of
        (None, w1) \<Rightarrow> (- 1, w1)
      | (Some n, w1) \<Rightarrow> (n, w1))"

subsection \<open>Which files may go\<close>

definition is_digit :: "char \<Rightarrow> bool" where
  "is_digit c \<longleftrightarrow> CHR ''0'' \<le> c \<and> c \<le> CHR ''9''"

text \<open>One link of one process: the files it names are struck out.\<close>

definition strike_link :: "string option \<Rightarrow> string option list \<Rightarrow> string option list" where
  "strike_link link files =
     (case link of
        None \<Rightarrow> files
      | Some l \<Rightarrow> if take 7 l = ''/cache/'' then map (\<lambda>f. if f = Some l then None else f) files else files)"

definition strike_process :: "string \<times> string option list option \<Rightarrow> string option list \<Rightarrow> string option list" where
  "strike_process p files =
     (if \<not> list_all is_digit (fst p) then files
      else case snd p of None \<Rightarrow> files | Some links \<Rightarrow> fold strike_link links files)"

definition EliminateOpenFiles :: "sys \<Rightarrow> string option list \<Rightarrow> 'x fs_world \<Rightarrow> (string option list option) \<times> 'x fs_world" where
  "EliminateOpenFiles S files w =
     (map_option (\<lambda>ps. fold strike_process ps files) (proc_links S (calls w)), tick w)"

fun scan_names :: "sys \<Rightarrow> string \<Rightarrow> string list \<Rightarrow> 'x fs_world \<Rightarrow> string list \<times> 'x fs_world" where
  "scan_names S dir [] w = ([], w)"
| "scan_names S dir (n # ns) w =
     (let path = dir @ ''/'' @ n
      in if path = CACHE_TEMP_SOURCE then scan_names S dir ns w
         else let (st, w1) = fs_stat S path w;
                  (rest, w2) = scan_names S dir ns w1
              in (if st \<noteq> None \<and> i_reg (the st) then path # rest else rest, w2))"

fun scan_dirs :: "sys \<Rightarrow> string list \<Rightarrow> 'x fs_world \<Rightarrow> string list \<times> 'x fs_world" where
  "scan_dirs S [] w = ([], w)"
| "scan_dirs S (dir # dirs) w =
     (case dir_names S (calls w) dir of
        None \<Rightarrow> scan_dirs S dirs (tick w)
      | Some ns \<Rightarrow> let (a, w1) = scan_names S dir ns (tick w); (b, w2) = scan_dirs S dirs w1 in (a @ b, w2))"

definition expendable_dirs :: "string list" where
  "expendable_dirs = [''/cache'', ''/cache/recovery/otatest'']"

definition FindExpendableFiles :: "sys \<Rightarrow> 'x fs_world \<Rightarrow> string option list option \<times> 'x fs_world" where
  "FindExpendableFiles S w =
     (let (names, w1) = scan_dirs S expendable_dirs w in EliminateOpenFiles S (map Some names) w1)"

subsection \<open>Deleting\<close>

fun delete_loop :: "sys \<Rightarrow> u64 \<Rightarrow> string option list \<Rightarrow> u64 \<Rightarrow> 'x fs_world \<Rightarrow> u64 \<times> 'x fs_world" where
  "delete_loop S needed [] free_now w = (free_now, w)"
| "delete_loop S needed (n # ns) free_now w =
     (if \<not> free_now < needed then (free_now, w)
      else case n of
        None \<Rightarrow> delete_loop S needed ns free_now w
      | Some name \<Rightarrow>
          let (e, w1) = fs_unlink S name w; (free1, w2) = FreeSpaceForFile S ''/cache'' w1
          in delete_loop S needed ns free1 w2)"

definition MakeFreeSpaceOnCache :: "sys \<Rightarrow> u64 \<Rightarrow> 'x fs_world \<Rightarrow> int \<times> 'x fs_world" where
  "MakeFreeSpaceOnCache S needed w =
     (let (free_now, w1) = FreeSpaceForFile S ''/cache'' w
      in if free_now \<ge> needed then (0, w1)
         else case FindExpendableFiles S w1 of
           (None, w2) \<Rightarrow> (- 1, w2)
         | (Some names, w2) \<Rightarrow>
             if names = [] then (- 1, w2)
             else let (free2, w3) = delete_loop S needed names free_now w2
                  in (if free2 \<ge> needed then 0 else - 1, w3))"

definition CacheSizeCheck :: "sys \<Rightarrow> u64 \<Rightarrow> 'x fs_world \<Rightarrow> int \<times> 'x fs_world" where
  "CacheSizeCheck S bytes w =
     (let (r, w1) = MakeFreeSpaceOnCache S bytes w in (if r < 0 then 1 else 0, w1))"

subsection \<open>What may have been deleted\<close>

text \<open>A name directly in one of the two directories, apart from the saved copy.\<close>

definition expendable :: "string \<Rightarrow> bool" where
  "expendable name \<longleftrightarrow> name \<noteq> CACHE_TEMP_SOURCE \<and> (\<exists>dir\<in>set expendable_dirs. \<exists>n. name = dir @ ''/'' @ n)"

definition held :: "(string \<times> string option list option) list \<Rightarrow> string \<Rightarrow> bool" where
  "held ps name \<longleftrightarrow> (\<exists>(p, ls)\<in>set ps. list_all is_digit p \<and> (\<exists>links. ls = Some links \<and> Some name \<in> set links))"

lemma scan_names_ok:
  "set (fst (scan_names S dir ns w)) \<subseteq>
     {p. p \<noteq> CACHE_TEMP_SOURCE \<and> (\<exists>n. p = dir @ ''/'' @ n) \<and> (\<exists>i. now w p = Some i \<and> i_reg i)} \<and>
   now (snd (scan_names S dir ns w)) = now w \<and> disks (snd (scan_names S dir ns w)) = disks w"
proof (induction ns arbitrary: w)
  case Nil
  then show ?case by simp
next
  case (Cons n ns)
  let ?p = "dir @ ''/'' @ n"
  show ?case
  proof (cases "?p = CACHE_TEMP_SOURCE")
    case True
    then show ?thesis using Cons.IH [of w] by simp
  next
    case False
    obtain st w1 where s: "fs_stat S ?p w = (st, w1)" by (cases "fs_stat S ?p w")
    obtain rest w2 where r: "scan_names S dir ns w1 = (rest, w2)" by (cases "scan_names S dir ns w1")
    have "now w1 = now w" "disks w1 = disks w" using s read_calls(1,2) [of S ?p w] by simp_all
    moreover have "\<exists>i. now w ?p = Some i \<and> i_reg i" if "st \<noteq> None \<and> i_reg (the st)"
      using s that by (auto simp: fs_stat_def split: if_splits)
    ultimately show ?thesis using Cons.IH [of w1] False s r by (auto simp: Let_def)
  qed
qed

lemma scan_dirs_ok:
  "set (fst (scan_dirs S dirs w)) \<subseteq>
     {p. p \<noteq> CACHE_TEMP_SOURCE \<and> (\<exists>dir\<in>set dirs. \<exists>n. p = dir @ ''/'' @ n) \<and> (\<exists>i. now w p = Some i \<and> i_reg i)} \<and>
   now (snd (scan_dirs S dirs w)) = now w \<and> disks (snd (scan_dirs S dirs w)) = disks w"
proof (induction dirs arbitrary: w)
  case Nil
  then show ?case by simp
next
  case (Cons dir dirs)
  show ?case
  proof (cases "dir_names S (calls w) dir")
    case None
    then show ?thesis using Cons.IH [of "tick w"] by auto
  next
    case (Some ns)
    obtain a w1 where a: "scan_names S dir ns (tick w) = (a, w1)" by (cases "scan_names S dir ns (tick w)")
    obtain b w2 where b: "scan_dirs S dirs w1 = (b, w2)" by (cases "scan_dirs S dirs w1")
    show ?thesis using Cons.IH [of w1] scan_names_ok [of S dir ns "tick w"] Some a b by auto
  qed
qed

lemma strike_link_set:
  "Some n \<in> set (strike_link l files) \<longleftrightarrow> Some n \<in> set files \<and> \<not> (l = Some n \<and> take 7 n = ''/cache/'')"
  by (auto simp: strike_link_def split: option.splits)

lemma strike_links_set:
  "Some n \<in> set (fold strike_link ls files) \<longleftrightarrow> Some n \<in> set files \<and> \<not> (Some n \<in> set ls \<and> take 7 n = ''/cache/'')"
  by (induction ls arbitrary: files) (auto simp: strike_link_set)

lemma strike_process_set:
  "Some n \<in> set (strike_process p files) \<longleftrightarrow> Some n \<in> set files \<and> \<not> (held [p] n \<and> take 7 n = ''/cache/'')"
  by (cases p) (auto simp: strike_process_def held_def strike_links_set split: option.splits)

lemma strike_all_set:
  "Some n \<in> set (fold strike_process ps files) \<longleftrightarrow> Some n \<in> set files \<and> \<not> (held ps n \<and> take 7 n = ''/cache/'')"
  by (induction ps arbitrary: files) (auto simp: strike_process_set held_def)

lemma expendable_cache: "expendable n \<Longrightarrow> take 7 n = ''/cache/''"
  by (auto simp: expendable_def expendable_dirs_def)

text \<open>The names that are found: regular files in the right place that no process has open.\<close>

lemma FindExpendableFiles_ok:
  assumes "FindExpendableFiles S w = (Some names, w1)" "Some n \<in> set names"
  shows "expendable n" "\<exists>i. now w n = Some i \<and> i_reg i" "\<exists>t ps. proc_links S t = Some ps \<and> \<not> held ps n"
proof -
  obtain ns w2 where d: "scan_dirs S expendable_dirs w = (ns, w2)" by (cases "scan_dirs S expendable_dirs w")
  obtain ps where ps: "proc_links S (calls w2) = Some ps" "names = fold strike_process ps (map Some ns)"
    using assms(1) d by (auto simp: FindExpendableFiles_def EliminateOpenFiles_def)
  have n: "n \<in> set ns" "\<not> (held ps n \<and> take 7 n = ''/cache/'')" using assms(2) ps(2) by (auto simp: strike_all_set)
  show e: "expendable n" "\<exists>i. now w n = Some i \<and> i_reg i"
    using scan_dirs_ok [of S expendable_dirs w] d n(1) by (auto simp: expendable_def)
  show "\<exists>t ps. proc_links S t = Some ps \<and> \<not> held ps n" using ps(1) n(2) expendable_cache [OF e(1)] by blast
qed

lemma FindExpendableFiles_world:
  "now (snd (FindExpendableFiles S w)) = now w" "disks (snd (FindExpendableFiles S w)) = disks w"
  using scan_dirs_ok [of S expendable_dirs w]
  by (simp_all add: FindExpendableFiles_def EliminateOpenFiles_def case_prod_beta)

lemma FreeSpaceForFile_world [simp]:
  "now (snd (FreeSpaceForFile S f w)) = now w" "disks (snd (FreeSpaceForFile S f w)) = disks w"
  by (simp_all add: FreeSpaceForFile_def fs_statfs_def)

text \<open>\<open>d\<close> is \<open>d0\<close> without some of the names of \<open>X\<close>.\<close>

definition thinned :: "string set \<Rightarrow> disk \<Rightarrow> disk \<Rightarrow> bool" where
  "thinned X d0 d \<longleftrightarrow> (\<forall>n. d n = d0 n \<or> n \<in> X \<and> d n = None)"

lemma thinned_refl [simp]: "thinned X d d" by (simp add: thinned_def)

lemma thinned_trans: "thinned X d0 d1 \<Longrightarrow> thinned X d1 d2 \<Longrightarrow> thinned X d0 d2"
  unfolding thinned_def by metis

lemma thinned_mono: "thinned X d0 d \<Longrightarrow> X \<subseteq> Y \<Longrightarrow> thinned Y d0 d"
  unfolding thinned_def by blast

lemma thinned_unlink:
  "fs_unlink S name w = (e, w1) \<Longrightarrow> name \<in> X \<Longrightarrow> thinned X (now w) (now w1) \<and> disks w1 \<subseteq> insert (now w1) (disks w)"
  by (auto simp: fs_unlink_def thinned_def split: if_splits)

lemma delete_loop_ok:
  "{n. Some n \<in> set names} \<subseteq> X \<Longrightarrow>
   thinned X (now w) (now (snd (delete_loop S needed names free_now w))) \<and>
   (\<forall>d\<in>disks (snd (delete_loop S needed names free_now w)). d \<in> disks w \<or> thinned X (now w) d)"
proof (induction names arbitrary: free_now w)
  case Nil
  then show ?case by simp
next
  case (Cons n names)
  show ?case
  proof (cases "free_now < needed \<and> n \<noteq> None")
    case False
    then show ?thesis using Cons by (auto split: option.splits)
  next
    case True
    then obtain name where n: "n = Some name" by blast
    obtain e w1 where u: "fs_unlink S name w = (e, w1)" by (cases "fs_unlink S name w")
    obtain free1 w2 where f: "FreeSpaceForFile S ''/cache'' w1 = (free1, w2)" by (cases "FreeSpaceForFile S ''/cache'' w1")
    have w2: "now w2 = now w1" "disks w2 = disks w1" using f FreeSpaceForFile_world [of S "''/cache''" w1] by simp_all
    have t: "thinned X (now w) (now w1)" "disks w1 \<subseteq> insert (now w1) (disks w)"
      using thinned_unlink [OF u, of X] Cons.prems n by auto
    have eq: "delete_loop S needed (n # names) free_now w = delete_loop S needed names free1 w2"
      using True n u f by simp
    have "{n. Some n \<in> set names} \<subseteq> X" using Cons.prems by auto
    then have IH: "thinned X (now w1) (now (snd (delete_loop S needed names free1 w2)))"
      "\<forall>d\<in>disks (snd (delete_loop S needed names free1 w2)). d \<in> disks w1 \<or> thinned X (now w1) d"
      using Cons.IH [of w2 free1] unfolding w2 by auto
    have "d \<in> disks w \<or> thinned X (now w) d" if "d \<in> disks w1 \<or> thinned X (now w1) d" for d
      using that t thinned_trans by blast
    then show ?thesis unfolding eq using IH thinned_trans [OF t(1)] by simp
  qed
qed

lemma MakeFreeSpaceOnCache_thins:
  "thinned (Collect expendable) (now w) (now (snd (MakeFreeSpaceOnCache S needed w))) \<and>
   (\<forall>d\<in>disks (snd (MakeFreeSpaceOnCache S needed w)). d \<in> disks w \<or> thinned (Collect expendable) (now w) d)"
proof -
  obtain f w1 where f: "FreeSpaceForFile S ''/cache'' w = (f, w1)" by (cases "FreeSpaceForFile S ''/cache'' w")
  have w1: "now w1 = now w" "disks w1 = disks w" using f FreeSpaceForFile_world [of S "''/cache''" w] by simp_all
  obtain ns w2 where n: "FindExpendableFiles S w1 = (ns, w2)" by (cases "FindExpendableFiles S w1")
  have w2: "now w2 = now w" "disks w2 = disks w" using n w1 FindExpendableFiles_world [of S w1] by simp_all
  show ?thesis
  proof (cases "f \<ge> needed \<or> ns = None \<or> ns = Some []")
    case True
    then show ?thesis using f n w1 w2 by (auto simp: MakeFreeSpaceOnCache_def)
  next
    case False
    then obtain names where ns: "ns = Some names" by (cases ns) auto
    have sub: "{n. Some n \<in> set names} \<subseteq> Collect expendable"
      using FindExpendableFiles_ok(1) [OF n [unfolded ns]] by blast
    have "snd (MakeFreeSpaceOnCache S needed w) = snd (delete_loop S needed names f w2)"
      using False f n ns by (simp add: MakeFreeSpaceOnCache_def case_prod_beta)
    then show ?thesis using delete_loop_ok [OF sub, of w2 S needed f] unfolding w2 by simp
  qed
qed

subsection \<open>Properties\<close>

text \<open>The files \<open>MakeFreeSpaceOnCache\<close> may delete.\<close>

definition deletable :: "sys \<Rightarrow> disk \<Rightarrow> string set" where
  "deletable S d = {n. expendable n \<and> (\<exists>i. d n = Some i \<and> i_reg i) \<and> (\<exists>t ps. proc_links S t = Some ps \<and> \<not> held ps n)}"

text \<open>
  C15: making room on the cache partition deletes nothing but regular files that are directly in \<open>/cache\<close> or
  \<open>/cache/recovery/otatest\<close>, that no process listed in \<open>/proc\<close> has open, and that are not the saved copy of a file
  being patched; every other file stays as it is at every moment, and with enough space at the start nothing changes.
\<close>

theorem freecache_deletes_only:
  assumes "MakeFreeSpaceOnCache S needed w = (r, w')"
  shows "(\<forall>d\<in>disks w'. d \<in> disks w \<or> (\<forall>n. d n = now w n \<or> n \<in> deletable S (now w) \<and> d n = None)) \<and>
    (needed \<le> fst (FreeSpaceForFile S ''/cache'' w) \<longrightarrow> r = 0 \<and> now w' = now w) \<and> (r = 0 \<or> r = - 1)"
proof -
  obtain f w1 where f: "FreeSpaceForFile S ''/cache'' w = (f, w1)" by (cases "FreeSpaceForFile S ''/cache'' w")
  have w1: "now w1 = now w" "disks w1 = disks w" using f FreeSpaceForFile_world [of S "''/cache''" w] by simp_all
  obtain ns w2 where n: "FindExpendableFiles S w1 = (ns, w2)" by (cases "FindExpendableFiles S w1")
  have w2: "now w2 = now w" "disks w2 = disks w" using n w1 FindExpendableFiles_world [of S w1] by simp_all
  show ?thesis
  proof (cases "f \<ge> needed \<or> ns = None \<or> ns = Some []")
    case True
    then have "r = 0 \<and> w' = w1 \<or> r = - 1 \<and> w' = w2 \<and> \<not> f \<ge> needed"
      using assms f n by (auto simp: MakeFreeSpaceOnCache_def split: if_splits)
    then show ?thesis using f w1 w2 by auto
  next
    case False
    then obtain names where ns: "ns = Some names" by (cases ns) auto
    have sub: "{n. Some n \<in> set names} \<subseteq> deletable S (now w)"
      using FindExpendableFiles_ok [OF n [unfolded ns]] w1(1) unfolding deletable_def by fastforce
    have "w' = snd (delete_loop S needed names f w2)" "r = 0 \<or> r = - 1"
      using assms False f n ns by (auto simp: MakeFreeSpaceOnCache_def case_prod_beta split: if_splits)
    then show ?thesis using delete_loop_ok [OF sub, of w2 S needed f] False f
      unfolding w2 thinned_def by auto
  qed
qed

text \<open>One file of the cache is in the way, another is open.\<close>

definition cache_sys :: sys where
  "cache_sys = \<lparr>answer = (\<lambda>n. 10), dir_names = (\<lambda>n d. if d = ''/cache'' then Some [''a'', ''b''] else None),
     proc_links = (\<lambda>n. Some [(''12'', Some [Some ''/cache/b''])])\<rparr>"

definition cache_world :: "unit fs_world" where
  "cache_world = \<lparr>now = (\<lambda>n. if n = ''/cache/a'' \<or> n = ''/cache/b'' then Some \<lparr>i_data = [], i_mode = 0, i_uid = 0, i_gid = 0, i_reg = True\<rparr>
      else None), past = [], calls = 0, ext = ()\<rparr>"

theorem freecache_deletes_only_witness:
  "\<exists>w'. MakeFreeSpaceOnCache cache_sys 20 cache_world = (- 1, w') \<and> now w' ''/cache/a'' = None \<and> now w' ''/cache/b'' \<noteq> None \<and>
     (\<forall>d\<in>disks w'. d \<in> disks cache_world \<or>
        (\<forall>n. d n = now cache_world n \<or> n \<in> deletable cache_sys (now cache_world) \<and> d n = None))"
proof -
  obtain r w' where w': "MakeFreeSpaceOnCache cache_sys 20 cache_world = (r, w')"
    by (cases "MakeFreeSpaceOnCache cache_sys 20 cache_world")
  then have "r = - 1" "now w' ''/cache/a'' = None" "now w' ''/cache/b'' \<noteq> None"
    by (auto simp: MakeFreeSpaceOnCache_def FreeSpaceForFile_def FindExpendableFiles_def EliminateOpenFiles_def
        expendable_dirs_def CACHE_TEMP_SOURCE_def strike_process_def strike_link_def is_digit_def cache_sys_def cache_world_def
        fs_statfs_def fs_stat_def fs_unlink_def ask_def less_eq_char_def Let_def)
  then show ?thesis using freecache_deletes_only [OF w'] w' by blast
qed

text \<open>A failing \<open>statfs\<close> counts as room for anything.\<close>

lemma freecache_statfs_failure:
  assumes "answer S (calls w) < 0"
  shows "MakeFreeSpaceOnCache S needed w = (0, tick w)"
  using assms by (simp add: MakeFreeSpaceOnCache_def FreeSpaceForFile_def fs_statfs_def ask_def)

end
