(* ===== verification/ApplyPatch.thy ===== *)
theory ApplyPatch
  imports FreeCache MtdScan Edify ImgPatch
begin

text \<open>
  Patching files and partitions: \<open>applypatch/applypatch.c\<close>.

  The environment \<open>ap_env\<close> holds what is not in the repository: the kernel (\<open>sys\<close>, the flash driver), libmincrypt's
  SHA-1, bzip2, zlib, \<open>qsort\<close> and \<open>malloc\<close>'s answers.  A world is a \<open>fs_world\<close> whose extension holds the partition
  table and the flash.  Block devices (\<open>EMMC:\<close>) are files.  Reading a \<open>FileContents\<close> that was not loaded or was
  freed is undefined behaviour, like NULL handed to \<open>strcmp\<close>, \<open>strtol\<close> or \<open>fopen\<close>.
\<close>

subsection \<open>The environment\<close>

record 'c sha_ops =
  sha_init :: 'c
  sha_update :: "'c \<Rightarrow> bytes \<Rightarrow> 'c"
  sha_final :: "'c \<Rightarrow> bytes"

record ('s, 'z, 'd, 'c, 'w) ap_env =
  ap_sys :: sys
  ap_alloc :: "nat \<Rightarrow> bool"
  ap_sha :: "'c sha_ops"
  ap_bz :: "'s bzip2"
  ap_inflate :: "'z zlib"
  ap_deflate :: "'d deflater"
  ap_qsort :: "(nat \<times> string option) list \<Rightarrow> (nat \<times> string option) list"
  ap_mtd :: "'w mtd_dev"
  ap_proc_mtd :: "string option"

record 'w ap_ext =
  tab :: mtd_state
  scanned :: bool
  flash :: 'w

type_synonym 'w ap_world = "'w ap_ext fs_world"

definition SHA :: "('s, 'z, 'd, 'c, 'w) ap_env \<Rightarrow> bytes \<Rightarrow> bytes" where
  "SHA E bs = sha_final (ap_sha E) (sha_update (ap_sha E) (sha_init (ap_sha E)) bs)"

record file_contents =
  fc_sha1 :: bytes
  fc_data :: bytes
  fc_mode :: nat
  fc_uid :: nat
  fc_gid :: nat

subsection \<open>SHA-1 sums as text\<close>

definition SHA_DIGEST_SIZE :: nat where "SHA_DIGEST_SIZE = 20"

definition hex_digit :: "char \<Rightarrow> nat option" where
  "hex_digit c =
     (if CHR ''0'' \<le> c \<and> c \<le> CHR ''9'' then Some (of_char c - 48)
      else if CHR ''a'' \<le> c \<and> c \<le> CHR ''f'' then Some (of_char c - 97 + 10)
      else if CHR ''A'' \<le> c \<and> c \<le> CHR ''F'' then Some (of_char c - 65 + 10)
      else None)"

text \<open>Two digits a turn; \<open>None\<close> is the answer -1.\<close>

fun sha1_pairs :: "nat \<Rightarrow> string \<Rightarrow> (bytes \<times> string) option" where
  "sha1_pairs 0 s = Some ([], s)"
| "sha1_pairs (Suc n) s =
     (case s of
        a # b # rest \<Rightarrow>
          do { x \<leftarrow> hex_digit a; y \<leftarrow> hex_digit b;
               (ds, end') \<leftarrow> sha1_pairs n rest;
               Some ((push_bit 4 (word_of_nat x) OR word_of_nat y) # ds, end') }
      | _ \<Rightarrow> None)"

definition ParseSha1 :: "string \<Rightarrow> bytes option" where
  "ParseSha1 str =
     (case sha1_pairs SHA_DIGEST_SIZE str of
        None \<Rightarrow> None
      | Some (digest, rest) \<Rightarrow> if rest \<noteq> [] then None else Some digest)"

text \<open>The index of the first string that parses to the sum, -1 when there is none.\<close>

fun find_patch :: "bytes \<Rightarrow> string list \<Rightarrow> nat \<Rightarrow> int" where
  "find_patch sha1 [] i = - 1"
| "find_patch sha1 (s # ss) i = (if ParseSha1 s = Some sha1 then int i else find_patch sha1 ss (i + 1))"

definition FindMatchingPatch :: "bytes \<Rightarrow> string list \<Rightarrow> int" where
  "FindMatchingPatch sha1 patch_sha1_str = find_patch sha1 patch_sha1_str 0"

text \<open>Only a sum of exactly forty digits is accepted, nothing after it.\<close>

lemma sha1_pairs_length: "sha1_pairs n s = Some (ds, r) \<Longrightarrow> length s = 2 * n + length r \<and> length ds = n"
  by (induction n s arbitrary: ds rule: sha1_pairs.induct) (auto simp: bind_eq_Some_conv split: list.splits)

lemma ParseSha1_length: "ParseSha1 str = Some d \<Longrightarrow> length str = 40 \<and> length d = 20"
  by (auto simp: ParseSha1_def SHA_DIGEST_SIZE_def split: option.splits if_splits dest!: sha1_pairs_length)

subsection \<open>Sinks\<close>

text \<open>\<open>write\<close> until all is written or it fails; the file is the one open under the name.\<close>

function FileSink_loop :: "sys \<Rightarrow> string \<Rightarrow> bytes \<Rightarrow> int \<Rightarrow> 'x fs_world \<Rightarrow> int \<times> 'x fs_world" where
  "FileSink_loop S name bs done' w =
     (if bs = [] then (done', w)
      else let (wrote, w1) = fs_write S name bs w
           in if wrote \<le> 0 then (done', w1)
              else FileSink_loop S name (drop (nat wrote) bs) (done' + wrote) w1)"
  by pat_completeness auto
termination
  by (relation "measure (\<lambda>(S, name, bs, done', w). length bs)") auto

declare FileSink_loop.simps [simp del]

definition FileSink :: "sys \<Rightarrow> string \<Rightarrow> bytes \<Rightarrow> 'x fs_world \<Rightarrow> int \<times> 'x fs_world" where
  "FileSink S name bs w = FileSink_loop S name bs 0 w"

record memory_sink =
  ms_buffer :: bytes
  ms_pos :: nat

definition MemorySink :: "bytes \<Rightarrow> memory_sink \<Rightarrow> int \<times> memory_sink" where
  "MemorySink bs m =
     (if int (length (ms_buffer m)) - int (ms_pos m) < int (length bs) then (- 1, m)
      else (int (length bs),
            \<lparr>ms_buffer = take (ms_pos m) (ms_buffer m) @ bs @ drop (ms_pos m + length bs) (ms_buffer m),
             ms_pos = ms_pos m + length bs\<rparr>))"

subsection \<open>Reading partitions\<close>

definition strtok :: "char \<Rightarrow> string \<Rightarrow> (string \<times> string) option" where
  "strtok c s =
     (let t = dropWhile (\<lambda>x. x = c) s
      in if t = [] then None else Some (takeWhile (\<lambda>x. x \<noteq> c) t, drop 1 (dropWhile (\<lambda>x. x \<noteq> c) t)))"

definition token :: "string \<Rightarrow> string option \<times> string" where
  "token s = (case strtok CHR '':'' s of None \<Rightarrow> (None, []) | Some (t, r) \<Rightarrow> (Some t, r))"

definition size_of_long :: "int \<Rightarrow> nat" where
  "size_of_long i = unat (word_of_int i :: u64)"

text \<open>The size and sum pairs; \<open>Some None\<close> is a bad size.\<close>

fun part_pairs :: "nat \<Rightarrow> string \<Rightarrow> (nat \<times> string option) list option ub" where
  "part_pairs 0 s = Some (Some [])"
| "part_pairs (Suc n) s =
     do { let (t, s1) = token s;
          size_str \<leftarrow> t;
          let size' = size_of_long (fst (strtol10 size_str));
          if size' = 0 then Some None
          else do {
            let (sha1sum, s2) = token s1;
            rest \<leftarrow> part_pairs n s2;
            Some (map_option ((#) (size', sha1sum)) rest) }}"

datatype part_src = Src_mtd mtd_read_context | Src_dev bytes

definition scan_once :: "('s, 'z, 'd, 'c, 'w) ap_env \<Rightarrow> 'w ap_world \<Rightarrow> 'w ap_world ub" where
  "scan_once E w =
     (if scanned (ext w) then Some w
      else do { (n, g) \<leftarrow> mtd_scan_partitions (ap_alloc E) (ap_proc_mtd E) (tab (ext w));
                Some (w\<lparr>ext := (ext w)\<lparr>tab := g, scanned := True\<rparr>\<rparr>) })"

text \<open>\<open>mtd_find_partition_by_name\<close> with a name that may be NULL.\<close>

definition find_mtd :: "mtd_state \<Rightarrow> string option \<Rightarrow> mtd_partition option ub" where
  "find_mtd g name =
     (case name of
        Some n \<Rightarrow> Some (mtd_find_partition_by_name g n)
      | None \<Rightarrow>
          (case partitions g of
             None \<Rightarrow> Some None
           | Some ps \<Rightarrow> if \<exists>p\<in>set ps. device_index p \<ge> 0 \<and> pname p \<noteq> None then None else Some None))"

definition set_flash :: "'w \<Rightarrow> 'w ap_world \<Rightarrow> 'w ap_world" where
  "set_flash f w = w\<lparr>ext := (ext w)\<lparr>flash := f\<rparr>\<rparr>"

definition open_part ::
  "('s, 'z, 'd, 'c, 'w) ap_env \<Rightarrow> bool \<Rightarrow> string option \<Rightarrow> 'w ap_world \<Rightarrow> (part_src option \<times> 'w ap_world) ub" where
  "open_part E is_mtd part' w =
     (if is_mtd
      then do {
        w1 \<leftarrow> scan_once E w;
        mtd \<leftarrow> find_mtd (tab (ext w1)) part';
        case mtd of
          None \<Rightarrow> Some (None, w1)
        | Some p \<Rightarrow> do {
            (ctx, f) \<leftarrow> mtd_read_partition (ap_mtd E) (ap_alloc E) p (flash (ext w1));
            Some (map_option Src_mtd ctx, set_flash f w1) }}
      else do {
        name \<leftarrow> part';
        let (c, w1) = fs_open_read (ap_sys E) name w;
        Some (map_option Src_dev c, w1) })"

text \<open>Reading \<open>n\<close> bytes to the place \<open>off\<close> of the buffer; the result is the number read as a \<open>size_t\<close>.\<close>

definition read_part ::
  "('s, 'z, 'd, 'c, 'w) ap_env \<Rightarrow> part_src \<Rightarrow> bytes \<Rightarrow> nat \<Rightarrow> nat \<Rightarrow> 'w ap_world \<Rightarrow>
     (nat \<times> bytes \<times> part_src \<times> 'w ap_world) ub" where
  "read_part E src buf off n w =
     (case src of
        Src_mtd ctx \<Rightarrow> do {
          (r, ctx1, rest, f) \<leftarrow> mtd_read_data (ap_mtd E) ctx (drop off buf) n (flash (ext w));
          Some (size_of_long r, take off buf @ rest, Src_mtd ctx1, set_flash f w) }
      | Src_dev left \<Rightarrow> do {
          let (bs, w1) = fs_fread (ap_sys E) left n w;
          buf1 \<leftarrow> wr_slice buf off bs;
          Some (length bs, buf1, Src_dev (drop (length bs) left), w1) })"

definition close_part :: "('s, 'z, 'd, 'c, 'w) ap_env \<Rightarrow> part_src \<Rightarrow> 'w ap_world \<Rightarrow> 'w ap_world" where
  "close_part E src w =
     (case src of
        Src_mtd ctx \<Rightarrow> set_flash (mtd_read_close (ap_mtd E) ctx (flash (ext w))) w
      | Src_dev left \<Rightarrow> w)"

definition read_next ::
  "('s, 'z, 'd, 'c, 'w) ap_env \<Rightarrow> nat \<Rightarrow> part_src \<Rightarrow> bytes \<Rightarrow> nat \<Rightarrow> 'c \<Rightarrow> 'w ap_world \<Rightarrow>
     (bool \<times> part_src \<times> bytes \<times> nat \<times> 'c \<times> 'w ap_world) ub" where
  "read_next E sz src buf size' ctx w =
     (let next = unat (word_of_nat sz - word_of_nat size' :: u64)
      in if next > 0
         then do {
           (read, buf1, src1, w1) \<leftarrow> read_part E src buf size' next w;
           if next \<noteq> read then Some (False, src1, buf1, size', ctx, w1)
           else do {
             piece \<leftarrow> rd_slice buf1 size' read;
             Some (True, src1, buf1, size' + read, sha_update (ap_sha E) ctx piece, w1) }}
         else Some (True, src, buf, size', ctx, w))"

text \<open>The sizes in increasing order; the result has the data and the hash context of a match.\<close>

fun match_loop ::
  "('s, 'z, 'd, 'c, 'w) ap_env \<Rightarrow> (nat \<times> string option) list \<Rightarrow> part_src \<Rightarrow> bytes \<Rightarrow> nat \<Rightarrow> 'c \<Rightarrow> 'w ap_world \<Rightarrow>
     ((bytes \<times> 'c) option \<times> 'w ap_world) ub" where
  "match_loop E [] src buf size' ctx w = Some (None, close_part E src w)"
| "match_loop E ((sz, sha1sum) # pairs) src buf size' ctx w =
     do {
       (ok, src1, buf1, size1, ctx1, w1) \<leftarrow> read_next E sz src buf size' ctx w;
       if \<not> ok then Some (None, w1)
       else do {
         str \<leftarrow> sha1sum;
         case ParseSha1 str of
           None \<Rightarrow> Some (None, w1)
         | Some parsed \<Rightarrow>
             if sha_final (ap_sha E) ctx1 = parsed then Some (Some (take size1 buf1, ctx1), close_part E src1 w1)
             else match_loop E pairs src1 buf1 size1 ctx1 w1 }}"

definition count_colons :: "string \<Rightarrow> nat" where
  "count_colons s = length (filter (\<lambda>c. c = CHR '':'') s)"

text \<open>From opening the partition on; the pairs are sorted.\<close>

definition load_sorted ::
  "('s, 'z, 'd, 'c, 'w) ap_env \<Rightarrow> bool \<Rightarrow> string option \<Rightarrow> (nat \<times> string option) list \<Rightarrow> 'w ap_world \<Rightarrow>
     (file_contents option \<times> 'w ap_world) ub" where
  "load_sorted E is_mtd part' pairs w =
     do {
       (src, w1) \<leftarrow> open_part E is_mtd part' w;
       case src of
         None \<Rightarrow> Some (None, w1)
       | Some s \<Rightarrow>
           if pairs = [] then None
           else do {
             let room = fst (last pairs);
             (r, w2) \<leftarrow> match_loop E pairs s (if ap_alloc E room then replicate room 0 else []) 0
                          (sha_init (ap_sha E)) w1;
             Some (map_option (\<lambda>(d, c). \<lparr>fc_sha1 = sha_final (ap_sha E) c, fc_data = d, fc_mode = 420,
                                         fc_uid = 0, fc_gid = 0\<rparr>) r, w2) }}"

definition LoadPartitionContents ::
  "('s, 'z, 'd, 'c, 'w) ap_env \<Rightarrow> string \<Rightarrow> 'w ap_world \<Rightarrow> (file_contents option \<times> 'w ap_world) ub" where
  "LoadPartitionContents E filename w =
     do {
       let (m, s1) = token filename;
       magic \<leftarrow> m;
       if magic \<noteq> ''MTD'' \<and> magic \<noteq> ''EMMC'' then Some (None, w)
       else do {
         let (part', s2) = token s1;
         pairs \<leftarrow> part_pairs ((count_colons filename - 1) div 2) s2;
         case pairs of
           None \<Rightarrow> Some (None, w)
         | Some ps \<Rightarrow> load_sorted E (magic = ''MTD'') part' (ap_qsort E ps) w }}"

definition is_partition :: "string \<Rightarrow> bool" where
  "is_partition name \<longleftrightarrow> take 4 name = ''MTD:'' \<or> take 5 name = ''EMMC:''"

definition LoadFileContents ::
  "('s, 'z, 'd, 'c, 'w) ap_env \<Rightarrow> string \<Rightarrow> 'w ap_world \<Rightarrow> (file_contents option \<times> 'w ap_world) ub" where
  "LoadFileContents E filename w =
     (if is_partition filename then LoadPartitionContents E filename w
      else let (st, w1) = fs_stat (ap_sys E) filename w
           in case st of
                None \<Rightarrow> Some (None, w1)
              | Some i \<Rightarrow>
                  let (f, w2) = fs_open_read (ap_sys E) filename w1
                  in case f of
                       None \<Rightarrow> Some (None, w2)
                     | Some left \<Rightarrow>
                         let (bs, w3) = fs_fread (ap_sys E) left (length (i_data i)) w2
                         in if bs \<noteq> [] \<and> \<not> ap_alloc E (length (i_data i)) then None
                            else if length bs \<noteq> length (i_data i) then Some (None, w3)
                            else Some (Some \<lparr>fc_sha1 = SHA E bs, fc_data = bs, fc_mode = i_mode i,
                                            fc_uid = i_uid i, fc_gid = i_gid i\<rparr>, w3))"

subsection \<open>Saving\<close>

definition SaveFileContents :: "sys \<Rightarrow> string \<Rightarrow> file_contents \<Rightarrow> 'x fs_world \<Rightarrow> int \<times> 'x fs_world" where
  "SaveFileContents S filename file' w =
     (let (ok, w1) = fs_open_trunc S filename w
      in if \<not> ok then (- 1, w1)
         else let (written, w2) = FileSink S filename (fc_data file') w1
         in if written \<noteq> int (length (fc_data file')) then (- 1, w2)
            else let (m, w3) = fs_chmod S filename (fc_mode file') w2
            in if m \<noteq> 0 then (- 1, w3)
               else let (c, w4) = fs_chown S filename (fc_uid file') (fc_gid file') w3
                    in if c \<noteq> 0 then (- 1, w4) else (0, w4))"

text \<open>The result of \<open>fopen(partition, "wb")\<close> is not checked; \<open>fclose\<close> may fail too.\<close>

definition WriteToPartition ::
  "('s, 'z, 'd, 'c, 'w) ap_env \<Rightarrow> bytes \<Rightarrow> string \<Rightarrow> 'w ap_world \<Rightarrow> (int \<times> 'w ap_world) ub" where
  "WriteToPartition E data' target w =
     do {
       let (m, s1) = token target;
       magic \<leftarrow> m;
       if magic \<noteq> ''MTD'' \<and> magic \<noteq> ''EMMC'' then Some (- 1, w)
       else case fst (token s1) of
         None \<Rightarrow> Some (- 1, w)
       | Some part' \<Rightarrow>
           if magic = ''MTD''
           then do {
             w1 \<leftarrow> scan_once E w;
             case mtd_find_partition_by_name (tab (ext w1)) part' of
               None \<Rightarrow> Some (- 1, w1)
             | Some p \<Rightarrow>
                 (case mtd_write_partition (ap_mtd E) (ap_alloc E) p (flash (ext w1)) of
                    (None, f) \<Rightarrow> Some (- 1, set_flash f w1)
                  | (Some ctx, f) \<Rightarrow> do {
                      (written, ctx1, f1) \<leftarrow> mtd_write_data (ap_mtd E) ctx data' (length data') f;
                      if written \<noteq> int (length data')
                      then do { (e, f2) \<leftarrow> mtd_write_close (ap_mtd E) ctx1 f1; Some (- 1, set_flash f2 w1) }
                      else do {
                        (e, ctx2, f2) \<leftarrow> mtd_erase_blocks (ap_mtd E) ctx1 (- 1) f1;
                        (c, f3) \<leftarrow> mtd_write_close (ap_mtd E) ctx2 f2;
                        Some (if e < 0 \<or> c \<noteq> 0 then - 1 else 0, set_flash f3 w1) }})}
           else let (ok, w1) = fs_open_trunc (ap_sys E) part' w
                in if \<not> ok then None
                   else let (n, w2) = FileSink (ap_sys E) part' data' w1
                        in if n \<noteq> int (length data') then Some (- 1, w2)
                           else Some (if ask (ap_sys E) w2 < 0 then - 1 else 0, tick w2) }"

subsection \<open>Checking\<close>

definition applypatch_check ::
  "('s, 'z, 'd, 'c, 'w) ap_env \<Rightarrow> string \<Rightarrow> string list \<Rightarrow> 'w ap_world \<Rightarrow> (int \<times> 'w ap_world) ub" where
  "applypatch_check E filename patch_sha1_str w =
     do {
       (f, w1) \<leftarrow> LoadFileContents E filename w;
       if f = None \<or> (patch_sha1_str \<noteq> [] \<and> FindMatchingPatch (fc_sha1 (the f)) patch_sha1_str < 0)
       then do {
         (c, w2) \<leftarrow> LoadFileContents E CACHE_TEMP_SOURCE w1;
         case c of
           None \<Rightarrow> Some (1, w2)
         | Some file' \<Rightarrow> Some (if FindMatchingPatch (fc_sha1 file') patch_sha1_str < 0 then 1 else 0, w2) }
       else Some (0, w1) }"

subsection \<open>Patching\<close>

record ap_job =
  source_filename :: string
  target_filename :: string
  target_size :: u64
  source_file :: "file_contents option"
  copy_file :: "file_contents option"
  source_patch_value :: "edify_value option"
  copy_patch_value :: "edify_value option"

text \<open>The directory below the root that the target is in, or the target.\<close>

definition target_fs :: "string \<Rightarrow> string ub" where
  "target_fs target =
     (case target of
        [] \<Rightarrow> None
      | c # cs \<Rightarrow> Some (if CHR ''/'' \<in> set cs then c # takeWhile (\<lambda>x. x \<noteq> CHR ''/'') cs else target))"

text \<open>Saving the source file to the cache: the answer tells whether it went well.\<close>

definition back_up :: "sys \<Rightarrow> file_contents option \<Rightarrow> 'x fs_world \<Rightarrow> (bool \<times> 'x fs_world) ub" where
  "back_up S file' w =
     do {
       f \<leftarrow> file';
       let (r, w1) = MakeFreeSpaceOnCache S (word_of_nat (length (fc_data f))) w;
       if r < 0 then Some (False, w1)
       else do { let (s, w2) = SaveFileContents S CACHE_TEMP_SOURCE f w1;
                 Some (\<not> s < 0, w2) } }"

definition enough_space :: "u64 \<Rightarrow> u64 \<Rightarrow> bool" where
  "enough_space free_space size' \<longleftrightarrow> free_space > 256 * 1024 \<and> free_space > size' * 3 div 2"

text \<open>
  The first part of a turn of the loop.  \<open>retry\<close> and \<open>made_copy\<close> go in and out; \<open>None\<close> in their place: the function
  returns 1.
\<close>

definition prepare_space ::
  "sys \<Rightarrow> ap_job \<Rightarrow> string \<Rightarrow> nat \<Rightarrow> bool \<Rightarrow> 'x fs_world \<Rightarrow> ((nat \<times> bool) option \<times> 'x fs_world) ub" where
  "prepare_space S J tfs retry made_copy w =
     (if is_partition (target_filename J)
      then do { (ok, w1) \<leftarrow> back_up S (source_file J) w;
                Some (if ok then Some (0, True) else None, w1) }
      else do {
        let (enough, w1) = (if retry > 0
                            then (case FreeSpaceForFile S tfs w of (n, w') \<Rightarrow> (enough_space n (target_size J), w'))
                            else (False, w));
        if enough then Some (Some (retry, made_copy), w1)
        else if source_patch_value J = None then Some (Some (0, made_copy), w1)
        else if is_partition (source_filename J) then Some (None, w1)
        else do {
          (ok, w2) \<leftarrow> back_up S (source_file J) w1;
          if \<not> ok then Some (None, w2)
          else do { let (u, w3) = fs_unlink S (source_filename J) w2;
                    let (n, w4) = FreeSpaceForFile S tfs w3;
                    Some (Some (0, True), w4) }}})"

text \<open>Where the output goes.\<close>

datatype out_dest = Out_memory memory_sink | Out_file string

definition open_output ::
  "('s, 'z, 'd, 'c, 'w) ap_env \<Rightarrow> ap_job \<Rightarrow> 'w ap_world \<Rightarrow> out_dest option \<times> 'w ap_world" where
  "open_output E J w =
     (if is_partition (target_filename J)
      then (if ap_alloc E (unat (target_size J))
            then Some (Out_memory \<lparr>ms_buffer = replicate (unat (target_size J)) 0, ms_pos = 0\<rparr>) else None, w)
      else let outname = target_filename J @ ''.patch'';
               (ok, w1) = fs_open_trunc (ap_sys E) outname w
           in (if ok then Some (Out_file outname) else None, w1))"

definition sink_env ::
  "('s, 'z, 'd, 'c, 'w) ap_env \<Rightarrow> (bytes \<Rightarrow> 't \<Rightarrow> int \<times> 't) \<Rightarrow> ('s, 'z, 'd, 't, 'c) patch_env" where
  "sink_env E sink =
     \<lparr>env_bz = ap_bz E, env_inflate = ap_inflate E, env_deflate = ap_deflate E, env_alloc = ap_alloc E,
      env_sink = sink, env_sha = sha_update (ap_sha E)\<rparr>"

text \<open>The format decides; \<open>Some None\<close> is an unknown one.\<close>

definition run_patch ::
  "('s, 'z, 'd, 't, 'c) patch_env \<Rightarrow> bytes \<Rightarrow> bytes \<Rightarrow> 't \<Rightarrow> 'c \<Rightarrow> (int \<times> 't \<times> 'c option) option ub" where
  "run_patch P old patch token' ctx =
     (if length patch \<ge> 8 \<and> take 8 patch = BSDIFF_MAGIC
      then map_option Some
             (ApplyBSDiffPatch (env_bz P) (env_alloc P) (env_sink P) (env_sha P) old patch 0 token' (Some ctx))
      else if length patch \<ge> 8 \<and> take 8 patch = IMGDIFF_MAGIC
      then map_option Some (ApplyImagePatch P old patch token' (Some ctx))
      else Some None)"

definition apply_to ::
  "('s, 'z, 'd, 'c, 'w) ap_env \<Rightarrow> bytes \<Rightarrow> bytes \<Rightarrow> out_dest \<Rightarrow> 'w ap_world \<Rightarrow>
     ((int \<times> out_dest \<times> 'c option) option \<times> 'w ap_world) ub" where
  "apply_to E old patch out w =
     (case out of
        Out_memory m \<Rightarrow> do {
          r \<leftarrow> run_patch (sink_env E MemorySink) old patch m (sha_init (ap_sha E));
          Some (map_option (\<lambda>(e, m1, c). (e, Out_memory m1, c)) r, w) }
      | Out_file name \<Rightarrow> do {
          r \<leftarrow> run_patch (sink_env E (FileSink (ap_sys E) name)) old patch w (sha_init (ap_sha E));
          Some (case r of
                  None \<Rightarrow> (None, w)
                | Some (e, w1, c) \<Rightarrow> (Some (e, out, c), w1)) })"

text \<open>What a turn of the loop comes to.\<close>

datatype 'c attempt = Give_up int | Try_again bool | Patched bool out_dest "'c option"

definition patch_attempt ::
  "('s, 'z, 'd, 'c, 'w) ap_env \<Rightarrow> ap_job \<Rightarrow> string \<Rightarrow> nat \<Rightarrow> bool \<Rightarrow> 'w ap_world \<Rightarrow>
     ('c attempt \<times> 'w ap_world) ub" where
  "patch_attempt E J tfs retry made_copy w =
     do {
       (space, w1) \<leftarrow> prepare_space (ap_sys E) J tfs retry made_copy w;
       case space of
         None \<Rightarrow> Some (Give_up 1, w1)
       | Some (retry1, made1) \<Rightarrow> do {
           (file', value) \<leftarrow> (case source_patch_value J of
                               Some v \<Rightarrow> do { f \<leftarrow> source_file J; Some (f, v) }
                             | None \<Rightarrow> do { f \<leftarrow> copy_file J; v \<leftarrow> copy_patch_value J; Some (f, v) });
           if vtype value \<noteq> VAL_BLOB then Some (Give_up 1, w1)
           else (case open_output E J w1 of
             (None, w2) \<Rightarrow> Some (Give_up 1, w2)
           | (Some out, w2) \<Rightarrow> do {
               (r, w3) \<leftarrow> apply_to E (fc_data file') (bytes_of (vdata value)) out w2;
               case r of
                 None \<Rightarrow> Some (Give_up 1, w3)
               | Some (result, out1, ctx) \<Rightarrow>
                   if result \<noteq> 0
                   then if retry1 = 0 then Some (Give_up 1, w3)
                        else Some (Try_again made1,
                                   case out1 of Out_memory m \<Rightarrow> w3 | Out_file n \<Rightarrow> snd (fs_unlink (ap_sys E) n w3))
                   else Some (Patched made1 out1 ctx, w3) })}}"

text \<open>\<open>do ... while (retry-- > 0)\<close>.\<close>

fun patch_loop ::
  "('s, 'z, 'd, 'c, 'w) ap_env \<Rightarrow> ap_job \<Rightarrow> string \<Rightarrow> nat \<Rightarrow> bool \<Rightarrow> 'w ap_world \<Rightarrow>
     ((int + bool \<times> out_dest \<times> 'c option) \<times> 'w ap_world) ub" where
  "patch_loop E J tfs retry made_copy w =
     do {
       (a, w1) \<leftarrow> patch_attempt E J tfs retry made_copy w;
       case a of
         Give_up n \<Rightarrow> Some (Inl n, w1)
       | Patched made1 out ctx \<Rightarrow> Some (Inr (made1, out, ctx), w1)
       | Try_again made1 \<Rightarrow> (case retry of 0 \<Rightarrow> None | Suc r \<Rightarrow> patch_loop E J tfs r made1 w1) }"

declare patch_loop.simps [simp del]

text \<open>After the loop.\<close>

definition finish_patch ::
  "('s, 'z, 'd, 'c, 'w) ap_env \<Rightarrow> ap_job \<Rightarrow> bytes \<Rightarrow> bool \<Rightarrow> out_dest \<Rightarrow> 'c option \<Rightarrow> 'w ap_world \<Rightarrow> (int \<times> 'w ap_world) ub" where
  "finish_patch E J target_sha1 made_copy out ctx w =
     do {
       c \<leftarrow> ctx;
       if sha_final (ap_sha E) c \<noteq> target_sha1 then Some (1, w)
       else do {
         (ok, w1) \<leftarrow> (case out of
            Out_memory m \<Rightarrow> do {
              (r, w1) \<leftarrow> WriteToPartition E (take (ms_pos m) (ms_buffer m)) (target_filename J) w;
              Some (r = 0, w1) }
          | Out_file outname \<Rightarrow> do {
              src \<leftarrow> (if source_patch_value J \<noteq> None then source_file J else copy_file J);
              let (a, w1) = fs_chmod (ap_sys E) outname (fc_mode src) w;
              if a \<noteq> 0 then Some (False, w1)
              else do {
                let (b, w2) = fs_chown (ap_sys E) outname (fc_uid src) (fc_gid src) w1;
                if b \<noteq> 0 then Some (False, w2)
                else do { let (c, w3) = fs_rename (ap_sys E) outname (target_filename J) w2;
                          Some (c = 0, w3) }}});
         if \<not> ok then Some (1, w1)
         else Some (0, if made_copy then snd (fs_unlink (ap_sys E) CACHE_TEMP_SOURCE w1) else w1) }}"

text \<open>The patch for a file: the value at the place of its sum, when there is one.\<close>

definition matching_value :: "file_contents option \<Rightarrow> string list \<Rightarrow> edify_value option list \<Rightarrow> edify_value option ub" where
  "matching_value file' shas values =
     (case file' of
        None \<Rightarrow> Some None
      | Some f \<Rightarrow> let to_use = FindMatchingPatch (fc_sha1 f) shas
                  in if to_use \<ge> 0 then rd values (nat to_use) else Some None)"

definition load_source ::
  "('s, 'z, 'd, 'c, 'w) ap_env \<Rightarrow> string \<Rightarrow> string \<Rightarrow> file_contents option \<Rightarrow> 'w ap_world \<Rightarrow>
     (file_contents option \<times> 'w ap_world) ub" where
  "load_source E source target file' w =
     (if file' = None \<or> target \<noteq> source then LoadFileContents E source w else Some (file', w))"

text \<open>What follows the check whether the target is there already; \<open>t\<close> is the loaded target.\<close>

definition patch_from ::
  "('s, 'z, 'd, 'c, 'w) ap_env \<Rightarrow> string \<Rightarrow> string \<Rightarrow> bytes \<Rightarrow> u64 \<Rightarrow> string list \<Rightarrow> edify_value option list \<Rightarrow>
     file_contents option \<Rightarrow> 'w ap_world \<Rightarrow> (int \<times> 'w ap_world) ub" where
  "patch_from E source target target_sha1 tsize shas values t w =
     do {
       (s, w1) \<leftarrow> load_source E source target t w;
       sv \<leftarrow> matching_value s shas values;
       (c, cv, ok, w2) \<leftarrow>
         (if sv \<noteq> None then Some (None, None, True, w1)
          else do {
            (c, w2) \<leftarrow> LoadFileContents E CACHE_TEMP_SOURCE w1;
            cv \<leftarrow> matching_value c shas values;
            Some (c, cv, cv \<noteq> None, w2) });
       if \<not> ok then Some (1, w2)
       else do {
         let J = \<lparr>source_filename = source, target_filename = target, target_size = tsize,
                  source_file = (if sv = None then None else s), copy_file = c,
                  source_patch_value = sv, copy_patch_value = cv\<rparr>;
         tfs \<leftarrow> target_fs target;
         (r, w3) \<leftarrow> patch_loop E J tfs 1 False w2;
         case r of
           Inl n \<Rightarrow> Some (n, w3)
         | Inr (made_copy, out, ctx) \<Rightarrow> finish_patch E J target_sha1 made_copy out ctx w3 }}"

definition applypatch ::
  "('s, 'z, 'd, 'c, 'w) ap_env \<Rightarrow> string \<Rightarrow> string \<Rightarrow> string \<Rightarrow> u64 \<Rightarrow> string list \<Rightarrow> edify_value option list \<Rightarrow>
     'w ap_world \<Rightarrow> (int \<times> 'w ap_world) ub" where
  "applypatch E source target0 target_sha1_str tsize shas values w =
     (let target = (if target0 = ''-'' then source else target0)
      in case ParseSha1 target_sha1_str of
           None \<Rightarrow> Some (1, w)
         | Some target_sha1 \<Rightarrow> do {
             (t, w1) \<leftarrow> LoadFileContents E target w;
             if t \<noteq> None \<and> fc_sha1 (the t) = target_sha1 then Some (0, w1)
             else patch_from E source target target_sha1 tsize shas values t w1 })"

end
