(* ===== verification/SinkInv.thy ===== *)
theory SinkInv
  imports ApplyPatch
begin

text \<open>
  What applying a patch does to its sink: an interface for any sink, with laws on one call of it, under which
  invariants carry through \<open>ApplyBSDiffPatch\<close> and \<open>ApplyImagePatch\<close>; and the two sinks of
  \<open>applypatch.c\<close>.
\<close>

subsection \<open>The interface of a sink\<close>

text \<open>
  \<open>K\<close> relates the sink's state to the hash context while all goes well, \<open>Q\<close> is what is left of it after an error.
\<close>

locale sink_inv =
  fixes P :: "('s, 'z, 'd, 't, 'c) patch_env"
    and K :: "'t \<Rightarrow> 'c option \<Rightarrow> bool"
    and Q :: "'t \<Rightarrow> bool"
  assumes K_Q: "K t co \<Longrightarrow> Q t"
    and Q_sink: "Q t \<Longrightarrow> Q (snd (env_sink P bs t))"
    and K_full: "K t (Some c) \<Longrightarrow> fst (env_sink P bs t) = int (length bs) \<Longrightarrow>
      K (snd (env_sink P bs t)) (Some (env_sha P c bs))"
    and K_short: "K t co \<Longrightarrow> fst (env_sink P bs t) \<noteq> int (length bs) \<Longrightarrow> K (snd (env_sink P bs t)) co"
    and sink_le: "fst (env_sink P bs t) \<le> int (length bs)"
begin

lemma bsdiff_step:
  assumes "ApplyBSDiffPatch (env_bz P) (env_alloc P) (env_sink P) (env_sha P) old patch off t (Some c) = Some (e, t', c')"
    and "K t (Some c)"
  shows "Q t'" "K t' c'" "\<exists>c''. c' = Some c''"
proof -
  obtain err new where a: "ApplyBSDiffPatchMem (env_bz P) (env_alloc P) old patch off = Some (err, new)"
    using assms(1) by (auto simp: ApplyBSDiffPatch_def bind_eq_Some_conv)
  obtain wrote t1 where s: "env_sink P new t = (wrote, t1)" by (cases "env_sink P new t")
  have "t' = t \<and> c' = Some c \<or> wrote < int (length new) \<and> t' = t1 \<and> c' = Some c \<or>
      wrote = int (length new) \<and> t' = t1 \<and> c' = Some (env_sha P c new)"
    using assms(1) s sink_le [of new t] by (auto simp: ApplyBSDiffPatch_def a split: if_splits)
  then show "K t' c'" "\<exists>c''. c' = Some c''"
    using assms(2) K_full [OF assms(2), of new] K_short [OF assms(2), of new] s by auto
  then show "Q t'" using K_Q by blast
qed

definition step_ok :: "('t, 'c) chunk_step \<Rightarrow> bool" where
  "step_ok st \<longleftrightarrow>
     (case st of Chunk_fail e t c \<Rightarrow> Q t \<and> e \<noteq> 0 | Chunk_next p t c \<Rightarrow> K t c \<and> (\<exists>c'. c = Some c'))"

lemma normal_chunk_step:
  assumes "normal_chunk P old patch pos t (Some c) = Some st" "K t (Some c)"
  shows "step_ok st"
  using assms K_Q [OF assms(2)] bsdiff_step
  by (auto simp: normal_chunk_def step_ok_def bind_eq_Some_conv split: if_splits)

lemma raw_chunk_step:
  assumes "raw_chunk P patch pos t (Some c) = Some st" "K t (Some c)"
  shows "step_ok st"
proof -
  have "Q (snd (env_sink P bs t))" for bs using K_Q [OF assms(2)] by (rule Q_sink)
  moreover have "K (snd (env_sink P bs t)) (Some (env_sha P c bs))" if "fst (env_sink P bs t) = int (length bs)" for bs
    using assms(2) that by (rule K_full)
  moreover have "length raw = nat n" if "rd_slice patch p (nat n) = Some raw" for p n raw
    using that by (rule rd_slice_length)
  ultimately show ?thesis using assms(1) K_Q [OF assms(2)]
    by (auto simp: raw_chunk_def step_ok_def bind_eq_Some_conv case_prod_beta Let_def split: if_splits)
qed

lemma deflate_loop_all:
  assumes "deflate_loop E n d t c0 = Some r"
  shows "E = P \<longrightarrow> (\<forall>c. c0 = Some c \<longrightarrow> K t (Some c) \<longrightarrow>
    Q (fst (snd r)) \<and> (fst r \<longrightarrow> K (fst (snd r)) (snd (snd r)) \<and> (\<exists>c. snd (snd r) = Some c)))"
proof (rule deflate_loop.raw_induct [OF _ assms], intro impI allI)
  fix rec E n d t c0 r c
  assume IH: "\<And>E n d t c0 r. rec E n d t c0 = Some r \<Longrightarrow> E = P \<longrightarrow> (\<forall>c. c0 = Some c \<longrightarrow> K t (Some c) \<longrightarrow>
      Q (fst (snd r)) \<and> (fst r \<longrightarrow> K (fst (snd r)) (snd (snd r)) \<and> (\<exists>c. snd (snd r) = Some c)))"
    and E: "E = P" and c: "c0 = Some c" and k: "K t (Some c)"
    and body: "(let (ret, have', d1) = deflate (env_deflate E) d n; (wrote, token1) = env_sink E have' t
      in if wrote \<noteq> int (length have') then Some (False, token1, c0)
         else do { c \<leftarrow> c0; let c1 = env_sha E c have';
                   if ret \<noteq> Z_STREAM_END then rec E n d1 token1 (Some c1) else Some (True, token1, Some c1) }) = Some r"
  obtain ret have' d1 where df: "deflate (env_deflate P) d n = (ret, have', d1)"
    by (cases "deflate (env_deflate P) d n")
  obtain wrote t1 where s: "env_sink P have' t = (wrote, t1)" by (cases "env_sink P have' t")
  have q: "Q t1" using Q_sink [OF K_Q [OF k], of have'] s by simp
  have k1: "K t1 (Some (env_sha P c have'))" if "wrote = int (length have')"
    using K_full [OF k, of have'] s that by simp
  show "Q (fst (snd r)) \<and> (fst r \<longrightarrow> K (fst (snd r)) (snd (snd r)) \<and> (\<exists>c. snd (snd r) = Some c))"
  proof (cases "wrote = int (length have') \<and> ret \<noteq> Z_STREAM_END")
    case True
    then have "rec P n d1 t1 (Some (env_sha P c have')) = Some r" using body by (simp add: E c df s Let_def)
    then show ?thesis using IH [of P n d1 t1 "Some (env_sha P c have')" r] k1 True by simp
  next
    case False
    then show ?thesis using body q k1 by (auto simp: E c df s Let_def split: if_splits)
  qed
qed

lemma deflate_loop_step:
  assumes "deflate_loop P n d t (Some c) = Some (ok, t', c')" "K t (Some c)"
  shows "Q t'" "ok \<Longrightarrow> K t' c' \<and> (\<exists>c. c' = Some c)"
  using deflate_loop_all [OF assms(1)] assms(2) by auto

lemma deflate_chunk_step:
  assumes "deflate_chunk P old patch pos t (Some c) = Some st" "K t (Some c)"
  shows "step_ok st"
  using assms K_Q [OF assms(2)] deflate_loop_step [OF _ assms(2)]
  by (fastforce simp: deflate_chunk_def step_ok_def bind_eq_Some_conv Let_def split: if_splits option.splits)

lemma image_chunk_step:
  assumes "image_chunk P old patch pos t (Some c) = Some st" "K t (Some c)"
  shows "step_ok st"
  using assms K_Q [OF assms(2)] normal_chunk_step raw_chunk_step deflate_chunk_step
  by (auto simp: image_chunk_def bind_eq_Some_conv split: if_splits) (simp add: step_ok_def)+

lemma image_loop_step:
  "image_loop P old patch n pos t (Some c) = Some (e, t', c') \<Longrightarrow> K t (Some c) \<Longrightarrow>
   Q t' \<and> (e = 0 \<longrightarrow> K t' c' \<and> (\<exists>c. c' = Some c))"
proof (induction n arbitrary: pos t c)
  case 0
  then show ?case using K_Q by auto
next
  case (Suc n)
  obtain st where st: "image_chunk P old patch pos t (Some c) = Some st"
    using Suc.prems(1) by (auto simp: bind_eq_Some_conv)
  have ok: "step_ok st" by (rule image_chunk_step [OF st Suc.prems(2)])
  show ?case
  proof (cases st)
    case (Chunk_fail e1 t1 c1)
    then show ?thesis using Suc.prems(1) st ok by (auto simp: step_ok_def)
  next
    case (Chunk_next p t1 c1)
    then obtain c2 where c2: "c1 = Some c2" "K t1 (Some c2)" using ok by (auto simp: step_ok_def)
    have "image_loop P old patch n p t1 (Some c2) = Some (e, t', c')"
      using Suc.prems(1) st Chunk_next c2 by simp
    then show ?thesis by (rule Suc.IH [OF _ c2(2)])
  qed
qed

lemma run_patch_step:
  assumes "run_patch P old patch t c = Some (Some (e, t', c'))" "K t (Some c)"
  shows "Q t'" "e = 0 \<Longrightarrow> K t' c' \<and> (\<exists>c. c' = Some c)"
proof -
  have "Q t' \<and> (e = 0 \<longrightarrow> K t' c' \<and> (\<exists>c. c' = Some c))"
  proof (cases "8 \<le> length patch \<and> take 8 patch = BSDIFF_MAGIC")
    case True
    then have "ApplyBSDiffPatch (env_bz P) (env_alloc P) (env_sink P) (env_sha P) old patch 0 t (Some c) = Some (e, t', c')"
      using assms(1) by (auto simp: run_patch_def)
    then show ?thesis using bsdiff_step [OF _ assms(2)] by blast
  next
    case False
    then have "ApplyImagePatch P old patch t (Some c) = Some (e, t', c')"
      using assms(1) by (auto simp: run_patch_def split: if_splits)
    then show ?thesis using image_loop_step [OF _ assms(2)] K_Q [OF assms(2)]
      by (auto simp: ApplyImagePatch_def bind_eq_Some_conv split: if_splits)
  qed
  then show "Q t'" "e = 0 \<Longrightarrow> K t' c' \<and> (\<exists>c. c' = Some c)" by blast+
qed

end

end
