(* ===== verification/ApplySafe.thy ===== *)
theory ApplySafe
  imports SinkInv
begin

text \<open>
  What \<open>applypatch\<close> promises: the target is replaced only by data with the promised hash, and a power
  cut at any moment leaves enough to start again.
\<close>

subsection \<open>What a call may touch\<close>

text \<open>Only files with names in \<open>X\<close> differ, on every disk on the way.\<close>

definition only :: "string set \<Rightarrow> disk \<Rightarrow> disk \<Rightarrow> bool" where
  "only X d0 d \<longleftrightarrow> (\<forall>n. n \<notin> X \<longrightarrow> d n = d0 n)"

definition touches :: "string set \<Rightarrow> 'x fs_world \<Rightarrow> 'x fs_world \<Rightarrow> bool" where
  "touches X w w' \<longleftrightarrow> only X (now w) (now w') \<and> (\<forall>d\<in>disks w'. d \<in> disks w \<or> only X (now w) d)"

lemma only_refl [simp]: "only X d d" by (simp add: only_def)

lemma only_trans: "only X d0 d1 \<Longrightarrow> only X d1 d2 \<Longrightarrow> only X d0 d2"
  by (simp add: only_def)

lemma only_mono: "only X d0 d \<Longrightarrow> X \<subseteq> Y \<Longrightarrow> only Y d0 d"
  by (auto simp: only_def)

lemma touches_refl [simp, intro]: "touches X w w"
  by (simp add: touches_def)

lemma touches_trans [trans]: "touches X w w' \<Longrightarrow> touches X w' w'' \<Longrightarrow> touches X w w''"
  unfolding touches_def using only_trans by blast

lemma touches_mono: "touches X w w' \<Longrightarrow> X \<subseteq> Y \<Longrightarrow> touches Y w w'"
  unfolding touches_def using only_mono by blast

lemma touches_same: "now w' = now w \<Longrightarrow> disks w' = disks w \<Longrightarrow> touches X w w'"
  by (simp add: touches_def)

lemma touches_tick [simp]: "touches X w (tick w') \<longleftrightarrow> touches X w w'"
  by (simp add: touches_def)

lemma touches_change: "only X (now w) (f (now w)) \<Longrightarrow> touches X w (change f w)"
  by (simp add: touches_def)

lemma touches_calls:
  "touches {n} w (snd (fs_open_trunc S n w))" "touches {n} w (snd (fs_write S n bs w))"
  "touches {n} w (snd (fs_chmod S n m w))" "touches {n} w (snd (fs_chown S n u g w))"
  "touches {n} w (snd (fs_unlink S n w))" "touches {n, k} w (snd (fs_rename S n k w))"
  "touches X w (snd (fs_stat S n w))" "touches X w (snd (fs_open_read S n w))"
  "touches X w (snd (fs_fread S l j w))" "touches X w (snd (FreeSpaceForFile S n w))"
  by (auto simp: fs_defs Let_def append_def only_def intro!: touches_change touches_same)

lemma touches_cache: "touches (Collect expendable) w (snd (MakeFreeSpaceOnCache S needed w))"
  using MakeFreeSpaceOnCache_thins [of w S needed] by (auto simp: touches_def only_def thinned_def)

text \<open>A file outside \<open>X\<close> stays what it is on every disk on the way.\<close>

lemma touches_keeps:
  assumes "touches X w w'" "n \<notin> X" "G (now w n)"
  shows "G (now w' n)" "d \<in> disks w' \<Longrightarrow> d \<in> disks w \<or> G (d n)"
  using assms unfolding touches_def only_def by metis+

subsection \<open>The file sink\<close>

lemma append_append: "append n b (append n a d) = append n (a @ b) d"
  by (cases "d n") (auto simp: append_def intro!: ext)

lemma append_Nil [simp]: "append n [] d = d"
  by (cases "d n") (auto simp: append_def intro!: ext)

lemma FileSink_loop_ok:
  "\<exists>k\<le>length bs. fst (FileSink_loop S n bs done' w) = done' + int k \<and>
     now (snd (FileSink_loop S n bs done' w)) = append n (take k bs) (now w) \<and>
     touches {n} w (snd (FileSink_loop S n bs done' w)) \<and>
     ((\<forall>t. 0 < answer S t) \<longrightarrow> k = length bs)"
proof (induction S n bs done' w rule: FileSink_loop.induct)
  case (1 S n bs done' w)
  show ?case
  proof (cases "bs = [] \<or> ask S w \<le> 0")
    case True
    then have "FileSink_loop S n bs done' w = (done', w) \<or> FileSink_loop S n bs done' w = (done', tick w)"
      by (auto simp: FileSink_loop.simps [of S n bs done' w] fs_write_def)
    moreover have "bs = []" if "\<forall>t. 0 < answer S t" using True that [rule_format, of "calls w"] by (auto simp: ask_def)
    ultimately show ?thesis by (intro exI [of _ 0]) auto
  next
    case False
    define k where "k = min (nat (ask S w)) (length bs)"
    have k: "0 < k" "k \<le> length bs" using False by (auto simp: k_def)
    define w1 where "w1 = tick (change (append n (take k bs)) w)"
    have wr: "fs_write S n bs w = (int k, w1)" using False by (simp add: fs_write_def Let_def k_def w1_def)
    have eq: "FileSink_loop S n bs done' w = FileSink_loop S n (drop k bs) (done' + int k) w1"
      using False k(1) by (simp add: FileSink_loop.simps [of S n bs done' w] wr)
    have IH: "\<exists>j\<le>length (drop k bs). fst (FileSink_loop S n (drop k bs) (done' + int k) w1) = done' + int k + int j \<and>
        now (snd (FileSink_loop S n (drop k bs) (done' + int k) w1)) = append n (take j (drop k bs)) (now w1) \<and>
        touches {n} w1 (snd (FileSink_loop S n (drop k bs) (done' + int k) w1)) \<and>
        ((\<forall>t. 0 < answer S t) \<longrightarrow> j = length (drop k bs))"
      using 1 [of "(int k, w1)" "int k" w1] False k(1) wr by simp
    then obtain j where j: "j \<le> length bs - k" "fst (FileSink_loop S n bs done' w) = done' + int (k + j)"
      "now (snd (FileSink_loop S n bs done' w)) = append n (take j (drop k bs)) (now w1)"
      "touches {n} w1 (snd (FileSink_loop S n bs done' w))" "(\<forall>t. 0 < answer S t) \<longrightarrow> j = length bs - k"
      unfolding eq length_drop of_nat_add add.assoc [symmetric] by blast
    have "append n (take j (drop k bs)) (now w1) = append n (take (k + j) bs) (now w)"
      by (simp add: w1_def append_append take_add)
    moreover have "touches {n} w w1" by (simp add: w1_def touches_change append_def only_def)
    ultimately show ?thesis using j k by (intro exI [of _ "k + j"]) (auto intro: touches_trans)
  qed
qed

lemma FileSink_ok:
  "\<exists>k\<le>length bs. fst (FileSink S n bs w) = int k \<and> now (snd (FileSink S n bs w)) = append n (take k bs) (now w) \<and>
     ((\<forall>t. 0 < answer S t) \<longrightarrow> k = length bs)"
  "touches {n} w (snd (FileSink S n bs w))"
  using FileSink_loop_ok [of bs S n 0 w] by (auto simp: FileSink_def)

definition sha_law :: "'c sha_ops \<Rightarrow> bool" where
  "sha_law H \<longleftrightarrow> (\<forall>c a b. sha_update H (sha_update H c a) b = sha_update H c (a @ b)) \<and> (\<forall>c. sha_update H c [] = c)"

text \<open>
  The file holds what was hashed.  A patch in the \<open>IMGDIFF2\<close> format needs writes that do not fail for this: it ignores a sink
  that fails inside a normal chunk.
\<close>

definition hashed :: "('s, 'z, 'd, 'c, 'w) ap_env \<Rightarrow> string \<Rightarrow> 'w ap_world \<Rightarrow> 'c option \<Rightarrow> bool" where
  "hashed E n w ctx \<longleftrightarrow>
     (\<exists>i. now w n = Some i \<and> ctx = Some (sha_update (ap_sha E) (sha_init (ap_sha E)) (i_data i)))"

definition never_short :: "('s, 'z, 'd, 'c, 'w) ap_env \<Rightarrow> bool" where
  "never_short E \<longleftrightarrow> (\<forall>t. 0 < answer (ap_sys E) t)"

lemma hashed_write:
  assumes "sha_law (ap_sha E)" "hashed E n w (Some c)" "fst (FileSink (ap_sys E) n bs w) = int (length bs)"
  shows "hashed E n (snd (FileSink (ap_sys E) n bs w)) (Some (sha_update (ap_sha E) c bs))"
proof -
  obtain k where "k \<le> length bs" "fst (FileSink (ap_sys E) n bs w) = int k"
    "now (snd (FileSink (ap_sys E) n bs w)) = append n (take k bs) (now w)"
    using FileSink_ok(1) [of bs "ap_sys E" n w] by blast
  then have "now (snd (FileSink (ap_sys E) n bs w)) = append n bs (now w)" using assms(3) by simp
  then show ?thesis using assms(1,2) by (auto simp: hashed_def append_def sha_law_def)
qed

interpretation touch: sink_inv "sink_env E (FileSink (ap_sys E) n)" "\<lambda>w c. touches {n} w0 w" "touches {n} w0"
  for E :: "('s, 'z, 'd, 'c, 'w) ap_env" and n :: string and w0 :: "'w ap_world"
proof
  fix bs and t :: "'w ap_world"
  show "fst (env_sink (sink_env E (FileSink (ap_sys E) n)) bs t) \<le> int (length bs)"
    using FileSink_ok(1) [of bs "ap_sys E" n t] by (auto simp: sink_env_def)
qed (auto simp: sink_env_def intro: touches_trans FileSink_ok(2))

interpretation hash: sink_inv "sink_env E (FileSink (ap_sys E) n)"
  "\<lambda>w c. sha_law (ap_sha E) \<and> never_short E \<longrightarrow> hashed E n w c" "\<lambda>w. True"
  for E :: "('s, 'z, 'd, 'c, 'w) ap_env" and n :: string
proof
  fix bs and t :: "'w ap_world"
  show "fst (env_sink (sink_env E (FileSink (ap_sys E) n)) bs t) \<le> int (length bs)"
    using FileSink_ok(1) [of bs "ap_sys E" n t] by (auto simp: sink_env_def)
next
  fix bs co and t :: "'w ap_world"
  assume "fst (env_sink (sink_env E (FileSink (ap_sys E) n)) bs t) \<noteq> int (length bs)"
  then have "\<not> never_short E" using FileSink_ok(1) [of bs "ap_sys E" n t] by (auto simp: sink_env_def never_short_def)
  then show "sha_law (ap_sha E) \<and> never_short E \<longrightarrow> hashed E n (snd (env_sink (sink_env E (FileSink (ap_sys E) n)) bs t)) co"
    by simp
next
  fix bs c and t :: "'w ap_world"
  assume "sha_law (ap_sha E) \<and> never_short E \<longrightarrow> hashed E n t (Some c)"
    and "fst (env_sink (sink_env E (FileSink (ap_sys E) n)) bs t) = int (length bs)"
  then show "sha_law (ap_sha E) \<and> never_short E \<longrightarrow>
      hashed E n (snd (env_sink (sink_env E (FileSink (ap_sys E) n)) bs t))
        (Some (env_sha (sink_env E (FileSink (ap_sys E) n)) c bs))"
    using hashed_write [of E n t c bs] by (simp add: sink_env_def)
qed simp_all

lemma bsdiff_hashed:
  assumes "sha_law (ap_sha E)" "hashed E n w (Some c)" "8 \<le> length patch" "take 8 patch = BSDIFF_MAGIC"
    and "run_patch (sink_env E (FileSink (ap_sys E) n)) old patch w c = Some (Some (0, w', c'))"
  shows "hashed E n w' c'"
proof -
  have r: "ApplyBSDiffPatch (ap_bz E) (ap_alloc E) (FileSink (ap_sys E) n) (sha_update (ap_sha E)) old patch 0 w (Some c)
      = Some (0, w', c')"
    using assms(3-5) by (auto simp: run_patch_def sink_env_def)
  then obtain err new where a: "ApplyBSDiffPatchMem (ap_bz E) (ap_alloc E) old patch 0 = Some (err, new)"
    by (auto simp: ApplyBSDiffPatch_def bind_eq_Some_conv)
  obtain k where k: "k \<le> length new" "fst (FileSink (ap_sys E) n new w) = int k"
    using FileSink_ok(1) [of new "ap_sys E" n w] by blast
  have "k = length new" "w' = snd (FileSink (ap_sys E) n new w)" "c' = Some (sha_update (ap_sha E) c new)"
    using r k by (auto simp: ApplyBSDiffPatch_def a case_prod_beta Let_def split: if_splits)
  then show ?thesis using hashed_write [OF assms(1,2), of new] k(2) by simp
qed

text \<open>When the hash context stands for what is in the output file.\<close>

definition exact_output :: "('s, 'z, 'd, 'c, 'w) ap_env \<Rightarrow> bytes \<Rightarrow> bool" where
  "exact_output E patch \<longleftrightarrow> sha_law (ap_sha E) \<and> (never_short E \<or> take 8 patch = BSDIFF_MAGIC)"

lemma apply_to_file:
  assumes "apply_to E old patch (Out_file n) w = Some (r, w')"
  shows "touches {n} w w'"
    and "r = Some (0, out, ctx) \<Longrightarrow> hashed E n w (Some (sha_init (ap_sha E))) \<Longrightarrow> exact_output E patch \<Longrightarrow>
      hashed E n w' ctx"
    and "r = Some (e, out, ctx) \<Longrightarrow> out = Out_file n"
proof -
  let ?P = "sink_env E (FileSink (ap_sys E) n)"
  obtain q where q: "run_patch ?P old patch w (sha_init (ap_sha E)) = Some q"
    using assms by (auto simp: apply_to_def bind_eq_Some_conv)
  show "touches {n} w w'"
  proof (cases q)
    case None
    then show ?thesis using assms q by (simp add: apply_to_def)
  next
    case (Some t)
    then obtain e w1 c1 where t: "q = Some (e, w1, c1)" by (cases t) auto
    then show ?thesis using assms q touch.run_patch_step(1) [of E n old patch w _ e w1 c1 w] by (simp add: apply_to_def)
  qed
  show "r = Some (e, out, ctx) \<Longrightarrow> out = Out_file n"
    using assms q by (auto simp: apply_to_def split: option.splits)
  assume r: "r = Some (0, out, ctx)" and h: "hashed E n w (Some (sha_init (ap_sha E)))" and x: "exact_output E patch"
  then have t: "run_patch ?P old patch w (sha_init (ap_sha E)) = Some (Some (0, w', ctx))"
    using assms q by (auto simp: apply_to_def split: option.splits)
  show "hashed E n w' ctx"
  proof (cases "8 \<le> length patch \<and> take 8 patch = BSDIFF_MAGIC")
    case True
    then show ?thesis using bsdiff_hashed [OF _ h _ _ t] x by (simp add: exact_output_def)
  next
    case False
    have "take 8 patch \<noteq> BSDIFF_MAGIC" using False by (auto simp: BSDIFF_MAGIC_def dest: arg_cong [of _ _ length])
    then show ?thesis using hash.run_patch_step(2) [OF t] h x by (auto simp: exact_output_def)
  qed
qed

subsection \<open>Loading changes nothing\<close>

definition same :: "'x fs_world \<Rightarrow> 'x fs_world \<Rightarrow> bool" where
  "same w w' \<longleftrightarrow> now w' = now w \<and> disks w' = disks w"

lemma same_refl [simp]: "same w w" by (simp add: same_def)

lemma same_trans: "same w w' \<Longrightarrow> same w' w'' \<Longrightarrow> same w w''" by (simp add: same_def)

lemma same_touches: "same w w' \<Longrightarrow> touches X w w'" by (simp add: same_def touches_def)

lemma same_ext [simp]: "same w (w\<lparr>ext := e\<rparr>)" "same w (set_flash f w)"
  by (simp_all add: same_def disks_def set_flash_def)

lemma same_calls [simp]:
  "same w (snd (fs_stat S n w))" "same w (snd (fs_open_read S n w))" "same w (snd (fs_fread S l k w))" "same w (tick w)"
  by (simp_all add: same_def)

lemma scan_once_same: "scan_once E w = Some w' \<Longrightarrow> same w w'"
  by (auto simp: scan_once_def bind_eq_Some_conv split: if_splits)

lemma open_part_same:
  assumes "open_part E m p w = Some (r, w')"
  shows "same w w'"
proof (cases m)
  case True
  then obtain w1 mtd where w1: "scan_once E w = Some w1" "find_mtd (tab (ext w1)) p = Some mtd"
    using assms by (auto simp: open_part_def bind_eq_Some_conv)
  have "w' = w1 \<or> (\<exists>f. w' = set_flash f w1)"
    using assms True w1 by (cases mtd) (auto simp: open_part_def bind_eq_Some_conv)
  then show ?thesis using scan_once_same [OF w1(1)] same_trans [OF scan_once_same [OF w1(1)] same_ext(2)] by auto
next
  case False
  then obtain n where "p = Some n" "w' = snd (fs_open_read (ap_sys E) n w)"
    using assms by (auto simp: open_part_def bind_eq_Some_conv case_prod_beta Let_def)
  then show ?thesis by simp
qed

lemma read_part_same:
  assumes "read_part E src buf off n w = Some (k, b, src', w')"
  shows "same w w'"
proof (cases src)
  case (Src_mtd ctx)
  then show ?thesis using assms by (auto simp: read_part_def bind_eq_Some_conv)
next
  case (Src_dev left)
  then have "w' = snd (fs_fread (ap_sys E) left n w)"
    using assms by (auto simp: read_part_def bind_eq_Some_conv case_prod_beta Let_def)
  then show ?thesis by simp
qed

lemma close_part_same [simp]: "same w (close_part E src w)"
  by (cases src) (simp_all add: close_part_def)

lemma read_next_same: "read_next E sz src buf n c w = Some (ok, src', buf', n', c', w') \<Longrightarrow> same w w'"
  by (auto simp: read_next_def Let_def bind_eq_Some_conv split: if_splits dest!: read_part_same)

lemma match_loop_same: "match_loop E ps src buf n c w = Some (r, w') \<Longrightarrow> same w w'"
proof (induction E ps src buf n c w rule: match_loop.induct)
  case (2 E sz sha1sum pairs src buf n c w)
  obtain ok src1 buf1 n1 c1 w1 where s: "read_next E sz src buf n c w = Some (ok, src1, buf1, n1, c1, w1)"
    using 2(2) by (auto simp: bind_eq_Some_conv)
  have w1: "same w w1" using s by (rule read_next_same)
  have rest: "ok \<Longrightarrow> sha1sum = Some str \<Longrightarrow> ParseSha1 str = Some p \<Longrightarrow> sha_final (ap_sha E) c1 \<noteq> p \<Longrightarrow>
      match_loop E pairs src1 buf1 n1 c1 w1 = Some (r, w') \<Longrightarrow> same w1 w'" for str p
    using 2(1) [OF s] by simp
  show ?case using 2(2) s w1 rest same_trans [OF w1] same_trans [OF w1 close_part_same]
    by (auto simp: bind_eq_Some_conv split: if_splits option.splits)
qed auto

lemma load_sorted_same:
  assumes "load_sorted E m p ps w = Some (r, w')"
  shows "same w w'"
proof -
  obtain src w1 where o: "open_part E m p w = Some (src, w1)"
    using assms by (auto simp: load_sorted_def bind_eq_Some_conv)
  have w1: "same w w1" using o by (rule open_part_same)
  show ?thesis
  proof (cases src)
    case None
    then show ?thesis using assms o w1 by (simp add: load_sorted_def)
  next
    case (Some s)
    let ?room = "fst (last ps)"
    obtain q where m: "match_loop E ps s (if ap_alloc E ?room then replicate ?room 0 else []) 0 (sha_init (ap_sha E)) w1
        = Some (q, w')"
      using assms o Some by (auto simp: load_sorted_def Let_def bind_eq_Some_conv split: if_splits)
    show ?thesis by (rule same_trans [OF w1 match_loop_same [OF m]])
  qed
qed

lemma LoadPartition_cases:
  assumes "LoadPartitionContents E n w = Some (r, w')"
  shows "r = None \<and> w' = w \<or> (\<exists>m p ps. load_sorted E m p (ap_qsort E ps) w = Some (r, w'))"
  using assms
  by (auto simp: LoadPartitionContents_def bind_eq_Some_conv case_prod_beta Let_def split: if_splits option.splits)

lemma LoadPartition_same:
  assumes "LoadPartitionContents E n w = Some (r, w')"
  shows "same w w'"
  using LoadPartition_cases [OF assms] load_sorted_same by auto

lemma LoadFile_file:
  assumes "LoadFileContents E n w = Some (r, w')" "\<not> is_partition n"
  shows "same w w'"
    and "r = Some f \<Longrightarrow> \<exists>i. now w n = Some i \<and> fc_data f = i_data i \<and> fc_sha1 f = SHA E (i_data i)"
proof -
  obtain st w1 where st: "fs_stat (ap_sys E) n w = (st, w1)" by (cases "fs_stat (ap_sys E) n w")
  obtain o' w2 where o: "fs_open_read (ap_sys E) n w1 = (o', w2)" by (cases "fs_open_read (ap_sys E) n w1")
  have s: "same w w1" "same w w2" using st o same_calls(1) [of w "ap_sys E" n] same_calls(2) [of w1 "ap_sys E" n]
    by (auto intro: same_trans)
  have "same w w' \<and> (\<forall>f. r = Some f \<longrightarrow>
    (\<exists>i. now w n = Some i \<and> fc_data f = i_data i \<and> fc_sha1 f = SHA E (i_data i)))"
  proof (cases "st = None \<or> o' = None")
    case True
    then show ?thesis using assms st o s by (auto simp: LoadFileContents_def split: option.splits)
  next
    case False
    then obtain i left where i: "st = Some i" "o' = Some left" by auto
    have d: "now w n = Some i" "left = i_data i"
      using i st o by (auto simp: fs_stat_def fs_open_read_def split: if_splits)
    obtain bs w3 where f: "fs_fread (ap_sys E) left (length (i_data i)) w2 = (bs, w3)"
      by (cases "fs_fread (ap_sys E) left (length (i_data i)) w2")
    have "same w w3" using s(2) f same_calls(3) [of w2 "ap_sys E" left "length (i_data i)"] by (auto intro: same_trans)
    moreover have "bs = i_data i" if "length bs = length (i_data i)"
      using f d(2) that by (auto simp: fs_fread_def split: if_splits)
    ultimately show ?thesis using assms st o i f d by (auto simp: LoadFileContents_def split: if_splits)
  qed
  then show "same w w'"
    "r = Some f \<Longrightarrow> \<exists>i. now w n = Some i \<and> fc_data f = i_data i \<and> fc_sha1 f = SHA E (i_data i)" by blast+
qed

lemma LoadFile_same: "LoadFileContents E n w = Some (r, w') \<Longrightarrow> same w w'"
  using LoadFile_file(1) [of E n w r w'] LoadPartition_same [of E n w r w']
  by (cases "is_partition n") (auto simp: LoadFileContents_def)

subsection \<open>Saving\<close>

lemma SaveFile_ok:
  assumes "SaveFileContents S n f w = (r, w')"
  shows "touches {n} w w'" "\<not> r < 0 \<Longrightarrow> \<exists>i. now w' n = Some i \<and> i_data i = fc_data f"
proof -
  obtain ok w1 where o: "fs_open_trunc S n w = (ok, w1)" by (cases "fs_open_trunc S n w")
  obtain k w2 where s: "FileSink S n (fc_data f) w1 = (k, w2)" by (cases "FileSink S n (fc_data f) w1")
  obtain m w3 where m: "fs_chmod S n (fc_mode f) w2 = (m, w3)" by (cases "fs_chmod S n (fc_mode f) w2")
  obtain c w4 where c: "fs_chown S n (fc_uid f) (fc_gid f) w3 = (c, w4)" by (cases "fs_chown S n (fc_uid f) (fc_gid f) w3")
  have t1: "touches {n} w w1" using touches_calls(1) [of n w S] o by simp
  have t2: "touches {n} w w2" using touches_trans [OF t1] FileSink_ok(2) [of n w1 S "fc_data f"] s by simp
  have t3: "touches {n} w w3" using touches_trans [OF t2] touches_calls(3) [of n w2 S "fc_mode f"] m by simp
  have t4: "touches {n} w w4" using touches_trans [OF t3] touches_calls(4) [of n w3 S "fc_uid f" "fc_gid f"] c by simp
  show "touches {n} w w'" using assms o s m c t1 t2 t3 t4 by (auto simp: SaveFileContents_def split: if_splits)
  assume r: "\<not> r < 0"
  then have all: "ok" "k = int (length (fc_data f))" "m = 0" "c = 0" "w' = w4"
    using assms o s m c by (auto simp: SaveFileContents_def split: if_splits)
  obtain i where "now w1 n = Some i" "i_data i = []"
    using o all(1) by (auto simp: fs_open_trunc_def split: if_splits option.splits)
  moreover have "now w2 = append n (fc_data f) (now w1)"
    using FileSink_ok(1) [of "fc_data f" S n w1] s all(2) by auto
  ultimately have "\<exists>i. now w2 n = Some i \<and> i_data i = fc_data f" by (simp add: append_def)
  then have "\<exists>i. now w3 n = Some i \<and> i_data i = fc_data f" using m by (auto simp: fs_chmod_def split: if_splits)
  then have "\<exists>i. now w4 n = Some i \<and> i_data i = fc_data f" using c by (auto simp: fs_chown_def split: if_splits)
  then show "\<exists>i. now w' n = Some i \<and> i_data i = fc_data f" using all(5) by simp
qed

lemma back_up_ok:
  assumes "back_up S file' w = Some (ok, w')"
  shows "touches (insert CACHE_TEMP_SOURCE (Collect expendable)) w w'"
    "ok \<Longrightarrow> \<exists>f i. file' = Some f \<and> now w' CACHE_TEMP_SOURCE = Some i \<and> i_data i = fc_data f"
proof -
  obtain f where f: "file' = Some f" using assms by (auto simp: back_up_def bind_eq_Some_conv)
  obtain r w1 where m: "MakeFreeSpaceOnCache S (word_of_nat (length (fc_data f))) w = (r, w1)"
    by (cases "MakeFreeSpaceOnCache S (word_of_nat (length (fc_data f)) :: u64) w")
  obtain s w2 where s: "SaveFileContents S CACHE_TEMP_SOURCE f w1 = (s, w2)"
    by (cases "SaveFileContents S CACHE_TEMP_SOURCE f w1")
  have t1: "touches (insert CACHE_TEMP_SOURCE (Collect expendable)) w w1"
    using touches_mono [OF touches_cache [of w S "word_of_nat (length (fc_data f))"]] m by auto
  have t2: "touches (insert CACHE_TEMP_SOURCE (Collect expendable)) w w2"
    using touches_trans [OF t1 touches_mono [OF SaveFile_ok(1) [OF s]]] by simp
  show "touches (insert CACHE_TEMP_SOURCE (Collect expendable)) w w'"
    using assms t1 t2 by (auto simp: back_up_def f m s split: if_splits)
  assume ok
  then show "\<exists>f i. file' = Some f \<and> now w' CACHE_TEMP_SOURCE = Some i \<and> i_data i = fc_data f"
    using assms SaveFile_ok(2) [OF s] by (auto simp: back_up_def f m s split: if_splits)
qed

subsection \<open>A place to start again from\<close>

text \<open>There is a patch for the data.\<close>

definition patchable :: "('s, 'z, 'd, 'c, 'w) ap_env \<Rightarrow> string list \<Rightarrow> edify_value option list \<Rightarrow> bytes \<Rightarrow> bool" where
  "patchable E shas values bs \<longleftrightarrow>
     (\<exists>k v. FindMatchingPatch (SHA E bs) shas = int k \<and> k < length values \<and> values ! k = Some v)"

definition holds :: "(bytes \<Rightarrow> bool) \<Rightarrow> inode option \<Rightarrow> bool" where
  "holds G x \<longleftrightarrow> (\<exists>i. x = Some i \<and> G (i_data i))"

text \<open>The target is done, or the source or the saved copy can be patched.\<close>

definition recoverable ::
  "('s, 'z, 'd, 'c, 'w) ap_env \<Rightarrow> string \<Rightarrow> string \<Rightarrow> bytes \<Rightarrow> string list \<Rightarrow> edify_value option list \<Rightarrow> disk \<Rightarrow> bool" where
  "recoverable E source target target_sha1 shas values d \<longleftrightarrow>
     holds (\<lambda>bs. SHA E bs = target_sha1) (d target) \<or>
     holds (patchable E shas values) (d source) \<or> holds (patchable E shas values) (d CACHE_TEMP_SOURCE)"

abbreviation rec_job :: "('s, 'z, 'd, 'c, 'w) ap_env \<Rightarrow> ap_job \<Rightarrow> bytes \<Rightarrow> string list \<Rightarrow> edify_value option list \<Rightarrow> disk \<Rightarrow> bool" where
  "rec_job E J target_sha1 shas values \<equiv> recoverable E (source_filename J) (target_filename J) target_sha1 shas values"

definition anchor :: "ap_job \<Rightarrow> bool \<Rightarrow> string" where
  "anchor J made = (if made \<or> source_patch_value J = None then CACHE_TEMP_SOURCE else source_filename J)"

definition names_ok :: "string \<Rightarrow> string \<Rightarrow> bool" where
  "names_ok source target \<longleftrightarrow>
     \<not> is_partition source \<and> \<not> is_partition target \<and> \<not> expendable source \<and> source \<noteq> CACHE_TEMP_SOURCE \<and>
     target \<noteq> CACHE_TEMP_SOURCE \<and> source \<noteq> target @ ''.patch'' \<and> target @ ''.patch'' \<noteq> CACHE_TEMP_SOURCE"

definition job_ok ::
  "('s, 'z, 'd, 'c, 'w) ap_env \<Rightarrow> ap_job \<Rightarrow> string list \<Rightarrow> edify_value option list \<Rightarrow> bool" where
  "job_ok E J shas values \<longleftrightarrow>
     names_ok (source_filename J) (target_filename J) \<and>
     (\<forall>v. source_patch_value J = Some v \<or> copy_patch_value J = Some v \<longrightarrow> exact_output E (bytes_of (vdata v))) \<and>
     (source_patch_value J \<noteq> None \<longrightarrow> (\<exists>f. source_file J = Some f \<and> patchable E shas values (fc_data f)))"

lemma anchor_keeps:
  assumes "touches X w w'" "anchor J m \<notin> X" "holds (patchable E shas values) (now w (anchor J m))"
  shows "holds (patchable E shas values) (now w' (anchor J m))"
    "keeps (rec_job E J target_sha1 shas values) w w'"
proof -
  show "holds (patchable E shas values) (now w' (anchor J m))" using assms by (rule touches_keeps(1))
  have "holds (patchable E shas values) (d (anchor J m))" if "d \<in> disks w'" "d \<notin> disks w" for d
    using touches_keeps(2) [OF assms(1,2), of "holds (patchable E shas values)" d] assms(3) that by simp
  then show "keeps (rec_job E J target_sha1 shas values) w w'"
    by (fastforce simp: keeps_def recoverable_def anchor_def split: if_splits)
qed

lemma anchor_names:
  assumes "job_ok E J shas values"
  shows "anchor J m \<notin> {target_filename J @ ''.patch''}"
    "\<not> m \<Longrightarrow> source_patch_value J \<noteq> None \<Longrightarrow> anchor J m \<notin> insert CACHE_TEMP_SOURCE (Collect expendable)"
    "anchor J True \<notin> {source_filename J}" "anchor J m \<noteq> target_filename J \<or> \<not> m \<and> anchor J m = source_filename J"
  using assms by (auto simp: job_ok_def names_ok_def anchor_def)

lemma prepare_safe:
  assumes "job_ok E J shas values" "holds (patchable E shas values) (now w (anchor J False))"
    and "prepare_space S J tfs retry False w = Some (sp, w')"
  shows "keeps (rec_job E J target_sha1 shas values) w w'"
    "sp = Some (retry1, made) \<Longrightarrow> holds (patchable E shas values) (now w' (anchor J made)) \<and> (made \<longrightarrow> retry1 = 0)"
proof -
  let ?K = "keeps (rec_job E J target_sha1 shas values)" and ?H = "\<lambda>w m. holds (patchable E shas values) (now w (anchor J m))"
  have part: "\<not> is_partition (target_filename J)" "\<not> is_partition (source_filename J)"
    using assms(1) by (simp_all add: job_ok_def names_ok_def)
  obtain n0 w0 where f0: "FreeSpaceForFile S tfs w = (n0, w0)" by (cases "FreeSpaceForFile S tfs w")
  obtain enough w1 where sp: "(if retry > 0 then (case FreeSpaceForFile S tfs w of (n, w') \<Rightarrow> (enough_space n (target_size J), w'))
      else (False, w)) = (enough, w1)"
    by (cases "if retry > 0 then (case FreeSpaceForFile S tfs w of (n, w') \<Rightarrow> (enough_space n (target_size J), w'))
      else (False, w)")
  have w1: "same w w1" using sp f0 FreeSpaceForFile_world [of S tfs w] by (auto simp: same_def split: if_splits)
  have t1: "touches {} w w1" using w1 by (rule same_touches)
  note a1 = anchor_keeps [OF t1 _ assms(2), simplified]
  have "?K w w' \<and> (\<forall>retry1 made. sp = Some (retry1, made) \<longrightarrow> ?H w' made \<and> (made \<longrightarrow> retry1 = 0))"
  proof (cases "enough \<or> source_patch_value J = None")
    case True
    then have "w' = w1 \<and> (\<forall>r m. sp = Some (r, m) \<longrightarrow> \<not> m)"
      using assms(3) part by (auto simp: prepare_space_def sp split: if_splits)
    then show ?thesis using a1 by auto
  next
    case False
    obtain ok w2 where b: "back_up S (source_file J) w1 = Some (ok, w2)"
      using assms(3) part False by (auto simp: prepare_space_def sp bind_eq_Some_conv)
    note a2 = anchor_keeps [OF back_up_ok(1) [OF b] anchor_names(2) [OF assms(1)] a1(1)]
    have k2: "?K w w2" using keeps_trans [OF a1(2) a2(2)] False by simp
    show ?thesis
    proof (cases ok)
      case False
      then show ?thesis using assms(3) part \<open>\<not> (enough \<or> source_patch_value J = None)\<close> b k2
        by (auto simp: prepare_space_def sp)
    next
      case True
      obtain u w3 where u: "fs_unlink S (source_filename J) w2 = (u, w3)" by (cases "fs_unlink S (source_filename J) w2")
      obtain n w4 where f: "FreeSpaceForFile S tfs w3 = (n, w4)" by (cases "FreeSpaceForFile S tfs w3")
      have "?H w2 True"
        using back_up_ok(2) [OF b True] assms(1) False by (auto simp: job_ok_def holds_def anchor_def)
      moreover have "touches {source_filename J} w2 w3" using touches_calls(5) [of "source_filename J" w2 S] u by simp
      ultimately have a3: "?H w3 True" "?K w2 w3" using anchor_keeps [OF _ anchor_names(3) [OF assms(1)]] by blast+
      have w4: "same w3 w4" using FreeSpaceForFile_world [of S tfs w3] f by (simp add: same_def)
      have "?K w w4" "?H w4 True"
        using keeps_trans [OF k2 keeps_trans [OF a3(2) keeps_same]] a3(1) w4 by (auto simp: same_def)
      moreover have "sp = Some (0, True) \<and> w' = w4"
        using assms(3) part False True b u f by (auto simp: prepare_space_def sp)
      ultimately show ?thesis by simp
    qed
  qed
  then show "?K w w'" "sp = Some (retry1, made) \<Longrightarrow> ?H w' made \<and> (made \<longrightarrow> retry1 = 0)" by blast+
qed

lemma open_output_ok:
  assumes "open_output E J w = (Some out, w')" "\<not> is_partition (target_filename J)" "sha_law (ap_sha E)"
  shows "out = Out_file (target_filename J @ ''.patch'')" "hashed E (target_filename J @ ''.patch'') w' (Some (sha_init (ap_sha E)))"
proof -
  obtain ok w1 where o: "fs_open_trunc (ap_sys E) (target_filename J @ ''.patch'') w = (ok, w1)"
    by (cases "fs_open_trunc (ap_sys E) (target_filename J @ ''.patch'') w")
  have ok: "ok" "out = Out_file (target_filename J @ ''.patch'')" "w' = w1"
    using assms o by (auto simp: open_output_def split: if_splits)
  then show "out = Out_file (target_filename J @ ''.patch'')" by simp
  have "\<exists>i. now w1 (target_filename J @ ''.patch'') = Some i \<and> i_data i = []"
    using o ok(1) by (auto simp: fs_open_trunc_def split: if_splits option.splits)
  then show "hashed E (target_filename J @ ''.patch'') w' (Some (sha_init (ap_sha E)))"
    using assms(3) ok(3) by (auto simp: hashed_def sha_law_def)
qed

lemma open_output_touches:
  assumes "open_output E J w = (out, w')"
  shows "touches {target_filename J @ ''.patch''} w w'"
  using assms touches_calls(1) [of "target_filename J @ ''.patch''" w "ap_sys E"]
  by (auto simp: open_output_def case_prod_beta Let_def split: if_splits)

text \<open>What one turn of the loop leaves.\<close>

definition attempt_ok ::
  "('s, 'z, 'd, 'c, 'w) ap_env \<Rightarrow> ap_job \<Rightarrow> string list \<Rightarrow> edify_value option list \<Rightarrow> 'c attempt \<Rightarrow> 'w ap_world \<Rightarrow> bool" where
  "attempt_ok E J shas values a w \<longleftrightarrow>
     (case a of
        Give_up n \<Rightarrow> n \<noteq> 0
      | Try_again m \<Rightarrow> \<not> m \<and> holds (patchable E shas values) (now w (anchor J False))
      | Patched m out ctx \<Rightarrow> holds (patchable E shas values) (now w (anchor J m)) \<and>
          out = Out_file (target_filename J @ ''.patch'') \<and> hashed E (target_filename J @ ''.patch'') w ctx)"

lemma attempt_safe:
  assumes "job_ok E J shas values" "holds (patchable E shas values) (now w (anchor J False))"
    and "patch_attempt E J tfs retry False w = Some (a, w')"
  shows "keeps (rec_job E J target_sha1 shas values) w w'" "attempt_ok E J shas values a w'"
proof -
  let ?K = "keeps (rec_job E J target_sha1 shas values)" and ?H = "\<lambda>w m. holds (patchable E shas values) (now w (anchor J m))"
  let ?O = "target_filename J @ ''.patch''"
  obtain sp w1 where sp: "prepare_space (ap_sys E) J tfs retry False w = Some (sp, w1)"
    using assms(3) by (auto simp: patch_attempt_def bind_eq_Some_conv)
  note p = prepare_safe [OF assms(1,2) sp]
  have "?K w w' \<and> attempt_ok E J shas values a w'"
  proof (cases sp)
    case None
    then show ?thesis using assms(3) sp p(1) by (auto simp: patch_attempt_def attempt_ok_def)
  next
    case (Some t)
    obtain retry1 m where t: "sp = Some (retry1, m)" using Some by (cases t) auto
    have h1: "?H w1 m" "m \<longrightarrow> retry1 = 0" using p(2) [OF t] by simp_all
    let ?src = "case source_patch_value J of Some v \<Rightarrow> do { f \<leftarrow> source_file J; Some (f, v) }
                 | None \<Rightarrow> do { f \<leftarrow> copy_file J; v \<leftarrow> copy_patch_value J; Some (f, v) }"
    obtain f v where fv: "?src = Some (f, v)"
      using assms(3) sp t by (auto simp: patch_attempt_def bind_eq_Some_conv)
    have ex: "exact_output E (bytes_of (vdata v))"
      using fv assms(1) by (auto simp: job_ok_def bind_eq_Some_conv split: option.splits)
    have np: "\<not> is_partition (target_filename J)" using assms(1) by (simp add: job_ok_def names_ok_def)
    obtain out w2 where o: "open_output E J w1 = (out, w2)" by (cases "open_output E J w1")
    note a2 = anchor_keeps [OF open_output_touches [OF o] anchor_names(1) [OF assms(1)] h1(1)]
    note k2 = keeps_trans [OF p(1) a2(2)]
    show ?thesis
    proof (cases "vtype v \<noteq> VAL_BLOB \<or> out = None")
      case True
      then show ?thesis using assms(3) sp t fv o p(1) k2
        by (auto simp: patch_attempt_def attempt_ok_def split: if_splits)
    next
      case False
      then obtain x where x: "out = Some x" "vtype v = VAL_BLOB" by auto
      have law: "sha_law (ap_sha E)" using ex by (simp add: exact_output_def)
      note oo = open_output_ok [OF o [unfolded x(1)] np law]
      obtain r w3 where r: "apply_to E (fc_data f) (bytes_of (vdata v)) (Out_file ?O) w2 = Some (r, w3)"
        using assms(3) sp t fv o x oo(1) by (auto simp: patch_attempt_def bind_eq_Some_conv)
      note a3 = anchor_keeps [OF apply_to_file(1) [OF r] anchor_names(1) [OF assms(1)] a2(1)]
      note k3 = keeps_trans [OF k2 a3(2)]
      have eq: "patch_attempt E J tfs retry False w = (case r of
          None \<Rightarrow> Some (Give_up 1, w3)
        | Some (result, out1, ctx) \<Rightarrow>
            if result \<noteq> 0
            then if retry1 = 0 then Some (Give_up 1, w3)
                 else Some (Try_again m, case out1 of Out_memory m \<Rightarrow> w3 | Out_file n \<Rightarrow> snd (fs_unlink (ap_sys E) n w3))
            else Some (Patched m out1 ctx, w3))"
        unfolding patch_attempt_def sp bind.bind_lunit prod.case t option.case fv
        using x oo(1) o r by simp
      show ?thesis
      proof (cases r)
        case None
        then show ?thesis using eq assms(3) k3 by (simp add: attempt_ok_def)
      next
        case (Some q)
        then obtain result out1 ctx where q: "r = Some (result, out1, ctx)" by (cases q) auto
        have out1: "out1 = Out_file ?O" by (rule apply_to_file(3) [OF r q])
        have u: "touches {?O} w3 (snd (fs_unlink (ap_sys E) ?O w3))" by (rule touches_calls(5))
        note a4 = anchor_keeps [OF u anchor_names(1) [OF assms(1)] a3(1)]
        consider (bad) "result \<noteq> 0" "retry1 = 0" | (again) "result \<noteq> 0" "retry1 \<noteq> 0" | (good) "result = 0" by blast
        then show ?thesis
        proof cases
          case bad
          then show ?thesis using eq assms(3) k3 q by (simp add: attempt_ok_def)
        next
          case again
          then have "\<not> m" using h1(2) by blast
          then show ?thesis using again eq assms(3) q out1 keeps_trans [OF k3 a4(2)] a4(1) by (auto simp: attempt_ok_def)
        next
          case good
          have "hashed E ?O w3 ctx" using apply_to_file(2) [OF r _ oo(2) ex] q good by simp
          then show ?thesis using good eq assms(3) q out1 k3 a3(1) by (auto simp: attempt_ok_def)
        qed
      qed
    qed
  qed
  then show "?K w w'" "attempt_ok E J shas values a w'" by blast+
qed

lemma loop_safe:
  assumes "job_ok E J shas values"
  shows "holds (patchable E shas values) (now w (anchor J False)) \<Longrightarrow> patch_loop E J tfs retry False w = Some (r, w') \<Longrightarrow>
    keeps (rec_job E J target_sha1 shas values) w w' \<and>
    (case r of Inl n \<Rightarrow> n \<noteq> 0 | Inr (m, out, ctx) \<Rightarrow> attempt_ok E J shas values (Patched m out ctx) w')"
proof (induction retry arbitrary: w)
  case 0
  obtain a w1 where a: "patch_attempt E J tfs 0 False w = Some (a, w1)"
    using 0(2) by (auto simp: patch_loop.simps [of E J tfs 0] bind_eq_Some_conv)
  note s = attempt_safe [OF assms 0(1) a]
  show ?case using 0(2) a s by (cases a) (auto simp: patch_loop.simps [of E J tfs 0] attempt_ok_def)
next
  case (Suc n)
  obtain a w1 where a: "patch_attempt E J tfs (Suc n) False w = Some (a, w1)"
    using Suc.prems(2) by (auto simp: patch_loop.simps [of E J tfs "Suc n"] bind_eq_Some_conv)
  note s = attempt_safe [OF assms Suc.prems(1) a]
  show ?case
  proof (cases a)
    case (Try_again m)
    then have "\<not> m" "holds (patchable E shas values) (now w1 (anchor J False))" using s(2) by (simp_all add: attempt_ok_def)
    moreover have "patch_loop E J tfs n m w1 = Some (r, w')"
      using Suc.prems(2) a Try_again by (simp add: patch_loop.simps [of E J tfs "Suc n"])
    ultimately show ?thesis using Suc.IH [of w1] keeps_trans [OF s(1)] by simp
  qed (use Suc.prems(2) a s in \<open>auto simp: patch_loop.simps [of E J tfs "Suc n"] attempt_ok_def\<close>)
qed

lemma finish_safe:
  assumes "job_ok E J shas values" "attempt_ok E J shas values (Patched m out ctx) w"
    and "finish_patch E J target_sha1 m out ctx w = Some (r, w')"
  shows "keeps (rec_job E J target_sha1 shas values) w w'"
    "r = 0 \<Longrightarrow> holds (\<lambda>bs. SHA E bs = target_sha1) (now w' (target_filename J))"
proof -
  let ?K = "keeps (rec_job E J target_sha1 shas values)" and ?H = "\<lambda>w. holds (patchable E shas values) (now w (anchor J m))"
  let ?O = "target_filename J @ ''.patch''" and ?T = "target_filename J"
  let ?D = "\<lambda>w. \<exists>i. now w ?O = Some i \<and> SHA E (i_data i) = target_sha1"
  have h: "?H w" "out = Out_file ?O" "hashed E ?O w ctx" using assms(2) by (simp_all add: attempt_ok_def)
  obtain i where i: "now w ?O = Some i" "ctx = Some (sha_update (ap_sha E) (sha_init (ap_sha E)) (i_data i))"
    using h(3) by (auto simp: hashed_def)
  show "?K w w'" "r = 0 \<Longrightarrow> holds (\<lambda>bs. SHA E bs = target_sha1) (now w' ?T)"
  proof -
    have "?K w w' \<and> (r = 0 \<longrightarrow> holds (\<lambda>bs. SHA E bs = target_sha1) (now w' ?T))"
    proof (cases "SHA E (i_data i) = target_sha1")
      case False
      then have "r = 1 \<and> w' = w" using assms(3) i(2) by (simp add: finish_patch_def SHA_def)
      then show ?thesis by simp
    next
      case True
      have d0: "?D w" using i(1) True by blast
      obtain src where src: "(if source_patch_value J \<noteq> None then source_file J else copy_file J) = Some src"
        using assms(3) i(2) h(2) True by (auto simp: finish_patch_def SHA_def bind_eq_Some_conv)
      obtain a w1 where c1: "fs_chmod (ap_sys E) ?O (fc_mode src) w = (a, w1)" by (cases "fs_chmod (ap_sys E) ?O (fc_mode src) w")
      obtain b w2 where c2: "fs_chown (ap_sys E) ?O (fc_uid src) (fc_gid src) w1 = (b, w2)"
        by (cases "fs_chown (ap_sys E) ?O (fc_uid src) (fc_gid src) w1")
      obtain c w3 where c3: "fs_rename (ap_sys E) ?O ?T w2 = (c, w3)" by (cases "fs_rename (ap_sys E) ?O ?T w2")
      note n = anchor_names(1) [OF assms(1), of m]
      have t1: "touches {?O} w w1" "touches {?O} w1 w2"
        using touches_calls(3) [of ?O w "ap_sys E" "fc_mode src"] c1
          touches_calls(4) [of ?O w1 "ap_sys E" "fc_uid src" "fc_gid src"] c2 by simp_all
      note a1 = anchor_keeps [OF t1(1) n h(1)] and a2 = anchor_keeps [OF t1(2) n anchor_keeps(1) [OF t1(1) n h(1)]]
      have k2: "?K w w1" "?K w w2" using a1(2) keeps_trans [OF a1(2) a2(2)] by simp_all
      have d2: "?D w2" using d0 c1 c2 by (auto simp: fs_chmod_def fs_chown_def split: if_splits)
      have ne: "?O \<noteq> ?T" by (metis append_self_conv list.distinct(1))
      have done3: "c = 0 \<Longrightarrow> holds (\<lambda>bs. SHA E bs = target_sha1) (now w3 ?T)"
        using d2 c3 by (auto simp: fs_rename_def holds_def split: if_splits)
      have k3: "?K w2 w3"
        using c3 done3 by (auto simp: fs_rename_def recoverable_def keeps_def split: if_splits)
      define w4 where "w4 = (if m then snd (fs_unlink (ap_sys E) CACHE_TEMP_SOURCE w3) else w3)"
      have tc: "?T \<noteq> CACHE_TEMP_SOURCE" using assms(1) by (simp add: job_ok_def names_ok_def)
      have t4: "touches {CACHE_TEMP_SOURCE} w3 w4" by (simp add: w4_def touches_calls(5))
      have d4: "c = 0 \<Longrightarrow> holds (\<lambda>bs. SHA E bs = target_sha1) (now w4 ?T)"
        using touches_keeps(1) [OF t4, where n = ?T and G = "holds (\<lambda>bs. SHA E bs = target_sha1)"] done3 tc by simp
      have k4: "c = 0 \<Longrightarrow> ?K w3 w4"
        using touches_keeps(2) [OF t4, where n = ?T and G = "holds (\<lambda>bs. SHA E bs = target_sha1)"] done3 tc
        by (auto simp: keeps_def recoverable_def)
      have "r = 1 \<and> (w' = w1 \<or> w' = w2 \<or> w' = w3) \<or> r = 0 \<and> c = 0 \<and> w' = w4"
        using assms(3) i(2) h(2) True src c1 c2 c3 by (auto simp: finish_patch_def SHA_def w4_def split: if_splits)
      then show ?thesis
        using k2 keeps_trans [OF k2(2) k3] keeps_trans [OF keeps_trans [OF k2(2) k3] k4] d4 by auto
    qed
    then show "?K w w'" "r = 0 \<Longrightarrow> holds (\<lambda>bs. SHA E bs = target_sha1) (now w' ?T)" by blast+
  qed
qed

text \<open>A value found for a loaded file.\<close>

lemma matching_ok:
  assumes "matching_value f shas values = Some (Some v)"
  shows "\<exists>x. f = Some x \<and> Some v \<in> set values \<and>
    (\<forall>bs. fc_sha1 x = SHA E bs \<longrightarrow> patchable E shas values bs)"
proof -
  obtain x where x: "f = Some x" "FindMatchingPatch (fc_sha1 x) shas \<ge> 0"
    "rd values (nat (FindMatchingPatch (fc_sha1 x) shas)) = Some (Some v)"
    using assms by (auto simp: matching_value_def Let_def split: option.splits if_splits)
  let ?k = "nat (FindMatchingPatch (fc_sha1 x) shas)"
  have k: "?k < length values" "values ! ?k = Some v" using x(3) by (simp_all add: rd_Some_iff)
  then have "Some v \<in> set values" using nth_mem by fastforce
  moreover have "patchable E shas values bs" if "fc_sha1 x = SHA E bs" for bs
    unfolding patchable_def using x(2) k that by (intro exI [of _ ?k] exI [of _ v]) simp
  ultimately show ?thesis using x(1) by blast
qed

lemma patch_from_safe:
  assumes "names_ok source target" "\<forall>v. Some v \<in> set values \<longrightarrow> exact_output E (bytes_of (vdata v))"
    and "\<And>f. t = Some f \<Longrightarrow> \<exists>i. now w target = Some i \<and> fc_data f = i_data i \<and> fc_sha1 f = SHA E (i_data i)"
    and "patch_from E source target target_sha1 tsize shas values t w = Some (r, w')"
  shows "keeps (recoverable E source target target_sha1 shas values) w w' \<and>
    (r = 0 \<longrightarrow> holds (\<lambda>bs. SHA E bs = target_sha1) (now w' target))"
proof -
  obtain s w1 where s: "load_source E source target t w = Some (s, w1)"
    using assms(4) by (auto simp: patch_from_def bind_eq_Some_conv)
  have np: "\<not> is_partition source" "\<not> is_partition CACHE_TEMP_SOURCE"
    using assms(1) by (simp_all add: names_ok_def is_partition_def CACHE_TEMP_SOURCE_def)
  have w1: "same w w1" and sd: "\<exists>i. now w1 source = Some i \<and> fc_data f = i_data i \<and> fc_sha1 f = SHA E (i_data i)"
    if "s = Some f" for f
    using s that LoadFile_file [OF _ np(1), of E w s w1] assms(3)
    by (auto simp: load_source_def same_def split: if_splits)
  have w1: "same w w1" using s LoadFile_file(1) [OF _ np(1), of E w s w1] by (auto simp: load_source_def split: if_splits)
  obtain sv where sv: "matching_value s shas values = Some sv"
    using assms(4) s by (auto simp: patch_from_def bind_eq_Some_conv)
  let ?load = "if sv \<noteq> None then Some (None, None, True, w1)
      else do { (c, w2) \<leftarrow> LoadFileContents E CACHE_TEMP_SOURCE w1; cv \<leftarrow> matching_value c shas values; Some (c, cv, cv \<noteq> None, w2) }"
  obtain c cv ok w2 where l: "?load = Some (c, cv, ok, w2)"
    using assms(4) s sv unfolding patch_from_def by (auto simp: bind_eq_Some_conv)
  have w2: "same w w2"
    using l w1 LoadFile_same [of E CACHE_TEMP_SOURCE w1] same_trans [OF w1]
    by (auto simp: bind_eq_Some_conv split: if_splits)
  let ?J = "\<lparr>source_filename = source, target_filename = target, target_size = tsize,
      source_file = (if sv = None then None else s), copy_file = c, source_patch_value = sv, copy_patch_value = cv\<rparr>"
  have rest: "(if \<not> ok then Some (1, w2)
       else do {
         tfs \<leftarrow> target_fs target;
         (r, w3) \<leftarrow> patch_loop E ?J tfs 1 False w2;
         case r of
           Inl n \<Rightarrow> Some (n, w3)
         | Inr (made_copy, out, ctx) \<Rightarrow> finish_patch E ?J target_sha1 made_copy out ctx w3 }) = Some (r, w')"
    using assms(4) unfolding patch_from_def s sv l bind.bind_lunit prod.case Let_def .
  show ?thesis
  proof (cases ok)
    case False
    then show ?thesis using rest w2 by (auto intro: keeps_same simp: same_def)
  next
    case True
    have svp: "\<exists>f. s = Some f \<and> patchable E shas values (fc_data f) \<and> Some v \<in> set values" if "sv = Some v" for v
      using matching_ok [of s shas "values" v E] sv that sd by fastforce
    have cvp: "\<exists>i. now w2 CACHE_TEMP_SOURCE = Some i \<and> patchable E shas values (i_data i)" "cv = Some v \<Longrightarrow> Some v \<in> set values"
      if "sv = None" for v
    proof -
      have lc: "LoadFileContents E CACHE_TEMP_SOURCE w1 = Some (c, w2)" "matching_value c shas values = Some cv" "cv \<noteq> None"
        using l that True by (auto simp: bind_eq_Some_conv)
      then obtain u where u: "cv = Some u" by blast
      show "\<exists>i. now w2 CACHE_TEMP_SOURCE = Some i \<and> patchable E shas values (i_data i)"
        using matching_ok [of c shas "values" u E] lc(2) u LoadFile_file [OF lc(1) np(2)] by (fastforce simp: same_def)
      show "cv = Some v \<Longrightarrow> Some v \<in> set values" using matching_ok [of c shas "values" v E] lc(2) by fastforce
    qed
    have cvn: "cv = None" if "sv \<noteq> None" using l that by auto
    have J: "job_ok E ?J shas values"
      using assms(1,2) svp cvp(2) cvn by (auto simp: job_ok_def)
    have h: "holds (patchable E shas values) (now w2 (anchor ?J False))"
    proof (cases sv)
      case None
      then show ?thesis using cvp(1) by (auto simp: anchor_def holds_def)
    next
      case (Some v)
      then show ?thesis using svp sd w1 w2 by (fastforce simp: anchor_def holds_def same_def)
    qed
    obtain tfs q w3 where q: "target_fs target = Some tfs" "patch_loop E ?J tfs 1 False w2 = Some (q, w3)"
      using rest True by (auto simp: bind_eq_Some_conv)
    note ls = loop_safe [OF J h q(2), of target_sha1]
    have k3: "keeps (recoverable E source target target_sha1 shas values) w w3"
      using keeps_trans [OF keeps_same, of w2 w] ls w2 by (auto simp: same_def)
    show ?thesis
    proof (cases q)
      case (Inl n)
      then show ?thesis using rest True q k3 ls by simp
    next
      case (Inr p)
      then obtain m out ctx where p: "q = Inr (m, out, ctx)" by (cases p) auto
      have f: "finish_patch E ?J target_sha1 m out ctx w3 = Some (r, w')" using rest True q p by simp
      note fs = finish_safe [OF J _ f]
      show ?thesis using fs ls p keeps_trans [OF k3] by simp
    qed
  qed
qed

lemma applypatch_safe:
  assumes "names_ok source target" "target \<noteq> ''-''" "ParseSha1 sha = Some target_sha1"
    and "\<forall>v. Some v \<in> set values \<longrightarrow> exact_output E (bytes_of (vdata v))"
    and "applypatch E source target sha tsize shas values w = Some (r, w')"
  shows "keeps (recoverable E source target target_sha1 shas values) w w' \<and>
    (r = 0 \<longrightarrow> holds (\<lambda>bs. SHA E bs = target_sha1) (now w' target))"
proof -
  obtain t w1 where t: "LoadFileContents E target w = Some (t, w1)"
    using assms(2,3,5) by (auto simp: applypatch_def bind_eq_Some_conv)
  have np: "\<not> is_partition target" using assms(1) by (simp add: names_ok_def)
  note lt = LoadFile_file [OF t np]
  show ?thesis
  proof (cases "t \<noteq> None \<and> fc_sha1 (the t) = target_sha1")
    case True
    then have "r = 0 \<and> w' = w1" using assms(2,3,5) t by (simp add: applypatch_def)
    then show ?thesis using True lt by (auto simp: same_def holds_def intro: keeps_same)
  next
    case False
    then have "patch_from E source target target_sha1 tsize shas values t w1 = Some (r, w')"
      using assms(2,3,5) t by (auto simp: applypatch_def)
    moreover have "\<exists>i. now w1 target = Some i \<and> fc_data f = i_data i \<and> fc_sha1 f = SHA E (i_data i)" if "t = Some f" for f
      using lt(1) lt(2) [OF that] by (simp add: same_def)
    ultimately have "keeps (recoverable E source target target_sha1 shas values) w1 w' \<and>
        (r = 0 \<longrightarrow> holds (\<lambda>bs. SHA E bs = target_sha1) (now w' target))"
      using patch_from_safe [OF assms(1,4)] by blast
    moreover have "keeps P w w1" for P using lt(1) by (auto simp: same_def intro: keeps_same)
    ultimately show ?thesis using keeps_trans by blast
  qed
qed

end
