(* ===== verification/LoadPart.thy ===== *)
theory LoadPart
  imports ApplySafe
begin

text \<open>
  What \<open>LoadPartitionContents\<close> gives: the shortest announced prefix of a partition with the announced sum; and
  an environment to run the patching code in.
\<close>

subsection \<open>The loop over the announced sizes\<close>


definition qsort_law :: "('s, 'z, 'd, 'c, 'w) ap_env \<Rightarrow> bool" where
  "qsort_law E \<longleftrightarrow> (\<forall>ps. set (ap_qsort E ps) = set ps \<and> sorted (map fst (ap_qsort E ps)))"

text \<open>What has been read: \<open>n\<close> bytes at the start of the buffer, hashed; a device has the rest.\<close>

definition read_so_far :: "('s, 'z, 'd, 'c, 'w) ap_env \<Rightarrow> bytes \<Rightarrow> part_src \<Rightarrow> bytes \<Rightarrow> nat \<Rightarrow> 'c \<Rightarrow> bool" where
  "read_so_far E whole src buf n ctx \<longleftrightarrow>
     n \<le> length buf \<and> ctx = sha_update (ap_sha E) (sha_init (ap_sha E)) (take n buf) \<and>
     (\<forall>left. src = Src_dev left \<longrightarrow> whole = take n buf @ left)"

lemma next_size: "n \<le> sz \<Longrightarrow> sz < 2 ^ 64 \<Longrightarrow> unat (word_of_nat sz - word_of_nat n :: u64) = sz - n"
proof -
  assume a: "n \<le> sz" "sz < 2 ^ 64"
  have "(word_of_nat sz - word_of_nat n :: u64) = word_of_nat (sz - n)" using a(1) by (rule of_nat_diff [symmetric])
  moreover have "sz - n < 2 ^ 64" using a by simp
  ultimately show ?thesis by (simp add: unsigned_of_nat take_bit_nat_eq_self)
qed

lemma read_part_ok:
  assumes "read_part E src buf n k w = Some (r, buf1, src1, w1)" "n \<le> length buf"
  shows "take n buf1 = take n buf"
    "\<forall>left. src1 = Src_dev left \<longrightarrow> (\<exists>l0. src = Src_dev l0 \<and> (n + r \<le> length buf1 \<longrightarrow> l0 = take r (drop n buf1) @ left))"
proof -
  have "take n buf1 = take n buf \<and>
    (\<forall>left. src1 = Src_dev left \<longrightarrow> (\<exists>l0. src = Src_dev l0 \<and> (n + r \<le> length buf1 \<longrightarrow> l0 = take r (drop n buf1) @ left)))"
  proof (cases src)
    case (Src_mtd ctx)
    then show ?thesis using assms by (auto simp: read_part_def bind_eq_Some_conv)
  next
    case (Src_dev l0)
    obtain bs w2 where f: "fs_fread (ap_sys E) l0 k w = (bs, w2)" by (cases "fs_fread (ap_sys E) l0 k w")
    have "bs = take (length bs) l0" using f by (auto simp: fs_fread_def min_def)
    then have l0: "l0 = bs @ drop (length bs) l0" by (metis append_take_drop_id)
    have "n + length bs \<le> length buf" "buf1 = take n buf @ bs @ drop (n + length bs) buf" "r = length bs"
      "src1 = Src_dev (drop (length bs) l0)"
      using assms(1) by (auto simp: read_part_def Src_dev f Let_def bind_eq_Some_conv wr_slice_Some_iff)
    then show ?thesis using Src_dev l0 assms(2) by simp
  qed
  then show "take n buf1 = take n buf"
    "\<forall>left. src1 = Src_dev left \<longrightarrow> (\<exists>l0. src = Src_dev l0 \<and> (n + r \<le> length buf1 \<longrightarrow> l0 = take r (drop n buf1) @ left))"
    by blast+
qed

lemma read_next_ok:
  assumes "sha_law (ap_sha E)" "read_so_far E whole src buf n ctx" "n \<le> sz" "sz < 2 ^ 64"
    and "read_next E sz src buf n ctx w = Some (True, src1, buf1, n1, ctx1, w1)"
  shows "n1 = sz" "read_so_far E whole src1 buf1 n1 ctx1" "\<forall>left. src1 = Src_dev left \<longrightarrow> (\<exists>l0. src = Src_dev l0)"
proof -
  note nx = next_size [OF assms(3,4)]
  have "n1 = sz \<and> read_so_far E whole src1 buf1 n1 ctx1 \<and> (\<forall>left. src1 = Src_dev left \<longrightarrow> (\<exists>l0. src = Src_dev l0))"
  proof (cases "sz - n > 0")
    case False
    then show ?thesis using assms by (auto simp: read_next_def nx)
  next
    case True
    obtain r where r: "read_part E src buf n (sz - n) w = Some (r, buf1, src1, w1)" "r = sz - n"
      "rd_slice buf1 n r = Some (take r (drop n buf1))" "n1 = n + r"
      "ctx1 = sha_update (ap_sha E) ctx (take r (drop n buf1))" "n + r \<le> length buf1"
      using assms(5) True by (auto simp: read_next_def nx Let_def bind_eq_Some_conv rd_slice_Some_iff split: if_splits)
    note p = read_part_ok [OF r(1)]
    have le: "n \<le> length buf" using assms(2) by (simp add: read_so_far_def)
    have "take (n + r) buf1 = take n buf @ take r (drop n buf1)" using p(1) [OF le] by (simp add: take_add)
    then show ?thesis using assms(1,2,3) r(2,4-6) p(2) [OF le]
      by (fastforce simp: read_so_far_def sha_law_def)
  qed
  then show "n1 = sz" "read_so_far E whole src1 buf1 n1 ctx1" "\<forall>left. src1 = Src_dev left \<longrightarrow> (\<exists>l0. src = Src_dev l0)"
    by blast+
qed

lemma match_loop_ok:
  assumes "sha_law (ap_sha E)"
  shows "read_so_far E whole src buf n ctx \<Longrightarrow> sorted (map fst ps) \<Longrightarrow> \<forall>p\<in>set ps. n \<le> fst p \<and> fst p < 2 ^ 64 \<Longrightarrow>
    match_loop E ps src buf n ctx w = Some (Some (d, c), w') \<Longrightarrow>
    c = sha_update (ap_sha E) (sha_init (ap_sha E)) d \<and>
    (\<exists>str. (length d, Some str) \<in> set ps \<and> ParseSha1 str = Some (sha_final (ap_sha E) c)) \<and>
    ((\<exists>l. src = Src_dev l) \<longrightarrow> d = take (length d) whole)"
proof (induction ps arbitrary: src buf n ctx w)
  case Nil
  then show ?case by simp
next
  case (Cons p ps)
  obtain sz sha1sum where p: "p = (sz, sha1sum)" by (cases p)
  obtain ok src1 buf1 n1 ctx1 w1 where nx: "read_next E sz src buf n ctx w = Some (ok, src1, buf1, n1, ctx1, w1)"
    using Cons.prems(4) by (auto simp: p bind_eq_Some_conv)
  have ok: "ok" using Cons.prems(4) nx by (cases ok) (auto simp: p)
  obtain str parsed where str: "sha1sum = Some str" "ParseSha1 str = Some parsed"
    using Cons.prems(4) nx ok by (auto simp: p bind_eq_Some_conv split: option.splits)
  have sz: "n \<le> sz" "sz < 2 ^ 64" using Cons.prems(3) by (simp_all add: p)
  note r = read_next_ok [OF assms Cons.prems(1) sz nx [unfolded eqTrueI [OF ok]]]
  have dev: "\<exists>l. src1 = Src_dev l" if sd: "\<exists>l. src = Src_dev l"
  proof -
    obtain l where l: "src = Src_dev l" using sd by blast
    show ?thesis using nx by (auto simp: read_next_def read_part_def l Let_def bind_eq_Some_conv case_prod_beta split: if_splits)
  qed
  show ?case
  proof (cases "sha_final (ap_sha E) ctx1 = parsed")
    case True
    then have "d = take n1 buf1" "c = ctx1" using Cons.prems(4) nx ok str by (auto simp: p)
    then show ?thesis using r(1,2) True str dev by (auto simp: read_so_far_def p)
  next
    case False
    have "match_loop E ps src1 buf1 n1 ctx1 w1 = Some (Some (d, c), w')"
      using Cons.prems(4) nx ok str False by (simp add: p)
    moreover have "\<forall>q\<in>set ps. n1 \<le> fst q \<and> fst q < 2 ^ 64" using Cons.prems(2,3) r(1) by (auto simp: p)
    moreover have "sorted (map fst ps)" using Cons.prems(2) by simp
    ultimately have "c = sha_update (ap_sha E) (sha_init (ap_sha E)) d"
      "\<exists>str. (length d, Some str) \<in> set ps \<and> ParseSha1 str = Some (sha_final (ap_sha E) c)"
      "(\<exists>l. src1 = Src_dev l) \<longrightarrow> d = take (length d) whole"
      using Cons.IH [OF r(2)] by blast+
    then show ?thesis using dev by auto
  qed
qed

lemma part_pairs_bound: "part_pairs n s = Some (Some ps) \<Longrightarrow> \<forall>p\<in>set ps. fst p < 2 ^ 64"
proof (induction n arbitrary: s ps)
  case 0
  then show ?case by simp
next
  case (Suc n)
  have b: "size_of_long i < 2 ^ 64" for i using unsigned_less [of "word_of_int i :: u64"] by (simp add: size_of_long_def)
  show ?case using Suc b by (fastforce simp: Let_def bind_eq_Some_conv split: if_splits prod.splits)
qed

lemma load_sorted_ok:
  assumes "load_sorted E m part' ps w = Some (Some f, w')" "sha_law (ap_sha E)"
    and "sorted (map fst ps)" "\<forall>p\<in>set ps. fst p < 2 ^ 64"
  shows "fc_sha1 f = SHA E (fc_data f)"
    "\<exists>str. (length (fc_data f), Some str) \<in> set ps \<and> ParseSha1 str = Some (fc_sha1 f)"
    "\<not> m \<Longrightarrow> \<exists>name i. part' = Some name \<and> now w name = Some i \<and> fc_data f = take (length (fc_data f)) (i_data i)"
proof -
  obtain s w1 where o: "open_part E m part' w = Some (Some s, w1)"
    using assms(1) by (auto simp: load_sorted_def bind_eq_Some_conv split: option.splits)
  define buf where "buf = (if ap_alloc E (fst (last ps)) then replicate (fst (last ps)) (0 :: byte) else [])"
  obtain d c where d: "match_loop E ps s buf 0 (sha_init (ap_sha E)) w1 = Some (Some (d, c), w')"
    "f = \<lparr>fc_sha1 = sha_final (ap_sha E) c, fc_data = d, fc_mode = 420, fc_uid = 0, fc_gid = 0\<rparr>"
    using assms(1) o by (auto simp: load_sorted_def buf_def Let_def bind_eq_Some_conv split: if_splits)
  define whole where "whole = (case s of Src_dev l \<Rightarrow> l | Src_mtd ctx \<Rightarrow> [])"
  have "read_so_far E whole s buf 0 (sha_init (ap_sha E))"
    using assms(2) by (auto simp: read_so_far_def whole_def sha_law_def)
  note r = match_loop_ok [OF assms(2) this assms(3) _ d(1)]
  show "fc_sha1 f = SHA E (fc_data f)"
    "\<exists>str. (length (fc_data f), Some str) \<in> set ps \<and> ParseSha1 str = Some (fc_sha1 f)"
    using r assms(4) d(2) by (auto simp: SHA_def)
  assume "\<not> m"
  then obtain name i where "part' = Some name" "now w name = Some i" "s = Src_dev (i_data i)"
    using o by (auto simp: open_part_def fs_open_read_def bind_eq_Some_conv Let_def split: if_splits)
  then show "\<exists>name i. part' = Some name \<and> now w name = Some i \<and> fc_data f = take (length (fc_data f)) (i_data i)"
    using r assms(4) d(2) by (auto simp: whole_def)
qed

subsection \<open>An environment to run in\<close>

text \<open>The sum of the data is its length in the last byte; compression is none; no call fails.\<close>

definition toy_sha :: "bytes sha_ops" where
  "toy_sha = \<lparr>sha_init = [], sha_update = (@), sha_final = (\<lambda>bs. replicate 19 0 @ [word_of_nat (length bs)])\<rparr>"

definition toy_flash :: "unit mtd_dev" where
  "toy_flash = \<lparr>dev_open = (\<lambda>n m w. (- 1, w)), dev_close = (\<lambda>fd w. (0, w)), seek_cur = (\<lambda>fd w. (- 1, w)),
     seek_set = (\<lambda>fd p w. (- 1, w)), dev_read = (\<lambda>fd n w. ((- 1, []), w)), dev_write = (\<lambda>fd b w. (- 1, w)),
     eccgetstats = (\<lambda>fd w. ((- 1, 0), w)), memgetbadblock = (\<lambda>fd p w. ((0, 0), w)), memerase = (\<lambda>fd p n w. (- 1, w)),
     memgetinfo = (\<lambda>fd w. ((- 1, 0, 0, 0), w)), sys_mount = (\<lambda>a b c d w. (- 1, w)), stat_mode = (\<lambda>p w. ((- 1, 0), w)),
     sys_chmod = (\<lambda>p m w. (- 1, w))\<rparr>"

definition toy_env :: "(bytes, unit, unit, bytes, unit) ap_env" where
  "toy_env =
     \<lparr>ap_sys = \<lparr>answer = (\<lambda>n. 1048576), dir_names = (\<lambda>n d. None), proc_links = (\<lambda>n. None)\<rparr>,
      ap_alloc = (\<lambda>n. True), ap_sha = toy_sha, ap_bz = plain_bz, ap_inflate = one_shot,
      ap_deflate = \<lparr>deflateInit2 = (\<lambda>a b c d e inp. ()), deflate = (\<lambda>d n. (1, [], ()))\<rparr>,
      ap_qsort = sort_key fst, ap_mtd = toy_flash, ap_proc_mtd = None\<rparr>"

definition toy_world :: "disk \<Rightarrow> unit ap_world" where
  "toy_world d = \<lparr>now = d, past = [], calls = 0,
     ext = \<lparr>tab = \<lparr>partitions = None, partition_count = 0\<rparr>, scanned = True, flash = ()\<rparr>\<rparr>"

definition toy_file :: "bytes \<Rightarrow> inode" where
  "toy_file bs = \<lparr>i_data = bs, i_mode = 420, i_uid = 0, i_gid = 0, i_reg = True\<rparr>"

definition toy_sum :: "char \<Rightarrow> string" where
  "toy_sum c = replicate 39 (CHR ''0'') @ [c]"

lemma toy_laws: "sha_law (ap_sha toy_env)" "qsort_law toy_env" "never_short toy_env"
  by (simp_all add: toy_env_def toy_sha_def sha_law_def qsort_law_def never_short_def)

lemma toy_env_simps [simp]:
  "answer (ap_sys toy_env) n = 1048576" "dir_names (ap_sys toy_env) n d = None" "proc_links (ap_sys toy_env) n = None"
  "ap_alloc toy_env k = True" "ap_sha toy_env = toy_sha" "ap_bz toy_env = plain_bz" "ap_qsort toy_env = sort_key fst"
  "ask (ap_sys toy_env) w = 1048576"
  by (simp_all add: toy_env_def ask_def)

lemma toy_sum_parse:
  "ParseSha1 (toy_sum (CHR ''1'')) = Some (replicate 19 0 @ [1])"
  "ParseSha1 (toy_sum (CHR ''2'')) = Some (replicate 19 0 @ [2])"
  by (simp_all add: ParseSha1_def toy_sum_def SHA_DIGEST_SIZE_def numeral_eq_Suc hex_digit_def)

text \<open>Tokens of a name.\<close>

lemma token_colon: "a \<noteq> [] \<Longrightarrow> CHR '':'' \<notin> set a \<Longrightarrow> token (a @ CHR '':'' # r) = (Some a, r)"
proof -
  assume a: "a \<noteq> []" "CHR '':'' \<notin> set a"
  then have "dropWhile (\<lambda>x. x = CHR '':'') (a @ CHR '':'' # r) = a @ CHR '':'' # r" by (cases a) auto
  moreover have "takeWhile (\<lambda>x. x \<noteq> CHR '':'') (a @ CHR '':'' # r) = a" using a(2) by (simp add: takeWhile_tail takeWhile_append)
  moreover have "dropWhile (\<lambda>x. x \<noteq> CHR '':'') (a @ CHR '':'' # r) = CHR '':'' # r" using a(2) by (simp add: dropWhile_append)
  ultimately show ?thesis using a by (simp add: token_def strtok_def)
qed

lemma token_last: "a \<noteq> [] \<Longrightarrow> CHR '':'' \<notin> set a \<Longrightarrow> token a = (Some a, [])"
proof -
  assume a: "a \<noteq> []" "CHR '':'' \<notin> set a"
  have d: "dropWhile (\<lambda>x. x = CHR '':'') a = a" using a by (cases a) auto
  have t: "takeWhile (\<lambda>x. x \<noteq> CHR '':'') a = a" "dropWhile (\<lambda>x. x \<noteq> CHR '':'') a = []" using a(2) by auto
  show ?thesis unfolding token_def strtok_def Let_def d t using a(1) by simp
qed

end
