(* ===== verification/ApplyProps.thy ===== *)
theory ApplyProps
  imports LoadPart
begin

text \<open>
  The properties of loading a partition and of \<open>applypatch\<close>, with runs of the model that show them: a partition of three
  bytes, a file of one byte that is patched to two.
\<close>

subsection \<open>Loading an example partition\<close>

definition part_name :: string where
  "part_name = ''EMMC:d:2:'' @ toy_sum (CHR ''2'')"

definition part_disk :: disk where
  "part_disk = [''d'' \<mapsto> toy_file [7, 8, 9]]"

lemma toy_sum_chars: "CHR '':'' \<notin> set (toy_sum (CHR ''2''))" "toy_sum (CHR ''2'') \<noteq> []"
  by (simp_all add: toy_sum_def)

lemma part_tokens:
  "token part_name = (Some ''EMMC'', ''d:2:'' @ toy_sum (CHR ''2''))"
  "token (''d:2:'' @ toy_sum (CHR ''2'')) = (Some ''d'', ''2:'' @ toy_sum (CHR ''2''))"
  "token (''2:'' @ toy_sum (CHR ''2'')) = (Some ''2'', toy_sum (CHR ''2''))"
  "token (toy_sum (CHR ''2'')) = (Some (toy_sum (CHR ''2'')), [])"
  "count_colons part_name = 3"
  using token_colon [of "''EMMC''" "''d:2:'' @ toy_sum (CHR ''2'')"] token_colon [of "''d''" "''2:'' @ toy_sum (CHR ''2'')"]
    token_colon [of "''2''" "toy_sum (CHR ''2'')"] token_last [OF toy_sum_chars(2,1)]
  by (simp_all add: part_name_def count_colons_def toy_sum_def)

lemma part_name_pairs: "part_pairs 1 (''2:'' @ toy_sum (CHR ''2'')) = Some (Some [(2, Some (toy_sum (CHR ''2'')))])"
proof -
  have "fst (strtol10 ''2'') = 2"
    by (simp add: strtol10_def strtol_digits_def is_space_def digit_val_def LONG_MAX_def LONG_MIN_def)
  then have "size_of_long (fst (strtol10 ''2'')) = 2" by (simp add: size_of_long_def)
  then show ?thesis
    unfolding One_nat_def part_pairs.simps part_tokens(3) Let_def prod.case bind.bind_lunit part_tokens(4)
    by simp
qed

lemma part_load:
  "\<exists>f w'. LoadPartitionContents toy_env part_name (toy_world part_disk) = Some (Some f, w') \<and> fc_data f = [7, 8]"
proof -
  have o: "open_part toy_env False (Some ''d'') (toy_world part_disk) =
      Some (Some (Src_dev [7, 8, 9]), tick (toy_world part_disk))"
    by (simp add: open_part_def fs_open_read_def toy_world_def part_disk_def toy_file_def)
  have "read_next toy_env 2 (Src_dev [7, 8, 9]) [0, 0] 0 [] (tick (toy_world part_disk))
      = Some (True, Src_dev [9], [7, 8], 2, [7, 8], tick (tick (toy_world part_disk)))"
    by (simp add: read_next_def read_part_def fs_fread_def wr_slice_def rd_slice_def toy_sha_def)
  then obtain w' c where m: "match_loop toy_env [(2, Some (toy_sum (CHR ''2'')))] (Src_dev [7, 8, 9]) [0, 0] 0 [] (tick (toy_world part_disk))
      = Some (Some ([7, 8], c), w')"
    by (simp add: toy_sum_parse) (simp add: toy_sha_def)
  have "load_sorted toy_env False (Some ''d'') [(2, Some (toy_sum (CHR ''2'')))] (toy_world part_disk) =
      Some (Some \<lparr>fc_sha1 = sha_final toy_sha c, fc_data = [7, 8], fc_mode = 420, fc_uid = 0, fc_gid = 0\<rparr>, w')"
  proof -
    have "replicate 2 (0 :: byte) = [0, 0]" by (simp add: numeral_2_eq_2)
    then show ?thesis using m by (simp add: load_sorted_def o Let_def toy_sha_def del: match_loop.simps)
  qed
  moreover have n: "(count_colons part_name - 1) div 2 = 1" by (simp add: part_tokens(5))
  moreover have "ap_qsort toy_env [(2, x)] = [(2, x)]" for x by (simp_all add: sort_key_def)
  ultimately have "LoadPartitionContents toy_env part_name (toy_world part_disk) =
      Some (Some \<lparr>fc_sha1 = sha_final toy_sha c, fc_data = [7, 8], fc_mode = 420, fc_uid = 0, fc_gid = 0\<rparr>, w')"
    unfolding LoadPartitionContents_def part_tokens(1) Let_def prod.case bind.bind_lunit part_tokens(2) n
      part_name_pairs option.case by simp
  then show ?thesis by simp
qed

text \<open>
  C18: a partition is loaded only up to a size that its name announces, with the sum announced for that size:
  whatever the flash driver or the kernel answer, the data that is returned has the length of one of the
  size and sum pairs, its SHA-1 is the one of that pair, and for a block device it is the start of the device.
\<close>

theorem load_partition_matches:
  assumes "LoadPartitionContents E name w = Some (Some f, w')" "sha_law (ap_sha E)" "qsort_law E"
    and "token name = (Some magic, s1)" "token s1 = (dev, s2)"
    and "part_pairs ((count_colons name - 1) div 2) s2 = Some (Some pairs)"
  shows "fc_sha1 f = SHA E (fc_data f)
    \<and> (\<exists>str. (length (fc_data f), Some str) \<in> set pairs \<and> ParseSha1 str = Some (fc_sha1 f))
    \<and> (magic = ''MTD'' \<or> (\<exists>d i. dev = Some d \<and> now w d = Some i \<and> fc_data f = take (length (fc_data f)) (i_data i)))"
proof -
  have l: "load_sorted E (magic = ''MTD'') dev (ap_qsort E pairs) w = Some (Some f, w')"
    using assms(1) by (auto simp: LoadPartitionContents_def assms(4,5) assms(6) [simplified] split: if_splits)
  have q: "set (ap_qsort E pairs) = set pairs" "sorted (map fst (ap_qsort E pairs))"
    using assms(3) by (auto simp: qsort_law_def)
  show ?thesis
    using load_sorted_ok [OF l assms(2) q(2)] part_pairs_bound [OF assms(6)] unfolding q(1) by blast
qed

theorem load_partition_matches_witness:
  "\<exists>f w'. LoadPartitionContents toy_env part_name (toy_world part_disk) = Some (Some f, w') \<and>
     fc_data f = [7, 8] \<and> fc_sha1 f = SHA toy_env [7, 8]"
proof -
  obtain f w' where f: "LoadPartitionContents toy_env part_name (toy_world part_disk) = Some (Some f, w')" "fc_data f = [7, 8]"
    using part_load by blast
  have "part_pairs ((count_colons part_name - 1) div 2) (''2:'' @ toy_sum (CHR ''2'')) = Some (Some [(2, Some (toy_sum (CHR ''2'')))])"
    using part_name_pairs by (simp add: part_tokens(5))
  then show ?thesis
    using load_partition_matches [OF f(1) toy_laws(1,2) part_tokens(1,2)] f by fastforce
qed

subsection \<open>A run in which nothing fails\<close>

lemma fine_calls:
  assumes "never_short E"
  shows "0 < ask (ap_sys E) w" "fs_stat (ap_sys E) n w = (now w n, tick w)"
    "fs_open_read (ap_sys E) n w = (map_option i_data (now w n), tick w)"
    "fs_fread (ap_sys E) left k w = (take k left, tick w)"
    "fst (fs_open_trunc (ap_sys E) n w)"
    "\<exists>i. now (snd (fs_open_trunc (ap_sys E) n w)) = (now w)(n \<mapsto> i) \<and> i_data i = []"
proof -
  show a: "0 < ask (ap_sys E) w" using assms by (simp add: never_short_def ask_def)
  then show "fs_stat (ap_sys E) n w = (now w n, tick w)"
    "fs_open_read (ap_sys E) n w = (map_option i_data (now w n), tick w)"
    "fs_fread (ap_sys E) left k w = (take k left, tick w)" "fst (fs_open_trunc (ap_sys E) n w)"
    by (auto simp: fs_stat_def fs_open_read_def fs_fread_def fs_open_trunc_def)
  let ?i = "case now w n of Some i \<Rightarrow> i\<lparr>i_data := []\<rparr>
    | None \<Rightarrow> \<lparr>i_data = [], i_mode = nat (ask (ap_sys E) w), i_uid = 0, i_gid = 0, i_reg = True\<rparr>"
  have "now (snd (fs_open_trunc (ap_sys E) n w)) = (now w)(n \<mapsto> ?i)" using a by (simp add: fs_open_trunc_def fun_eq_iff)
  moreover have "i_data ?i = []" by (cases "now w n") simp_all
  ultimately show "\<exists>i. now (snd (fs_open_trunc (ap_sys E) n w)) = (now w)(n \<mapsto> i) \<and> i_data i = []" by blast
qed

lemma load_fine:
  assumes "never_short E" "\<And>k. ap_alloc E k" "now w n = Some i" "\<not> is_partition n"
  shows "\<exists>w'. LoadFileContents E n w = Some (Some \<lparr>fc_sha1 = SHA E (i_data i), fc_data = i_data i, fc_mode = i_mode i,
     fc_uid = i_uid i, fc_gid = i_gid i\<rparr>, w') \<and> now w' = now w"
  using assms by (simp add: LoadFileContents_def fine_calls)

lemma apply_fine:
  assumes "never_short E" "take 8 patch = BSDIFF_MAGIC" "8 \<le> length patch"
    and "ApplyBSDiffPatchMem (ap_bz E) (ap_alloc E) old patch 0 = Some (0, new)"
  shows "\<exists>w'. apply_to E old patch (Out_file n) w =
      Some (Some (0, Out_file n, Some (sha_update (ap_sha E) (sha_init (ap_sha E)) new)), w') \<and> now w' = append n new (now w)"
proof -
  obtain k where k: "fst (FileSink (ap_sys E) n new w) = int k" "k = length new"
    "now (snd (FileSink (ap_sys E) n new w)) = append n (take k new) (now w)"
    using FileSink_ok(1) [of new "ap_sys E" n w] assms(1) by (auto simp: never_short_def)
  obtain w' where w': "FileSink (ap_sys E) n new w = (int (length new), w')" "now w' = append n new (now w)"
    using k by (cases "FileSink (ap_sys E) n new w") auto
  then show ?thesis using assms(2-4) by (simp add: apply_to_def run_patch_def sink_env_def ApplyBSDiffPatch_def)
qed

lemma finish_fine:
  assumes "never_short E" "now w (target_filename J @ ''.patch'') = Some j"
    and "source_patch_value J \<noteq> None" "source_file J = Some f"
  shows "\<exists>w'. finish_patch E J (sha_final (ap_sha E) c) False (Out_file (target_filename J @ ''.patch'')) (Some c) w = Some (0, w') \<and>
    now w' (target_filename J) = Some (j\<lparr>i_mode := fc_mode f, i_uid := fc_uid f, i_gid := fc_gid f\<rparr>)"
proof -
  let ?O = "target_filename J @ ''.patch''"
  have a: "\<not> ask (ap_sys E) w < 0" for w using fine_calls(1) [OF assms(1), of w] by simp
  obtain w1 where c1: "fs_chmod (ap_sys E) ?O (fc_mode f) w = (0, w1)" "now w1 ?O = Some (j\<lparr>i_mode := fc_mode f\<rparr>)"
    using assms(2) a [of w] by (auto simp: fs_chmod_def)
  obtain w2 where c2: "fs_chown (ap_sys E) ?O (fc_uid f) (fc_gid f) w1 = (0, w2)"
    "now w2 ?O = Some (j\<lparr>i_mode := fc_mode f, i_uid := fc_uid f, i_gid := fc_gid f\<rparr>)"
    using c1(2) a [of w1] by (auto simp: fs_chown_def)
  obtain w3 where c3: "fs_rename (ap_sys E) ?O (target_filename J) w2 = (0, w3)"
    "now w3 (target_filename J) = Some (j\<lparr>i_mode := fc_mode f, i_uid := fc_uid f, i_gid := fc_gid f\<rparr>)"
    using c2(2) a [of w2] by (auto simp: fs_rename_def)
  show ?thesis using assms(3,4) c1(1) c2(1) c3 by (auto simp: finish_patch_def)
qed

lemma applypatch_fine:
  assumes "never_short E" "\<And>k. ap_alloc E k" "\<And>t. enough_space (word_of_int (answer (ap_sys E) t)) tsize"
    and "name \<noteq> []" "name \<noteq> ''-''" "\<not> is_partition name" "now w name = Some i"
    and "FindMatchingPatch (SHA E (i_data i)) shas = int k" "k < length patches" "patches ! k = Some v" "vtype v = VAL_BLOB"
    and "take 8 (bytes_of (vdata v)) = BSDIFF_MAGIC"
    and "ApplyBSDiffPatchMem (ap_bz E) (ap_alloc E) (i_data i) (bytes_of (vdata v)) 0 = Some (0, new)"
    and "ParseSha1 sha = Some (SHA E new)" "SHA E (i_data i) \<noteq> SHA E new"
  shows "\<exists>w' j. applypatch E name name sha tsize shas patches w = Some (0, w') \<and>
     now w' name = Some j \<and> i_data j = new \<and> i_mode j = i_mode i \<and> i_uid j = i_uid i \<and> i_gid j = i_gid i"
proof -
  let ?f = "\<lparr>fc_sha1 = SHA E (i_data i), fc_data = i_data i, fc_mode = i_mode i, fc_uid = i_uid i, fc_gid = i_gid i\<rparr>"
  let ?J = "\<lparr>source_filename = name, target_filename = name, target_size = tsize, source_file = Some ?f, copy_file = None,
      source_patch_value = Some v, copy_patch_value = None\<rparr>"
  let ?O = "name @ ''.patch''" and ?c = "sha_update (ap_sha E) (sha_init (ap_sha E)) new"
  obtain w1 where w1: "LoadFileContents E name w = Some (Some ?f, w1)" "now w1 = now w"
    using load_fine [OF assms(1,2,7,6)] by blast
  obtain tfs where tfs: "target_fs name = Some tfs" using assms(4) by (cases name) (simp_all add: target_fs_def)
  obtain u w2 where fr: "FreeSpaceForFile (ap_sys E) tfs w1 = (u, w2)" "enough_space u tsize" "now w2 = now w"
    using assms(3) [of "calls w1"] fine_calls(1) [OF assms(1), of w1] w1(2)
    by (auto simp: FreeSpaceForFile_def fs_statfs_def ask_def)
  have sp: "prepare_space (ap_sys E) ?J tfs 1 False w1 = Some (Some (1, False), w2)"
    using assms(6) fr(1,2) by (simp add: prepare_space_def)
  obtain w3 i0 where op: "open_output E ?J w2 = (Some (Out_file ?O), w3)" "now w3 = (now w)(?O \<mapsto> i0)" "i_data i0 = []"
    using fine_calls(5,6) [OF assms(1), of ?O w2] assms(6) fr(3)
    by (cases "fs_open_trunc (ap_sys E) ?O w2") (auto simp: open_output_def)
  have len: "8 \<le> length (bytes_of (vdata v))"
    using arg_cong [OF assms(12), of length] by (simp add: BSDIFF_MAGIC_def)
  obtain w4 where ap: "apply_to E (i_data i) (bytes_of (vdata v)) (Out_file ?O) w3 = Some (Some (0, Out_file ?O, Some ?c), w4)"
    "now w4 = append ?O new (now w3)"
    using apply_fine [OF assms(1,12) len assms(13)] by blast
  have at: "patch_attempt E ?J tfs 1 False w1 = Some (Patched False (Out_file ?O) (Some ?c), w4)"
    unfolding patch_attempt_def sp bind.bind_lunit prod.case option.case using op(1) ap(1) assms(11) by simp
  have lp: "patch_loop E ?J tfs 1 False w1 = Some (Inr (False, Out_file ?O, Some ?c), w4)"
    unfolding patch_loop.simps [of E ?J tfs 1 False w1] at by simp
  have j: "now w4 ?O = Some (i0\<lparr>i_data := new\<rparr>)" using ap(2) op(2,3) by (simp add: append_def)
  obtain w5 where fin: "finish_patch E ?J (sha_final (ap_sha E) ?c) False (Out_file ?O) (Some ?c) w4 = Some (0, w5)"
    "now w5 name = Some (i0\<lparr>i_data := new, i_mode := i_mode i, i_uid := i_uid i, i_gid := i_gid i\<rparr>)"
    using finish_fine [OF assms(1), of w4 ?J "i0\<lparr>i_data := new\<rparr>" ?f ?c] j by auto
  have mv: "matching_value (Some ?f) shas patches = Some (Some v)"
    using assms(8-10) by (simp add: matching_value_def rd_in)
  have "patch_from E name name (SHA E new) tsize shas patches (Some ?f) w1 = Some (0, w5)"
    unfolding patch_from_def load_source_def
    using mv tfs lp fin(1) by (simp add: SHA_def)
  then have "applypatch E name name sha tsize shas patches w = Some (0, w5)"
    using assms(5,14,15) w1(1) by (simp add: applypatch_def)
  then show ?thesis using fin(2) by auto
qed

subsection \<open>An example\<close>

definition toy_patch :: bytes where
  "toy_patch = bsdiff_file (concat (map enc_triple [(1, 1, 0)])) [4] [6] 2"

definition toy_value :: edify_value where
  "toy_value = \<lparr>vtype = VAL_BLOB, vsize = int (length toy_patch), vdata = string_of toy_patch\<rparr>"

definition toy_disk :: disk where
  "toy_disk = [''/s/a'' \<mapsto> toy_file [1]]"

lemma toy_patch_result: "ApplyBSDiffPatchMem plain_bz (\<lambda>n. True) [1] toy_patch 0 = Some (0, [5, 6])"
proof -
  have t: "triple_ok (1, 1, 0)" "diff_total [(1, 1, 0)] = 1" "extra_total [(1, 1, 0)] = 1"
    by (simp_all add: triple_ok_def diff_total_def extra_total_def)
  have l: "length (concat (map enc_triple [(1, 1, 0)])) = 24" using enc_triple_ok(1) [of 1 1 0] by simp
  have n: "diff_total [(1, 1, 0)] + extra_total [(1, 1, 0)] = 2" using t by simp
  have "rebuild [1] [(1, 1, 0)] [4] [6] 0 = [5, 6]" by (simp add: add_old_def old_at_def)
  moreover have "ApplyBSDiffPatchMem plain_bz (\<lambda>n. True) [1] ([] @ toy_patch) (length ([] :: bytes)) =
      Some (0, rebuild [1] [(1, 1, 0)] (snd (bz_init plain_bz [4])) (snd (bz_init plain_bz [6])) 0)"
    unfolding toy_patch_def n [symmetric]
    by (rule bspatch_mem_ok [OF plain_bz_law]) (use t l n in \<open>simp_all add: plain_bz_def\<close>)
  ultimately show ?thesis by (simp add: plain_bz_def)
qed

lemma toy_patch_format: "take 8 toy_patch = BSDIFF_MAGIC"
  by (simp add: toy_patch_def bsdiff_file_def BSDIFF_MAGIC_def)

lemma toy_sums:
  "SHA toy_env [1] = replicate 19 0 @ [1]" "SHA toy_env [5, 6] = replicate 19 0 @ [2]"
  by (simp_all add: SHA_def toy_sha_def)

lemma toy_names: "names_ok ''/s/a'' ''/s/a''" "\<not> is_partition ''/s/a''"
  by (simp_all add: names_ok_def is_partition_def expendable_def expendable_dirs_def CACHE_TEMP_SOURCE_def)

lemma toy_run:
  "\<exists>w' j. applypatch toy_env ''/s/a'' ''/s/a'' (toy_sum (CHR ''2'')) 2 [toy_sum (CHR ''1'')] [Some toy_value] (toy_world toy_disk)
     = Some (0, w') \<and> now w' ''/s/a'' = Some j \<and> i_data j = [5, 6]"
proof -
  have space: "enough_space (word_of_int (answer (ap_sys toy_env) t)) 2" for t
    by (simp add: enough_space_def)
  have m: "FindMatchingPatch (SHA toy_env (i_data (toy_file [1]))) [toy_sum (CHR ''1'')] = int 0"
    by (simp add: FindMatchingPatch_def toy_sum_parse toy_sums toy_file_def)
  have f: "now (toy_world toy_disk) ''/s/a'' = Some (toy_file [1])" "i_data (toy_file [1]) = [1]"
    by (simp_all add: toy_world_def toy_disk_def toy_file_def)
  have v: "vtype toy_value = VAL_BLOB" "bytes_of (vdata toy_value) = toy_patch" by (simp_all add: toy_value_def)
  have p: "ApplyBSDiffPatchMem (ap_bz toy_env) (ap_alloc toy_env) (i_data (toy_file [1])) (bytes_of (vdata toy_value)) 0
      = Some (0, [5, 6])"
    using toy_patch_result by (simp add: f v toy_env_def)
  have s: "SHA toy_env (i_data (toy_file [1])) \<noteq> SHA toy_env [5, 6]" "ParseSha1 (toy_sum (CHR ''2'')) = Some (SHA toy_env [5, 6])"
    by (simp_all add: f toy_sums toy_sum_parse)
  have "take 8 (bytes_of (vdata toy_value)) = BSDIFF_MAGIC" using toy_patch_format v by simp
  from applypatch_fine [OF toy_laws(3) _ space _ _ toy_names(2) f(1) m _ _ v(1) this p s(2,1), of "[Some toy_value]"]
  show ?thesis by auto
qed

lemma toy_exact: "\<forall>v. Some v \<in> set [Some toy_value] \<longrightarrow> exact_output toy_env (bytes_of (vdata v))"
  using toy_laws(1) toy_patch_format by (simp add: exact_output_def toy_value_def)

subsection \<open>Properties\<close>






definition half_disk :: disk where
  "half_disk = [''d'' \<mapsto> toy_file [9], CACHE_TEMP_SOURCE \<mapsto> toy_file [1]]"

lemma half_load: "\<exists>w'. LoadFileContents toy_env part_name w = Some (None, w') \<and> now w' = half_disk" if "now w = half_disk" for w
proof -
  have o: "open_part toy_env False (Some ''d'') w = Some (Some (Src_dev [9]), tick w)"
    using that by (simp add: open_part_def fs_open_read_def half_disk_def CACHE_TEMP_SOURCE_def toy_file_def)
  have "read_next toy_env 2 (Src_dev [9]) [0, 0] 0 [] (tick w) = Some (False, Src_dev [], [9, 0], 0, [], tick (tick w))"
    by (simp add: read_next_def read_part_def fs_fread_def wr_slice_def)
  moreover have "replicate 2 (0 :: byte) = [0, 0]" by (simp add: numeral_2_eq_2)
  ultimately have l: "load_sorted toy_env False (Some ''d'') [(2, Some (toy_sum (CHR ''2'')))] w = Some (None, tick (tick w))"
    by (simp add: load_sorted_def o Let_def toy_sha_def)
  have n: "(count_colons part_name - 1) div 2 = 1" by (simp add: part_tokens(5))
  have "ap_qsort toy_env [(2, x)] = [(2, x)]" for x by (simp add: sort_key_def)
  then have "LoadPartitionContents toy_env part_name w = Some (None, tick (tick w))"
    using l unfolding LoadPartitionContents_def part_tokens(1) Let_def prod.case bind.bind_lunit part_tokens(2) n
      part_name_pairs option.case by simp
  moreover have "is_partition part_name" by (simp add: is_partition_def part_name_def)
  ultimately show ?thesis using that by (simp add: LoadFileContents_def)
qed


end
