(* ===== verification/ApplyMain.thy ===== *)
theory ApplyMain
  imports ApplyProps
begin

text \<open>
  The \<open>applypatch\<close> command: \<open>applypatch/main.c\<close>.  \<open>argv\<close> is the list of all arguments, the program's
  name first; messages are left out.
\<close>

definition CheckMode ::
  "('s, 'z, 'd, 'c, 'w) ap_env \<Rightarrow> string list \<Rightarrow> 'w ap_world \<Rightarrow> (int \<times> 'w ap_world) ub" where
  "CheckMode E argv w =
     (if length argv < 3 then Some (2, w) else applypatch_check E (argv ! 2) (drop 3 argv) w)"

text \<open>A byte count; \<open>None\<close> when there is no number.\<close>

definition byte_count :: "string \<Rightarrow> u64 option" where
  "byte_count s = (case strtol10 s of (v, endptr) \<Rightarrow>
     if (word_of_int v :: u64) = 0 \<and> endptr = s then None else Some (word_of_int v))"

definition SpaceMode ::
  "('s, 'z, 'd, 'c, 'w) ap_env \<Rightarrow> string list \<Rightarrow> 'w ap_world \<Rightarrow> int \<times> 'w ap_world" where
  "SpaceMode E argv w =
     (if length argv \<noteq> 3 then (2, w)
      else case byte_count (argv ! 2) of
             None \<Rightarrow> (1, w)
           | Some bytes \<Rightarrow> CacheSizeCheck (ap_sys E) bytes w)"

text \<open>\<open>Some None\<close> is a failure.\<close>

fun ParsePatchArgs ::
  "('s, 'z, 'd, 'c, 'w) ap_env \<Rightarrow> string list \<Rightarrow> 'w ap_world \<Rightarrow>
     ((string list \<times> edify_value option list) option \<times> 'w ap_world) ub" where
  "ParsePatchArgs E [] w = Some (Some ([], []), w)"
| "ParsePatchArgs E (arg # args) w =
     (let sha1 = takeWhile (\<lambda>c. c \<noteq> CHR '':'') arg; rest = dropWhile (\<lambda>c. c \<noteq> CHR '':'') arg
      in if ParseSha1 sha1 = None then Some (None, w)
         else do {
           (p, w1) \<leftarrow> (if rest = [] then Some (Some None, w)
                     else do { (fc, w1) \<leftarrow> LoadFileContents E (tl rest) w;
                               Some (map_option (\<lambda>f. Some \<lparr>vtype = VAL_BLOB, vsize = int (length (fc_data f)),
                                                            vdata = string_of (fc_data f)\<rparr>) fc, w1) });
           case p of
             None \<Rightarrow> Some (None, w1)
           | Some v \<Rightarrow> do {
               (r, w2) \<leftarrow> ParsePatchArgs E args w1;
               Some (map_option (\<lambda>(shas, ps). (sha1 # shas, v # ps)) r, w2) }})"

definition PatchMode ::
  "('s, 'z, 'd, 'c, 'w) ap_env \<Rightarrow> string list \<Rightarrow> 'w ap_world \<Rightarrow> (int \<times> 'w ap_world) ub" where
  "PatchMode E argv w =
     (if length argv < 6 then Some (2, w)
      else case byte_count (argv ! 4) of
             None \<Rightarrow> Some (1, w)
           | Some size' \<Rightarrow> do {
               (r, w1) \<leftarrow> ParsePatchArgs E (drop 5 argv) w;
               case r of
                 None \<Rightarrow> Some (1, w1)
               | Some (shas, ps) \<Rightarrow> applypatch E (argv ! 1) (argv ! 2) (argv ! 3) size' shas ps w1 })"

definition applypatch_main ::
  "('s, 'z, 'd, 'c, 'w) ap_env \<Rightarrow> string list \<Rightarrow> 'w ap_world \<Rightarrow> (int \<times> 'w ap_world) ub" where
  "applypatch_main E argv w =
     (if length argv < 2 then Some (2, w)
      else if argv ! 1 = ''-l'' then Some (0, w)
      else if argv ! 1 = ''-c'' then CheckMode E argv w
      else if argv ! 1 = ''-s'' then Some (SpaceMode E argv w)
      else PatchMode E argv w)"

text \<open>What \<open>applypatch -c\<close> answers 0 for.\<close>

lemma find_patch_result: "find_patch d ss i \<ge> 0 \<Longrightarrow> \<exists>s\<in>set ss. ParseSha1 s = Some d"
  by (induction ss arbitrary: i) (auto split: if_splits)

lemma check_passes:
  assumes "applypatch_check E file' shas w = Some (0, w')" "shas \<noteq> []" "\<not> is_partition file'"
  shows "\<exists>n i s. (n = file' \<or> n = CACHE_TEMP_SOURCE) \<and> now w n = Some i \<and> s \<in> set shas \<and> ParseSha1 s = Some (SHA E (i_data i))"
proof -
  obtain f w1 where f: "LoadFileContents E file' w = Some (f, w1)"
    using assms(1) by (auto simp: applypatch_check_def bind_eq_Some_conv)
  note lf = LoadFile_file [OF f assms(3)]
  show ?thesis
  proof (cases "f = None \<or> FindMatchingPatch (fc_sha1 (the f)) shas < 0")
    case False
    then obtain g where g: "f = Some g" "FindMatchingPatch (fc_sha1 g) shas \<ge> 0" by auto
    obtain i where i: "now w file' = Some i" "fc_sha1 g = SHA E (i_data i)" using lf(2) [OF g(1)] by blast
    obtain s where "s \<in> set shas" "ParseSha1 s = Some (fc_sha1 g)"
      using find_patch_result g(2) unfolding FindMatchingPatch_def by blast
    then show ?thesis using i by auto
  next
    case True
    have np: "\<not> is_partition CACHE_TEMP_SOURCE" by (simp add: is_partition_def CACHE_TEMP_SOURCE_def)
    obtain c w2 where c: "LoadFileContents E CACHE_TEMP_SOURCE w1 = Some (c, w2)"
      using assms(1,2) f True by (auto simp: applypatch_check_def bind_eq_Some_conv)
    obtain g where g: "c = Some g" "\<not> FindMatchingPatch (fc_sha1 g) shas < 0"
      using assms(1,2) f True c by (auto simp: applypatch_check_def split: option.splits if_splits)
    obtain i where "now w1 CACHE_TEMP_SOURCE = Some i" "fc_sha1 g = SHA E (i_data i)"
      using LoadFile_file(2) [OF c np g(1)] by blast
    moreover obtain s where "s \<in> set shas" "ParseSha1 s = Some (fc_sha1 g)"
      using find_patch_result g(2) unfolding FindMatchingPatch_def by (metis not_less)
    ultimately show ?thesis using lf(1) by (auto simp: same_def)
  qed
qed

end
