(* ===== verification/StrCopy.thy ===== *)
theory StrCopy
  imports CLib
begin

text \<open>
  Copying and appending strings with a bound: \<open>strlcpy.c\<close> and \<open>strlcat.c\<close>.  Both work on character
  arrays that start where the pointer points; a C string is what comes before the first NUL.
\<close>

subsection \<open>\<open>strlcpy\<close>\<close>

text \<open>The loop with \<open>nleft\<close>, entered with \<open>nleft\<close> not zero; \<open>d\<close> and \<open>s\<close> are the two pointers.\<close>

fun copy_loop :: "nat \<Rightarrow> string \<Rightarrow> nat \<Rightarrow> string \<Rightarrow> nat \<Rightarrow> (nat \<times> string \<times> nat \<times> nat) ub" where
  "copy_loop 0 dst d src s = None"
| "copy_loop (Suc nleft) dst d src s =
     (if nleft = 0 then Some (0, dst, d, s)
      else do { c \<leftarrow> rd src s;
                dst1 \<leftarrow> wr dst d c;
                if c = NUL then Some (nleft, dst1, d + 1, s + 1)
                else copy_loop nleft dst1 (d + 1) src (s + 1) })"

text \<open>\<open>while (*src++)\<close>.\<close>

function skip_string :: "string \<Rightarrow> nat \<Rightarrow> nat ub" where
  "skip_string src s = do { c \<leftarrow> rd src s; if c = NUL then Some (s + 1) else skip_string src (s + 1) }"
  by pat_completeness auto
termination by (relation "measure (\<lambda>(src, s). length src - s)") (auto simp: mem_simps)

declare skip_string.simps [simp del]

definition strlcpy :: "string \<Rightarrow> string \<Rightarrow> nat \<Rightarrow> (nat \<times> string) ub" where
  "strlcpy dst src dsize =
     do {
       (nleft, dst1, d, s) \<leftarrow> (if dsize \<noteq> 0 then copy_loop dsize dst 0 src 0 else Some (0, dst, 0, 0));
       if nleft = 0
       then do { dst2 \<leftarrow> (if dsize \<noteq> 0 then wr dst1 d NUL else Some dst1);
                 s1 \<leftarrow> skip_string src s;
                 Some (s1 - 1, dst2) }
       else Some (s - 1, dst1) }"

subsection \<open>\<open>strlcat\<close>\<close>

text \<open>The end of \<open>dst\<close>, at most \<open>n\<close> places on.\<close>

fun find_end :: "nat \<Rightarrow> string \<Rightarrow> nat \<Rightarrow> nat ub" where
  "find_end 0 dst d = Some d"
| "find_end (Suc n) dst d = do { c \<leftarrow> rd dst d; if c \<noteq> NUL then find_end n dst (d + 1) else Some d }"

text \<open>The loop over \<open>src\<close>; \<open>n\<close> places are left for characters.\<close>

function append_loop :: "nat \<Rightarrow> string \<Rightarrow> nat \<Rightarrow> string \<Rightarrow> nat \<Rightarrow> (string \<times> nat \<times> nat) ub" where
  "append_loop n dst d src s =
     do { c \<leftarrow> rd src s;
          if c = NUL then Some (dst, d, s)
          else if n \<noteq> 0 then do { dst1 \<leftarrow> wr dst d c; append_loop (n - 1) dst1 (d + 1) src (s + 1) }
          else append_loop n dst d src (s + 1) }"
  by pat_completeness auto
termination by (relation "measure (\<lambda>(n, dst, d, src, s). length src - s)") (auto simp: mem_simps)

declare append_loop.simps [simp del]

definition strlcat :: "string \<Rightarrow> string \<Rightarrow> nat \<Rightarrow> (nat \<times> string) ub" where
  "strlcat dst src dsize =
     do {
       dlen \<leftarrow> find_end dsize dst 0;
       if dsize - dlen = 0
       then do { e \<leftarrow> skip_string src 0; Some (dlen + (e - 1), dst) }
       else do {
         (dst1, d, s) \<leftarrow> append_loop (dsize - dlen - 1) dst dlen src 0;
         dst2 \<leftarrow> wr dst1 d NUL;
         Some (dlen + s, dst2) }}"

subsection \<open>What they leave\<close>

lemma skip_string_end: "NUL \<notin> set cs \<Longrightarrow> skip_string (pre @ cs @ NUL # r) (length pre) = Some (length pre + length cs + 1)"
proof (induction cs arbitrary: pre)
  case Nil
  then show ?case by (subst skip_string.simps) (simp add: rd_def)
next
  case (Cons c cs)
  then show ?case using Cons.IH [of "pre @ [c]"]
    by (subst skip_string.simps) (auto simp: rd_def)
qed

text \<open>Characters are copied to their places; the loop stops after the NUL or with one place left.\<close>

lemma copy_loop_exact:
  "NUL \<notin> set cs \<Longrightarrow> length dpre + n < length dst + 1 \<Longrightarrow> take (length dpre) dst = dpre \<Longrightarrow> 0 < n \<Longrightarrow>
   copy_loop n dst (length dpre) (pre @ cs @ NUL # r) (length pre) =
     (if length cs < n - 1
      then Some (n - 1 - length cs, dpre @ cs @ NUL # drop (length dpre + length cs + 1) dst,
                 length dpre + length cs + 1, length pre + length cs + 1)
      else Some (0, dpre @ take (n - 1) cs @ drop (length dpre + (n - 1)) dst, length dpre + (n - 1), length pre + (n - 1)))"
proof (induction n arbitrary: cs pre dpre dst)
  case (Suc n)
  show ?case
  proof (cases "n = 0")
    case True
    then show ?thesis using Suc.prems by simp (metis append_take_drop_id)
  next
    case False
    have split: "dst = dpre @ drop (length dpre) dst" using Suc.prems(3) by (metis append_take_drop_id)
    show ?thesis
    proof (cases cs)
      case Nil
      then show ?thesis using Suc.prems False
        by (simp add: rd_def wr_def upd_conv_take_nth_drop)
    next
      case (Cons c cs')
      have len: "length dpre < length dst" using Suc.prems(2) False by simp
      have tk: "take (length (dpre @ [c])) (dst[length dpre := c]) = dpre @ [c]"
        using len Suc.prems(3) by (simp add: take_Suc_conv_app_nth)
      have "copy_loop n (dst[length dpre := c]) (length (dpre @ [c])) ((pre @ [c]) @ cs' @ NUL # r) (length (pre @ [c])) =
        (if length cs' < n - 1
         then Some (n - 1 - length cs', (dpre @ [c]) @ cs' @ NUL # drop (length (dpre @ [c]) + length cs' + 1) (dst[length dpre := c]),
                 length (dpre @ [c]) + length cs' + 1, length (pre @ [c]) + length cs' + 1)
         else Some (0, (dpre @ [c]) @ take (n - 1) cs' @ drop (length (dpre @ [c]) + (n - 1)) (dst[length dpre := c]),
                 length (dpre @ [c]) + (n - 1), length (pre @ [c]) + (n - 1)))"
        by (rule Suc.IH) (use Suc.prems Cons False tk in auto)
      moreover have "take n (c # cs') = c # take (n - 1) cs'" using False by (cases n) auto
      moreover have "c \<noteq> NUL" using Suc.prems(1) Cons by auto
      ultimately show ?thesis using False len Cons by (auto simp: rd_def wr_def)
    qed
  qed
qed simp

lemma strlcpy_exact:
  assumes "NUL \<notin> set cs" and "dsize \<le> length dst"
  shows "strlcpy dst (cs @ NUL # r) dsize =
    Some (length cs, if dsize = 0 then dst
                     else take (dsize - 1) cs @ NUL # drop (min (length cs) (dsize - 1) + 1) dst)"
proof (cases "dsize = 0")
  case True
  then show ?thesis using skip_string_end [of cs "[]" r] assms by (simp add: strlcpy_def)
next
  case False
  have c: "copy_loop dsize dst 0 (cs @ NUL # r) 0 =
    (if length cs < dsize - 1
     then Some (dsize - 1 - length cs, cs @ NUL # drop (length cs + 1) dst, length cs + 1, length cs + 1)
     else Some (0, take (dsize - 1) cs @ drop (dsize - 1) dst, dsize - 1, dsize - 1))"
    using copy_loop_exact [of cs "[]" dsize dst "[]" r] assms False by simp
  show ?thesis
  proof (cases "length cs < dsize - 1")
    case True
    then show ?thesis using c False by (auto simp: strlcpy_def min_def)
  next
    case less: False
    have "NUL \<notin> set (drop (dsize - 1) cs)" using assms(1) in_set_dropD by metis
    from skip_string_end [OF this, of "take (dsize - 1) cs" r]
    have "skip_string (cs @ NUL # r) (dsize - 1) = Some (length cs + 1)"
      using less by (simp flip: append_assoc)
    moreover have "drop (dsize - 1) dst = dst ! (dsize - 1) # drop dsize dst"
      using Cons_nth_drop_Suc [of "dsize - 1" dst] assms(2) False by simp
    ultimately show ?thesis using c False less assms
      by (simp add: strlcpy_def min_def wr_def list_update_append)
  qed
qed

lemma find_end_exact:
  "NUL \<notin> set ds \<Longrightarrow> length ds < n \<Longrightarrow> find_end n (pre @ ds @ NUL # r) (length pre) = Some (length pre + length ds)"
proof (induction n arbitrary: ds pre)
  case (Suc n)
  then show ?case using Suc.IH [of "tl ds" "pre @ [hd ds]"]
    by (cases ds) (auto simp: rd_def nth_append)
qed simp

lemma find_end_full: "NUL \<notin> set ds \<Longrightarrow> n \<le> length ds \<Longrightarrow> find_end n (pre @ ds) (length pre) = Some (length pre + n)"
proof (induction n arbitrary: ds pre)
  case (Suc n)
  then show ?case using Suc.IH [of "tl ds" "pre @ [hd ds]"]
    by (cases ds) (auto simp: rd_def nth_append)
qed simp

lemma append_loop_exact:
  "NUL \<notin> set cs \<Longrightarrow> n \<le> length dr \<Longrightarrow>
   append_loop n (ds @ dr) (length ds) (pre @ cs @ NUL # r) (length pre) =
     Some (ds @ take n cs @ drop (min n (length cs)) dr, length ds + min n (length cs), length pre + length cs)"
proof (induction cs arbitrary: n ds dr pre)
  case Nil
  then show ?case by (subst append_loop.simps) (simp add: rd_def)
next
  case (Cons c cs)
  show ?case
  proof (cases "n = 0")
    case True
    then show ?thesis using Cons.prems Cons.IH [of 0 dr ds "pre @ [c]"]
      by (subst append_loop.simps) (auto simp: rd_def)
  next
    case False
    then obtain n' y dr' where n: "n = Suc n'" "dr = y # dr'" using Cons.prems by (cases n; cases dr) auto
    then have "append_loop n' ((ds @ [c]) @ dr') (length (ds @ [c])) ((pre @ [c]) @ cs @ NUL # r) (length (pre @ [c])) =
      Some ((ds @ [c]) @ take n' cs @ drop (min n' (length cs)) dr', length (ds @ [c]) + min n' (length cs),
            length (pre @ [c]) + length cs)"
      by (intro Cons.IH) (use Cons.prems in auto)
    then show ?thesis using n Cons.prems
      by (subst append_loop.simps) (auto simp: rd_def wr_def list_update_append)
  qed
qed

lemma strlcat_exact:
  assumes "NUL \<notin> set ds" "NUL \<notin> set cs" and "length ds < dsize" "dsize \<le> length ds + 1 + length dr"
  shows "strlcat (ds @ NUL # dr) (cs @ NUL # r) dsize =
    Some (length ds + length cs,
          ds @ take (dsize - length ds - 1) cs @ NUL # drop (min (length cs) (dsize - length ds - 1)) dr)"
proof -
  let ?n = "dsize - length ds - 1"
  have 1: "find_end dsize (ds @ NUL # dr) 0 = Some (length ds)"
    using find_end_exact [of ds dsize "[]" dr] assms by simp
  have 2: "append_loop ?n (ds @ NUL # dr) (length ds) (cs @ NUL # r) 0 =
    Some (ds @ take ?n cs @ drop (min ?n (length cs)) (NUL # dr), length ds + min ?n (length cs), length cs)"
    using append_loop_exact [of cs ?n "NUL # dr" ds "[]" r] assms by simp
  have "min ?n (length cs) < length (NUL # dr)" using assms by auto
  then obtain x xs where x: "drop (min ?n (length cs)) (NUL # dr) = x # xs"
    by (metis Cons_nth_drop_Suc)
  then have xs: "xs = drop (min (length cs) ?n) dr"
    by (metis drop_Suc_Cons list.sel(3) min.commute tl_drop drop_Suc)
  have "length ds + min ?n (length cs) = length (ds @ take ?n cs)" by (simp add: min.commute)
  then show ?thesis using 1 2 x xs assms(3)
    by (simp add: strlcat_def wr_def list_update_append min.commute)
qed

end
