(* ===== verification/Host.thy ===== *)
theory Host
  imports MtdScan
begin

text \<open>
  The kernel and the other programs of the device, for the parts of the code that mount, format and
  boot: the parameter \<open>host\<close>, a record of functions over a state \<open>'w\<close>, one per system call.  \<open>h_read\<close> is
  \<open>open\<close> for reading and one \<open>read\<close>: \<open>None\<close> when one of them fails.  \<open>h_exec\<close> forks, runs the program
  with these arguments and waits for it.  \<open>h_junk\<close> is what an array on the stack reads as where it was never set.
\<close>

datatype exec_end = Fork_failed | Wait_failed | Ended int

record 'w host =
  h_stat :: "string \<Rightarrow> 'w \<Rightarrow> int \<times> 'w"
  h_access :: "string \<Rightarrow> 'w \<Rightarrow> int \<times> 'w"
  h_exec :: "string list \<Rightarrow> 'w \<Rightarrow> exec_end \<times> 'w"
  h_mount :: "string option \<Rightarrow> string \<Rightarrow> string \<Rightarrow> u64 \<Rightarrow> 'w \<Rightarrow> int \<times> 'w"
  h_umount :: "string option \<Rightarrow> 'w \<Rightarrow> int \<times> 'w"
  h_mkdir :: "string \<Rightarrow> int \<Rightarrow> 'w \<Rightarrow> int \<times> 'w"
  h_readlink :: "string \<Rightarrow> 'w \<Rightarrow> string option \<times> 'w"
  h_read :: "string \<Rightarrow> nat \<Rightarrow> 'w \<Rightarrow> string option \<times> 'w"
  h_readdir :: "string \<Rightarrow> 'w \<Rightarrow> string list option \<times> 'w"
  h_alloc :: "nat \<Rightarrow> bool"
  h_junk :: string
  h_mtd :: "'w mtd_dev"

subsection \<open>Running programs: \<open>mtdutils/rk29.c\<close>\<close>

text \<open>The exit status is printed, not returned.\<close>

definition run :: "'w host \<Rightarrow> string list \<Rightarrow> 'w \<Rightarrow> int \<times> 'w" where
  "run H argv w =
     (let (s, w1) = h_stat H (hd argv) w
      in if s \<noteq> 0 then (- 1, w1)
         else let (e, w2) = h_exec H argv w1
              in (case e of Fork_failed \<Rightarrow> - 1 | Wait_failed \<Rightarrow> - 1 | Ended status \<Rightarrow> 0, w2))"

text \<open>One program and then another, when the first is taken for successful.\<close>

definition run_two :: "'w host \<Rightarrow> string list \<Rightarrow> string list \<Rightarrow> 'w \<Rightarrow> int \<times> 'w" where
  "run_two H first second w =
     (let (r, w1) = run H first w in if r \<noteq> 0 then (r, w1) else run H second w1)"

definition rk_make_ext4fs :: "'w host \<Rightarrow> string \<Rightarrow> string option \<Rightarrow> 'w \<Rightarrow> int \<times> 'w" where
  "rk_make_ext4fs H filename mountpoint w =
     (let (r, w1) = run_two H [''/sbin/mke2fs'', ''-t'', ''ext4'', ''-b'', ''4096'', ''-O'', ''^huge_file'',
                               ''-m'', ''0'', ''-q'', ''-F'', filename]
                              [''/sbin/e2fsck'', ''-fy'', filename] w
      in if r \<noteq> 0 then (r, w1)
         else case mountpoint of
           None \<Rightarrow> (r, w1)
         | Some m \<Rightarrow> (r, snd (h_mount H (Some filename) m ''ext4'' (MS_NOATIME OR MS_NODEV OR MS_NODIRATIME) w1)))"

definition rk_check_and_resizefs :: "'w host \<Rightarrow> string \<Rightarrow> 'w \<Rightarrow> int \<times> 'w" where
  "rk_check_and_resizefs H filename w =
     run_two H [''/sbin/e2fsck'', ''-fy'', filename] [''/sbin/resize2fs'', filename] w"

definition rk_check_and_resizefs_f2fs :: "'w host \<Rightarrow> string \<Rightarrow> 'w \<Rightarrow> int \<times> 'w" where
  "rk_check_and_resizefs_f2fs H filename w =
     run_two H [''fsck_f2fs'', filename] [''resize.f2fs'', filename] w"

definition rk_make_ext3fs :: "'w host \<Rightarrow> string \<Rightarrow> 'w \<Rightarrow> int \<times> 'w" where
  "rk_make_ext3fs H filename w =
     run_two H [''mke2fs'', ''-t'', ''ext3'', ''-b'', ''4096'', ''-O'', ''^huge_file'', ''-m'', ''0'', ''-q'', filename]
               [''e2fsck'', ''-fy'', filename] w"

definition rk_make_ext2fs :: "'w host \<Rightarrow> string \<Rightarrow> 'w \<Rightarrow> int \<times> 'w" where
  "rk_make_ext2fs H filename w =
     run_two H [''/sbin/mke2fs'', ''-t'', ''ext2'', ''-b'', ''1024'', ''-O'', ''^huge_file'', ''-m'', ''0'', ''-q'', filename]
               [''/sbin/e2fsck'', ''-fy'', filename] w"

definition make_vfat :: "'w host \<Rightarrow> string \<Rightarrow> string option \<Rightarrow> 'w \<Rightarrow> int \<times> 'w" where
  "make_vfat H filename volumelabel w =
     (case volumelabel of
        None \<Rightarrow> run H [''/sbin/mkdosfs'', filename] w
      | Some l \<Rightarrow> run H [''/sbin/mkdosfs'', ''-n'', l, filename] w)"

definition make_ntfs :: "'w host \<Rightarrow> string \<Rightarrow> string option \<Rightarrow> 'w \<Rightarrow> int \<times> 'w" where
  "make_ntfs H filename volumelabel w =
     (case volumelabel of
        None \<Rightarrow> run H [''mkntfs'', ''-F'', ''C'', ''Q'', filename] w
      | Some l \<Rightarrow> run H [''mkntfs'', ''-F'', ''C'', ''Q'', ''-L'', l, filename] w)"

subsection \<open>What the answers say\<close>

text \<open>The exit statuses change no answer: with programs that all fail, everything goes well.\<close>

definition forget_status :: "'w host \<Rightarrow> 'w host" where
  "forget_status H = H\<lparr>h_exec := \<lambda>argv w. case h_exec H argv w of
     (Ended s, w1) \<Rightarrow> (Ended 0, w1) | r \<Rightarrow> r\<rparr>"

lemma run_forgets: "run (forget_status H) = run H"
  by (auto simp: run_def forget_status_def fun_eq_iff split: prod.splits exec_end.splits)

lemma run_two_forgets: "run_two (forget_status H) = run_two H"
  by (simp add: run_two_def split_beta run_forgets fun_eq_iff)

end
