(* ===== verification/BlockIo.thy ===== *)
theory BlockIo
  imports Prelude
begin

text \<open>
  Reading and writing a stream in whole blocks of 16 KB: \<open>rk29_fread\<close> and \<open>rk29_fwrite\<close> of
  \<open>mtdutils/rk29.c\<close>.

  \<open>pio\<close> is the kernel's \<open>pread\<close> and \<open>pwrite\<close> on the stream's descriptor.  A stream is what \<open>fileno\<close> and
  \<open>ftell\<close> answer; the results are the answer, the position \<open>fseek\<close> sets (\<open>None\<close> when it is not called)
  and what is in memory.  \<open>size_t\<close> and \<open>long\<close> wrap at 64 bits.
\<close>

record 'w pio =
  pread :: "nat \<Rightarrow> int \<Rightarrow> 'w \<Rightarrow> (int \<times> bytes) \<times> 'w"
  pwrite :: "bytes \<Rightarrow> int \<Rightarrow> 'w \<Rightarrow> int \<times> 'w"

definition IO_SIZE :: nat where "IO_SIZE = 16384"

abbreviation IO :: int where "IO \<equiv> int IO_SIZE"

definition long_of :: "int \<Rightarrow> int" where "long_of i = sint (word_of_int i :: u64)"

text \<open>One whole block from \<open>offset\<close>; \<open>None\<close> is a short read.\<close>

definition io_get :: "'w pio \<Rightarrow> int \<Rightarrow> 'w \<Rightarrow> bytes option \<times> 'w" where
  "io_get P offset w =
     (let ((sz, buf), w1) = pread P IO_SIZE offset w in (if sz < IO then None else Some buf, w1))"

definition io_put :: "'w pio \<Rightarrow> bytes \<Rightarrow> int \<Rightarrow> 'w \<Rightarrow> bool \<times> 'w" where
  "io_put P buf offset w = (let (sz, w1) = pwrite P buf offset w in (\<not> sz < IO, w1))"

subsection \<open>Reading\<close>

text \<open>
  The three parts.  \<open>p\<close> is the memory at \<open>ptr\<close>, \<open>count\<close> what is in it; the flag is \<open>False\<close> after \<open>goto out\<close>.
\<close>

definition read_head :: "'w pio \<Rightarrow> int \<Rightarrow> int \<Rightarrow> bytes \<Rightarrow> 'w \<Rightarrow> (bool \<times> nat \<times> bytes \<times> 'w) ub" where
  "read_head P begin end' p w =
     (if begin mod IO = 0 then Some (True, 0, p, w)
      else let offset = begin - begin mod IO; (b, w1) = io_get P offset w
      in case b of
           None \<Rightarrow> Some (False, 0, p, w1)
         | Some buf \<Rightarrow>
             if end' < begin then None
             else let count = nat (min end' (offset + IO) - begin)
             in do { bs \<leftarrow> rd_slice buf (nat (begin mod IO)) count;
                     p1 \<leftarrow> wr_slice p 0 bs;
                     Some (True, count, p1, w1) })"

function read_blocks :: "'w pio \<Rightarrow> int \<Rightarrow> int \<Rightarrow> nat \<Rightarrow> bytes \<Rightarrow> 'w \<Rightarrow> (bool \<times> nat \<times> bytes \<times> 'w) ub" where
  "read_blocks P stop offset count p w =
     (if offset < stop
      then let (b, w1) = io_get P offset w
           in case b of
                None \<Rightarrow> Some (False, count, p, w1)
              | Some buf \<Rightarrow> do { bs \<leftarrow> rd_slice buf 0 IO_SIZE;
                                p1 \<leftarrow> wr_slice p count bs;
                                read_blocks P stop (offset + IO) (count + IO_SIZE) p1 w1 }
      else Some (True, count, p, w))"
  by pat_completeness auto
termination
  by (relation "measure (\<lambda>(P, stop, offset, count, p, w). nat (stop - offset))") (auto simp: IO_SIZE_def)

declare read_blocks.simps [simp del]

definition read_tail :: "'w pio \<Rightarrow> int \<Rightarrow> nat \<Rightarrow> nat \<Rightarrow> bytes \<Rightarrow> 'w \<Rightarrow> (nat \<times> bytes \<times> 'w) ub" where
  "read_tail P end' whole count p w =
     (if count < whole \<and> end' mod IO \<noteq> 0
      then let (b, w1) = io_get P (end' - end' mod IO) w
           in case b of
                None \<Rightarrow> Some (count, p, w1)
              | Some buf \<Rightarrow> do { bs \<leftarrow> rd_slice buf 0 (nat (end' mod IO));
                                p1 \<leftarrow> wr_slice p count bs;
                                Some (count + nat (end' mod IO), p1, w1) }
      else Some (count, p, w))"

definition head_end :: "int \<Rightarrow> int" where
  "head_end begin = (if begin mod IO = 0 then begin else begin - begin mod IO + IO)"

definition rk29_fread ::
  "'w pio \<Rightarrow> bytes option \<Rightarrow> nat \<Rightarrow> nat \<Rightarrow> (int \<times> int) option \<Rightarrow> 'w \<Rightarrow> (nat \<times> int option \<times> bytes option \<times> 'w) ub" where
  "rk29_fread P ptr size' nmemb stream w =
     (case (ptr, stream) of
        (Some p, Some (fd, tell)) \<Rightarrow>
          let begin = max 0 tell; whole = size' * nmemb mod 2 ^ 64; end' = long_of (begin + int whole)
          in if size' = 0 \<or> nmemb = 0 \<or> fd < 0 \<or> whole = 0 then Some (0, None, ptr, w)
             else do {
               (ok, count, p1, w1) \<leftarrow> read_head P begin end' p w;
               (ok2, count2, p2, w2) \<leftarrow> (if ok then read_blocks P (end' - end' mod IO) (head_end begin) count p1 w1
                                          else Some (False, count, p1, w1));
               (count3, p3, w3) \<leftarrow> (if ok2 then read_tail P end' whole count2 p2 w2 else Some (count2, p2, w2));
               Some (count3 div size', Some (begin + int (count3 div size' * size')), Some p3, w3) }
      | _ \<Rightarrow> Some (0, None, ptr, w))"

subsection \<open>Writing\<close>

text \<open>In the first part \<open>count\<close> is set before the block is written.\<close>

definition write_head :: "'w pio \<Rightarrow> int \<Rightarrow> int \<Rightarrow> bytes \<Rightarrow> 'w \<Rightarrow> (bool \<times> nat \<times> 'w) ub" where
  "write_head P begin end' p w =
     (if begin mod IO = 0 then Some (True, 0, w)
      else let offset = begin - begin mod IO; (b, w1) = io_get P offset w
      in case b of
           None \<Rightarrow> Some (False, 0, w1)
         | Some buf \<Rightarrow>
             if end' < begin then None
             else let count = nat (min end' (offset + IO) - begin)
             in do { bs \<leftarrow> rd_slice p 0 count;
                     buf1 \<leftarrow> wr_slice buf (nat (begin mod IO)) bs;
                     let (ok, w2) = io_put P buf1 offset w1;
                     Some (ok, count, w2) })"

function write_blocks :: "'w pio \<Rightarrow> int \<Rightarrow> int \<Rightarrow> nat \<Rightarrow> bytes \<Rightarrow> 'w \<Rightarrow> (bool \<times> nat \<times> 'w) ub" where
  "write_blocks P stop offset count p w =
     (if offset < stop
      then do { bs \<leftarrow> rd_slice p count IO_SIZE;
                let (ok, w1) = io_put P bs offset w;
                if ok then write_blocks P stop (offset + IO) (count + IO_SIZE) p w1
                else Some (False, count, w1) }
      else Some (True, count, w))"
  by pat_completeness auto
termination
  by (relation "measure (\<lambda>(P, stop, offset, count, p, w). nat (stop - offset))") (auto simp: IO_SIZE_def)

declare write_blocks.simps [simp del]

definition write_tail :: "'w pio \<Rightarrow> int \<Rightarrow> nat \<Rightarrow> nat \<Rightarrow> bytes \<Rightarrow> 'w \<Rightarrow> (nat \<times> 'w) ub" where
  "write_tail P end' whole count p w =
     (if count < whole \<and> end' mod IO \<noteq> 0
      then let (b, w1) = io_get P (end' - end' mod IO) w
           in case b of
                None \<Rightarrow> Some (count, w1)
              | Some buf \<Rightarrow> do { bs \<leftarrow> rd_slice p count (nat (end' mod IO));
                                buf1 \<leftarrow> wr_slice buf 0 bs;
                                let (ok, w2) = io_put P buf1 (end' - end' mod IO) w1;
                                Some (if ok then count + nat (end' mod IO) else count, w2) }
      else Some (count, w))"

definition rk29_fwrite ::
  "'w pio \<Rightarrow> bytes option \<Rightarrow> nat \<Rightarrow> nat \<Rightarrow> (int \<times> int) option \<Rightarrow> 'w \<Rightarrow> (nat \<times> int option \<times> 'w) ub" where
  "rk29_fwrite P ptr size' nmemb stream w =
     (case (ptr, stream) of
        (Some p, Some (fd, tell)) \<Rightarrow>
          let begin = max 0 tell; whole = size' * nmemb mod 2 ^ 64; end' = long_of (begin + int whole)
          in if size' = 0 \<or> nmemb = 0 \<or> fd < 0 \<or> whole = 0 then Some (0, None, w)
             else do {
               (ok, count, w1) \<leftarrow> write_head P begin end' p w;
               (ok2, count2, w2) \<leftarrow> (if ok then write_blocks P (end' - end' mod IO) (head_end begin) count p w1
                                      else Some (False, count, w1));
               (count3, w3) \<leftarrow> (if ok2 then write_tail P end' whole count2 p w2 else Some (count2, w2));
               Some (count3 div size', Some (begin + int (count3 div size' * size')), w3) }
      | _ \<Rightarrow> Some (0, None, w))"

subsection \<open>A plain device\<close>

definition spliced :: "'a list \<Rightarrow> nat \<Rightarrow> 'a list \<Rightarrow> 'a list" where
  "spliced c i ds = take i c @ ds @ drop (i + length ds) c"

text \<open>The documented behaviour of the two calls inside the device, over its contents.\<close>

definition pio_law :: "'w pio \<Rightarrow> ('w \<Rightarrow> bytes) \<Rightarrow> bool" where
  "pio_law P content \<longleftrightarrow>
     (\<forall>w n i. i + n \<le> length (content w) \<longrightarrow>
        (\<exists>w1. pread P n (int i) w = ((int n, take n (drop i (content w))), w1) \<and> content w1 = content w)) \<and>
     (\<forall>w bs i. i + length bs \<le> length (content w) \<longrightarrow>
        (\<exists>w1. pwrite P bs (int i) w = (int (length bs), w1) \<and> content w1 = spliced (content w) i bs))"

lemma spliced_length [simp]: "i + length ds \<le> length c \<Longrightarrow> length (spliced c i ds) = length c"
  by (simp add: spliced_def)

lemma spliced_nil [simp]: "spliced c i [] = c"
  by (simp add: spliced_def)

lemma spliced_append:
  assumes "i + length ds \<le> length c"
  shows "spliced (spliced c i ds) (i + length ds) es = spliced c i (ds @ es)"
proof -
  have "take (i + length ds) (spliced c i ds) = take i c @ ds" using assms by (simp add: spliced_def)
  moreover have "drop (i + length ds + length es) (spliced c i ds) = drop (i + length (ds @ es)) c"
    using assms by (simp add: spliced_def ac_simps)
  ultimately show ?thesis by (simp add: spliced_def [of "spliced c i ds"]) (simp add: spliced_def ac_simps)
qed

text \<open>Changing a part of a block and writing the block back.\<close>

lemma spliced_block:
  "i + n \<le> length c \<Longrightarrow> k + length ds \<le> n \<Longrightarrow> 
   spliced c i (take k (take n (drop i c)) @ ds @ drop (k + length ds) (take n (drop i c))) = spliced c (i + k) ds"
proof -
  assume a: "i + n \<le> length c" "k + length ds \<le> n"
  let ?m = "k + length ds"
  have 1: "take i c @ take k (drop i c) = take (i + k) c" by (simp add: take_add)
  have "take (n - ?m) (drop (i + ?m) c) @ drop (i + n) c = drop (i + ?m) c"
    using a append_take_drop_id [of "n - ?m" "drop (i + ?m) c"] by (simp add: add.commute)
  moreover have "i + k + length ds = i + ?m" by simp
  moreover have "take k (take n (drop i c)) = take k (drop i c)" "drop ?m (take n (drop i c)) = take (n - ?m) (drop (i + ?m) c)"
    using a by (simp_all add: drop_take ac_simps)
  moreover have "length (take k (take n (drop i c)) @ ds @ drop ?m (take n (drop i c))) = n" using a by simp
  ultimately show ?thesis using a 1 unfolding spliced_def by (metis append.assoc)
qed

lemma io_pos [simp]: "0 < IO_SIZE"
  by (simp add: IO_SIZE_def)

text \<open>The end of the block \<open>b\<close> stands in, when it does not stand at its start.\<close>

definition hend :: "nat \<Rightarrow> nat" where
  "hend b = (if b mod IO_SIZE = 0 then b else b - b mod IO_SIZE + IO_SIZE)"

lemma block_inside:
  assumes "IO_SIZE dvd n" "o' mod IO_SIZE = 0" "o' < n"
  shows "o' + IO_SIZE \<le> n"
proof -
  obtain i j where "n = IO_SIZE * i" "o' = IO_SIZE * j" using assms(1,2) by (auto elim!: dvdE simp: mod_eq_0_iff_dvd)
  then show ?thesis using assms(3) mult_le_mono2 [of "j + 1" i IO_SIZE] by simp
qed

lemma io_get_ok:
  assumes "pio_law P content" "o' + IO_SIZE \<le> length (content w)"
  shows "\<exists>w1. io_get P (int o') w = (Some (take IO_SIZE (drop o' (content w))), w1) \<and> content w1 = content w"
  using assms by (fastforce simp: pio_law_def io_get_def)

lemma io_put_ok:
  assumes "pio_law P content" "o' + IO_SIZE \<le> length (content w)" "length bs = IO_SIZE"
  shows "\<exists>w1. io_put P bs (int o') w = (True, w1) \<and> content w1 = spliced (content w) o' bs"
proof -
  have "o' + length bs \<le> length (content w)" using assms(2,3) by simp
  then obtain w1 where "pwrite P bs (int o') w = (int (length bs), w1)" "content w1 = spliced (content w) o' bs"
    using assms(1) unfolding pio_law_def by blast
  then show ?thesis using assms(3) by (simp add: io_put_def)
qed

lemma int_floor: "int b - int b mod IO = int (b - b mod IO_SIZE)"
  by (simp add: of_nat_diff zmod_int)

lemma hend_int: "head_end (int b) = int (hend b)"
proof -
  have "int b mod IO = 0 \<longleftrightarrow> b mod IO_SIZE = 0" by (metis of_nat_0_eq_iff zmod_int)
  then show ?thesis unfolding head_end_def hend_def int_floor by (cases "b mod IO_SIZE = 0") (simp_all only: of_nat_add if_True if_False simp_thms)
qed

lemma floor_facts: "(b - b mod IO_SIZE) mod IO_SIZE = 0" "b - b mod IO_SIZE + b mod IO_SIZE = b" "b mod IO_SIZE < IO_SIZE"
  by (simp_all add: minus_mod_eq_mult_div)

lemma hend_ge: "b \<le> hend b" "hend b mod IO_SIZE = 0"
proof -
  have "b \<le> b - b mod IO_SIZE + IO_SIZE" using floor_facts(2,3) [of b] by linarith
  then show "b \<le> hend b" unfolding hend_def by (cases "b mod IO_SIZE = 0") (simp_all only: if_P if_not_P order_refl not_False_eq_True)
  show "hend b mod IO_SIZE = 0" by (simp add: hend_def minus_mod_eq_mult_div)
qed

subsection \<open>Writing a plain device\<close>

lemma write_head_ok:
  assumes "pio_law P content" "b + n \<le> length (content w)" "IO_SIZE dvd length (content w)" "0 < n" "n \<le> length p"
  shows "\<exists>w1. write_head P (int b) (int (b + n)) p w = Some (True, min (b + n) (hend b) - b, w1) \<and>
    content w1 = spliced (content w) b (take (min (b + n) (hend b) - b) p)"
proof (cases "b mod IO_SIZE = 0")
  case True
  then show ?thesis by (simp add: write_head_def hend_def flip: zmod_int)
next
  case False
  define o' where "o' = b - b mod IO_SIZE"
  define k where "k = min (b + n) (hend b) - b"
  have o: "o' mod IO_SIZE = 0" "o' < b + n" "o' + b mod IO_SIZE = b" 
    using assms(4) floor_facts [of b] unfolding o'_def by linarith+
  have hb: "hend b = o' + IO_SIZE" using False by (simp add: hend_def o'_def)
  have inside: "o' + IO_SIZE \<le> length (content w)"
    using block_inside [OF assms(3) o(1)] o(2) assms(2) by simp
  obtain w1 where w1: "io_get P (int o') w = (Some (take IO_SIZE (drop o' (content w))), w1)" "content w1 = content w"
    using io_get_ok [OF assms(1) inside] by blast
  let ?buf = "take IO_SIZE (drop o' (content w))"
  have lb: "length ?buf = IO_SIZE" using inside by simp
  have k1: "b mod IO_SIZE + k \<le> IO_SIZE"
    using o(3) floor_facts(3) [of b] unfolding k_def hb by arith
  have k2: "k \<le> n" unfolding k_def by arith
  note k = k1 k2
  let ?buf1 = "take (b mod IO_SIZE) ?buf @ take k p @ drop (b mod IO_SIZE + k) ?buf"
  have "length ?buf1 = IO_SIZE" using lb k assms(5) by simp
  then obtain w2 where w2: "io_put P ?buf1 (int o') w1 = (True, w2)" "content w2 = spliced (content w) o' ?buf1"
    using io_put_ok [OF assms(1), of o' w1 ?buf1] inside w1(2) by auto
  have "spliced (content w) o' ?buf1 = spliced (content w) b (take k p)"
    using spliced_block [of o' IO_SIZE "content w" "b mod IO_SIZE" "take k p"] inside k o(3) assms(5) by simp
  moreover have "nat (min (int (b + n)) (int o' + IO) - int b) = k" by (simp add: k_def hb nat_diff_distrib)
  moreover have "wr_slice ?buf (b mod IO_SIZE) (take k p) = Some ?buf1"
    using k lb assms(5) by (simp add: mem_simps)
  moreover have "nat (int b mod IO) = b mod IO_SIZE" by (simp add: nat_mod_as_int)
  moreover have "int b - int b mod IO = int o'" using int_floor o'_def by simp
  ultimately show ?thesis using False w1 w2 k assms(5)
    by (simp add: write_head_def Let_def rd_slice_in flip: k_def of_nat_add zmod_int)
qed

lemma write_blocks_ok:
  "pio_law P content \<Longrightarrow> b + k = o' \<Longrightarrow> o' + m * IO_SIZE \<le> length c \<Longrightarrow> k + m * IO_SIZE \<le> length p \<Longrightarrow>
   content w = spliced c b (take k p) \<Longrightarrow>
   \<exists>w1. write_blocks P (int (o' + m * IO_SIZE)) (int o') k p w = Some (True, k + m * IO_SIZE, w1) \<and>
     content w1 = spliced c b (take (k + m * IO_SIZE) p)"
proof (induction m arbitrary: k o' w)
  case 0
  then show ?case by (subst write_blocks.simps) simp
next
  case (Suc m)
  let ?bs = "take IO_SIZE (drop k p)"
  have lw: "length (content w) = length c" using Suc.prems by simp
  obtain w1 where w1: "io_put P ?bs (int o') w = (True, w1)" "content w1 = spliced (content w) o' ?bs"
    using io_put_ok [OF Suc.prems(1), of o' w ?bs] Suc.prems lw by auto
  have "length (take k p) = k" using Suc.prems by simp
  then have "content w1 = spliced c b (take k p @ ?bs)"
    using w1(2) Suc.prems spliced_append [of b "take k p" c ?bs] by simp
  then have c1: "content w1 = spliced c b (take (k + IO_SIZE) p)" by (simp add: take_add)
  have "\<exists>w2. write_blocks P (int (o' + IO_SIZE + m * IO_SIZE)) (int (o' + IO_SIZE)) (k + IO_SIZE) p w1 =
      Some (True, k + IO_SIZE + m * IO_SIZE, w2) \<and> content w2 = spliced c b (take (k + IO_SIZE + m * IO_SIZE) p)"
    using Suc.prems c1 by (intro Suc.IH) auto
  moreover have "int o' < int (o' + Suc m * IO_SIZE)" using io_pos by (simp only: of_nat_less_iff) simp
  then have "write_blocks P (int (o' + Suc m * IO_SIZE)) (int o') k p w =
      write_blocks P (int (o' + Suc m * IO_SIZE)) (int (o' + IO_SIZE)) (k + IO_SIZE) p w1"
    using w1 Suc.prems(4) by (subst write_blocks.simps) (simp add: rd_slice_in Let_def)
  ultimately show ?case by (simp add: ac_simps)
qed

lemma write_tail_ok:
  assumes "pio_law P content" "b + n \<le> length c" "IO_SIZE dvd length c" "n \<le> length p"
    and "b + k = b + n - (b + n) mod IO_SIZE" "content w = spliced c b (take k p)"
  shows "\<exists>w1. write_tail P (int (b + n)) n k p w = Some (n, w1) \<and> content w1 = spliced c b (take n p)"
proof (cases "(b + n) mod IO_SIZE = 0")
  case True
  then show ?thesis using assms by (simp add: write_tail_def)
next
  case False
  let ?r = "(b + n) mod IO_SIZE" and ?o = "b + n - (b + n) mod IO_SIZE"
  have r: "k + ?r = n" "k < n" using assms(5) False floor_facts(2) [of "b + n"] by linarith+
  have o: "?o mod IO_SIZE = 0" by (rule floor_facts)
  have lw: "length (content w) = length c" using assms r by simp
  have "?o < length c" using assms(2) False floor_facts(2) [of "b + n"] by linarith
  then have inside: "?o + IO_SIZE \<le> length (content w)" using block_inside [OF assms(3) o] lw by simp
  obtain w1 where w1: "io_get P (int ?o) w = (Some (take IO_SIZE (drop ?o (content w))), w1)" "content w1 = content w"
    using io_get_ok [OF assms(1) inside] by blast
  let ?buf = "take IO_SIZE (drop ?o (content w))" and ?bs = "take ?r (drop k p)"
  let ?buf1 = "?bs @ drop ?r ?buf"
  have lr: "?r \<le> IO_SIZE" using mod_less_divisor [OF io_pos, of "b + n"] by simp
  have lbs: "length ?bs = ?r" using r assms(4) by simp
  have "length ?buf1 = IO_SIZE" using lbs lr inside by simp
  then obtain w2 where w2: "io_put P ?buf1 (int ?o) w1 = (True, w2)" "content w2 = spliced (content w) ?o ?buf1"
    using io_put_ok [OF assms(1), of ?o w1 ?buf1] inside w1(2) by auto
  have "spliced (content w) ?o ?buf1 = spliced (content w) ?o ?bs"
    using spliced_block [of ?o IO_SIZE "content w" 0 ?bs] inside lbs lr by simp
  also have "\<dots> = spliced c b (take k p @ ?bs)"
    using spliced_append [of b "take k p" c ?bs] assms r by (simp add: min_def)
  also have "take k p @ ?bs = take n p" using r by (metis take_add)
  finally have "content w2 = spliced c b (take n p)" using w2(2) by simp
  moreover have "wr_slice ?buf 0 ?bs = Some ?buf1" using lbs lr inside by (simp add: mem_simps)
  moreover have "nat (int (b + n) mod IO) = ?r" by (metis nat_int zmod_int)
  moreover have "int (b + n) - int (b + n) mod IO = int ?o" by (rule int_floor)
  moreover have "rd_slice p k ?r = Some ?bs" using r assms(4) by (simp add: mem_simps)
  moreover have "int (b + n) mod IO \<noteq> 0" using False by (metis of_nat_0_eq_iff zmod_int)
  ultimately show ?thesis using w1 w2 r
    by (simp add: write_tail_def Let_def del: of_nat_add)
qed


text \<open>Where the whole blocks end: at the end of the data, or at the end of the head when that is past it.\<close>

lemma middle_count:
  assumes "hend b \<le> b + n"
  shows "\<exists>m. b + n - (b + n) mod IO_SIZE = hend b + m * IO_SIZE"
proof -
  obtain i where i: "hend b = IO_SIZE * i" using hend_ge(2) [of b] by (auto simp: mod_eq_0_iff_dvd elim!: dvdE)
  have "i \<le> (b + n) div IO_SIZE"
    using assms i by (metis io_pos div_le_mono nonzero_mult_div_cancel_left less_not_refl)
  then have "IO_SIZE * ((b + n) div IO_SIZE) = IO_SIZE * i + ((b + n) div IO_SIZE - i) * IO_SIZE"
    by (metis add_mult_distrib2 le_add_diff_inverse mult.commute)
  then show ?thesis using i by (metis minus_mod_eq_mult_div)
qed

lemma head_only:
  assumes "b + n < hend b"
  shows "b + n - (b + n) mod IO_SIZE \<le> hend b" "(b + n) mod IO_SIZE = b mod IO_SIZE + n" "b mod IO_SIZE \<noteq> 0"
proof -
  show "b mod IO_SIZE \<noteq> 0" using assms by (auto simp: hend_def split: if_splits)
  then have h: "b + n < b - b mod IO_SIZE + IO_SIZE" using assms by (simp add: hend_def)
  have "b mod IO_SIZE + n < IO_SIZE" using h floor_facts(2) [of b] by linarith
  then show "(b + n) mod IO_SIZE = b mod IO_SIZE + n" by (metis mod_add_left_eq mod_less)
  show "b + n - (b + n) mod IO_SIZE \<le> hend b" using assms by simp
qed

lemma long_of_small: "0 \<le> i \<Longrightarrow> i < 2 ^ 63 \<Longrightarrow> long_of i = i"
  unfolding long_of_def
  by (simp add: sint_uint signed_take_bit_int_eq_self unsigned_of_int take_bit_int_eq_self)

lemma rk29_fwrite_plain:
  assumes "pio_law P content" "b + n \<le> length (content w)" "IO_SIZE dvd length (content w)" "n \<le> length p"
    and "n = size' * nmemb" "0 < n" "b + n < 2 ^ 63" "0 \<le> fd"
  shows "\<exists>w1. rk29_fwrite P (Some p) size' nmemb (Some (fd, int b)) w = Some (nmemb, Some (int (b + n)), w1) \<and>
    content w1 = spliced (content w) b (take n p)"
proof -
  define k where "k = min (b + n) (hend b) - b"
  have sz: "0 < size'" "0 < nmemb" using assms(5,6) by auto
  define E where "E = int (b + n)"
  have mx: "max 0 (int b) = int b" by simp
  have tot: "size' * nmemb mod 2 ^ 64 = n" using assms(5,7) by simp
  have e: "long_of (int b + int n) = E" using assms(7) unfolding E_def by (subst long_of_small) auto
  obtain w1 where w1: "write_head P (int b) (int (b + n)) p w = Some (True, k, w1)"
    "content w1 = spliced (content w) b (take k p)"
    using write_head_ok [OF assms(1-3,6,4)] unfolding k_def by blast
  have stop: "E - E mod IO = int (b + n - (b + n) mod IO_SIZE)" unfolding E_def by (rule int_floor)
  have unf: "rk29_fwrite P (Some p) size' nmemb (Some (fd, int b)) w = do {
      (ok, count, w1) \<leftarrow> write_head P (int b) E p w;
      (ok2, count2, w2) \<leftarrow> (if ok then write_blocks P (int (b + n - (b + n) mod IO_SIZE)) (int (hend b)) count p w1
                             else Some (False, count, w1));
      (count3, w3) \<leftarrow> (if ok2 then write_tail P E n count2 p w2 else Some (count2, w2));
      Some (count3 div size', Some (int b + int (count3 div size' * size')), w3) }"
    using sz assms(6,8) unfolding rk29_fwrite_def Let_def prod.case option.case tot mx e stop hend_int
    by simp
  have "\<exists>w3. (do {
      (ok2, count2, w2) \<leftarrow> write_blocks P (int (b + n - (b + n) mod IO_SIZE)) (int (hend b)) k p w1;
      if ok2 then write_tail P (int (b + n)) n count2 p w2 else Some (count2, w2) }) = Some (n, w3) \<and>
      content w3 = spliced (content w) b (take n p)"
  proof (cases "hend b \<le> b + n")
    case True
    then obtain m where m: "b + n - (b + n) mod IO_SIZE = hend b + m * IO_SIZE" using middle_count by blast
    have k: "b + k = hend b" using True hend_ge(1) [of b] by (simp add: k_def)
    have km: "b + (k + m * IO_SIZE) = b + n - (b + n) mod IO_SIZE" using k m by simp
    have le: "k + m * IO_SIZE \<le> n" using km floor_facts(2) [of "b + n"] by linarith
    obtain w2 where w2: "write_blocks P (int (hend b + m * IO_SIZE)) (int (hend b)) k p w1 = Some (True, k + m * IO_SIZE, w2)"
      "content w2 = spliced (content w) b (take (k + m * IO_SIZE) p)"
      using write_blocks_ok [OF assms(1) k _ _ w1(2), of m] le assms(2,4) k by auto
    obtain w3 where "write_tail P (int (b + n)) n (k + m * IO_SIZE) p w2 = Some (n, w3)"
      "content w3 = spliced (content w) b (take n p)"
      using write_tail_ok [OF assms(1-4) km w2(2)] by blast
    then show ?thesis using w2(1) m by simp
  next
    case False
    then have k: "k = n" by (simp add: k_def)
    have "write_blocks P (int (b + n - (b + n) mod IO_SIZE)) (int (hend b)) k p w1 = Some (True, n, w1)"
      using head_only(1) [of b n] False k by (subst write_blocks.simps) (simp add: not_less)
    then show ?thesis using w1(2) k by (simp add: write_tail_def)
  qed
  moreover have "n div size' = nmemb" "int b + int (nmemb * size') = int (b + n)" using assms(5) sz by (simp_all add: mult.commute)
  ultimately show ?thesis using w1(1) unfolding unf E_def
    by (fastforce simp: bind_eq_Some_conv simp del: of_nat_add of_nat_mult)
qed

subsection \<open>Reading a plain device\<close>

lemma wr_slice_spliced: "i + length ds \<le> length c \<Longrightarrow> wr_slice c i ds = Some (spliced c i ds)"
  by (simp add: wr_slice_in spliced_def)

lemma read_head_ok:
  assumes "pio_law P content" "b + n \<le> length (content w)" "IO_SIZE dvd length (content w)" "0 < n" "n \<le> length p"
  shows "\<exists>w1. read_head P (int b) (int (b + n)) p w =
      Some (True, min (b + n) (hend b) - b, spliced p 0 (take (min (b + n) (hend b) - b) (drop b (content w))), w1) \<and>
    content w1 = content w"
proof (cases "b mod IO_SIZE = 0")
  case True
  then show ?thesis by (simp add: read_head_def hend_def flip: zmod_int)
next
  case False
  define o' where "o' = b - b mod IO_SIZE"
  define k where "k = min (b + n) (hend b) - b"
  have o: "o' mod IO_SIZE = 0" "o' < b + n" "o' + b mod IO_SIZE = b"
    using assms(4) floor_facts [of b] unfolding o'_def by linarith+
  have hb: "hend b = o' + IO_SIZE" using False by (simp add: hend_def o'_def)
  have inside: "o' + IO_SIZE \<le> length (content w)"
    using block_inside [OF assms(3) o(1)] o(2) assms(2) by simp
  obtain w1 where w1: "io_get P (int o') w = (Some (take IO_SIZE (drop o' (content w))), w1)" "content w1 = content w"
    using io_get_ok [OF assms(1) inside] by blast
  let ?buf = "take IO_SIZE (drop o' (content w))"
  have k1: "b mod IO_SIZE + k \<le> IO_SIZE"
    using o(3) floor_facts(3) [of b] unfolding k_def hb by arith
  have k2: "k \<le> n" unfolding k_def by arith
  have "rd_slice ?buf (b mod IO_SIZE) k = Some (take k (drop (b mod IO_SIZE) ?buf))"
    using inside k1 by (simp add: mem_simps)
  also have "take k (drop (b mod IO_SIZE) ?buf) = take k (drop b (content w))"
    using k1 o(3) by (simp add: drop_take add.commute)
  finally have rds: "rd_slice ?buf (b mod IO_SIZE) k = Some (take k (drop b (content w)))" .
  moreover have "wr_slice p 0 (take k (drop b (content w))) = Some (spliced p 0 (take k (drop b (content w))))"
    using k2 assms(5) by (intro wr_slice_spliced) simp
  moreover have "nat (min (int (b + n)) (int o' + IO) - int b) = k" by (simp add: k_def hb nat_diff_distrib)
  moreover have "nat (int b mod IO) = b mod IO_SIZE" by (simp add: nat_mod_as_int)
  moreover have "int b - int b mod IO = int o'" using int_floor o'_def by simp
  ultimately show ?thesis using False w1
    by (simp add: read_head_def Let_def flip: k_def of_nat_add zmod_int)
qed

lemma read_blocks_ok:
  "pio_law P content \<Longrightarrow> b + k = o' \<Longrightarrow> o' + m * IO_SIZE \<le> length c \<Longrightarrow> k + m * IO_SIZE \<le> length p0 \<Longrightarrow>
   content w = c \<Longrightarrow>
   \<exists>w1. read_blocks P (int (o' + m * IO_SIZE)) (int o') k (spliced p0 0 (take k (drop b c))) w =
      Some (True, k + m * IO_SIZE, spliced p0 0 (take (k + m * IO_SIZE) (drop b c)), w1) \<and> content w1 = c"
proof (induction m arbitrary: k o' w)
  case 0
  then show ?case by (subst read_blocks.simps) simp
next
  case (Suc m)
  let ?bs = "take IO_SIZE (drop o' c)" and ?p = "spliced p0 0 (take k (drop b c))"
  obtain w1 where w1: "io_get P (int o') w = (Some ?bs, w1)" "content w1 = c"
    using io_get_ok [OF Suc.prems(1), of o' w] Suc.prems by auto
  have lk: "length (take k (drop b c)) = k" using Suc.prems by simp
  have lbs: "length ?bs = IO_SIZE" using Suc.prems by simp
  have "wr_slice ?p k ?bs = Some (spliced ?p k ?bs)"
    using Suc.prems lk lbs by (intro wr_slice_spliced) simp
  also have "spliced ?p k ?bs = spliced p0 0 (take k (drop b c) @ ?bs)"
    using spliced_append [of 0 "take k (drop b c)" p0 ?bs] Suc.prems lk by simp
  also have "take k (drop b c) @ ?bs = take (k + IO_SIZE) (drop b c)"
    using Suc.prems(2) by (metis add.commute drop_drop take_add)
  finally have wrs: "wr_slice ?p k ?bs = Some (spliced p0 0 (take (k + IO_SIZE) (drop b c)))" .
  have "int o' < int (o' + Suc m * IO_SIZE)" using io_pos by (simp only: of_nat_less_iff) simp
  then have "read_blocks P (int (o' + Suc m * IO_SIZE)) (int o') k ?p w =
      read_blocks P (int (o' + Suc m * IO_SIZE)) (int (o' + IO_SIZE)) (k + IO_SIZE) (spliced p0 0 (take (k + IO_SIZE) (drop b c))) w1"
    using w1 wrs lbs by (subst read_blocks.simps) (simp add: rd_slice_in Let_def)
  moreover have "\<exists>w2. read_blocks P (int (o' + IO_SIZE + m * IO_SIZE)) (int (o' + IO_SIZE)) (k + IO_SIZE)
        (spliced p0 0 (take (k + IO_SIZE) (drop b c))) w1 =
      Some (True, k + IO_SIZE + m * IO_SIZE, spliced p0 0 (take (k + IO_SIZE + m * IO_SIZE) (drop b c)), w2) \<and> content w2 = c"
    using Suc.prems w1(2) by (intro Suc.IH) auto
  ultimately show ?case by (simp add: ac_simps)
qed

lemma read_tail_ok:
  assumes "pio_law P content" "b + n \<le> length c" "IO_SIZE dvd length c" "n \<le> length p0"
    and "b + k = b + n - (b + n) mod IO_SIZE" "content w = c"
  shows "\<exists>w1. read_tail P (int (b + n)) n k (spliced p0 0 (take k (drop b c))) w = Some (n, spliced p0 0 (take n (drop b c)), w1) \<and>
    content w1 = c"
proof (cases "(b + n) mod IO_SIZE = 0")
  case True
  then show ?thesis using assms by (simp add: read_tail_def)
next
  case False
  let ?r = "(b + n) mod IO_SIZE" and ?o = "b + n - (b + n) mod IO_SIZE" and ?p = "spliced p0 0 (take k (drop b c))"
  have r: "k + ?r = n" "k < n" using assms(5) False floor_facts(2) [of "b + n"] by linarith+
  have o: "?o mod IO_SIZE = 0" by (rule floor_facts)
  have "?o < length c" using assms(2) False floor_facts(2) [of "b + n"] by linarith
  then have inside: "?o + IO_SIZE \<le> length (content w)" using block_inside [OF assms(3) o] assms(6) by simp
  obtain w1 where w1: "io_get P (int ?o) w = (Some (take IO_SIZE (drop ?o c)), w1)" "content w1 = c"
    using io_get_ok [OF assms(1) inside] assms(6) by blast
  let ?buf = "take IO_SIZE (drop ?o c)"
  have lr: "?r \<le> IO_SIZE" using mod_less_divisor [OF io_pos, of "b + n"] by simp
  have lk: "length (take k (drop b c)) = k" using assms(2) r by simp
  have "rd_slice ?buf 0 ?r = Some (take ?r (drop (b + k) c))"
    using lr inside assms(5,6) by (simp add: mem_simps)
  moreover have "wr_slice ?p k (take ?r (drop (b + k) c)) = Some (spliced ?p k (take ?r (drop (b + k) c)))"
    using assms(2,4) r lk by (intro wr_slice_spliced) simp
  moreover have "spliced ?p k (take ?r (drop (b + k) c)) = spliced p0 0 (take k (drop b c) @ take ?r (drop (b + k) c))"
    using spliced_append [of 0 "take k (drop b c)" p0] lk assms(4) r by simp
  moreover have "take k (drop b c) @ take ?r (drop (b + k) c) = take n (drop b c)"
    using r by (metis add.commute drop_drop take_add)
  moreover have "nat (int (b + n) mod IO) = ?r" by (metis nat_int zmod_int)
  moreover have "int (b + n) - int (b + n) mod IO = int ?o" by (rule int_floor)
  moreover have "int (b + n) mod IO \<noteq> 0" using False by (metis of_nat_0_eq_iff zmod_int)
  ultimately show ?thesis using w1 r
    by (simp add: read_tail_def Let_def del: of_nat_add)
qed

lemma rk29_fread_plain:
  assumes "pio_law P content" "b + n \<le> length (content w)" "IO_SIZE dvd length (content w)" "n \<le> length p"
    and "n = size' * nmemb" "0 < n" "b + n < 2 ^ 63" "0 \<le> fd"
  shows "\<exists>w1. rk29_fread P (Some p) size' nmemb (Some (fd, int b)) w =
      Some (nmemb, Some (int (b + n)), Some (spliced p 0 (take n (drop b (content w)))), w1) \<and> content w1 = content w"
proof -
  define k where "k = min (b + n) (hend b) - b"
  let ?c = "content w"
  have sz: "0 < size'" "0 < nmemb" using assms(5,6) by auto
  define E where "E = int (b + n)"
  have mx: "max 0 (int b) = int b" by simp
  have tot: "size' * nmemb mod 2 ^ 64 = n" using assms(5,7) by simp
  have e: "long_of (int b + int n) = E" using assms(7) unfolding E_def by (subst long_of_small) auto
  obtain w1 where w1: "read_head P (int b) (int (b + n)) p w = Some (True, k, spliced p 0 (take k (drop b ?c)), w1)"
    "content w1 = ?c"
    using read_head_ok [OF assms(1-3,6,4)] unfolding k_def by blast
  have stop: "E - E mod IO = int (b + n - (b + n) mod IO_SIZE)" unfolding E_def by (rule int_floor)
  have unf: "rk29_fread P (Some p) size' nmemb (Some (fd, int b)) w = do {
      (ok, count, p1, w1) \<leftarrow> read_head P (int b) E p w;
      (ok2, count2, p2, w2) \<leftarrow> (if ok then read_blocks P (int (b + n - (b + n) mod IO_SIZE)) (int (hend b)) count p1 w1
                             else Some (False, count, p1, w1));
      (count3, p3, w3) \<leftarrow> (if ok2 then read_tail P E n count2 p2 w2 else Some (count2, p2, w2));
      Some (count3 div size', Some (int b + int (count3 div size' * size')), Some p3, w3) }"
    using sz assms(6,8) unfolding rk29_fread_def Let_def prod.case option.case tot mx e stop hend_int
    by simp
  have "\<exists>w3. (do {
      (ok2, count2, p2, w2) \<leftarrow> read_blocks P (int (b + n - (b + n) mod IO_SIZE)) (int (hend b)) k (spliced p 0 (take k (drop b ?c))) w1;
      if ok2 then read_tail P (int (b + n)) n count2 p2 w2 else Some (count2, p2, w2) }) =
        Some (n, spliced p 0 (take n (drop b ?c)), w3) \<and> content w3 = ?c"
  proof (cases "hend b \<le> b + n")
    case True
    then obtain m where m: "b + n - (b + n) mod IO_SIZE = hend b + m * IO_SIZE" using middle_count by blast
    have k: "b + k = hend b" using True hend_ge(1) [of b] by (simp add: k_def)
    have km: "b + (k + m * IO_SIZE) = b + n - (b + n) mod IO_SIZE" using k m by simp
    have le: "k + m * IO_SIZE \<le> n" using km floor_facts(2) [of "b + n"] by linarith
    obtain w2 where w2: "read_blocks P (int (hend b + m * IO_SIZE)) (int (hend b)) k (spliced p 0 (take k (drop b ?c))) w1 =
        Some (True, k + m * IO_SIZE, spliced p 0 (take (k + m * IO_SIZE) (drop b ?c)), w2)"
      "content w2 = ?c"
      using read_blocks_ok [OF assms(1) k _ _ w1(2), of m p] le assms(2,4) k by auto
    obtain w3 where "read_tail P (int (b + n)) n (k + m * IO_SIZE) (spliced p 0 (take (k + m * IO_SIZE) (drop b ?c))) w2 =
        Some (n, spliced p 0 (take n (drop b ?c)), w3)" "content w3 = ?c"
      using read_tail_ok [OF assms(1-4) km w2(2)] by blast
    then show ?thesis using w2(1) m by simp
  next
    case False
    then have k: "k = n" by (simp add: k_def)
    have "read_blocks P (int (b + n - (b + n) mod IO_SIZE)) (int (hend b)) k (spliced p 0 (take k (drop b ?c))) w1 =
        Some (True, n, spliced p 0 (take n (drop b ?c)), w1)"
      using head_only(1) [of b n] False k by (subst read_blocks.simps) (simp add: not_less)
    then show ?thesis using w1(2) k by (simp add: read_tail_def)
  qed
  moreover have "n div size' = nmemb" "int b + int (nmemb * size') = int (b + n)" using assms(5) sz by (simp_all add: mult.commute)
  ultimately show ?thesis using w1(1) unfolding unf E_def
    by (fastforce simp: bind_eq_Some_conv simp del: of_nat_add of_nat_mult)
qed


subsection \<open>Properties\<close>

lemma spliced_read: "i + length ds \<le> length c \<Longrightarrow> take (length ds) (drop i (spliced c i ds)) = ds"
  by (simp add: spliced_def)

text \<open>
  C39: inside a device of whole blocks, writing items through 16 KB blocks is the plain write: all items are
  counted, the position moves past them and exactly the bytes from the position on are replaced; reading
  them back from there answers all of them with the bytes that were written, and leaves the device alone.
\<close>

theorem block_io_exact:
  assumes "pio_law P content" and "IO_SIZE dvd length (content w)" and "b + size' * nmemb \<le> length (content w)"
    and "length p = size' * nmemb" and "0 < size' * nmemb" and "length (content w) < 2 ^ 63" and "0 \<le> fd"
    and "length q = size' * nmemb"
  shows "\<exists>w1 w2. rk29_fwrite P (Some p) size' nmemb (Some (fd, int b)) w =
        Some (nmemb, Some (int (b + size' * nmemb)), w1) \<and>
      content w1 = take b (content w) @ p @ drop (b + size' * nmemb) (content w) \<and>
      rk29_fread P (Some q) size' nmemb (Some (fd, int b)) w1 =
        Some (nmemb, Some (int (b + size' * nmemb)), Some p, w2) \<and> content w2 = content w1"
proof -
  obtain w1 where w1: "rk29_fwrite P (Some p) size' nmemb (Some (fd, int b)) w = Some (nmemb, Some (int (b + size' * nmemb)), w1)"
    "content w1 = spliced (content w) b p"
    using rk29_fwrite_plain [OF assms(1,3,2) _ refl assms(5) _ assms(7), of p] assms(3,4,6) by auto
  have len: "length (content w1) = length (content w)" using w1(2) assms(3,4) by simp
  obtain w2 where "rk29_fread P (Some q) size' nmemb (Some (fd, int b)) w1 =
      Some (nmemb, Some (int (b + size' * nmemb)), Some (spliced q 0 (take (size' * nmemb) (drop b (content w1)))), w2)"
    "content w2 = content w1"
    using rk29_fread_plain [OF assms(1) _ _ _ refl assms(5) _ assms(7), of b w1 q] assms(2,3,6,8) len by auto
  moreover have "take (size' * nmemb) (drop b (content w1)) = p"
    using spliced_read [of b p "content w"] assms(3,4) w1(2) by simp
  moreover have "spliced q 0 p = p" using assms(4,8) by (simp add: spliced_def)
  moreover have "spliced (content w) b p = take b (content w) @ p @ drop (b + size' * nmemb) (content w)"
    using assms(4) by (simp add: spliced_def)
  ultimately show ?thesis using w1 by (metis (no_types))
qed

definition file_pio :: "bytes pio" where
  "file_pio = \<lparr>pread = (\<lambda>n off w. ((int (length (take n (drop (nat off) w))), take n (drop (nat off) w)), w)),
     pwrite = (\<lambda>bs off w. if nat off + length bs \<le> length w then (int (length bs), spliced w (nat off) bs) else (- 1, w))\<rparr>"

lemma file_pio_law: "pio_law file_pio (\<lambda>w. w)"
  by (simp add: pio_law_def file_pio_def)

theorem block_io_exact_witness:
  "\<exists>w1 w2. rk29_fwrite file_pio (Some [7, 8, 9, 10]) 2 2 (Some (3, int 16382)) (replicate 32768 0) =
        Some (2, Some (int (16382 + 2 * 2)), w1) \<and>
      w1 = take 16382 (replicate 32768 0) @ [7, 8, 9, 10] @ drop (16382 + 2 * 2) (replicate 32768 0) \<and>
      rk29_fread file_pio (Some [0, 0, 0, 0]) 2 2 (Some (3, int 16382)) w1 =
        Some (2, Some (int (16382 + 2 * 2)), Some [7, 8, 9, 10], w2) \<and> w2 = w1"
  using block_io_exact [of file_pio "\<lambda>w. w" "replicate 32768 0" 16382 2 2 "[7, 8, 9, 10]" 3 "[0, 0, 0, 0]"] file_pio_law
  by (simp add: IO_SIZE_def del: take_replicate drop_replicate)

text \<open>
  When the position is inside a block and the data ends in the same block, a block that cannot be written
  is counted as written all the same.
\<close>

lemma rk29_fwrite_reports_unwritten:
  assumes "pread P IO_SIZE (int (b - b mod IO_SIZE)) w = ((IO, buf), w1)" "length buf = IO_SIZE"
    and "b mod IO_SIZE \<noteq> 0" "b mod IO_SIZE + n \<le> IO_SIZE" "length p = n" "n = size' * nmemb" "0 < n" "b + n < 2 ^ 63" "0 \<le> fd"
    and "\<forall>bs. pwrite P bs (int (b - b mod IO_SIZE)) w1 = (- 1, w2)"
  shows "rk29_fwrite P (Some p) size' nmemb (Some (fd, int b)) w = Some (nmemb, Some (int (b + n)), w2)"
proof -
  have sz: "0 < size'" "0 < nmemb" using assms(6,7) by auto
  define E where "E = int (b + n)"
  have mx: "max 0 (int b) = int b" by simp
  have tot: "size' * nmemb mod 2 ^ 64 = n" using assms(6,8) by simp
  have e: "long_of (int b + int n) = E" using assms(8) unfolding E_def by (subst long_of_small) auto
  have get: "io_get P (int (b - b mod IO_SIZE)) w = (Some buf, w1)" using assms(1) by (simp add: io_get_def)
  have put: "io_put P bs (int (b - b mod IO_SIZE)) w1 = (False, w2)" for bs
    using assms(10) by (simp add: io_put_def)
  have "min E (int (b - b mod IO_SIZE) + IO) = E" using assms(4) floor_facts(2) [of b] unfolding E_def by linarith
  then have cnt: "nat (min E (int (b - b mod IO_SIZE) + IO) - int b) = n" by (simp add: E_def)
  have "int b mod IO \<noteq> 0" using assms(3) by (metis of_nat_0_eq_iff zmod_int)
  moreover have "nat (int b mod IO) = b mod IO_SIZE" by (simp add: nat_mod_as_int)
  moreover have "\<not> E < int b" by (simp add: E_def)
  moreover have "rd_slice p 0 n = Some p" using assms(5) by (simp add: mem_simps)
  moreover have "wr_slice buf (b mod IO_SIZE) p = Some (spliced buf (b mod IO_SIZE) p)"
    using assms(2,4,5) by (simp add: wr_slice_spliced)
  ultimately have "write_head P (int b) E p w = Some (False, n, w2)"
    unfolding write_head_def int_floor Let_def get prod.case option.case cnt by (simp add: put Let_def del: of_nat_diff of_nat_diff_if)
  moreover have "n div size' = nmemb" "int b + int (nmemb * size') = int (b + n)" using assms(6) sz by (simp_all add: mult.commute)
  ultimately show ?thesis using sz assms(7,9) unfolding rk29_fwrite_def Let_def prod.case option.case tot mx e
    by (simp del: of_nat_add of_nat_mult)
qed

end
