(* ===== verification/Mounts.thy ===== *)
theory Mounts
  imports Host
begin

text \<open>
  The table of mounted volumes: \<open>mtdutils/mounts.c\<close>.  \<open>/proc/mounts\<close> is text without NUL; its first 2047
  characters are read.  A pointer to a volume is its index in the table; a field that was freed, or
  that \<open>strdup\<close> could not allocate, is \<open>None\<close>.
\<close>

subsection \<open>The table\<close>

record mounted_volume =
  mv_device :: "string option"
  mv_mount_point :: "string option"
  mv_filesystem :: "string option"
  mv_flags :: "string option"

record mounts_state =
  volumes :: "mounted_volume list option"
  volume_count :: nat

definition numv :: nat where "numv = 32"

text \<open>A volume after \<open>free_volume_internals(v, 1)\<close>, and in a new table.\<close>

definition no_volume :: mounted_volume where
  "no_volume = \<lparr>mv_device = None, mv_mount_point = None, mv_filesystem = None, mv_flags = None\<rparr>"

subsection \<open>Scanning a line\<close>

text \<open>\<open>%ns\<close>: white space is skipped, then at most \<open>n\<close> other characters are taken.\<close>

definition scan_word :: "nat \<Rightarrow> string \<Rightarrow> (string \<times> string) option" where
  "scan_word n s =
     (let s1 = dropWhile is_space s; t = take n (takeWhile (\<lambda>c. \<not> is_space c) s1)
      in if t = [] then None else Some (t, drop (length t) s1))"

text \<open>\<open>sscanf(bufp, "%63s %63s %63s %127s", ...)\<close> when it answers 4.\<close>

definition sscanf_mount :: "string \<Rightarrow> (string \<times> string \<times> string \<times> string) option" where
  "sscanf_mount s =
     do { (device, s1) \<leftarrow> scan_word 63 s;
          (mount_point, s2) \<leftarrow> scan_word 63 s1;
          (filesystem, s3) \<leftarrow> scan_word 63 s2;
          (flags, s4) \<leftarrow> scan_word 127 s3;
          Some (device, mount_point, filesystem, flags) }"

definition strdup :: "(nat \<Rightarrow> bool) \<Rightarrow> string \<Rightarrow> string option" where
  "strdup alloc s = (if alloc (length s + 1) then Some s else None)"

definition new_volume :: "(nat \<Rightarrow> bool) \<Rightarrow> string \<times> string \<times> string \<times> string \<Rightarrow> mounted_volume" where
  "new_volume alloc l = (case l of (d, m, f, fl) \<Rightarrow>
     \<lparr>mv_device = strdup alloc d, mv_mount_point = strdup alloc m, mv_filesystem = strdup alloc f,
      mv_flags = strdup alloc fl\<rparr>)"

text \<open>The loop over the lines.  The count is not compared with the places there are.\<close>

function mount_lines ::
  "(nat \<Rightarrow> bool) \<Rightarrow> string \<Rightarrow> mounted_volume list \<Rightarrow> nat \<Rightarrow> (mounted_volume list \<times> nat) ub" where
  "mount_lines alloc bufp vs cnt =
     (if bufp = [] then Some (vs, cnt)
      else case sscanf_mount bufp of
        None \<Rightarrow> mount_lines alloc (eat_line bufp) vs cnt
      | Some l \<Rightarrow> do { vs1 \<leftarrow> wr vs cnt (new_volume alloc l);
                       mount_lines alloc (eat_line bufp) vs1 (cnt + 1) })"
  by pat_completeness auto
termination
  by (relation "measure (\<lambda>(alloc, bufp, vs, cnt). length bufp)") (auto simp: eat_line_shorter)

declare mount_lines.simps [simp del]

definition scan_mounted_volumes :: "'w host \<Rightarrow> mounts_state \<Rightarrow> 'w \<Rightarrow> (int \<times> mounts_state \<times> 'w) ub" where
  "scan_mounted_volumes H g w =
     (if volumes g = None \<and> \<not> h_alloc H (numv * 32) then Some (- 1, g, w)
      else let vs = (case volumes g of
                       None \<Rightarrow> replicate numv no_volume
                     | Some vs \<Rightarrow> replicate (min (volume_count g) (length vs)) no_volume @ drop (volume_count g) vs);
               (txt, w1) = h_read H ''/proc/mounts'' 2047 w
           in case txt of
                None \<Rightarrow> Some (- 1, \<lparr>volumes = Some vs, volume_count = 0\<rparr>, w1)
              | Some t \<Rightarrow> do { (vs1, cnt) \<leftarrow> mount_lines (h_alloc H) (take 2047 t) vs 0;
                               Some (0, \<lparr>volumes = Some vs1, volume_count = cnt\<rparr>, w1) })"

subsection \<open>Searching and unmounting\<close>

fun find_index :: "('a \<Rightarrow> bool) \<Rightarrow> 'a list \<Rightarrow> nat option" where
  "find_index P [] = None"
| "find_index P (x # xs) = (if P x then Some 0 else map_option Suc (find_index P xs))"

definition find_volume :: "(mounted_volume \<Rightarrow> bool) \<Rightarrow> mounts_state \<Rightarrow> nat option" where
  "find_volume P g =
     (case volumes g of None \<Rightarrow> None | Some vs \<Rightarrow> find_index P (take (volume_count g) vs))"

definition find_mounted_volume_by_device :: "mounts_state \<Rightarrow> string \<Rightarrow> nat option" where
  "find_mounted_volume_by_device g device = find_volume (\<lambda>v. mv_device v = Some device) g"

definition find_mounted_volume_by_mount_point :: "mounts_state \<Rightarrow> string \<Rightarrow> nat option" where
  "find_mounted_volume_by_mount_point g mount_point = find_volume (\<lambda>v. mv_mount_point v = Some mount_point) g"

definition volume_at :: "mounts_state \<Rightarrow> nat \<Rightarrow> mounted_volume ub" where
  "volume_at g i = (case volumes g of None \<Rightarrow> None | Some vs \<Rightarrow> rd vs i)"

definition unmount_mounted_volume :: "'w host \<Rightarrow> nat \<Rightarrow> mounts_state \<Rightarrow> 'w \<Rightarrow> (int \<times> mounts_state \<times> 'w) ub" where
  "unmount_mounted_volume H i g w =
     do { v \<leftarrow> volume_at g i;
          let (ret, w1) = h_umount H (mv_mount_point v) w;
          Some (ret, if ret = 0 then g\<lparr>volumes := map_option (\<lambda>vs. vs[i := no_volume]) (volumes g)\<rparr> else g, w1) }"

definition MS_REMOUNT :: u64 where "MS_REMOUNT = 32"

definition remount_read_only :: "'w host \<Rightarrow> mounted_volume \<Rightarrow> 'w \<Rightarrow> (int \<times> 'w) ub" where
  "remount_read_only H v w =
     do { m \<leftarrow> mv_mount_point v;
          f \<leftarrow> mv_filesystem v;
          Some (h_mount H (mv_device v) m f (MS_NOATIME OR MS_NODEV OR MS_NODIRATIME OR MS_RDONLY OR MS_REMOUNT) w) }"

subsection \<open>Reading back a printed table\<close>

text \<open>The layout of \<open>/proc/mounts\<close> that the comment in \<open>scan_mounted_volumes\<close> shows.\<close>

type_synonym mount_line = "string \<times> string \<times> string \<times> string"

definition print_mount :: "mount_line \<Rightarrow> string" where
  "print_mount l = (case l of (d, m, f, fl) \<Rightarrow>
     d @ '' '' @ m @ '' '' @ f @ '' '' @ fl @ '' 0 0'' @ [CHR 0x0A])"

definition word_ok :: "nat \<Rightarrow> string \<Rightarrow> bool" where
  "word_ok n s \<longleftrightarrow> s \<noteq> [] \<and> length s \<le> n \<and> (\<forall>c\<in>set s. \<not> is_space c)"

definition mount_ok :: "mount_line \<Rightarrow> bool" where
  "mount_ok l \<longleftrightarrow> (case l of (d, m, f, fl) \<Rightarrow> word_ok 63 d \<and> word_ok 63 m \<and> word_ok 63 f \<and> word_ok 127 fl)"

lemma scan_word_ok: "word_ok n s \<Longrightarrow> scan_word n (s @ CHR '' '' # r) = Some (s, CHR '' '' # r)"
  using blank_space
  by (cases s) (auto simp: word_ok_def scan_word_def takeWhile_append Let_def)

lemma scan_word_blank [simp]: "scan_word n (CHR '' '' # r) = scan_word n r"
  by (simp add: scan_word_def blank_space)

lemma newline_space: "is_space (CHR 0x0A)"
  by (simp add: is_space_def)

lemma word_newline: "word_ok n s \<Longrightarrow> CHR 0x0A \<notin> set s"
  using newline_space by (auto simp: word_ok_def)

lemma sscanf_mount_line:
  assumes "mount_ok l"
  shows "sscanf_mount (print_mount l @ r) = Some l" "eat_line (print_mount l @ r) = r"
proof -
  obtain d m f fl where l: "l = (d, m, f, fl)" by (cases l)
  have w: "word_ok 63 d" "word_ok 63 m" "word_ok 63 f" "word_ok 127 fl" using assms by (simp_all add: l mount_ok_def)
  have p: "print_mount l @ r = d @ CHR '' '' # m @ CHR '' '' # f @ CHR '' '' # fl @ CHR '' '' # ''0 0'' @ CHR 0x0A # r"
    by (simp add: l print_mount_def)
  show "sscanf_mount (print_mount l @ r) = Some l"
    unfolding p by (simp add: l sscanf_mount_def scan_word_ok w)
  have "\<forall>c\<in>set (d @ CHR '' '' # m @ CHR '' '' # f @ CHR '' '' # fl @ CHR '' '' # ''0 0''). c \<noteq> CHR 0x0A"
    using w word_newline by auto
  from eat_ok [OF this, of r] show "eat_line (print_mount l @ r) = r" unfolding p by simp
qed

lemma mount_lines_all:
  "\<forall>l\<in>set ls. mount_ok l \<Longrightarrow> length pre + length ls \<le> length pre + length post \<Longrightarrow>
   mount_lines alloc (concat (map print_mount ls)) (pre @ post) (length pre) =
     Some (pre @ map (new_volume alloc) ls @ drop (length ls) post, length pre + length ls)"
proof (induction ls arbitrary: pre post)
  case Nil
  then show ?case by (subst mount_lines.simps) simp
next
  case (Cons l ls)
  then obtain x post' where post: "post = x # post'" by (cases post) auto
  have ok: "mount_ok l" using Cons.prems by simp
  have "print_mount l \<noteq> []" by (simp add: print_mount_def split: prod.splits)
  then show ?case
    using Cons.prems Cons.IH [of "pre @ [new_volume alloc l]" post'] post sscanf_mount_line [OF ok, of "concat (map print_mount ls)"]
    by (subst mount_lines.simps) (simp add: wr_def list_update_append)
qed

lemma find_index_Some:
  "find_index P xs = Some i \<longleftrightarrow> i < length xs \<and> P (xs ! i) \<and> (\<forall>j<i. \<not> P (xs ! j))"
proof (induction xs arbitrary: i)
  case (Cons x xs)
  then show ?case by (cases i) (auto simp: nth_Cons split: nat.splits)
qed simp

lemma find_index_None: "find_index P xs = None \<longleftrightarrow> (\<forall>x\<in>set xs. \<not> P x)"
  by (induction xs) auto


subsection \<open>Property\<close>

text \<open>
  C38: scanning a mount table in the documented layout (at most 32 lines of fields that fit, 2047
  characters in all) succeeds, and searching for a mount point finds the first line with it: exactly its
  device, file system and flags; it finds nothing when no line has it.
\<close>

theorem mounts_scan_find:
  assumes "\<forall>l\<in>set ls. mount_ok l" and "length ls \<le> 32" and "length (concat (map print_mount ls)) \<le> 2047"
    and "h_read H ''/proc/mounts'' 2047 w = (Some (concat (map print_mount ls)), w1)" and "\<forall>n. h_alloc H n"
    and "case volumes g of None \<Rightarrow> True | Some vs \<Rightarrow> length vs = 32"
  shows "\<exists>g'. scan_mounted_volumes H g w = Some (0, g', w1) \<and>
     (\<forall>m. case find_mounted_volume_by_mount_point g' m of
            None \<Rightarrow> (\<forall>(d, p, f, fl)\<in>set ls. p \<noteq> m)
          | Some i \<Rightarrow> i < length ls \<and> (\<forall>j<i. fst (snd (ls ! j)) \<noteq> m) \<and>
              (\<exists>d f fl. ls ! i = (d, m, f, fl) \<and>
                 volume_at g' i = Some \<lparr>mv_device = Some d, mv_mount_point = Some m, mv_filesystem = Some f, mv_flags = Some fl\<rparr>))"
proof -
  define vs where "vs = (case volumes g of None \<Rightarrow> replicate numv no_volume
    | Some vs \<Rightarrow> replicate (min (volume_count g) (length vs)) no_volume @ drop (volume_count g) vs)"
  have len: "length vs = 32" using assms(6) by (auto simp: vs_def numv_def split: option.splits)
  define g' where "g' = \<lparr>volumes = Some (map (new_volume (h_alloc H)) ls @ drop (length ls) vs), volume_count = length ls\<rparr>"
  have new: "new_volume (h_alloc H) l = \<lparr>mv_device = Some (fst l), mv_mount_point = Some (fst (snd l)),
      mv_filesystem = Some (fst (snd (snd l))), mv_flags = Some (snd (snd (snd l)))\<rparr>" for l
    using assms(5) by (simp add: new_volume_def strdup_def split: prod.splits)
  have "mount_lines (h_alloc H) (concat (map print_mount ls)) vs 0 =
      Some (map (new_volume (h_alloc H)) ls @ drop (length ls) vs, length ls)"
    using mount_lines_all [of ls "[]" vs] assms(1,2) len by simp
  then have "scan_mounted_volumes H g w = Some (0, g', w1)"
    using assms(3,4,5) by (simp add: scan_mounted_volumes_def g'_def vs_def Let_def)
  moreover have "case find_mounted_volume_by_mount_point g' m of
            None \<Rightarrow> (\<forall>(d, p, f, fl)\<in>set ls. p \<noteq> m)
          | Some i \<Rightarrow> i < length ls \<and> (\<forall>j<i. fst (snd (ls ! j)) \<noteq> m) \<and>
              (\<exists>d f fl. ls ! i = (d, m, f, fl) \<and>
                 volume_at g' i = Some \<lparr>mv_device = Some d, mv_mount_point = Some m, mv_filesystem = Some f, mv_flags = Some fl\<rparr>)" for m
  proof -
    have f: "find_mounted_volume_by_mount_point g' m = find_index (\<lambda>v. mv_mount_point v = Some m) (map (new_volume (h_alloc H)) ls)"
      by (simp add: find_mounted_volume_by_mount_point_def find_volume_def g'_def)
    show ?thesis
    proof (cases "find_mounted_volume_by_mount_point g' m")
      case None
      then have "\<forall>(d, p, f, fl)\<in>set ls. p \<noteq> m" unfolding f by (auto simp: find_index_None new)
      then show ?thesis using None by simp
    next
      case (Some i)
      then have i: "i < length ls" "fst (snd (ls ! i)) = m" "\<forall>j<i. fst (snd (ls ! j)) \<noteq> m"
        unfolding f by (auto simp: find_index_Some new)
      obtain d f fl where l: "ls ! i = (d, m, f, fl)" using i(2) by (cases "ls ! i") auto
      have "volume_at g' i = Some (new_volume (h_alloc H) (ls ! i))"
        using i(1) by (simp add: volume_at_def g'_def rd_def nth_append)
      then show ?thesis using Some i l by (simp add: new)
    qed
  qed
  ultimately show ?thesis by blast
qed

definition still_host :: "string \<Rightarrow> unit host" where
  "still_host txt = \<lparr>h_stat = \<lambda>p w. (0, w), h_access = \<lambda>p w. (0, w), h_exec = \<lambda>a w. (Ended 0, w), h_mount = \<lambda>d m f fl w. (0, w),
     h_umount = \<lambda>m w. (0, w), h_mkdir = \<lambda>p m w. (0, w), h_readlink = \<lambda>p w. (None, w), h_read = \<lambda>p n w. (Some (take n txt), w),
     h_readdir = \<lambda>p w. (None, w), h_alloc = \<lambda>n. True, h_junk = [],
     h_mtd = \<lparr>dev_open = \<lambda>p f w. (3, w), dev_close = \<lambda>f w. (0, w), seek_cur = \<lambda>f w. (0, w), seek_set = \<lambda>f n w. (n, w),
       dev_read = \<lambda>f n w. ((0, []), w), dev_write = \<lambda>f b w. (0, w), eccgetstats = \<lambda>f w. ((0, 0), w),
       memgetbadblock = \<lambda>f n w. ((0, 0), w), memerase = \<lambda>f a b w. (0, w), memgetinfo = \<lambda>f w. ((0, 0, 0, 0), w),
       sys_mount = \<lambda>d m f fl w. (0, w), stat_mode = \<lambda>p w. ((0, 0), w), sys_chmod = \<lambda>p m w. (0, w)\<rparr>\<rparr>"

definition two_mounts :: "mount_line list" where
  "two_mounts = [(''/proc'', ''/proc'', ''proc'', ''rw''), (''/dev/block/mtdblock5'', ''/data'', ''yaffs2'', ''rw,nodev'')]"

theorem mounts_scan_find_witness:
  "\<exists>g'. scan_mounted_volumes (still_host (concat (map print_mount two_mounts))) \<lparr>volumes = None, volume_count = 0\<rparr> () =
      Some (0, g', ()) \<and>
     (\<forall>m. case find_mounted_volume_by_mount_point g' m of
            None \<Rightarrow> (\<forall>(d, p, f, fl)\<in>set two_mounts. p \<noteq> m)
          | Some i \<Rightarrow> i < length two_mounts \<and> (\<forall>j<i. fst (snd (two_mounts ! j)) \<noteq> m) \<and>
              (\<exists>d f fl. two_mounts ! i = (d, m, f, fl) \<and>
                 volume_at g' i = Some \<lparr>mv_device = Some d, mv_mount_point = Some m, mv_filesystem = Some f, mv_flags = Some fl\<rparr>))"
  by (rule mounts_scan_find [of two_mounts "still_host (concat (map print_mount two_mounts))" "()" "()"])
    (simp_all add: two_mounts_def mount_ok_def word_ok_def is_space_def print_mount_def still_host_def)

end
