(* ===== verification/Roots.thy ===== *)
theory Roots
  imports Mounts
begin

text \<open>
  Volumes: \<open>roots.c\<close>, and what it needs of \<open>rktools.c\<close>.

  \<open>root_state\<close> holds the static variables of both files and of the tables they use, and the environment.
  Every operation takes the kernel, the state and the world and gives its answer, the state and the world;
  \<open>None\<close> is undefined behaviour.  \<open>malloc\<close> and \<open>strdup\<close> are taken to succeed where the code does not look,
  messages are left out.
\<close>

subsection \<open>State\<close>

record volume =
  v_mount_point :: string
  v_fs_type :: string
  v_device :: "string option"
  v_device2 :: "string option"
  v_option :: "string option"
  v_dump :: "string option"
  v_pass :: "string option"

record root_state =
  device_volumes :: "volume list"
  mount_point :: string
  mounts :: mounts_state
  mtd :: mtd_state
  env :: "string \<Rightarrow> string option"
  result_point :: "string list"

subsection \<open>The volume table\<close>

definition tmp_volume :: volume where
  "tmp_volume = \<lparr>v_mount_point = ''/tmp'', v_fs_type = ''ramdisk'', v_device = None, v_device2 = None,
     v_option = None, v_dump = None, v_pass = None\<rparr>"

datatype fstab_line = Skip_line | Stop_reading | Table_line volume

text \<open>\<open>strstr\<close> with a NUL put there: what is before the separator and what is after it.\<close>

definition cut_off :: "char \<Rightarrow> string \<Rightarrow> (string \<times> string) option" where
  "cut_off c s = (if c \<in> set s then Some (takeWhile (\<lambda>x. x \<noteq> c) s, drop 1 (dropWhile (\<lambda>x. x \<noteq> c) s)) else None)"

definition skip_blank :: "string \<Rightarrow> string" where
  "skip_blank s = dropWhile (\<lambda>c. c = CHR 0x09 \<or> c = CHR '' '' \<or> c = CHR 0x0A) s"

text \<open>The first field keeps the white space before it.\<close>

definition read_fstab_line :: "string \<Rightarrow> fstab_line" where
  "read_fstab_line buffer =
     (let indent = takeWhile is_space buffer; s = dropWhile is_space buffer
      in if s = [] \<or> hd s = CHR ''#'' then Skip_line
         else case (do {
           (file_system, s1) \<leftarrow> cut_off (CHR 0x09) s;
           (mp, s2) \<leftarrow> cut_off (CHR 0x09) (skip_blank s1);
           (fs_type, s3) \<leftarrow> cut_off (CHR 0x09) (skip_blank s2);
           (opt, s4) \<leftarrow> cut_off (CHR 0x09) (skip_blank s3);
           (dump, s5) \<leftarrow> cut_off (CHR 0x09) (skip_blank s4);
           (pass, s6) \<leftarrow> cut_off (CHR 0x0A) (skip_blank s5);
           Some \<lparr>v_mount_point = mp, v_fs_type = fs_type, v_device = Some (indent @ file_system), v_device2 = None,
                 v_option = Some opt, v_dump = Some dump, v_pass = Some pass\<rparr> }) of
             None \<Rightarrow> Stop_reading
           | Some v \<Rightarrow> Table_line v)"

function fstab_lines :: "string \<Rightarrow> volume list \<Rightarrow> volume list" where
  "fstab_lines text vs =
     (if text = [] then vs
      else case read_fstab_line (fst (fgets 1023 text)) of
             Skip_line \<Rightarrow> fstab_lines (snd (fgets 1023 text)) vs
           | Stop_reading \<Rightarrow> vs
           | Table_line v \<Rightarrow> fstab_lines (snd (fgets 1023 text)) (vs @ [v]))"
  by pat_completeness auto
termination by (relation "measure (\<lambda>(text, vs). length text)") (auto intro: fgets_rest)

declare fstab_lines.simps [simp del]

text \<open>\<open>fstab\<close> is what \<open>/etc/fstab\<close> holds, \<open>None\<close> when it cannot be opened.\<close>

definition load_volume_table :: "string option \<Rightarrow> root_state \<Rightarrow> root_state" where
  "load_volume_table fstab g =
     g\<lparr>device_volumes := (case fstab of None \<Rightarrow> [tmp_volume] | Some text \<Rightarrow> fstab_lines text [tmp_volume])\<rparr>"

subsection \<open>From a path to its volume\<close>

text \<open>The path up to its last slash that is not its first character.\<close>

fun cut_last :: "string \<Rightarrow> nat \<Rightarrow> string" where
  "cut_last s 0 = s"
| "cut_last s (Suc i) = (if Suc i < length s \<and> s ! Suc i = CHR ''/'' then take (Suc i) s else cut_last s i)"

text \<open>
  The array \<open>buf\<close> is the static \<open>mount_point\<close>, 256 places set to NUL; \<open>readlink\<close> is told that it has 1024.
  The answer is whether the pointer is not null, and what the array reads as.
\<close>

definition get_link_path :: "'w host \<Rightarrow> string \<Rightarrow> 'w \<Rightarrow> (bool \<times> string \<times> 'w) ub" where
  "get_link_path H linkpath w =
     (if length linkpath \<ge> 256 then None
      else let (link, w1) = h_readlink H (cut_last linkpath (length linkpath)) w
           in case link of
                None \<Rightarrow> Some (False, [], w1)
              | Some l \<Rightarrow>
                  if length l \<ge> 256 then None
                  else if l \<noteq> [] \<and> hd l = CHR ''/'' then Some (True, l, w1)
                  else if length l \<ge> 255 then None
                  else Some (True, CHR ''/'' # l, w1))"

text \<open>
  The loop over the volumes; \<open>link\<close> is the array when the pointer was not null.  \<open>path[len]\<close> is looked at also
  where only the link was compared, past the end of a path that is shorter.
\<close>

fun search_volumes :: "string \<Rightarrow> string option \<Rightarrow> volume list \<Rightarrow> volume option ub" where
  "search_volumes path link [] = Some None"
| "search_volumes path link (v # vs) =
     (let len = length (v_mount_point v)
      in if take len path = v_mount_point v \<and> (length path = len \<or> path ! len = CHR ''/'') then Some (Some v)
         else case link of
                None \<Rightarrow> search_volumes path link vs
              | Some l \<Rightarrow>
                  if take len l = v_mount_point v
                  then (if length path < len then None
                        else if length path = len \<or> path ! len = CHR ''/'' then Some (Some v)
                        else search_volumes path link vs)
                  else search_volumes path link vs)"

definition volume_for_path :: "'w host \<Rightarrow> string \<Rightarrow> root_state \<Rightarrow> 'w \<Rightarrow> (volume option \<times> root_state \<times> 'w) ub" where
  "volume_for_path H path g w =
     do { (found, mp, w1) \<leftarrow> get_link_path H path w;
          v \<leftarrow> search_volumes path (if found then Some mp else None) (device_volumes g);
          Some (v, g\<lparr>mount_point := mp\<rparr>, w1) }"

definition scan_mounts :: "'w host \<Rightarrow> root_state \<Rightarrow> 'w \<Rightarrow> (int \<times> root_state \<times> 'w) ub" where
  "scan_mounts H g w =
     do { (r, m, w1) \<leftarrow> scan_mounted_volumes H (mounts g) w; Some (r, g\<lparr>mounts := m\<rparr>, w1) }"

definition scan_mtd :: "'w host \<Rightarrow> root_state \<Rightarrow> 'w \<Rightarrow> (root_state \<times> 'w) ub" where
  "scan_mtd H g w =
     (let (txt, w1) = h_read H ''/proc/mtd'' 2047 w
      in do { (r, m) \<leftarrow> mtd_scan_partitions (h_alloc H) txt (mtd g); Some (g\<lparr>mtd := m\<rparr>, w1) })"

definition get_mounted_device_from_path ::
  "'w host \<Rightarrow> string \<Rightarrow> root_state \<Rightarrow> 'w \<Rightarrow> (string option \<times> root_state \<times> 'w) ub" where
  "get_mounted_device_from_path H path g w =
     do { (r, g1, w1) \<leftarrow> scan_mounts H g w;
          if r < 0 then Some (None, g1, w1)
          else case find_mounted_volume_by_mount_point (mounts g1) path of
                 None \<Rightarrow> Some (None, g1, w1)
               | Some i \<Rightarrow> do { v \<leftarrow> volume_at (mounts g1) i; Some (mv_device v, g1, w1) } }"

subsection \<open>The flash and card devices\<close>

definition point_items :: "string list" where
  "point_items = [''/dev/mmcblk0'', ''/dev/mmcblk1'', ''/dev/mmcblk2'', ''/dev/mmcblk3'']"

definition typeName :: "string list" where
  "typeName = [''MMC'', ''SD'', ''SDIO'', ''SDcombo'']"

text \<open>The index of the type a device's file names, -1 when there is none.\<close>

definition readFile :: "'w host \<Rightarrow> string \<Rightarrow> 'w \<Rightarrow> (int \<times> 'w) ub" where
  "readFile H filename w =
     (if length filename + 5 \<ge> 30 then None
      else let (txt, w1) = h_read H (''/sys/bus/mmc/devices/'' @ filename @ ''/type'') 10 w
           in case txt of
                None \<Rightarrow> Some (- 1, w1)
              | Some t \<Rightarrow>
                  if length t \<ge> 10 then None
                  else Some (case find_index (\<lambda>n. n = takeWhile (\<lambda>c. c \<noteq> CHR 0x0A) t) typeName of
                               None \<Rightarrow> - 1 | Some i \<Rightarrow> int i, w1))"

text \<open>A device whose type is not known makes the code write before the array.\<close>

fun mmc_devices :: "'w host \<Rightarrow> string list \<Rightarrow> string list \<Rightarrow> 'w \<Rightarrow> (string list \<times> 'w) ub" where
  "mmc_devices H [] rp w = Some (rp, w)"
| "mmc_devices H (n # ns) rp w =
     (if take 3 n = ''mmc''
      then do { (ret, w1) \<leftarrow> readFile H n w;
                if ret = - 1 then None
                else do { flag \<leftarrow> rd n 3;
                          if of_char flag < (48 :: nat) then None
                          else do { item \<leftarrow> rd point_items (of_char flag - 48);
                                    rp1 \<leftarrow> wr rp (nat ret) item;
                                    mmc_devices H ns rp1 w1 } } }
      else mmc_devices H ns rp w)"

definition init_sd_emmc_point :: "'w host \<Rightarrow> root_state \<Rightarrow> 'w \<Rightarrow> (root_state \<times> 'w) ub" where
  "init_sd_emmc_point H g w =
     (let (names, w1) = h_readdir H ''/sys/bus/mmc/devices/'' w
      in case names of
           None \<Rightarrow> Some (g, w1)
         | Some ns \<Rightarrow> do { (rp, w2) \<leftarrow> mmc_devices H ns (result_point g) w1; Some (g\<lparr>result_point := rp\<rparr>, w2) })"

fun stat_tries :: "'w host \<Rightarrow> string \<Rightarrow> nat \<Rightarrow> 'w \<Rightarrow> 'w" where
  "stat_tries H fn 0 w = w"
| "stat_tries H fn (Suc n) w = (let (ret, w1) = h_stat H fn w in if ret \<noteq> 0 then stat_tries H fn n w1 else w1)"

definition wait_for_device :: "'w host \<Rightarrow> string \<Rightarrow> 'w \<Rightarrow> 'w" where
  "wait_for_device H fn w = stat_tries H fn 10 w"

definition EMMC_POINT_NAME :: string where "EMMC_POINT_NAME = ''emmc_point_name''"
definition SD_POINT_NAME :: string where "SD_POINT_NAME = ''sd_point_name''"
definition SD_POINT_NAME_2 :: string where "SD_POINT_NAME_2 = ''sd_point_name_2''"

definition set_if :: "bool \<Rightarrow> string \<Rightarrow> string \<Rightarrow> root_state \<Rightarrow> root_state" where
  "set_if b name value' g = (if b then g\<lparr>env := (env g)(name \<mapsto> value')\<rparr> else g)"

text \<open>The name of the card's partition is left unset when there is no card.\<close>

definition setFlashPoint :: "'w host \<Rightarrow> root_state \<Rightarrow> 'w \<Rightarrow> (root_state \<times> 'w) ub" where
  "setFlashPoint H g w =
     do { (v, g1, w1) \<leftarrow> volume_for_path H ''/misc'' g w;
          v \<leftarrow> v;
          w2 \<leftarrow> (if v_fs_type v = ''emmc'' then do { d \<leftarrow> v_device v; Some (wait_for_device H d w1) } else Some w1);
          (g3, w3) \<leftarrow> init_sd_emmc_point H g1 w2;
          mmc \<leftarrow> rd (result_point g3) 0;
          sd \<leftarrow> rd (result_point g3) 1;
          let g4 = set_if True EMMC_POINT_NAME mmc g3;
          let (a, w4) = h_access H sd w3;
          let g5 = set_if (a = 0) SD_POINT_NAME_2 sd g4;
          let name_t = (if sd \<noteq> [] then sd @ ''p1'' else h_junk H);
          let (b, w5) = h_access H name_t w4;
          Some (set_if (b = 0) SD_POINT_NAME name_t g5, w5) }"

subsection \<open>Mounting\<close>

abbreviation mount_flags :: u64 where "mount_flags \<equiv> MS_NOATIME OR MS_NODEV OR MS_NODIRATIME"

text \<open>The card's own device is tried first when the volume is the card.\<close>

definition mount_card :: "'w host \<Rightarrow> volume \<Rightarrow> root_state \<Rightarrow> 'w \<Rightarrow> (int \<times> root_state \<times> 'w) ub" where
  "mount_card H v g w =
     (if v_mount_point v = ''/mnt/sdcard''
      then do { (g1, w1) \<leftarrow> (if env g SD_POINT_NAME = None then setFlashPoint H g w else Some (g, w));
                let (r, w2) = h_mount H (env g1 SD_POINT_NAME) (v_mount_point v) (v_fs_type v) mount_flags w1;
                Some (r, g1, w2) }
      else Some (- 1, g, w))"

definition mount_block :: "'w host \<Rightarrow> volume \<Rightarrow> root_state \<Rightarrow> 'w \<Rightarrow> (int \<times> root_state \<times> 'w) ub" where
  "mount_block H v g w =
     do { (r, g1, w1) \<leftarrow> mount_card H v g w;
          if r = 0 then Some (0, g1, w1)
          else let (r2, w2) = h_mount H (v_device v) (v_mount_point v) (v_fs_type v) mount_flags w1
          in if r2 = 0 then Some (0, g1, w2)
          else if v_device2 v = None then Some (- 1, g1, w2)
          else let (r3, w3) = h_mount H (v_device2 v) (v_mount_point v) (v_fs_type v) mount_flags w2
          in Some (if r3 = 0 then 0 else - 1, g1, w3) }"

definition mount_flash :: "'w host \<Rightarrow> volume \<Rightarrow> root_state \<Rightarrow> 'w \<Rightarrow> (int \<times> root_state \<times> 'w) ub" where
  "mount_flash H v g w =
     do { (g1, w1) \<leftarrow> scan_mtd H g w;
          d \<leftarrow> v_device v;
          case mtd_find_partition_by_name (mtd g1) d of
            None \<Rightarrow> Some (- 1, g1, w1)
          | Some p \<Rightarrow> let (r, w2) = mtd_mount_partition (h_mtd H) p (v_mount_point v) (v_fs_type v) False w1
                     in Some (r, g1, w2) }"

definition ensure_path_mounted :: "'w host \<Rightarrow> string \<Rightarrow> root_state \<Rightarrow> 'w \<Rightarrow> (int \<times> root_state \<times> 'w) ub" where
  "ensure_path_mounted H path g w =
     (let (a, w1) = h_access H path w
      in if a = 0 then Some (0, g, w1)
      else do {
        (v, g1, w2) \<leftarrow> volume_for_path H path g w1;
        case v of
          None \<Rightarrow>
            if mount_point g1 = [] then Some (- 1, g1, w2)
            else do { (r, g2, w3) \<leftarrow> scan_mounts H g1 w2;
                      Some (if r < 0 then - 1
                            else if find_mounted_volume_by_mount_point (mounts g2) (mount_point g2) \<noteq> None then 0
                            else - 1, g2, w3) }
        | Some v \<Rightarrow>
            if v_fs_type v = ''ramdisk'' then Some (0, g1, w2)
            else do {
              (r, g2, w3) \<leftarrow> scan_mounts H g1 w2;
              if r < 0 then Some (- 1, g2, w3)
              else if find_mounted_volume_by_mount_point (mounts g2) (v_mount_point v) \<noteq> None then Some (0, g2, w3)
              else let (m, w4) = h_mkdir H (v_mount_point v) 493 w3
              in if v_fs_type v = ''yaffs2'' then mount_flash H v g2 w4
              else if v_fs_type v = ''ext4'' \<or> v_fs_type v = ''vfat'' \<or> v_fs_type v = ''ext2'' then mount_block H v g2 w4
              else Some (- 1, g2, w4) } })"

text \<open>Unmounting what the mount table has under a mount point.\<close>

definition unmount_point :: "'w host \<Rightarrow> string \<Rightarrow> root_state \<Rightarrow> 'w \<Rightarrow> (int \<times> root_state \<times> 'w) ub" where
  "unmount_point H mp g w =
     do { (r, g1, w1) \<leftarrow> scan_mounts H g w;
          if r < 0 then Some (- 1, g1, w1)
          else case find_mounted_volume_by_mount_point (mounts g1) mp of
                 None \<Rightarrow> Some (0, g1, w1)
               | Some i \<Rightarrow> do { (ret, m, w2) \<leftarrow> unmount_mounted_volume H i (mounts g1) w1;
                               Some (ret, g1\<lparr>mounts := m\<rparr>, w2) } }"

definition ensure_ex_path_unmounted :: "'w host \<Rightarrow> string \<Rightarrow> root_state \<Rightarrow> 'w \<Rightarrow> (int \<times> root_state \<times> 'w) ub" where
  "ensure_ex_path_unmounted H path g w = unmount_point H path g w"

definition ensure_path_unmounted :: "'w host \<Rightarrow> string \<Rightarrow> root_state \<Rightarrow> 'w \<Rightarrow> (int \<times> root_state \<times> 'w) ub" where
  "ensure_path_unmounted H path g w =
     do { (v, g1, w1) \<leftarrow> volume_for_path H path g w;
          case v of
            None \<Rightarrow> Some (- 1, g1, w1)
          | Some v \<Rightarrow> if v_fs_type v = ''ramdisk'' then Some (- 1, g1, w1) else unmount_point H (v_mount_point v) g1 w1 }"

subsection \<open>Formatting\<close>

text \<open>What \<open>format_volume\<close> and \<open>resize_volume\<close> do first: \<open>None\<close> when they give up.\<close>

definition prepare_volume :: "'w host \<Rightarrow> string \<Rightarrow> root_state \<Rightarrow> 'w \<Rightarrow> (volume option \<times> root_state \<times> 'w) ub" where
  "prepare_volume H volume' g w =
     do { (v, g1, w1) \<leftarrow> volume_for_path H volume' g w;
          case v of
            None \<Rightarrow> Some (None, g1, w1)
          | Some v \<Rightarrow>
              if v_fs_type v = ''ramdisk'' then Some (None, g1, w1)
              else if v_mount_point v \<noteq> volume' then Some (None, g1, w1)
              else do { (r, g2, w2) \<leftarrow> ensure_path_unmounted H volume' g1 w1;
                        Some (if r \<noteq> 0 then None else Some v, g2, w2) } }"

text \<open>The name goes through an array of 20 characters.\<close>

definition format_flash :: "'w host \<Rightarrow> volume \<Rightarrow> root_state \<Rightarrow> 'w \<Rightarrow> (int \<times> root_state \<times> 'w) ub" where
  "format_flash H v g w =
     do { (g1, w1) \<leftarrow> scan_mtd H g w;
          d \<leftarrow> v_device v;
          filepath \<leftarrow> (if strstr_found d ''userdata'' then Some ''userdata'' else if length d \<ge> 20 then None else Some d);
          case mtd_find_partition_by_name (mtd g1) filepath of
            None \<Rightarrow> Some (- 1, g1, w1)
          | Some p \<Rightarrow>
              let (ctx, w2) = mtd_write_partition (h_mtd H) (h_alloc H) p w1
              in case ctx of
                   None \<Rightarrow> Some (- 1, g1, w2)
                 | Some ctx \<Rightarrow> do {
                     (e, ctx1, w3) \<leftarrow> mtd_erase_blocks (h_mtd H) ctx (- 1) w2;
                     (c, w4) \<leftarrow> mtd_write_close (h_mtd H) ctx1 w3;
                     Some (if e = - 1 \<or> c \<noteq> 0 then - 1 else 0, g1, w4) } }"

definition format_volume :: "'w host \<Rightarrow> string \<Rightarrow> root_state \<Rightarrow> 'w \<Rightarrow> (int \<times> root_state \<times> 'w) ub" where
  "format_volume H volume' g w =
     do { (v, g1, w1) \<leftarrow> prepare_volume H volume' g w;
          case v of
            None \<Rightarrow> Some (- 1, g1, w1)
          | Some v \<Rightarrow>
              let t = v_fs_type v
              in if t = ''yaffs2'' \<or> t = ''mtd'' \<or> t = ''ubifs'' then format_flash H v g1 w1
              else do {
                d \<leftarrow> v_device v;
                let (r, w2) = (if t = ''ext4'' then rk_make_ext4fs H d (Some (v_mount_point v)) w1
                               else if t = ''ext2'' then rk_make_ext2fs H d w1
                               else if t = ''vfat'' then make_vfat H d None w1
                               else if t = ''ntfs'' then make_ntfs H d None w1
                               else (- 1, w1));
                Some (if r \<noteq> 0 then - 1 else 0, g1, w2) } }"

definition resize_volume :: "'w host \<Rightarrow> string \<Rightarrow> root_state \<Rightarrow> 'w \<Rightarrow> (int \<times> root_state \<times> 'w) ub" where
  "resize_volume H volume' g w =
     do { (v, g1, w1) \<leftarrow> prepare_volume H volume' g w;
          case v of
            None \<Rightarrow> Some (- 1, g1, w1)
          | Some v \<Rightarrow>
              if v_fs_type v = ''ext4'' \<or> v_fs_type v = ''ext2''
              then do { d \<leftarrow> v_device v;
                        let (r, w2) = rk_check_and_resizefs H d w1;
                        Some (if r \<noteq> 0 then - 1 else 0, g1, w2) }
              else Some (- 1, g1, w1) }"

subsection \<open>The kernel's command line\<close>

fun strstr :: "string \<Rightarrow> string \<Rightarrow> string option" where
  "strstr [] needle = (if needle = [] then Some [] else None)"
| "strstr (c # cs) needle =
     (if take (length needle) (c # cs) = needle then Some (c # cs) else strstr cs needle)"

text \<open>What an array of \<open>n\<close> characters reads as after one \<open>read\<close> that fills it: nothing ends it when it is full.\<close>

definition read_cmdline :: "'w host \<Rightarrow> nat \<Rightarrow> 'w \<Rightarrow> (string \<times> 'w) ub" where
  "read_cmdline H n w =
     (let (txt, w1) = h_read H ''/proc/cmdline'' n w; t = (case txt of None \<Rightarrow> [] | Some t \<Rightarrow> t)
      in if length t \<ge> n then None else Some (t @ h_junk H, w1))"

definition isMtdDevice :: "'w host \<Rightarrow> 'w \<Rightarrow> (int \<times> 'w) ub" where
  "isMtdDevice H w =
     do { (param, w1) \<leftarrow> read_cmdline H 2048 w;
          case strstr param ''storagemedia'' of
            None \<Rightarrow> Some (- 1, w1)
          | Some s \<Rightarrow>
              (case strstr s ''='' of
                 None \<Rightarrow> Some (- 1, w1)
               | Some s1 \<Rightarrow>
                   let s2 = dropWhile (\<lambda>c. c = CHR '' '') (drop 1 s1)
                   in if take 3 s2 = ''mtd'' then Some (0, w1)
                      else if take 2 s2 = ''sd''
                      then (let (a, w2) = h_access H ''/proc/mtd'' w1 in Some (if a = 0 then 0 else - 1, w2))
                      else Some (- 1, w1)) }"

text \<open>The name is copied into 20 places, up to a blank; nothing else ends it.\<close>

definition getSerial :: "'w host \<Rightarrow> 'w \<Rightarrow> (string option \<times> 'w) ub" where
  "getSerial H w =
     do { (param, w1) \<leftarrow> read_cmdline H 1024 w;
          case strstr param ''console'' of
            None \<Rightarrow> Some (None, w1)
          | Some s \<Rightarrow>
              (case strstr s ''='' of
                 None \<Rightarrow> Some (None, w1)
               | Some s1 \<Rightarrow>
                   let name = takeWhile (\<lambda>c. c \<noteq> CHR '' '') (drop 1 s1)
                   in if CHR '' '' \<notin> set (drop 1 s1) \<or> length name > 14 then None
                      else Some (Some (''/dev/'' @ name), w1)) }"

subsection \<open>Reading back a printed table\<close>

type_synonym fstab_entry = "string \<times> string \<times> string \<times> string \<times> string \<times> string"

definition TAB :: char where "TAB = CHR 0x09"

definition print_entry :: "fstab_entry \<Rightarrow> string" where
  "print_entry l = (case l of (dev, mp, fs, opt, dump, pass) \<Rightarrow>
     dev @ [TAB] @ mp @ [TAB] @ fs @ [TAB] @ opt @ [TAB] @ dump @ [TAB] @ pass @ [CHR 0x0A])"

definition volume_of :: "fstab_entry \<Rightarrow> volume" where
  "volume_of l = (case l of (dev, mp, fs, opt, dump, pass) \<Rightarrow>
     \<lparr>v_mount_point = mp, v_fs_type = fs, v_device = Some dev, v_device2 = None,
      v_option = Some opt, v_dump = Some dump, v_pass = Some pass\<rparr>)"

definition field_ok :: "string \<Rightarrow> bool" where
  "field_ok s \<longleftrightarrow> s \<noteq> [] \<and> hd s \<noteq> CHR '' '' \<and> CHR 0x09 \<notin> set s \<and> CHR 0x0A \<notin> set s"

definition entry_ok :: "fstab_entry \<Rightarrow> bool" where
  "entry_ok l \<longleftrightarrow> length (print_entry l) \<le> 1022 \<and> (case l of (dev, mp, fs, opt, dump, pass) \<Rightarrow>
     field_ok dev \<and> \<not> is_space (hd dev) \<and> hd dev \<noteq> CHR ''#'' \<and>
     field_ok mp \<and> field_ok fs \<and> field_ok opt \<and> field_ok dump \<and> field_ok pass)"

lemma cut_off_at: "c \<notin> set s \<Longrightarrow> cut_off c (s @ c # r) = Some (s, r)"
proof -
  assume a: "c \<notin> set s"
  then have "takeWhile (\<lambda>x. x \<noteq> c) (s @ c # r) = s" by (induction s) auto
  moreover have "dropWhile (\<lambda>x. x \<noteq> c) (s @ c # r) = c # r" using a by (induction s) auto
  ultimately show ?thesis by (simp add: cut_off_def)
qed

lemma skip_blank_field: "field_ok s \<Longrightarrow> skip_blank (s @ r) = s @ r"
  by (cases s) (auto simp: field_ok_def skip_blank_def)

lemma read_entry:
  assumes "entry_ok l"
  shows "read_fstab_line (print_entry l) = Table_line (volume_of l)" "fgets 1023 (print_entry l @ r) = (print_entry l, r)"
proof -
  obtain dev mp fs opt dump pass where l: "l = (dev, mp, fs, opt, dump, pass)" by (cases l)
  have ok: "field_ok dev" "field_ok mp" "field_ok fs" "field_ok opt" "field_ok dump" "field_ok pass"
    "\<not> is_space (hd dev)" "hd dev \<noteq> CHR ''#''" "length (print_entry l) \<le> 1022"
    using assms by (auto simp: l entry_ok_def)
  have ne: "dev \<noteq> []" using ok(1) by (simp add: field_ok_def)
  have p: "print_entry l = dev @ CHR 0x09 # mp @ CHR 0x09 # fs @ CHR 0x09 # opt @ CHR 0x09 # dump @ CHR 0x09 # pass @ CHR 0x0A # []"
    by (simp add: l print_entry_def TAB_def)
  have "takeWhile is_space (print_entry l) = []" "dropWhile is_space (print_entry l) = print_entry l"
    using ok(7) ne by (cases dev; simp add: p)+
  moreover have "hd (print_entry l) = hd dev" "print_entry l \<noteq> []" using ne by (simp_all add: p)
  moreover have "cut_off (CHR 0x09) (s @ CHR 0x09 # x) = Some (s, x)" if "field_ok s" for s x
    using that cut_off_at by (auto simp: field_ok_def)
  moreover have "cut_off (CHR 0x0A) (pass @ CHR 0x0A # x) = Some (pass, x)" for x
    using ok(6) cut_off_at by (auto simp: field_ok_def)
  ultimately show "read_fstab_line (print_entry l) = Table_line (volume_of l)"
    using ok(1-6,8) by (simp add: read_fstab_line_def p [unfolded l] skip_blank_field volume_of_def l)
  let ?l = "dev @ CHR 0x09 # mp @ CHR 0x09 # fs @ CHR 0x09 # opt @ CHR 0x09 # dump @ CHR 0x09 # pass"
  have "CHR 0x0A \<notin> set ?l" using ok(1-6) by (auto simp: field_ok_def)
  moreover have "print_entry l = ?l @ [CHR 0x0A]" by (simp add: p)
  moreover have "length ?l + 1 < 1023" using ok(9) calculation(2) by simp
  ultimately show "fgets 1023 (print_entry l @ r) = (print_entry l, r)" using fgets_line [of ?l 1023 r] by simp
qed

lemma fstab_lines_all:
  "\<forall>l\<in>set ls. entry_ok l \<Longrightarrow> fstab_lines (concat (map print_entry ls)) vs = vs @ map volume_of ls"
proof (induction ls arbitrary: vs)
  case Nil
  then show ?case by (subst fstab_lines.simps) simp
next
  case (Cons l ls)
  have "print_entry l \<noteq> []" by (simp add: print_entry_def split: prod.splits)
  then show ?case using Cons read_entry [of l] by (subst fstab_lines.simps) simp
qed

text \<open>A path is on a volume when it is its mount point or below it.\<close>

definition on_volume :: "string \<Rightarrow> volume \<Rightarrow> bool" where
  "on_volume path v \<longleftrightarrow> path = v_mount_point v \<or> (\<exists>r. path = v_mount_point v @ CHR ''/'' # r)"

lemma on_volume_iff:
  "on_volume path v \<longleftrightarrow> take (length (v_mount_point v)) path = v_mount_point v \<and>
     (length path = length (v_mount_point v) \<or> path ! length (v_mount_point v) = CHR ''/'')"
proof
  show "on_volume path v \<Longrightarrow> take (length (v_mount_point v)) path = v_mount_point v \<and>
     (length path = length (v_mount_point v) \<or> path ! length (v_mount_point v) = CHR ''/'')"
    by (auto simp: on_volume_def)
  assume a: "take (length (v_mount_point v)) path = v_mount_point v \<and>
     (length path = length (v_mount_point v) \<or> path ! length (v_mount_point v) = CHR ''/'')"
  show "on_volume path v"
  proof (cases "length path = length (v_mount_point v)")
    case True
    then show ?thesis using a by (simp add: on_volume_def)
  next
    case False
    moreover have "length (v_mount_point v) \<le> length path" using a by (metis length_take min.cobounded1)
    ultimately have "length (v_mount_point v) < length path" by simp
    then have "path = take (length (v_mount_point v)) path @ path ! length (v_mount_point v) # drop (Suc (length (v_mount_point v))) path"
      by (rule id_take_nth_drop)
    then show ?thesis using a False unfolding on_volume_def by metis
  qed
qed

lemma search_no_link: "search_volumes path None vs = Some (find (on_volume path) vs)"
  by (induction vs) (auto simp: Let_def on_volume_iff)

subsection \<open>What does not look at exit statuses\<close>

lemma forget_fields [simp]:
  "h_stat (forget_status H) = h_stat H" "h_access (forget_status H) = h_access H" "h_mount (forget_status H) = h_mount H"
  "h_umount (forget_status H) = h_umount H" "h_mkdir (forget_status H) = h_mkdir H"
  "h_readlink (forget_status H) = h_readlink H" "h_read (forget_status H) = h_read H"
  "h_readdir (forget_status H) = h_readdir H" "h_alloc (forget_status H) = h_alloc H"
  "h_junk (forget_status H) = h_junk H" "h_mtd (forget_status H) = h_mtd H"
  by (simp_all add: forget_status_def)

named_theorems forgets \<open>operations that do not depend on exit statuses\<close>

lemma volume_for_path_forgets [forgets]: "volume_for_path (forget_status H) = volume_for_path H"
  unfolding volume_for_path_def get_link_path_def forget_fields ..

lemma scan_mounts_forgets [forgets]: "scan_mounts (forget_status H) = scan_mounts H"
  unfolding scan_mounts_def scan_mounted_volumes_def forget_fields ..

lemma scan_mtd_forgets [forgets]: "scan_mtd (forget_status H) = scan_mtd H"
  unfolding scan_mtd_def forget_fields ..

lemma unmount_point_forgets [forgets]: "unmount_point (forget_status H) = unmount_point H"
proof -
  have "unmount_mounted_volume (forget_status H) = unmount_mounted_volume H"
    by (simp add: unmount_mounted_volume_def fun_eq_iff)
  note this [forgets]
  show ?thesis unfolding unmount_point_def forgets ..
qed

lemma ensure_path_unmounted_forgets [forgets]: "ensure_path_unmounted (forget_status H) = ensure_path_unmounted H"
  unfolding ensure_path_unmounted_def forgets ..

lemma prepare_volume_forgets [forgets]: "prepare_volume (forget_status H) = prepare_volume H"
  unfolding prepare_volume_def forgets ..

lemma format_flash_forgets [forgets]: "format_flash (forget_status H) = format_flash H"
  unfolding format_flash_def forgets forget_fields ..

lemma rk_make_ext4fs_forgets [forgets]: "rk_make_ext4fs (forget_status H) = rk_make_ext4fs H"
  unfolding rk_make_ext4fs_def run_two_forgets forget_fields ..

lemma rk_make_ext2fs_forgets [forgets]: "rk_make_ext2fs (forget_status H) = rk_make_ext2fs H"
  "rk_check_and_resizefs (forget_status H) = rk_check_and_resizefs H"
  unfolding rk_make_ext2fs_def rk_check_and_resizefs_def run_two_forgets by simp_all

lemma make_vfat_forgets [forgets]: "make_vfat (forget_status H) = make_vfat H" "make_ntfs (forget_status H) = make_ntfs H"
  unfolding make_vfat_def make_ntfs_def run_forgets by simp_all

subsection \<open>Properties\<close>

text \<open>
  C37: the answers of formatting and resizing, and everything they leave behind in the code's state, do not
  depend on how the file system programs end: a program that fails counts as one that succeeds.
\<close>

theorem format_ignores_status:
  "format_volume (forget_status H) path g w = format_volume H path g w \<and>
   resize_volume (forget_status H) path g w = resize_volume H path g w"
proof (rule conjI)
  show "format_volume (forget_status H) path g w = format_volume H path g w"
    unfolding format_volume_def forgets ..
  show "resize_volume (forget_status H) path g w = resize_volume H path g w"
    unfolding resize_volume_def forgets ..
qed

text \<open>
  C36: after loading a table in the layout of \<open>/etc/fstab\<close>, fields separated by tabs, the volume of a path
  without a symbolic link is the first one, in the order of the table with the RAM disk first, whose mount
  point is the path or a directory above it, with exactly the fields of its line; there is none when no
  mount point is.
\<close>

theorem fstab_volume:
  assumes "\<forall>l\<in>set ls. entry_ok l" and "length path < 256"
    and "h_readlink H (cut_last path (length path)) w = (None, w1)"
  shows "\<exists>g1. volume_for_path H path (load_volume_table (Some (concat (map print_entry ls))) g) w =
     Some (find (on_volume path) (tmp_volume # map volume_of ls), g1, w1)"
proof -
  have "device_volumes (load_volume_table (Some (concat (map print_entry ls))) g) = tmp_volume # map volume_of ls"
    using fstab_lines_all [OF assms(1), of "[tmp_volume]"] by (simp add: load_volume_table_def)
  then show ?thesis using assms(2,3)
    by (simp add: volume_for_path_def get_link_path_def search_no_link del: find.simps search_volumes.simps)
qed

definition no_state :: root_state where
  "no_state = \<lparr>device_volumes = [], mount_point = [], mounts = \<lparr>volumes = None, volume_count = 0\<rparr>,
     mtd = \<lparr>partitions = None, partition_count = 0\<rparr>, env = Map.empty, result_point = [[], [], [], []]\<rparr>"

definition two_entries :: "fstab_entry list" where
  "two_entries = [(''/dev/block/by-name/misc'', ''/misc'', ''emmc'', ''defaults'', ''0'', ''0''),
                  (''/dev/block/by-name/userdata'', ''/userdata'', ''ext4'', ''defaults'', ''0'', ''0'')]"

theorem fstab_volume_witness:
  "\<exists>g1. volume_for_path (still_host []) ''/userdata/recovery/log''
       (load_volume_table (Some (concat (map print_entry two_entries))) no_state) () =
     Some (find (on_volume ''/userdata/recovery/log'') (tmp_volume # map volume_of two_entries), g1, ())"
  by (rule fstab_volume)
    (simp_all add: two_entries_def entry_ok_def field_ok_def print_entry_def is_space_def still_host_def)

text \<open>The link's length is used on the path: a path shorter than the mount point it links to is read past its end.\<close>

lemma link_past_end:
  assumes "h_readlink H ''/sdcard'' w = (Some ''/mnt/sdcard'', w1)"
    and "device_volumes g = [tmp_volume, v]" and "v_mount_point v = ''/mnt/sdcard''"
  shows "volume_for_path H ''/sdcard'' g w = None"
  using assms by (simp add: volume_for_path_def get_link_path_def tmp_volume_def Let_def)

end
