(* ===== verification/BootMessage.thy ===== *)
theory BootMessage
  imports Roots StrCopy FileSys
begin

text \<open>
  The message to the boot loader in the \<open>misc\<close> partition: \<open>bootloader.c\<close>, \<open>bootloader.h\<close>.

  The world is a \<open>fs_world\<close>: the device of the partition is one of its files.  The kernel is the pair of
  parameters \<open>host\<close>, for mounting, links, \<open>/proc\<close> and flash, and \<open>sys\<close>, for files.  The array on the stack
  that holds the pages of a flash partition is taken to fit; it is unset before it is read into.
\<close>

subsection \<open>The message\<close>

record bootloader_message =
  bm_command :: string
  bm_status :: string
  bm_recovery :: string
  bm_needupdate :: string
  bm_systemFlag :: string

definition message_ok :: "bootloader_message \<Rightarrow> bool" where
  "message_ok m \<longleftrightarrow> length (bm_command m) = 32 \<and> length (bm_status m) = 32 \<and> length (bm_recovery m) = 768 \<and>
     length (bm_needupdate m) = 4 \<and> length (bm_systemFlag m) = 252"

definition MESSAGE_SIZE :: nat where "MESSAGE_SIZE = 1088"

text \<open>The structure in memory.\<close>

definition message_chars :: "bootloader_message \<Rightarrow> string" where
  "message_chars m = bm_command m @ bm_status m @ bm_recovery m @ bm_needupdate m @ bm_systemFlag m"

definition message_of :: "string \<Rightarrow> bootloader_message" where
  "message_of s = \<lparr>bm_command = take 32 s, bm_status = take 32 (drop 32 s), bm_recovery = take 768 (drop 64 s),
     bm_needupdate = take 4 (drop 832 s), bm_systemFlag = take 252 (drop 836 s)\<rparr>"

text \<open>\<open>memset(&boot, 0, sizeof(boot))\<close>.\<close>

definition zero_message :: bootloader_message where
  "zero_message = message_of (replicate MESSAGE_SIZE NUL)"

lemma message_of_chars: "message_ok m \<Longrightarrow> message_of (message_chars m) = m"
  by (simp add: message_ok_def message_of_def message_chars_def)

lemma message_chars_length: "message_ok m \<Longrightarrow> length (message_chars m) = MESSAGE_SIZE"
  by (simp add: message_ok_def message_chars_def MESSAGE_SIZE_def)

lemma message_of_ok: "length s = MESSAGE_SIZE \<Longrightarrow> message_ok (message_of s)"
  by (simp add: message_ok_def message_of_def MESSAGE_SIZE_def)

lemma zero_message_ok [simp]: "message_ok zero_message"
  by (simp add: zero_message_def message_of_ok)

subsection \<open>Partitions on flash\<close>

definition MISC_PAGES :: nat where "MISC_PAGES = 10"
definition MISC_COMMAND_PAGE :: nat where "MISC_COMMAND_PAGE = 8"

text \<open>
  What both directions do first: the partition, the size of a page and the first ten pages.  \<open>None\<close> in their
  place: the answer is -1.
\<close>

definition misc_pages ::
  "('x fs_world) host \<Rightarrow> root_state \<Rightarrow> 'x fs_world \<Rightarrow> ((mtd_partition \<times> nat \<times> bytes) option \<times> root_state \<times> 'x fs_world) ub" where
  "misc_pages H g w =
     do { (g1, w1) \<leftarrow> scan_mtd H g w;
          case mtd_find_partition_by_name (mtd g1) ''misc'' of
            None \<Rightarrow> Some (None, g1, w1)
          | Some part' \<Rightarrow>
              let ((ret, info), w2) = mtd_partition_info (h_mtd H) part' w1
              in case info of
                   None \<Rightarrow> Some (None, g1, w2)
                 | Some (t, e, write_size) \<Rightarrow> do {
                     (ctx, w3) \<leftarrow> mtd_read_partition (h_mtd H) (h_alloc H) part' w2;
                     case ctx of
                       None \<Rightarrow> Some (None, g1, w3)
                     | Some ctx \<Rightarrow>
                         let size' = unat write_size * MISC_PAGES
                         in if size' = 0 then None
                            else do {
                              (r, ctx1, data', w4) \<leftarrow> mtd_read_data (h_mtd H) ctx (replicate size' 0) size' w3;
                              let w5 = mtd_read_close (h_mtd H) ctx1 w4;
                              Some (if r \<noteq> int size' then None else Some (part', unat write_size, data'), g1, w5) } } }"

definition get_bootloader_message_mtd ::
  "('x fs_world) host \<Rightarrow> bootloader_message \<Rightarrow> root_state \<Rightarrow> 'x fs_world \<Rightarrow> (int \<times> bootloader_message \<times> root_state \<times> 'x fs_world) ub" where
  "get_bootloader_message_mtd H out g w =
     do { (p, g1, w1) \<leftarrow> misc_pages H g w;
          case p of
            None \<Rightarrow> Some (- 1, out, g1, w1)
          | Some (part', write_size, data') \<Rightarrow>
              do { bs \<leftarrow> rd_slice data' (write_size * MISC_COMMAND_PAGE) MESSAGE_SIZE;
                   Some (0, message_of (string_of bs), g1, w1) } }"

definition set_bootloader_message_mtd ::
  "('x fs_world) host \<Rightarrow> bootloader_message \<Rightarrow> root_state \<Rightarrow> 'x fs_world \<Rightarrow> (int \<times> root_state \<times> 'x fs_world) ub" where
  "set_bootloader_message_mtd H m g w =
     do { (p, g1, w1) \<leftarrow> misc_pages H g w;
          case p of
            None \<Rightarrow> Some (- 1, g1, w1)
          | Some (part', write_size, data') \<Rightarrow>
              do { data1 \<leftarrow> wr_slice data' (write_size * MISC_COMMAND_PAGE) (bytes_of (message_chars m));
                   let (ctx, w2) = mtd_write_partition (h_mtd H) (h_alloc H) part' w1;
                   case ctx of
                     None \<Rightarrow> Some (- 1, g1, w2)
                   | Some ctx \<Rightarrow> do {
                       (n, ctx1, w3) \<leftarrow> mtd_write_data (h_mtd H) ctx data1 (length data1) w2;
                       (c, w4) \<leftarrow> mtd_write_close (h_mtd H) ctx1 w3;
                       Some (if n \<noteq> int (length data1) \<or> c \<noteq> 0 then - 1 else 0, g1, w4) } } }"

subsection \<open>Partitions on block devices\<close>

definition MESSAGE_OFFSET :: nat where "MESSAGE_OFFSET = 16384"

text \<open>A failing \<open>fread\<close> returns without closing the stream, which changes nothing here.\<close>

definition get_bootloader_message_block ::
  "('x fs_world) host \<Rightarrow> sys \<Rightarrow> bootloader_message \<Rightarrow> string \<Rightarrow> 'x fs_world \<Rightarrow> int \<times> bootloader_message \<times> 'x fs_world" where
  "get_bootloader_message_block H S out device w =
     (let (f, w1) = fs_open_read S device (wait_for_device H device w)
      in case f of
           None \<Rightarrow> (- 1, out, w1)
         | Some d \<Rightarrow>
             (let (bs, w2) = fs_fread S (drop MESSAGE_OFFSET d) MESSAGE_SIZE w1
              in if length bs \<noteq> MESSAGE_SIZE then (- 1, out, w2)
                 else if ask S w2 < 0 then (- 1, out, tick w2)
                 else (0, message_of (string_of bs), tick w2)))"

definition set_bootloader_message_block ::
  "sys \<Rightarrow> bootloader_message \<Rightarrow> string \<Rightarrow> 'x fs_world \<Rightarrow> int \<times> 'x fs_world" where
  "set_bootloader_message_block S m device w =
     (let (ok, w1) = fs_open_write S device w
      in if \<not> ok then (- 1, w1)
         else if ask S w1 < 0 then (- 1, tick w1)
         else fs_close_write S device MESSAGE_OFFSET (bytes_of (message_chars m)) (tick w1))"

subsection \<open>Either kind\<close>

definition get_bootloader_message ::
  "('x fs_world) host \<Rightarrow> sys \<Rightarrow> bootloader_message \<Rightarrow> root_state \<Rightarrow> 'x fs_world \<Rightarrow> (int \<times> bootloader_message \<times> root_state \<times> 'x fs_world) ub" where
  "get_bootloader_message H S out g w =
     do { (v, g1, w1) \<leftarrow> volume_for_path H ''/misc'' g w;
          case v of
            None \<Rightarrow> Some (- 1, out, g1, w1)
          | Some v \<Rightarrow> do {
              (is_mtd, w2) \<leftarrow> isMtdDevice H w1;
              if is_mtd = 0 then get_bootloader_message_mtd H out g1 w2
              else if v_fs_type v = ''emmc''
              then do { d \<leftarrow> v_device v;
                        let (r, m, w3) = get_bootloader_message_block H S out d w2;
                        Some (r, m, g1, w3) }
              else Some (- 1, out, g1, w2) } }"

text \<open>Here a null volume is not looked for; it is read when the partition is not on flash.\<close>

definition set_bootloader_message ::
  "('x fs_world) host \<Rightarrow> sys \<Rightarrow> bootloader_message \<Rightarrow> root_state \<Rightarrow> 'x fs_world \<Rightarrow> (int \<times> root_state \<times> 'x fs_world) ub" where
  "set_bootloader_message H S m g w =
     do { (v, g1, w1) \<leftarrow> volume_for_path H ''/misc'' g w;
          (is_mtd, w2) \<leftarrow> isMtdDevice H w1;
          if is_mtd = 0 then set_bootloader_message_mtd H m g1 w2
          else do {
            v \<leftarrow> v;
            if v_fs_type v = ''emmc''
            then do { d \<leftarrow> v_device v;
                      let (r, w3) = set_bootloader_message_block S m d w2;
                      Some (r, g1, w3) }
            else Some (- 1, g1, w2) } }"

end
