(* ===== verification/RecoveryArgs.thy ===== *)
theory RecoveryArgs
  imports BootMessage DirUtil
begin

text \<open>
  The command of the recovery program, where it comes from and how it is kept until it is done: \<open>get_args\<close>,
  \<open>finish_recovery\<close> and what they use of \<open>recovery.c\<close>.

  The environment is the kernel as \<open>host\<close> (mounts, links, flash), as \<open>sys\<close> (files) and as \<open>sys_ops\<close> (directories).
  \<open>rec_state\<close> holds the static variables.  A command line is the list \<open>argv[0..argc-1]\<close>.  \<open>strdup\<close> and \<open>malloc\<close>
  succeed, messages are left out; a null pointer handed to \<open>strdup\<close> is undefined behaviour.
\<close>

subsection \<open>Environment and state\<close>

record 'x rec_env =
  re_host :: "('x fs_world) host"
  re_sys :: sys
  re_dirs :: "('x fs_world) sys_ops"

record rec_state =
  rs_root :: root_state
  systemFlag :: string
  tmplog_offset :: nat

definition COMMAND_FILE :: string where "COMMAND_FILE = ''/userdata/recovery/command''"
definition INTENT_FILE :: string where "INTENT_FILE = ''/userdata/recovery/intent''"
definition LOG_FILE :: string where "LOG_FILE = ''/userdata/recovery/log''"
definition LAST_LOG_FILE :: string where "LAST_LOG_FILE = ''/userdata/recovery/last_log''"
definition TEMPORARY_LOG_FILE :: string where "TEMPORARY_LOG_FILE = ''/tmp/recovery.log''"
definition MAX_ARG_LENGTH :: nat where "MAX_ARG_LENGTH = 4096"
definition MAX_ARGS :: nat where "MAX_ARGS = 100"

subsection \<open>\<open>strtok\<close>\<close>

text \<open>
  On the array \<open>buf\<close> from place \<open>pos\<close> on: the token, the array with the separator after it overwritten, and
  where the next call goes on.
\<close>

fun strtok_on :: "(char \<Rightarrow> bool) \<Rightarrow> string \<Rightarrow> nat \<Rightarrow> (string option \<times> string \<times> nat) ub" where
  "strtok_on delim buf pos =
     (let i = pos + length (takeWhile delim (drop pos buf));
          tok = takeWhile (\<lambda>c. \<not> delim c \<and> c \<noteq> NUL) (drop i buf);
          j = i + length tok
      in do { c \<leftarrow> rd buf j;
              if tok = [] then Some (None, buf, i)
              else if c = NUL then Some (Some tok, buf, j)
              else Some (Some tok, buf[j := NUL], j + 1) })"

declare strtok_on.simps [simp del]

text \<open>At most \<open>n\<close> more tokens.\<close>

fun strtok_all :: "nat \<Rightarrow> (char \<Rightarrow> bool) \<Rightarrow> string \<Rightarrow> nat \<Rightarrow> (string list \<times> string) ub" where
  "strtok_all 0 delim buf pos = Some ([], buf)"
| "strtok_all (Suc n) delim buf pos =
     do { (t, buf1, pos1) \<leftarrow> strtok_on delim buf pos;
          case t of
            None \<Rightarrow> Some ([], buf1)
          | Some tok \<Rightarrow> do { (toks, buf2) \<leftarrow> strtok_all n delim buf1 pos1; Some (tok # toks, buf2) } }"

subsection \<open>Files\<close>

definition fopen_path_read ::
  "'x rec_env \<Rightarrow> string \<Rightarrow> root_state \<Rightarrow> 'x fs_world \<Rightarrow> (bytes option \<times> root_state \<times> 'x fs_world) ub" where
  "fopen_path_read E path g w =
     do { (r, g1, w1) \<leftarrow> ensure_path_mounted (re_host E) path g w;
          if r \<noteq> 0 then Some (None, g1, w1)
          else let (f, w2) = fs_open_read (re_sys E) path w1 in Some (f, g1, w2) }"

text \<open>Opened for writing from the start, or at the end when \<open>append\<close>; the answer tells whether it is open.\<close>

definition fs_open_append :: "sys \<Rightarrow> string \<Rightarrow> 'x fs_world \<Rightarrow> bool \<times> 'x fs_world" where
  "fs_open_append S name w =
     (if now w name = None then fs_open_trunc S name w else (\<not> ask S w < 0, tick w))"

definition fopen_path_write ::
  "'x rec_env \<Rightarrow> string \<Rightarrow> bool \<Rightarrow> root_state \<Rightarrow> 'x fs_world \<Rightarrow> (bool \<times> root_state \<times> 'x fs_world) ub" where
  "fopen_path_write E path append' g w =
     do { (r, g1, w1) \<leftarrow> ensure_path_mounted (re_host E) path g w;
          if r \<noteq> 0 then Some (False, g1, w1)
          else do {
            (d, w2) \<leftarrow> dirCreateHierarchy (re_dirs E) path 511 False True w1;
            let (ok, w3) = (if append' then fs_open_append (re_sys E) path w2 else fs_open_trunc (re_sys E) path w2);
            Some (ok, g1, w3) } }"

subsection \<open>The command line\<close>

definition is_newline :: "char \<Rightarrow> bool" where "is_newline c \<longleftrightarrow> c = CHR 0x0A"
definition is_line_end :: "char \<Rightarrow> bool" where "is_line_end c \<longleftrightarrow> c = CHR 0x0D \<or> c = CHR 0x0A"

text \<open>From the message: the arguments when there are any, and the array \<open>recovery\<close> as \<open>strtok\<close> leaves it.\<close>

definition args_of_message :: "string \<Rightarrow> (string list option \<times> string) ub" where
  "args_of_message recovery =
     do { buf \<leftarrow> wr recovery 767 NUL;
          (arg, buf1, pos) \<leftarrow> strtok_on is_newline buf 0;
          if arg = Some ''recovery''
          then do { (toks, buf2) \<leftarrow> strtok_all (MAX_ARGS - 1) is_newline buf1 pos; Some (Some (''recovery'' # toks), buf2) }
          else Some (None, buf1) }"

text \<open>From the lines of the command file, at most \<open>n\<close>: of each the part before the line end.\<close>

fun args_of_lines :: "nat \<Rightarrow> string \<Rightarrow> string list ub" where
  "args_of_lines 0 text = Some []"
| "args_of_lines (Suc n) text =
     (case fgets MAX_ARG_LENGTH text of
        ([], r) \<Rightarrow> Some []
      | (l, r) \<Rightarrow> do { (t, buf, pos) \<leftarrow> strtok_on is_line_end (l @ [NUL]) 0;
                      arg \<leftarrow> t;
                      args \<leftarrow> args_of_lines n r;
                      Some (arg # args) })"

text \<open>Appending the arguments to the array, each with a newline.\<close>

fun append_args :: "string list \<Rightarrow> string \<Rightarrow> string ub" where
  "append_args [] recovery = Some recovery"
| "append_args (a # as) recovery =
     do { (n1, r1) \<leftarrow> strlcat recovery (a @ [NUL]) 768;
          (n2, r2) \<leftarrow> strlcat r1 [CHR 0x0A, NUL] 768;
          append_args as r2 }"

definition get_args ::
  "'x rec_env \<Rightarrow> string list \<Rightarrow> root_state \<Rightarrow> 'x fs_world \<Rightarrow> (string list \<times> root_state \<times> 'x fs_world) ub" where
  "get_args E argv g w =
     do { (r, boot, g1, w1) \<leftarrow> get_bootloader_message (re_host E) (re_sys E) zero_message g w;
          (argv1, recovery1) \<leftarrow> (if length argv \<le> 1
            then do { (as, buf) \<leftarrow> args_of_message (bm_recovery boot);
                      Some (case as of None \<Rightarrow> argv | Some as \<Rightarrow> as, buf) }
            else Some (argv, bm_recovery boot));
          (argv2, g2, w2) \<leftarrow> (if length argv1 \<le> 1
            then do { (f, g2, w2) \<leftarrow> fopen_path_read E COMMAND_FILE g1 w1;
                      case f of
                        None \<Rightarrow> Some (argv1, g2, w2)
                      | Some d \<Rightarrow> do { argv0 \<leftarrow> rd argv1 0;
                                       let (bs, w3) = fs_fread (re_sys E) d (length d) w2;
                                       as \<leftarrow> args_of_lines (MAX_ARGS - 1) (string_of bs);
                                       Some (argv0 # as, g2, w3) } }
            else Some (argv1, g1, w1));
          (n, command) \<leftarrow> strlcpy (bm_command boot) (''boot-recovery'' @ [NUL]) 32;
          (n, recovery2) \<leftarrow> strlcpy recovery1 (''recovery'' @ [CHR 0x0A, NUL]) 768;
          recovery3 \<leftarrow> append_args (drop 1 argv2) recovery2;
          (s, g3, w3) \<leftarrow> set_bootloader_message (re_host E) (re_sys E)
             (boot\<lparr>bm_command := command, bm_recovery := recovery3\<rparr>) g2 w2;
          Some (argv2, g3, w3) }"

definition set_sdcard_update_bootloader_message ::
  "'x rec_env \<Rightarrow> root_state \<Rightarrow> 'x fs_world \<Rightarrow> (root_state \<times> 'x fs_world) ub" where
  "set_sdcard_update_bootloader_message E g w =
     do { (n, command) \<leftarrow> strlcpy (bm_command zero_message) (''boot-recovery'' @ [NUL]) 32;
          (n, recovery) \<leftarrow> strlcpy (bm_recovery zero_message) (''recovery'' @ [CHR 0x0A, NUL]) 768;
          (s, g1, w1) \<leftarrow> set_bootloader_message (re_host E) (re_sys E)
             (zero_message\<lparr>bm_command := command, bm_recovery := recovery\<rparr>) g w;
          Some (g1, w1) }"

subsection \<open>Finishing\<close>

text \<open>A stream that is written to reaches the disk in one step, when it is closed; the answer is not looked at.\<close>

definition fs_put :: "sys \<Rightarrow> string \<Rightarrow> bytes \<Rightarrow> 'x fs_world \<Rightarrow> 'x fs_world" where
  "fs_put S name bs w = snd (fs_write S name bs w)"

text \<open>\<open>fputs\<close> stops at a NUL in a line that \<open>fgets\<close> read.\<close>

function copy_lines :: "string \<Rightarrow> string" where
  "copy_lines text =
     (if text = [] then [] else cstr (fst (fgets 4096 text)) @ copy_lines (snd (fgets 4096 text)))"
  by pat_completeness auto
termination by (relation "measure length") (auto intro: fgets_rest)

declare copy_lines.simps [simp del]

definition copy_log_file ::
  "'x rec_env \<Rightarrow> string \<Rightarrow> bool \<Rightarrow> rec_state \<Rightarrow> 'x fs_world \<Rightarrow> (rec_state \<times> 'x fs_world) ub" where
  "copy_log_file E destination append' st w =
     do { (ok, g1, w1) \<leftarrow> fopen_path_write E destination append' (rs_root st) w;
          let st1 = st\<lparr>rs_root := g1\<rparr>;
          if \<not> ok then Some (st1, w1)
          else let (f, w2) = fs_open_read (re_sys E) TEMPORARY_LOG_FILE w1
          in case f of
               None \<Rightarrow> Some (st1, w2)
             | Some d \<Rightarrow>
                 let start = (if append' then tmplog_offset st1 else 0);
                     (bs, w3) = fs_fread (re_sys E) (drop start d) (length d) w2;
                     st2 = (if append' then st1\<lparr>tmplog_offset := start + length bs\<rparr> else st1)
                 in Some (st2, fs_put (re_sys E) destination (bytes_of (copy_lines (string_of bs))) w3) }"

definition write_intent :: "'x rec_env \<Rightarrow> string \<Rightarrow> rec_state \<Rightarrow> 'x fs_world \<Rightarrow> (rec_state \<times> 'x fs_world) ub" where
  "write_intent E send_intent st w =
     do { (ok, g1, w1) \<leftarrow> fopen_path_write E INTENT_FILE False (rs_root st) w;
          Some (st\<lparr>rs_root := g1\<rparr>, if ok then fs_put (re_sys E) INTENT_FILE (bytes_of send_intent) w1 else w1) }"

definition finish_recovery ::
  "'x rec_env \<Rightarrow> string option \<Rightarrow> rec_state \<Rightarrow> 'x fs_world \<Rightarrow> (rec_state \<times> 'x fs_world) ub" where
  "finish_recovery E send_intent st w =
     do { (st1, w1) \<leftarrow> (case send_intent of None \<Rightarrow> Some (st, w) | Some i \<Rightarrow> write_intent E i st w);
          (st2, w2) \<leftarrow> copy_log_file E LOG_FILE True st1 w1;
          (st3, w3) \<leftarrow> copy_log_file E LAST_LOG_FILE False st2 w2;
          let (c, w4) = fs_chmod (re_sys E) LAST_LOG_FILE 416 w3;
          (n, flag) \<leftarrow> strlcpy (bm_systemFlag zero_message) (systemFlag st3 @ [NUL]) 252;
          (s, g5, w5) \<leftarrow> set_bootloader_message (re_host E) (re_sys E) (zero_message\<lparr>bm_systemFlag := flag\<rparr>) (rs_root st3) w4;
          (r, g6, w6) \<leftarrow> ensure_path_mounted (re_host E) COMMAND_FILE g5 w5;
          Some (st3\<lparr>rs_root := g6\<rparr>, if r \<noteq> 0 then w6 else snd (fs_unlink (re_sys E) COMMAND_FILE w6)) }"

end
