(* ===== verification/BootProtocol.thy ===== *)
theory BootProtocol
  imports RecoveryArgs
begin

text \<open>
  What the message in the \<open>misc\<close> partition does for the recovery program: the laws of reading and writing it on a
  block device, and the arguments it carries from one boot to the next.
\<close>

subsection \<open>Tokens\<close>

lemma strtok_on_token:
  assumes "length pre = pos" "tok \<noteq> []" "\<forall>c\<in>set tok. \<not> delim c \<and> c \<noteq> NUL" "delim d" "d \<noteq> NUL"
  shows "strtok_on delim (pre @ tok @ d # rest) pos = Some (Some tok, pre @ tok @ NUL # rest, pos + length tok + 1)"
proof -
  have "takeWhile delim (tok @ d # rest) = []" using assms(2,3) by (cases tok) auto
  moreover have "takeWhile (\<lambda>c. \<not> delim c \<and> c \<noteq> NUL) (tok @ d # rest) = tok"
    using assms(3,4) by (simp add: takeWhile_append2)
  moreover have "rd (pre @ tok @ d # rest) (pos + length tok) = Some d"
    using assms(1) by (simp add: rd_def nth_append)
  moreover have "(pre @ tok @ d # rest)[pos + length tok := NUL] = pre @ tok @ NUL # rest"
    using assms(1) by (simp add: list_update_append)
  ultimately show ?thesis using assms by (simp add: strtok_on.simps)
qed

lemma strtok_on_end:
  assumes "length pre = pos" "\<not> delim NUL"
  shows "strtok_on delim (pre @ NUL # rest) pos = Some (None, pre @ NUL # rest, pos)"
  using assms by (simp add: strtok_on.simps rd_def)

text \<open>Arguments that survive being written one per line.\<close>

definition arg_ok :: "string \<Rightarrow> bool" where
  "arg_ok a \<longleftrightarrow> a \<noteq> [] \<and> length a < 4095 \<and> (\<forall>c\<in>set a. c \<noteq> NUL \<and> c \<noteq> CHR 0x0A \<and> c \<noteq> CHR 0x0D)"

definition lines_of :: "string list \<Rightarrow> string" where
  "lines_of as = concat (map (\<lambda>a. a @ [CHR 0x0A]) as)"

definition args_text :: "string list \<Rightarrow> string" where
  "args_text as = lines_of (''recovery'' # as)"

lemma lines_of_simps [simp]:
  "lines_of [] = []" "lines_of (a # as) = a @ CHR 0x0A # lines_of as" "lines_of (as @ bs) = lines_of as @ lines_of bs"
  by (simp_all add: lines_of_def)

lemma lines_no_NUL: "\<forall>a\<in>set as. arg_ok a \<Longrightarrow> NUL \<notin> set (lines_of as)"
  by (induction as) (auto simp: arg_ok_def)

lemma recovery_ok [simp]: "arg_ok ''recovery''"
  by (simp add: arg_ok_def)

lemma strtok_all_lines:
  "\<forall>a\<in>set as. arg_ok a \<Longrightarrow> length as \<le> n \<Longrightarrow> length pre = pos \<Longrightarrow>
   \<exists>buf. strtok_all n is_newline (pre @ lines_of as @ NUL # rest) pos = Some (as, buf) \<and>
     length buf = length (pre @ lines_of as @ NUL # rest)"
proof (induction n arbitrary: as pre pos)
  case (Suc n)
  show ?case
  proof (cases as)
    case Nil
    have "\<not> is_newline NUL" by (simp add: is_newline_def)
    then show ?thesis using strtok_on_end [OF Suc.prems(3), of is_newline rest] Nil by simp
  next
    case (Cons a as')
    have a: "arg_ok a" using Suc.prems(1) Cons by simp
    have "strtok_on is_newline (pre @ a @ CHR 0x0A # lines_of as' @ NUL # rest) pos =
        Some (Some a, pre @ a @ NUL # lines_of as' @ NUL # rest, pos + length a + 1)"
      by (rule strtok_on_token) (use a Suc.prems(3) in \<open>auto simp: arg_ok_def is_newline_def\<close>)
    then show ?thesis
      using Suc.IH [of as' "pre @ a @ [NUL]" "pos + length a + 1"] Suc.prems Cons by auto
  qed
qed simp

lemma cstr_split:
  assumes "length buf = n" "length (cstr buf) < n"
  shows "\<exists>rest. buf = cstr buf @ NUL # rest \<and> length rest = n - length (cstr buf) - 1"
proof -
  have b: "buf = cstr buf @ dropWhile (\<lambda>c. c \<noteq> NUL) buf" by (simp add: cstr_def)
  obtain c rest where d: "dropWhile (\<lambda>c. c \<noteq> NUL) buf = c # rest"
    using assms b by (cases "dropWhile (\<lambda>c. c \<noteq> NUL) buf") auto
  have "c = NUL" using hd_dropWhile [of "\<lambda>c. c \<noteq> NUL" buf] d by simp
  then have s: "buf = cstr buf @ NUL # rest" using b d by simp
  have "n = length (cstr buf @ NUL # rest)" using assms(1) s by simp
  then have "length rest = n - length (cstr buf) - 1" by simp
  then show ?thesis using s by blast
qed

lemma args_of_message_text:
  assumes "\<forall>a\<in>set as. arg_ok a" "length as \<le> 99" "length (args_text as) \<le> 767" "length buf = 768"
    and "cstr buf = args_text as"
  shows "\<exists>buf1. args_of_message buf = Some (Some (''recovery'' # as), buf1) \<and> length buf1 = 768"
proof -
  obtain rest where buf: "buf = args_text as @ NUL # rest" "length rest = 767 - length (args_text as)"
    using cstr_split [OF assms(4)] assms(3,5) by auto
  have "\<exists>rest1. buf[767 := NUL] = args_text as @ NUL # rest1 \<and> length rest1 = length rest"
  proof (cases "767 - length (args_text as)")
    case 0
    then show ?thesis using buf(1) assms(3) by (simp add: list_update_append)
  next
    case (Suc k)
    then have "buf[767 := NUL] = args_text as @ NUL # rest[k := NUL]" using buf(1) assms(3) by (simp add: list_update_append)
    then show ?thesis by simp
  qed
  then have "\<exists>rest1. wr buf 767 NUL = Some (args_text as @ NUL # rest1) \<and> length rest1 = length rest"
    using assms(4) by (simp add: wr_def)
  then obtain rest1 where w: "wr buf 767 NUL = Some (args_text as @ NUL # rest1)" "length rest1 = length rest" by blast
  have t: "args_text as = ''recovery'' @ CHR 0x0A # lines_of as" by (simp add: args_text_def)
  have f: "strtok_on is_newline ([] @ ''recovery'' @ CHR 0x0A # (lines_of as @ NUL # rest1)) 0 =
      Some (Some ''recovery'', [] @ ''recovery'' @ NUL # (lines_of as @ NUL # rest1), 0 + length ''recovery'' + 1)"
    by (rule strtok_on_token) (auto simp: is_newline_def)
  obtain buf1 where b: "strtok_all 99 is_newline ((''recovery'' @ [NUL]) @ lines_of as @ NUL # rest1) (0 + length ''recovery'' + 1) = Some (as, buf1)"
    "length buf1 = length ((''recovery'' @ [NUL]) @ lines_of as @ NUL # rest1)"
    using strtok_all_lines [OF assms(1,2), of "''recovery'' @ [NUL]" "0 + length ''recovery'' + 1" rest1] by auto
  have "length buf1 = 768" using b(2) w(2) buf(2) assms(3) t by simp
  then show ?thesis using w(1) f b(1) unfolding args_of_message_def t MAX_ARGS_def by simp
qed

lemma args_of_lines_text:
  "\<forall>a\<in>set as. arg_ok a \<Longrightarrow> length as \<le> n \<Longrightarrow> args_of_lines n (lines_of as) = Some as"
proof (induction as arbitrary: n)
  case Nil
  then show ?case by (cases n) (simp_all add: MAX_ARG_LENGTH_def)
next
  case (Cons a as)
  then obtain n' where n: "n = Suc n'" by (cases n) auto
  have a: "arg_ok a" using Cons.prems(1) by simp
  have g: "fgets MAX_ARG_LENGTH (a @ CHR 0x0A # lines_of as) = (a @ [CHR 0x0A], lines_of as)"
    by (rule fgets_line) (use a in \<open>auto simp: arg_ok_def MAX_ARG_LENGTH_def\<close>)
  have "strtok_on is_line_end ([] @ a @ CHR 0x0A # [NUL]) 0 = Some (Some a, [] @ a @ NUL # [NUL], 0 + length a + 1)"
    by (rule strtok_on_token) (use a in \<open>auto simp: arg_ok_def is_line_end_def\<close>)
  then show ?case using Cons.IH [of n'] Cons.prems n g by (cases a) auto
qed

subsection \<open>The arguments in the message\<close>

text \<open>What does not fit into the array is cut off.\<close>

lemma append_args_text:
  "\<forall>a\<in>set as. NUL \<notin> set a \<Longrightarrow> length r = 768 \<Longrightarrow> length (cstr r) < 768 \<Longrightarrow>
   \<exists>r1. append_args as r = Some r1 \<and> length r1 = 768 \<and> cstr r1 = take 767 (cstr r @ lines_of as)"
proof (induction as arbitrary: r)
  case Nil
  then show ?case by simp
next
  case (Cons a as)
  obtain dr where r: "r = cstr r @ NUL # dr" "length dr = 767 - length (cstr r)"
    using cstr_split [OF Cons.prems(2,3)] by auto
  let ?n = "767 - length (cstr r)"
  let ?t1 = "cstr r @ take ?n a"
  have 1: "strlcat r (a @ [NUL]) 768 = Some (length (cstr r) + length a, ?t1 @ NUL # drop (min (length a) ?n) dr)"
    using strlcat_exact [of "cstr r" a 768 dr "[]"] Cons.prems r by simp
  have l1: "length ?t1 < 768" using Cons.prems(3) by simp
  have n1: "NUL \<notin> set ?t1" using Cons.prems(1) by (auto dest: in_set_takeD)
  let ?m = "767 - length ?t1"
  let ?t2 = "?t1 @ take ?m [CHR 0x0A]"
  have lr: "length (drop (min (length a) ?n) dr) = 767 - length ?t1" using r(2) Cons.prems(3) by simp
  have 2: "strlcat (?t1 @ NUL # drop (min (length a) ?n) dr) ([CHR 0x0A] @ NUL # []) 768 =
      Some (length ?t1 + 1, ?t2 @ NUL # drop (min 1 ?m) (drop (min (length a) ?n) dr))"
    using strlcat_exact [of ?t1 "[CHR 0x0A]" 768 "drop (min (length a) ?n) dr" "[]"] n1 l1 lr by simp
  let ?r2 = "?t2 @ NUL # drop (min 1 ?m) (drop (min (length a) ?n) dr)"
  have c2: "cstr ?r2 = ?t2" using n1 by (intro cstr_NUL) (auto dest: in_set_takeD)
  have le1: "length ?t1 \<le> 767" using l1 by simp
  have "length ?t2 = length ?t1 + min 1 ?m" by simp
  moreover have "length ?r2 = length ?t2 + 1 + (length (drop (min (length a) ?n) dr) - min 1 ?m)"
    by (simp only: length_append list.size length_drop add.assoc)
  ultimately have len2: "length ?r2 = 768" and lt2: "length ?t2 < 768" using le1 unfolding lr by linarith+
  have t2: "?t2 = take 767 (cstr r @ a @ [CHR 0x0A])"
  proof -
    have "?m = ?n - length a" by simp
    moreover have "take 767 (cstr r) = cstr r" using Cons.prems(3) by simp
    ultimately show ?thesis by (simp only: take_append append_assoc)
  qed
  have "\<forall>a\<in>set as. NUL \<notin> set a" using Cons.prems(1) by simp
  from Cons.IH [OF this len2, unfolded c2, OF lt2]
  obtain r1 where r1: "append_args as ?r2 = Some r1" "length r1 = 768" "cstr r1 = take 767 (?t2 @ lines_of as)"
    by blast
  have "take 767 (take 767 (cstr r @ a @ [CHR 0x0A]) @ lines_of as) = take 767 ((cstr r @ a @ [CHR 0x0A]) @ lines_of as)"
    by (simp only: take_append take_take min.idem length_take) (simp add: min_def)
  then have "cstr r1 = take 767 (cstr r @ lines_of (a # as))" using r1(3) unfolding t2 by simp
  moreover have "append_args (a # as) r = Some r1"
    using 1 2 r1(1) r(1) by (simp only: append_args.simps bind.bind_lunit prod.case append_Cons append_Nil)
  ultimately show ?case using r1(2) by blast
qed

lemma strlcpy_array:
  assumes "NUL \<notin> set s" "length s < n" "length buf = n"
  shows "\<exists>buf1 k. strlcpy buf (s @ [NUL]) n = Some (k, buf1) \<and> length buf1 = n \<and> cstr buf1 = s"
  using strlcpy_exact [of s n buf "[]"] assms by (auto intro!: exI simp: min_def)


subsection \<open>The device\<close>

text \<open>
  The documented behaviour the protocol rests on.  \<open>quiet\<close>: no call of the host touches a file, the
  command line of the kernel names no flash, no path is a link and the mount table has at most 31 lines.
  \<open>working\<close>: no call on a file fails.
\<close>

definition files :: "'x fs_world \<Rightarrow> disk \<times> disk list" where
  "files w = (now w, past w)"

definition quiet :: "('x fs_world) host \<Rightarrow> bool" where
  "quiet H \<longleftrightarrow>
     (\<forall>p w. files (snd (h_stat H p w)) = files w) \<and>
     (\<forall>p w. files (snd (h_access H p w)) = files w) \<and>
     (\<forall>d m t f w. files (snd (h_mount H d m t f w)) = files w) \<and>
     (\<forall>p m w. files (snd (h_mkdir H p m w)) = files w) \<and>
     (\<forall>p w. \<exists>w1. h_readlink H p w = (None, w1) \<and> files w1 = files w) \<and>
     (\<forall>w. \<exists>t w1. h_read H ''/proc/cmdline'' 2048 w = (Some t, w1) \<and> files w1 = files w \<and>
        length t < 2048 \<and> strstr (t @ h_junk H) ''storagemedia'' = None) \<and>
     (\<forall>w. \<exists>t w1. h_read H ''/proc/mounts'' 2047 w = (Some t, w1) \<and> files w1 = files w \<and>
        length (filter (\<lambda>c. c = CHR 0x0A) t) \<le> 31)"

definition working :: "sys \<Rightarrow> bool" where
  "working S \<longleftrightarrow> (\<forall>n. 0 \<le> answer S n)"

text \<open>The volume table has the partition on a block device, and the state is one the code can reach.\<close>

definition misc_on :: "string \<Rightarrow> root_state \<Rightarrow> bool" where
  "misc_on dev g \<longleftrightarrow>
     (\<exists>v. find (on_volume ''/misc'') (device_volumes g) = Some v \<and> v_fs_type v = ''emmc'' \<and> v_device v = Some dev)"

text \<open>What the device holds.\<close>

definition holds_message :: "string \<Rightarrow> bootloader_message \<Rightarrow> disk \<Rightarrow> bool" where
  "holds_message dev m d \<longleftrightarrow> message_ok m \<and> (\<exists>i. d dev = Some i \<and> \<not> i_reg i \<and> MESSAGE_OFFSET + MESSAGE_SIZE \<le> length (i_data i) \<and>
     take MESSAGE_SIZE (drop MESSAGE_OFFSET (i_data i)) = bytes_of (message_chars m))"

lemma files_tick [simp]: "files (tick w) = files w"
  by (simp add: files_def)

lemma filesD: "files w1 = files w \<Longrightarrow> now w1 = now w \<and> past w1 = past w"
  by (simp add: files_def)

lemma working_ask [simp]: "working S \<Longrightarrow> \<not> ask S w < 0"
  by (simp add: working_def ask_def not_less)

lemma stat_tries_files: "quiet H \<Longrightarrow> files (stat_tries H fn n w) = files w"
proof (induction n arbitrary: w)
  case (Suc n)
  then have "files (snd (h_stat H fn w)) = files w" by (simp add: quiet_def)
  then show ?case using Suc by (simp add: split_beta)
qed simp

lemma quiet_volume:
  assumes "quiet H" "length path < 256"
  shows "\<exists>w1. volume_for_path H path g w = Some (find (on_volume path) (device_volumes g), g\<lparr>mount_point := []\<rparr>, w1) \<and>
    files w1 = files w"
proof -
  obtain w1 where "h_readlink H (cut_last path (length path)) w = (None, w1)" "files w1 = files w"
    using assms(1) unfolding quiet_def by meson
  then show ?thesis using assms(2)
    by (simp add: volume_for_path_def get_link_path_def search_no_link del: find.simps search_volumes.simps)
qed

lemma quiet_not_mtd:
  assumes "quiet H"
  shows "\<exists>w1. isMtdDevice H w = Some (- 1, w1) \<and> files w1 = files w"
proof -
  obtain t w1 where "h_read H ''/proc/cmdline'' 2048 w = (Some t, w1)" "files w1 = files w"
    "length t < 2048" "strstr (t @ h_junk H) ''storagemedia'' = None"
    using assms unfolding quiet_def by meson
  then show ?thesis by (simp add: isMtdDevice_def read_cmdline_def del: strstr.simps)
qed

lemma get_message_ok:
  assumes "quiet H" "working S" "misc_on dev g" "holds_message dev m (now w)"
  shows "\<exists>w1. get_bootloader_message H S out g w = Some (0, m, g\<lparr>mount_point := []\<rparr>, w1) \<and> files w1 = files w"
proof -
  obtain v where v: "find (on_volume ''/misc'') (device_volumes g) = Some v" "v_fs_type v = ''emmc''" "v_device v = Some dev"
    using assms(3) by (auto simp: misc_on_def)
  obtain w1 where w1: "volume_for_path H ''/misc'' g w = Some (Some v, g\<lparr>mount_point := []\<rparr>, w1)" "files w1 = files w"
    using quiet_volume [OF assms(1), of "''/misc''" g w] v by auto
  obtain w2 where w2: "isMtdDevice H w1 = Some (- 1, w2)" "files w2 = files w1" using quiet_not_mtd [OF assms(1)] by blast
  let ?w3 = "wait_for_device H dev w2"
  have w3: "files ?w3 = files w" using stat_tries_files [OF assms(1)] w1 w2 by (simp add: wait_for_device_def)
  obtain i where i: "now ?w3 dev = Some i" "MESSAGE_OFFSET + MESSAGE_SIZE \<le> length (i_data i)"
    "take MESSAGE_SIZE (drop MESSAGE_OFFSET (i_data i)) = bytes_of (message_chars m)"
    using assms(4) filesD [OF w3] by (auto simp: holds_message_def)
  have len: "length (bytes_of (message_chars m)) = MESSAGE_SIZE"
    using assms(4) by (simp add: holds_message_def message_chars_length)
  have "get_bootloader_message_block H S out dev w2 = (0, m, tick (tick (tick ?w3)))"
    using assms(2,4) i len
    by (simp add: get_bootloader_message_block_def fs_open_read_def fs_fread_def holds_message_def message_of_chars Let_def)
  then show ?thesis using w1 w2 v w3 by (simp add: get_bootloader_message_def)
qed

lemma place_message:
  assumes "message_ok m" "MESSAGE_OFFSET + MESSAGE_SIZE \<le> length (i_data i)" "\<not> i_reg i"
  shows "\<not> i_reg (place MESSAGE_OFFSET (bytes_of (message_chars m)) i)"
    "length (i_data (place MESSAGE_OFFSET (bytes_of (message_chars m)) i)) = length (i_data i)"
    "take MESSAGE_SIZE (drop MESSAGE_OFFSET (i_data (place MESSAGE_OFFSET (bytes_of (message_chars m)) i))) = bytes_of (message_chars m)"
proof -
  let ?bs = "bytes_of (message_chars m)"
  have len: "length ?bs = MESSAGE_SIZE" using assms(1) by (simp add: message_chars_length)
  then have "?bs \<noteq> []" using MESSAGE_SIZE_def by (metis list.size(3) zero_neq_numeral)
  then have p: "i_data (place MESSAGE_OFFSET ?bs i) =
      take (length (i_data i)) (take MESSAGE_OFFSET (i_data i) @ ?bs @ drop (MESSAGE_OFFSET + MESSAGE_SIZE) (i_data i))"
    using assms(2,3) len by (simp add: place_def Let_def)
  have "length (take MESSAGE_OFFSET (i_data i) @ ?bs @ drop (MESSAGE_OFFSET + MESSAGE_SIZE) (i_data i)) = length (i_data i)"
    using assms(2) len by simp
  then have q: "i_data (place MESSAGE_OFFSET ?bs i) =
      take MESSAGE_OFFSET (i_data i) @ ?bs @ drop (MESSAGE_OFFSET + MESSAGE_SIZE) (i_data i)"
    unfolding p by (metis order_refl take_all)
  show "\<not> i_reg (place MESSAGE_OFFSET ?bs i)" using assms(3) by (simp add: place_def Let_def)
  show "length (i_data (place MESSAGE_OFFSET ?bs i)) = length (i_data i)" unfolding q using assms(2) len by simp
  show "take MESSAGE_SIZE (drop MESSAGE_OFFSET (i_data (place MESSAGE_OFFSET ?bs i))) = ?bs"
    unfolding q using assms(2) len by simp
qed

lemma set_message_ok:
  assumes "quiet H" "working S" "misc_on dev g" "message_ok m" "holds_message dev m0 (now w)"
  shows "\<exists>w1 i. set_bootloader_message H S m g w = Some (0, g\<lparr>mount_point := []\<rparr>, w1) \<and>
    now w1 = (now w)(dev \<mapsto> i) \<and> past w1 = now w # past w \<and> holds_message dev m (now w1)"
proof -
  obtain v where v: "find (on_volume ''/misc'') (device_volumes g) = Some v" "v_fs_type v = ''emmc''" "v_device v = Some dev"
    using assms(3) by (auto simp: misc_on_def)
  obtain w1 where w1: "volume_for_path H ''/misc'' g w = Some (Some v, g\<lparr>mount_point := []\<rparr>, w1)" "files w1 = files w"
    using quiet_volume [OF assms(1), of "''/misc''" g w] v by auto
  obtain w2 where w2: "isMtdDevice H w1 = Some (- 1, w2)" "files w2 = files w1" using quiet_not_mtd [OF assms(1)] by blast
  have f: "now w2 = now w" "past w2 = past w" using w1(2) w2(2) by (simp_all add: files_def)
  obtain i where i: "now w2 dev = Some i" "\<not> i_reg i" "MESSAGE_OFFSET + MESSAGE_SIZE \<le> length (i_data i)"
    using assms(5) f by (auto simp: holds_message_def)
  let ?bs = "bytes_of (message_chars m)"
  have len: "length ?bs = MESSAGE_SIZE" using assms(4) by (simp add: message_chars_length)
  let ?w3 = "tick (change (\<lambda>d. d(dev := map_option (place MESSAGE_OFFSET ?bs) (d dev))) (tick (tick w2)))"
  have "set_bootloader_message_block S m dev w2 = (0, ?w3)"
    using assms(2) i len
    by (simp add: set_bootloader_message_block_def fs_open_write_def fs_close_write_def Let_def)
  then have "set_bootloader_message H S m g w = Some (0, g\<lparr>mount_point := []\<rparr>, ?w3)"
    using w1 w2 v by (simp add: set_bootloader_message_def)
  moreover have "now ?w3 = (now w)(dev \<mapsto> place MESSAGE_OFFSET ?bs i)" using f i by (auto simp: fun_eq_iff)
  moreover from this have "holds_message dev m (now ?w3)"
    using place_message [OF assms(4) i(3,2)] i(3) assms(4) by (simp add: holds_message_def)
  moreover have "past ?w3 = now w # past w" using f by simp
  ultimately show ?thesis by blast
qed


subsection \<open>Starting\<close>

text \<open>The message after \<open>get_args\<close>: it asks for the recovery program and lists the arguments.\<close>

definition carries :: "string list \<Rightarrow> bootloader_message \<Rightarrow> bool" where
  "carries as m \<longleftrightarrow> message_ok m \<and> cstr (bm_command m) = ''boot-recovery'' \<and> cstr (bm_recovery m) = take 767 (args_text as)"

lemma write_back:
  assumes "quiet (re_host E)" "working (re_sys E)" "misc_on dev g" "message_ok boot" "length recovery1 = 768"
    and "\<forall>a\<in>set as. NUL \<notin> set a" "holds_message dev m0 (now w)"
  shows "\<exists>n1 command n2 recovery2 recovery3 m w1 i.
    strlcpy (bm_command boot) (''boot-recovery'' @ [NUL]) 32 = Some (n1, command) \<and>
    strlcpy recovery1 (''recovery'' @ [CHR 0x0A, NUL]) 768 = Some (n2, recovery2) \<and>
    append_args as recovery2 = Some recovery3 \<and> m = boot\<lparr>bm_command := command, bm_recovery := recovery3\<rparr> \<and>
    set_bootloader_message (re_host E) (re_sys E) m g w = Some (0, g\<lparr>mount_point := []\<rparr>, w1) \<and>
    carries as m \<and> bm_status m = bm_status boot \<and> now w1 = (now w)(dev \<mapsto> i) \<and> past w1 = now w # past w \<and> holds_message dev m (now w1)"
proof -
  obtain command n1 where c: "strlcpy (bm_command boot) (''boot-recovery'' @ [NUL]) 32 = Some (n1, command)"
    "length command = 32" "cstr command = ''boot-recovery''"
    using strlcpy_array [of "''boot-recovery''" 32 "bm_command boot"] assms(4) by (auto simp: message_ok_def)
  obtain recovery2 n2 where r: "strlcpy recovery1 ((''recovery'' @ [CHR 0x0A]) @ [NUL]) 768 = Some (n2, recovery2)"
    "length recovery2 = 768" "cstr recovery2 = ''recovery'' @ [CHR 0x0A]"
    using strlcpy_array [of "''recovery'' @ [CHR 0x0A]" 768 recovery1] assms(5) by auto
  obtain recovery3 where a: "append_args as recovery2 = Some recovery3" "length recovery3 = 768"
    "cstr recovery3 = take 767 (cstr recovery2 @ lines_of as)"
    using append_args_text [OF assms(6) r(2)] r(3) by auto
  let ?m = "boot\<lparr>bm_command := command, bm_recovery := recovery3\<rparr>"
  have m: "message_ok ?m" using assms(4) c(2) a(2) by (simp add: message_ok_def)
  have "args_text as = cstr recovery2 @ lines_of as" using r(3) by (simp add: args_text_def)
  then have "carries as ?m" using m c(3) a(3) by (simp add: carries_def)
  moreover obtain w1 i where "set_bootloader_message (re_host E) (re_sys E) ?m g w = Some (0, g\<lparr>mount_point := []\<rparr>, w1)"
    "now w1 = (now w)(dev \<mapsto> i)" "past w1 = now w # past w" "holds_message dev ?m (now w1)"
    using set_message_ok [OF assms(1-3) m assms(7)] by blast
  ultimately show ?thesis using c(1) r(1) a(1) by (intro exI conjI) (assumption | simp)+
qed

text \<open>With arguments in the message, the command file plays no part.\<close>

definition args_ok :: "string list \<Rightarrow> bool" where
  "args_ok as \<longleftrightarrow> as \<noteq> [] \<and> length as \<le> 99 \<and> (\<forall>a\<in>set as. arg_ok a) \<and> length (args_text as) \<le> 767"

lemma args_okD: "args_ok as \<Longrightarrow> \<forall>a\<in>set as. NUL \<notin> set a"
  by (auto simp: args_ok_def arg_ok_def)

lemma get_args_from_message:
  assumes "quiet (re_host E)" "working (re_sys E)" "misc_on dev g" "args_ok as" "carries as m" "holds_message dev m (now w)"
  shows "\<exists>g1 w1 m1 i. get_args E [prog] g w = Some (''recovery'' # as, g1, w1) \<and> carries as m1 \<and>
    now w1 = (now w)(dev \<mapsto> i) \<and> past w1 = now w # past w \<and> holds_message dev m1 (now w1)"
proof -
  obtain w0 where g: "get_bootloader_message (re_host E) (re_sys E) zero_message g w = Some (0, m, g\<lparr>mount_point := []\<rparr>, w0)"
    "files w0 = files w"
    using get_message_ok [OF assms(1-3,6)] by blast
  have m: "message_ok m" "length (bm_recovery m) = 768" "cstr (bm_recovery m) = args_text as"
    using assms(4,5) by (auto simp: carries_def args_ok_def message_ok_def)
  obtain buf where b: "args_of_message (bm_recovery m) = Some (Some (''recovery'' # as), buf)" "length buf = 768"
    using args_of_message_text [of as "bm_recovery m"] assms(4) m by (auto simp: args_ok_def)
  have mo: "misc_on dev (g\<lparr>mount_point := []\<rparr>)" using assms(3) by (simp add: misc_on_def)
  have f: "now w0 = now w" "past w0 = past w" using g(2) by (simp_all add: files_def)
  have h0: "holds_message dev m (now w0)" using assms(6) f by simp
  obtain n1 command n2 recovery2 recovery3 m1 w1 i where wb:
    "strlcpy (bm_command m) (''boot-recovery'' @ [NUL]) 32 = Some (n1, command)"
    "strlcpy buf (''recovery'' @ [CHR 0x0A, NUL]) 768 = Some (n2, recovery2)"
    "append_args as recovery2 = Some recovery3" "m1 = m\<lparr>bm_command := command, bm_recovery := recovery3\<rparr>"
    "set_bootloader_message (re_host E) (re_sys E) m1 (g\<lparr>mount_point := []\<rparr>) w0 = Some (0, g\<lparr>mount_point := []\<rparr>, w1)"
    "carries as m1" "now w1 = (now w0)(dev \<mapsto> i)" "past w1 = now w0 # past w0" "holds_message dev m1 (now w1)"
    using write_back [OF assms(1,2) mo m(1) b(2) args_okD [OF assms(4)] h0] by auto
  have "as \<noteq> []" using assms(4) by (simp add: args_ok_def)
  then have "get_args E [prog] g w = Some (''recovery'' # as, g\<lparr>mount_point := []\<rparr>, w1)"
    unfolding get_args_def using g(1) b(1) wb(1,2,3) wb(5) [unfolded wb(4)] by simp
  then show ?thesis using wb(6-9) f by auto
qed


text \<open>Without arguments in the message, they come from the command file; a file that is there can be accessed.\<close>

definition accessible :: "('x fs_world) host \<Rightarrow> bool" where
  "accessible H \<longleftrightarrow> (\<forall>p w. now w p \<noteq> None \<longrightarrow> fst (h_access H p w) = 0)"

definition no_args :: "bootloader_message \<Rightarrow> bool" where
  "no_args m \<longleftrightarrow> (\<exists>buf. args_of_message (bm_recovery m) = Some (None, buf))"

lemma args_of_message_length:
  "args_of_message r = Some (x, buf) \<Longrightarrow> x = None \<Longrightarrow> length buf = length r"
  by (auto simp: args_of_message_def strtok_on.simps bind_eq_Some_conv mem_simps Let_def split: if_splits)

lemma get_args_from_file:
  assumes "quiet (re_host E)" "working (re_sys E)" "accessible (re_host E)" "misc_on dev g" "args_ok as"
    and "holds_message dev m (now w)" "no_args m"
    and "now w COMMAND_FILE = Some c" "i_data c = bytes_of (lines_of as)"
  shows "\<exists>g1 w1 m1 i. get_args E [prog] g w = Some (prog # as, g1, w1) \<and> carries as m1 \<and>
    now w1 = (now w)(dev \<mapsto> i) \<and> past w1 = now w # past w \<and> holds_message dev m1 (now w1)"
proof -
  let ?g = "g\<lparr>mount_point := []\<rparr>"
  obtain w0 where g: "get_bootloader_message (re_host E) (re_sys E) zero_message g w = Some (0, m, ?g, w0)"
    "files w0 = files w"
    using get_message_ok [OF assms(1,2,4,6)] by blast
  have m: "message_ok m" "length (bm_recovery m) = 768" using assms(6) by (auto simp: holds_message_def message_ok_def)
  obtain buf where b: "args_of_message (bm_recovery m) = Some (None, buf)" "length buf = 768"
    using assms(7) args_of_message_length m(2) unfolding no_args_def by metis
  have f: "now w0 = now w" "past w0 = past w" using g(2) by (simp_all add: files_def)
  obtain a w1 where a: "h_access (re_host E) COMMAND_FILE w0 = (a, w1)" by force
  have a0: "a = 0" using assms(3,8) a f unfolding accessible_def by (metis fst_conv option.distinct(1))
  have f1: "files w1 = files w" using assms(1) a g(2) unfolding quiet_def by (metis snd_conv)
  then have c: "now w1 COMMAND_FILE = Some c" using assms(8) by (simp add: files_def)
  have op: "fopen_path_read E COMMAND_FILE ?g w0 = Some (Some (bytes_of (lines_of as)), ?g, tick w1)"
    using a a0 c assms(2,9) by (simp add: fopen_path_read_def ensure_path_mounted_def fs_open_read_def)
  let ?w2 = "tick (tick w1)"
  have rd: "fs_fread (re_sys E) (bytes_of (lines_of as)) (length (bytes_of (lines_of as))) (tick w1) = (bytes_of (lines_of as), ?w2)"
    using assms(2) by (simp add: fs_fread_def)
  have as: "args_of_lines (MAX_ARGS - 1) (string_of (bytes_of (lines_of as))) = Some as"
    using args_of_lines_text [of as 99] assms(5) by (simp add: args_ok_def MAX_ARGS_def)
  have f2: "now ?w2 = now w" "past ?w2 = past w" using f1 by (simp_all add: files_def)
  have h2: "holds_message dev m (now ?w2)" using assms(6) f2 by simp
  have mo: "misc_on dev ?g" using assms(4) by (simp add: misc_on_def)
  obtain n1 command n2 recovery2 recovery3 m1 w3 i where wb:
    "strlcpy (bm_command m) (''boot-recovery'' @ [NUL]) 32 = Some (n1, command)"
    "strlcpy buf (''recovery'' @ [CHR 0x0A, NUL]) 768 = Some (n2, recovery2)"
    "append_args as recovery2 = Some recovery3" "m1 = m\<lparr>bm_command := command, bm_recovery := recovery3\<rparr>"
    "set_bootloader_message (re_host E) (re_sys E) m1 ?g ?w2 = Some (0, ?g, w3)"
    "carries as m1" "now w3 = (now ?w2)(dev \<mapsto> i)" "past w3 = now ?w2 # past ?w2" "holds_message dev m1 (now w3)"
    using write_back [OF assms(1,2) mo m(1) b(2) args_okD [OF assms(5)] h2] by auto
  have "get_args E [prog] g w = Some (prog # as, ?g, w3)"
    unfolding get_args_def using g(1) b(1) op rd as wb(1,2,3) wb(5) [unfolded wb(4)] by (simp add: rd_def)
  then show ?thesis using wb(6-9) f2 by auto
qed

subsection \<open>Boots and power cuts\<close>

text \<open>
  What can happen to a device that boots into recovery again and again.  A power cut while \<open>get_args\<close> runs leaves one
  of the disks there were meanwhile; after it the program may do anything at all to the other files, wipe them for
  instance, before the power goes.  The list holds the command lines of the boots that got as far as having one.
\<close>

inductive boots :: "'x rec_env \<Rightarrow> string \<Rightarrow> string \<Rightarrow> disk \<Rightarrow> string list list \<Rightarrow> disk \<Rightarrow> bool"
  for E :: "'x rec_env" and prog dev :: string and d0 :: disk where
  no_boot: "boots E prog dev d0 [] d0"
| cut_early: "boots E prog dev d0 log d1 \<Longrightarrow> misc_on dev g \<Longrightarrow> now w = d1 \<Longrightarrow> past w = [] \<Longrightarrow>
    get_args E [prog] g w = Some (argv, g1, w1) \<Longrightarrow> d2 \<in> disks w1 \<Longrightarrow> boots E prog dev d0 log d2"
| cut_late: "boots E prog dev d0 log d1 \<Longrightarrow> misc_on dev g \<Longrightarrow> now w = d1 \<Longrightarrow> past w = [] \<Longrightarrow>
    get_args E [prog] g w = Some (argv, g1, w1) \<Longrightarrow> d2 dev = now w1 dev \<Longrightarrow> boots E prog dev d0 (log @ [argv]) d2"

text \<open>A disk on which the arguments are safe.\<close>

definition pending :: "string \<Rightarrow> string list \<Rightarrow> disk \<Rightarrow> bool" where
  "pending dev as d \<longleftrightarrow>
     (\<exists>m. holds_message dev m d \<and>
        (carries as m \<or> no_args m \<and> (\<exists>c. d COMMAND_FILE = Some c \<and> i_data c = bytes_of (lines_of as))))"

lemma pending_boot:
  assumes "quiet (re_host E)" "working (re_sys E)" "accessible (re_host E)" "misc_on dev g" "args_ok as" "pending dev as (now w)"
  shows "\<exists>argv0 g1 w1 m1 i. get_args E [prog] g w = Some (argv0 # as, g1, w1) \<and> carries as m1 \<and>
    now w1 = (now w)(dev \<mapsto> i) \<and> past w1 = now w # past w \<and> holds_message dev m1 (now w1)"
  using assms(6) get_args_from_message [OF assms(1,2,4,5)] get_args_from_file [OF assms(1-5)]
  unfolding pending_def by metis

lemma boots_pending:
  assumes "boots E prog dev d0 log d" "quiet (re_host E)" "working (re_sys E)" "accessible (re_host E)" "args_ok as"
    and "pending dev as d0"
  shows "pending dev as d \<and> (\<forall>argv\<in>set log. tl argv = as)"
  using assms(1)
proof (induction rule: boots.induct)
  case no_boot
  then show ?case using assms(6) by simp
next
  case (cut_early log d1 g w argv g1 w1 d2)
  then have "pending dev as (now w)" by simp
  from pending_boot [OF assms(2-4) cut_early.hyps(2) assms(5) this, of prog] cut_early.hyps(5)
  obtain m1 where "carries as m1" "past w1 = now w # past w" "holds_message dev m1 (now w1)" by auto
  then show ?case using cut_early by (auto simp: disks_def pending_def)
next
  case (cut_late log d1 g w argv g1 w1 d2)
  then have "pending dev as (now w)" by simp
  from pending_boot [OF assms(2-4) cut_late.hyps(2) assms(5) this, of prog] cut_late.hyps(5)
  obtain m1 where "tl argv = as" "carries as m1" "holds_message dev m1 (now w1)" by auto
  moreover have "holds_message dev m1 d2" using cut_late.hyps(6) calculation(3) by (simp add: holds_message_def)
  ultimately show ?case using cut_late.IH by (auto simp: pending_def)
qed


subsection \<open>Mounting what the files are on\<close>

text \<open>The table of mounted volumes has its 32 places, and the four files are on an ext4 volume of their own.\<close>

definition userdata_on :: "root_state \<Rightarrow> bool" where
  "userdata_on g \<longleftrightarrow>
     (case volumes (mounts g) of None \<Rightarrow> True | Some vs \<Rightarrow> length vs = 32) \<and>
     (\<exists>u. v_fs_type u = ''ext4'' \<and> v_mount_point u \<noteq> ''/mnt/sdcard'' \<and> v_device2 u = None \<and>
        (\<forall>p\<in>{COMMAND_FILE, INTENT_FILE, LOG_FILE, LAST_LOG_FILE}. find (on_volume p) (device_volumes g) = Some u))"

lemma mount_lines_total:
  "cnt + length (filter (\<lambda>c. c = CHR 0x0A) bufp) + 1 \<le> length vs \<Longrightarrow>
   \<exists>vs1 n. mount_lines alloc bufp vs cnt = Some (vs1, n) \<and> length vs1 = length vs"
proof (induction alloc bufp vs cnt rule: mount_lines.induct)
  case (1 alloc bufp vs cnt)
  show ?case
  proof (cases "bufp = []")
    case True
    then show ?thesis by (subst mount_lines.simps) simp
  next
    case False
    show ?thesis
    proof (cases "CHR 0x0A \<in> set bufp")
      case nl: True
      then obtain pre r where b: "bufp = pre @ CHR 0x0A # r" "CHR 0x0A \<notin> set pre" by (meson split_list_first)
      have "filter (\<lambda>c. c = CHR 0x0A) pre = []" using b(2) by (induction pre) auto
      moreover have "eat_line bufp = r" using eat_ok [of pre r] b by auto
      ultimately have n: "length (filter (\<lambda>c. c = CHR 0x0A) bufp) = Suc (length (filter (\<lambda>c. c = CHR 0x0A) (eat_line bufp)))"
        using b(1) by simp
      show ?thesis
      proof (cases "sscanf_mount bufp")
        case None
        then show ?thesis using "1.IH"(1) [OF False None] "1.prems" n False by (subst mount_lines.simps) simp
      next
        case (Some l)
        have "wr vs cnt (new_volume alloc l) = Some (vs[cnt := new_volume alloc l])" using "1.prems" by (simp add: wr_def)
        then show ?thesis using "1.IH"(2) [OF False Some] "1.prems" n False Some by (subst mount_lines.simps) simp
      qed
    next
      case no_nl: False
      then have "dropWhile (\<lambda>c. c \<noteq> CHR 0x0A) bufp = []" by (induction bufp) auto
      then have e: "eat_line bufp = []" unfolding eat_line_def by (metis drop_Nil)
      have end': "mount_lines alloc [] vs1 n = Some (vs1, n)" for vs1 n by (subst mount_lines.simps) simp
      show ?thesis
      proof (cases "sscanf_mount bufp")
        case None
        then show ?thesis using False e end' by (subst mount_lines.simps) simp
      next
        case (Some l)
        then show ?thesis using False e end' "1.prems" by (subst mount_lines.simps) (simp add: wr_def)
      qed
    qed
  qed
qed

lemma scan_mounts_quiet:
  assumes "quiet H" "userdata_on g"
  shows "\<exists>r m w1. scan_mounts H g w = Some (r, g\<lparr>mounts := m\<rparr>, w1) \<and> files w1 = files w \<and> userdata_on (g\<lparr>mounts := m\<rparr>)"
proof -
  obtain t w1 where t: "h_read H ''/proc/mounts'' 2047 w = (Some t, w1)" "files w1 = files w"
    "length (filter (\<lambda>c. c = CHR 0x0A) t) \<le> 31"
    using assms(1) unfolding quiet_def by meson
  define vs where "vs = (case volumes (mounts g) of None \<Rightarrow> replicate numv no_volume
    | Some vs \<Rightarrow> replicate (min (volume_count (mounts g)) (length vs)) no_volume @ drop (volume_count (mounts g)) vs)"
  have len: "length vs = 32" using assms(2) by (auto simp: vs_def numv_def userdata_on_def split: option.splits)
  have "length (filter (\<lambda>c. c = CHR 0x0A) (take 2047 t)) \<le> length (filter (\<lambda>c. c = CHR 0x0A) t)"
    by (metis append_take_drop_id filter_append le_add1 length_append)
  then obtain vs1 n where m: "mount_lines (h_alloc H) (take 2047 t) vs 0 = Some (vs1, n)" "length vs1 = 32"
    using mount_lines_total [of 0 "take 2047 t" vs "h_alloc H"] t(3) len by auto
  show ?thesis
  proof (cases "volumes (mounts g) = None \<and> \<not> h_alloc H (numv * 32)")
    case True
    then have "scan_mounts H g w = Some (- 1, g\<lparr>mounts := mounts g\<rparr>, w)"
      by (simp add: scan_mounts_def scan_mounted_volumes_def)
    then show ?thesis using assms(2) by (intro exI conjI) (assumption | simp)+
  next
    case False
    then have "scan_mounts H g w = Some (0, g\<lparr>mounts := \<lparr>volumes = Some vs1, volume_count = n\<rparr>\<rparr>, w1)"
      using t(1) m(1) by (auto simp: scan_mounts_def scan_mounted_volumes_def vs_def Let_def)
    then show ?thesis using assms(2) t(2) m(2) by (auto simp: userdata_on_def)
  qed
qed

lemma mounted_quiet:
  assumes "quiet H" "userdata_on g" "p \<in> {COMMAND_FILE, INTENT_FILE, LOG_FILE, LAST_LOG_FILE}"
  shows "\<exists>r g1 w1. ensure_path_mounted H p g w = Some (r, g1, w1) \<and> files w1 = files w \<and>
    device_volumes g1 = device_volumes g \<and> userdata_on g1"
proof -
  have lp: "length p < 256" using assms(3) by (auto simp: COMMAND_FILE_def INTENT_FILE_def LOG_FILE_def LAST_LOG_FILE_def)
  obtain u where u: "v_fs_type u = ''ext4''" "v_mount_point u \<noteq> ''/mnt/sdcard''" "v_device2 u = None"
    "find (on_volume p) (device_volumes g) = Some u"
    using assms(2,3) unfolding userdata_on_def by blast
  obtain a w1 where a: "h_access H p w = (a, w1)" by force
  have f1: "files w1 = files w" using assms(1) a unfolding quiet_def by (metis snd_conv)
  show ?thesis
  proof (cases "a = 0")
    case True
    then show ?thesis using a f1 assms(2) by (simp add: ensure_path_mounted_def)
  next
    case False
    let ?g = "g\<lparr>mount_point := []\<rparr>"
    obtain w2 where v: "volume_for_path H p g w1 = Some (Some u, ?g, w2)" "files w2 = files w1"
      using quiet_volume [OF assms(1) lp, of g w1] u(4) by auto
    have ug: "userdata_on ?g" using assms(2) by (simp add: userdata_on_def)
    obtain r m w3 where s: "scan_mounts H ?g w2 = Some (r, ?g\<lparr>mounts := m\<rparr>, w3)" "files w3 = files w2" "userdata_on (?g\<lparr>mounts := m\<rparr>)"
      using scan_mounts_quiet [OF assms(1) ug] by blast
    obtain k w4 where mk: "h_mkdir H (v_mount_point u) 493 w3 = (k, w4)" by force
    have f4: "files w4 = files w3" using assms(1) mk unfolding quiet_def by (metis snd_conv)
    obtain r5 w5 where mt: "h_mount H (v_device u) (v_mount_point u) (v_fs_type u) mount_flags w4 = (r5, w5)" by force
    have f5: "files w5 = files w4" using assms(1) mt unfolding quiet_def by (metis snd_conv)
    show ?thesis using False a v s mk mt u f1 f4 f5
      by (auto simp: ensure_path_mounted_def mount_block_def mount_card_def Let_def)
  qed
qed


subsection \<open>Finishing\<close>

text \<open>Making directories touches no file.\<close>

definition quiet_dirs :: "('x fs_world) sys_ops \<Rightarrow> bool" where
  "quiet_dirs D \<longleftrightarrow> (\<forall>p w. files (snd (sys_stat D p w)) = files w) \<and> (\<forall>p m w. files (snd (sys_mkdir D p m w)) = files w)"

lemma make_levels_files: "quiet_dirs D \<Longrightarrow> files (snd (make_levels D mode False ls w)) = files w"
proof (induction ls arbitrary: w)
  case (Cons l ls)
  have "files (snd (make_level D mode False l w)) = files w"
    using Cons.prems by (auto simp: make_level_def getPathDirStatus_def quiet_dirs_def split_beta split: stat_result.splits)
  then show ?case using Cons by (simp add: split_beta)
qed simp

lemma dirs_quiet:
  assumes "quiet_dirs D"
  shows "\<exists>r w1. dirCreateHierarchy D path mode False strip w = Some (r, w1) \<and> files w1 = files w"
proof -
  have "files (snd (getPathDirStatus D c w)) = files w" for c
    using assms by (simp add: getPathDirStatus_def quiet_dirs_def split_beta)
  then show ?thesis unfolding dirCreate_eq using make_levels_files [OF assms]
    by (auto simp: split_beta split: option.splits dir_status.splits) (metis prod.collapse)+
qed

text \<open>What writing a file under \<open>/userdata\<close> leaves alone: every other file.\<close>

definition others :: "string \<Rightarrow> disk \<Rightarrow> disk \<Rightarrow> bool" where
  "others p d1 d \<longleftrightarrow> (\<forall>q. q \<noteq> p \<longrightarrow> d1 q = d q)"

lemma open_trunc_others: "others p (now (snd (fs_open_trunc S p w))) (now w)"
  by (simp add: others_def fs_open_trunc_def)

lemma put_others: "others p (now (fs_put S p bs w)) (now w)"
  by (simp add: others_def fs_put_def fs_write_def append_def Let_def)

lemma others_trans: "others p d2 d1 \<Longrightarrow> others p d1 d \<Longrightarrow> others p d2 d"
  by (simp add: others_def)

lemma others_refl [simp]: "others p d d"
  by (simp add: others_def)

lemma fopen_write_quiet:
  assumes "quiet (re_host E)" "quiet_dirs (re_dirs E)" "userdata_on g" "p \<in> {INTENT_FILE, LOG_FILE, LAST_LOG_FILE}"
  shows "\<exists>ok g1 w1. fopen_path_write E p ap g w = Some (ok, g1, w1) \<and> others p (now w1) (now w) \<and>
    device_volumes g1 = device_volumes g \<and> userdata_on g1"
proof -
  obtain r g1 w1 where m: "ensure_path_mounted (re_host E) p g w = Some (r, g1, w1)" "files w1 = files w"
    "device_volumes g1 = device_volumes g" "userdata_on g1"
    using mounted_quiet [OF assms(1,3)] assms(4) by blast
  obtain k w2 where d: "dirCreateHierarchy (re_dirs E) p 511 False True w1 = Some (k, w2)" "files w2 = files w1"
    using dirs_quiet [OF assms(2)] by blast
  have n: "now w1 = now w" "now w2 = now w" using m(2) d(2) by (simp_all add: files_def)
  have "others p (now (snd (fs_open_append S p w2))) (now w2)" for S
    by (simp add: fs_open_append_def open_trunc_others)
  then show ?thesis using m d n open_trunc_others [of p "re_sys E" w2]
    by (cases "r = 0") (auto simp: fopen_path_write_def split_beta Let_def)
qed

lemma write_intent_quiet:
  assumes "quiet (re_host E)" "quiet_dirs (re_dirs E)" "userdata_on (rs_root st)"
  shows "\<exists>st1 w1. write_intent E s st w = Some (st1, w1) \<and> others INTENT_FILE (now w1) (now w) \<and>
    device_volumes (rs_root st1) = device_volumes (rs_root st) \<and> userdata_on (rs_root st1) \<and> systemFlag st1 = systemFlag st"
proof -
  obtain ok g1 w1 where "fopen_path_write E INTENT_FILE False (rs_root st) w = Some (ok, g1, w1)" "others INTENT_FILE (now w1) (now w)"
    "device_volumes g1 = device_volumes (rs_root st)" "userdata_on g1"
    using fopen_write_quiet [OF assms, of INTENT_FILE False w] by auto
  then show ?thesis using others_trans [OF put_others [of INTENT_FILE "re_sys E" "bytes_of s" w1]]
    by (auto simp: write_intent_def)
qed

lemma copy_log_quiet:
  assumes "quiet (re_host E)" "quiet_dirs (re_dirs E)" "userdata_on (rs_root st)" "p \<in> {LOG_FILE, LAST_LOG_FILE}"
  shows "\<exists>st1 w1. copy_log_file E p ap st w = Some (st1, w1) \<and> others p (now w1) (now w) \<and>
    device_volumes (rs_root st1) = device_volumes (rs_root st) \<and> userdata_on (rs_root st1) \<and> systemFlag st1 = systemFlag st"
proof -
  obtain ok g1 w1 where f: "fopen_path_write E p ap (rs_root st) w = Some (ok, g1, w1)" "others p (now w1) (now w)"
    "device_volumes g1 = device_volumes (rs_root st)" "userdata_on g1"
    using fopen_write_quiet [OF assms(1-3), of p ap w] assms(4) by auto
  obtain d w2 where o: "fs_open_read (re_sys E) TEMPORARY_LOG_FILE w1 = (d, w2)" by force
  have n2: "now w2 = now w1" using o by (metis read_calls(3) snd_conv)
  show ?thesis
  proof (cases "ok \<and> d \<noteq> None")
    case False
    then show ?thesis using f o n2 by (auto simp: copy_log_file_def Let_def)
  next
    case True
    then obtain bs where d: "d = Some bs" by auto
    obtain got w3 where r: "fs_fread (re_sys E) (drop (if ap then tmplog_offset (st\<lparr>rs_root := g1\<rparr>) else 0) bs) (length bs) w2 = (got, w3)"
      by force
    have n3: "now w3 = now w2" using r by (metis read_calls(5) snd_conv)
    have "others p (now (fs_put (re_sys E) p (bytes_of (copy_lines (string_of got))) w3)) (now w)"
      using others_trans [OF put_others] f(2) n2 n3 by metis
    then show ?thesis using True f o d r by (simp add: copy_log_file_def Let_def split: if_splits)
  qed
qed

text \<open>The message that lets the main system start again.\<close>

definition cleared :: "bootloader_message \<Rightarrow> bool" where
  "cleared m \<longleftrightarrow> message_ok m \<and> cstr (bm_command m) = [] \<and> cstr (bm_recovery m) = []"

lemma zero_fields: "bm_command zero_message = replicate 32 NUL" "bm_recovery zero_message = replicate 768 NUL"
  by (simp_all add: zero_message_def message_of_def MESSAGE_SIZE_def)

lemma replicate_NUL_no_args: "bm_recovery m = replicate 768 NUL \<Longrightarrow> no_args m"
proof -
  assume r: "bm_recovery m = replicate 768 NUL"
  have w: "wr (replicate 768 NUL) 767 NUL = Some (replicate 768 NUL)"
    by (simp add: wr_def list_eq_iff_nth_eq nth_list_update)
  have c: "replicate 768 NUL = [] @ NUL # replicate 767 NUL" by (simp flip: replicate_Suc)
  have "\<not> is_newline NUL" by (simp add: is_newline_def)
  then have "strtok_on is_newline (replicate 768 NUL) 0 = Some (None, replicate 768 NUL, 0)"
    unfolding c using strtok_on_end [of "[]" 0 is_newline "replicate 767 NUL"] by simp
  then show ?thesis using w by (simp add: no_args_def args_of_message_def r)
qed


lemma finish_quiet:
  assumes "quiet (re_host E)" "working (re_sys E)" "accessible (re_host E)" "quiet_dirs (re_dirs E)"
    and "misc_on dev (rs_root st)" "userdata_on (rs_root st)" "holds_message dev m0 (now w)"
    and "dev \<notin> {COMMAND_FILE, INTENT_FILE, LOG_FILE, LAST_LOG_FILE}" "NUL \<notin> set (systemFlag st)"
  shows "\<exists>st1 w1 m. finish_recovery E intent st w = Some (st1, w1) \<and> now w1 COMMAND_FILE = None \<and>
    holds_message dev m (now w1) \<and> cleared m \<and> no_args m \<and> cstr (bm_systemFlag m) = take 251 (systemFlag st) \<and>
    device_volumes (rs_root st1) = device_volumes (rs_root st) \<and> userdata_on (rs_root st1)"
proof -
  define keep where "keep d1 d \<longleftrightarrow> d1 dev = d dev" for d1 d :: disk
  have ot: "keep d1 d" if "others p d1 d" "p \<in> {INTENT_FILE, LOG_FILE, LAST_LOG_FILE}" for p d1 d
    using that assms(8) by (auto simp: keep_def others_def)
  obtain st1 w1 where 1: "(case intent of None \<Rightarrow> Some (st, w) | Some i \<Rightarrow> write_intent E i st w) = Some (st1, w1)"
    "keep (now w1) (now w)" "device_volumes (rs_root st1) = device_volumes (rs_root st)" "userdata_on (rs_root st1)"
    "systemFlag st1 = systemFlag st"
  proof (cases intent)
    case None
    then show thesis using that [of st w] assms(6) by (simp add: keep_def)
  next
    case (Some i)
    then show thesis using that write_intent_quiet [OF assms(1,4,6), of i w] ot by auto
  qed
  obtain st2 w2 where 2: "copy_log_file E LOG_FILE True st1 w1 = Some (st2, w2)" "keep (now w2) (now w1)"
    "device_volumes (rs_root st2) = device_volumes (rs_root st1)" "userdata_on (rs_root st2)" "systemFlag st2 = systemFlag st1"
    using copy_log_quiet [OF assms(1,4) 1(4), of LOG_FILE True w1] ot by blast
  obtain st3 w3 where 3: "copy_log_file E LAST_LOG_FILE False st2 w2 = Some (st3, w3)" "keep (now w3) (now w2)"
    "device_volumes (rs_root st3) = device_volumes (rs_root st2)" "userdata_on (rs_root st3)" "systemFlag st3 = systemFlag st2"
    using copy_log_quiet [OF assms(1,4) 2(4), of LAST_LOG_FILE False w2] ot by blast
  obtain c w4 where 4: "fs_chmod (re_sys E) LAST_LOG_FILE 416 w3 = (c, w4)" by force
  then have "w4 = snd (fs_chmod (re_sys E) LAST_LOG_FILE 416 w3)" by simp
  then have k4: "keep (now w4) (now w3)" using assms(8) by (simp add: keep_def fs_chmod_def)
  have h4: "holds_message dev m0 (now w4)"
    using assms(7) 1(2) 2(2) 3(2) k4 by (simp add: keep_def holds_message_def)
  have flag: "systemFlag st3 = systemFlag st" using 1(5) 2(5) 3(5) by simp
  obtain flag n where f: "strlcpy (bm_systemFlag zero_message) (systemFlag st3 @ [NUL]) 252 = Some (n, flag)"
    "length flag = 252" "cstr flag = take 251 (systemFlag st)"
  proof -
    have l: "length (bm_systemFlag zero_message) = 252" using zero_message_ok by (simp add: message_ok_def)
    let ?f = "take 251 (systemFlag st) @ NUL # drop (min (length (systemFlag st)) 251 + 1) (bm_systemFlag zero_message)"
    have "strlcpy (bm_systemFlag zero_message) (systemFlag st3 @ [NUL]) 252 = Some (length (systemFlag st), ?f)"
      using strlcpy_exact [of "systemFlag st" 252 "bm_systemFlag zero_message" "[]"] assms(9) l by (simp add: flag)
    moreover have "length ?f = 252" using l by simp
    moreover have "NUL \<notin> set (take 251 (systemFlag st))" using assms(9) by (meson in_set_takeD)
    then have "cstr ?f = take 251 (systemFlag st)" by simp
    ultimately show thesis using that by blast
  qed
  let ?m = "zero_message\<lparr>bm_systemFlag := flag\<rparr>"
  have m: "message_ok ?m" "no_args ?m" "cleared ?m"
  proof -
    show "message_ok ?m" using f(2) zero_message_ok by (simp add: message_ok_def)
    show "no_args ?m" by (rule replicate_NUL_no_args) (simp add: zero_fields)
    have "cstr (replicate (Suc k) NUL) = []" for k by (simp add: cstr_def)
    from this [of 31] this [of 767] show "cleared ?m" using f(2) zero_message_ok by (simp add: cleared_def message_ok_def zero_fields)
  qed
  have dv: "device_volumes (rs_root st3) = device_volumes (rs_root st)" using 1(3) 2(3) 3(3) by simp
  then have mo: "misc_on dev (rs_root st3)" using assms(5) by (simp add: misc_on_def)
  obtain w5 i where s: "set_bootloader_message (re_host E) (re_sys E) ?m (rs_root st3) w4 = Some (0, rs_root st3\<lparr>mount_point := []\<rparr>, w5)"
    "holds_message dev ?m (now w5)"
    using set_message_ok [OF assms(1,2) mo m(1) h4] by blast
  have ug: "userdata_on (rs_root st3\<lparr>mount_point := []\<rparr>)" using 3(4) by (simp add: userdata_on_def)
  obtain r g6 w6 where e: "ensure_path_mounted (re_host E) COMMAND_FILE (rs_root st3\<lparr>mount_point := []\<rparr>) w5 = Some (r, g6, w6)"
    "files w6 = files w5" "device_volumes g6 = device_volumes (rs_root st3)" "userdata_on g6"
    using mounted_quiet [OF assms(1) ug, of COMMAND_FILE w5] by auto
  have n6: "now w6 = now w5" using e(2) by (simp add: files_def)
  define w7 where "w7 = (if r \<noteq> 0 then w6 else snd (fs_unlink (re_sys E) COMMAND_FILE w6))"
  have fin: "finish_recovery E intent st w = Some (st3\<lparr>rs_root := g6\<rparr>, w7)"
    unfolding finish_recovery_def using 1(1) 2(1) 3(1) 4 f(1) s(1) e(1) by (simp add: w7_def)
  have gone: "now w7 COMMAND_FILE = None"
  proof (cases "now w5 COMMAND_FILE = None")
    case True
    then show ?thesis using n6 by (simp add: w7_def fs_unlink_def)
  next
    case False
    then have "fst (h_access (re_host E) COMMAND_FILE w5) = 0" using assms(3) unfolding accessible_def by blast
    then have "r = 0" using e(1) by (auto simp: ensure_path_mounted_def split_beta)
    then show ?thesis using assms(2) n6 False by (simp add: w7_def fs_unlink_def)
  qed
  have "now w7 dev = now w5 dev" using assms(8) n6 by (simp add: w7_def fs_unlink_def)
  then have "holds_message dev ?m (now w7)" using s(2) by (simp add: holds_message_def)
  then show ?thesis using fin gone m f(3) dv e(3,4) by (intro exI conjI) (assumption | simp)+
qed

lemma get_args_nothing:
  assumes "quiet (re_host E)" "working (re_sys E)" "misc_on dev g" "userdata_on g" "holds_message dev m (now w)" "no_args m"
    and "now w COMMAND_FILE = None"
  shows "\<exists>g1 w1 m1. get_args E [prog] g w = Some ([prog], g1, w1) \<and> holds_message dev m1 (now w1) \<and> carries [] m1"
proof -
  let ?g = "g\<lparr>mount_point := []\<rparr>"
  obtain w0 where g: "get_bootloader_message (re_host E) (re_sys E) zero_message g w = Some (0, m, ?g, w0)"
    "files w0 = files w"
    using get_message_ok [OF assms(1-3,5)] by blast
  have m: "message_ok m" "length (bm_recovery m) = 768" using assms(5) by (auto simp: holds_message_def message_ok_def)
  obtain buf where b: "args_of_message (bm_recovery m) = Some (None, buf)" "length buf = 768"
    using assms(6) args_of_message_length m(2) unfolding no_args_def by metis
  have ug: "userdata_on ?g" using assms(4) by (simp add: userdata_on_def)
  obtain r g1 w1 where e: "ensure_path_mounted (re_host E) COMMAND_FILE ?g w0 = Some (r, g1, w1)" "files w1 = files w0"
    "device_volumes g1 = device_volumes g"
    using mounted_quiet [OF assms(1) ug, of COMMAND_FILE w0] by auto
  have n: "now w1 = now w" using e(2) g(2) by (simp add: files_def)
  obtain w2 where op: "fopen_path_read E COMMAND_FILE ?g w0 = Some (None, g1, w2)" "now w2 = now w"
    using e(1) n assms(7) by (cases "r = 0") (auto simp: fopen_path_read_def fs_open_read_def)
  have mo: "misc_on dev g1" using assms(3) e(3) by (simp add: misc_on_def)
  have h2: "holds_message dev m (now w2)" using assms(5) op(2) by simp
  obtain n1 command n2 recovery2 recovery3 m1 w3 i where wb:
    "strlcpy (bm_command m) (''boot-recovery'' @ [NUL]) 32 = Some (n1, command)"
    "strlcpy buf (''recovery'' @ [CHR 0x0A, NUL]) 768 = Some (n2, recovery2)"
    "append_args [] recovery2 = Some recovery3" "m1 = m\<lparr>bm_command := command, bm_recovery := recovery3\<rparr>"
    "set_bootloader_message (re_host E) (re_sys E) m1 g1 w2 = Some (0, g1\<lparr>mount_point := []\<rparr>, w3)"
    "carries [] m1" "holds_message dev m1 (now w3)"
    using write_back [OF assms(1,2) mo m(1) b(2) _ h2, of "[]"] by auto
  have "get_args E [prog] g w = Some ([prog], g1\<lparr>mount_point := []\<rparr>, w3)"
    unfolding get_args_def using g(1) b(1) op(1) wb(1,2,3) wb(5) [unfolded wb(4)] by simp
  then show ?thesis using wb(6,7) by blast
qed

end
