(* ===== verification/BootProps.thy ===== *)
theory BootProps
  imports BootProtocol
begin

text \<open>
  The properties of the boot message and of the command that lives in it, and a device to try them on.
\<close>

subsection \<open>A device\<close>

definition toy_host :: "(unit fs_world) host" where
  "toy_host = \<lparr>h_stat = (\<lambda>p w. (0, w)), h_access = (\<lambda>p w. (if now w p = None then - 1 else 0, w)),
     h_exec = (\<lambda>a w. (Ended 0, w)), h_mount = (\<lambda>d m f fl w. (0, w)), h_umount = (\<lambda>m w. (0, w)), h_mkdir = (\<lambda>p m w. (0, w)),
     h_readlink = (\<lambda>p w. (None, w)), h_read = (\<lambda>p n w. (Some [], w)), h_readdir = (\<lambda>p w. (None, w)), h_alloc = (\<lambda>n. True), h_junk = [],
     h_mtd = \<lparr>dev_open = \<lambda>p f w. (3, w), dev_close = \<lambda>f w. (0, w), seek_cur = \<lambda>f w. (0, w), seek_set = \<lambda>f n w. (n, w),
       dev_read = \<lambda>f n w. ((0, []), w), dev_write = \<lambda>f b w. (0, w), eccgetstats = \<lambda>f w. ((0, 0), w),
       memgetbadblock = \<lambda>f n w. ((0, 0), w), memerase = \<lambda>f a b w. (0, w), memgetinfo = \<lambda>f w. ((0, 0, 0, 0), w),
       sys_mount = \<lambda>d m f fl w. (0, w), stat_mode = \<lambda>p w. ((0, 0), w), sys_chmod = \<lambda>p m w. (0, w)\<rparr>\<rparr>"

definition toy_rec :: "unit rec_env" where
  "toy_rec = \<lparr>re_host = toy_host,
     re_sys = \<lparr>answer = (\<lambda>n. 1000000), dir_names = (\<lambda>n d. None), proc_links = (\<lambda>n. None)\<rparr>,
     re_dirs = \<lparr>sys_stat = (\<lambda>p w. (StatDir, w)), sys_lstat = (\<lambda>p w. (StatDir, w)), sys_mkdir = (\<lambda>p m w. (0, w)),
       sys_utime = (\<lambda>p w. (0, w)), sys_symlink = (\<lambda>a b w. (0, w)), sys_creat = (\<lambda>p m w. (0, w)),
       sys_write = (\<lambda>f b w. (0, 0, w)), sys_close = (\<lambda>f w. w)\<rparr>\<rparr>"

definition toy_root :: root_state where
  "toy_root = no_state\<lparr>device_volumes := tmp_volume # map volume_of two_entries\<rparr>"

definition misc_dev :: string where "misc_dev = ''/dev/block/by-name/misc''"

definition toy_args :: "string list" where "toy_args = [''--wipe_data'', ''--show_text'']"

definition toy_misc :: disk where
  "toy_misc = [misc_dev \<mapsto> \<lparr>i_data = replicate 17472 0, i_mode = 0, i_uid = 0, i_gid = 0, i_reg = False\<rparr>,
     COMMAND_FILE \<mapsto> \<lparr>i_data = bytes_of (lines_of toy_args), i_mode = 0, i_uid = 0, i_gid = 0, i_reg = True\<rparr>]"

definition toy_boot :: "unit fs_world" where
  "toy_boot = \<lparr>now = toy_misc, past = [], calls = 0, ext = ()\<rparr>"

lemma toy_device_laws: "quiet (re_host toy_rec)" "working (re_sys toy_rec)" "accessible (re_host toy_rec)" "quiet_dirs (re_dirs toy_rec)"
  by (auto simp: quiet_def working_def accessible_def quiet_dirs_def toy_rec_def toy_host_def)

lemma toy_volumes: "misc_on misc_dev toy_root" "userdata_on toy_root"
  by (auto simp: misc_on_def userdata_on_def toy_root_def no_state_def two_entries_def volume_of_def tmp_volume_def on_volume_iff
      misc_dev_def COMMAND_FILE_def INTENT_FILE_def LOG_FILE_def LAST_LOG_FILE_def)

lemma zero_message_chars: "message_chars zero_message = replicate MESSAGE_SIZE NUL"
  by (simp add: message_chars_def zero_message_def message_of_def MESSAGE_SIZE_def flip: replicate_add)

lemma misc_dev_other: "misc_dev \<notin> {COMMAND_FILE, INTENT_FILE, LOG_FILE, LAST_LOG_FILE}"
  by (simp add: misc_dev_def COMMAND_FILE_def INTENT_FILE_def LOG_FILE_def LAST_LOG_FILE_def)

lemma toy_holds: "holds_message misc_dev zero_message toy_misc" "no_args zero_message"
proof -
  have "bytes_of (replicate n NUL) = replicate n 0" for n by (simp add: bytes_of_def)
  then show "holds_message misc_dev zero_message toy_misc"
    using misc_dev_other
    by (simp add: holds_message_def toy_misc_def zero_message_chars MESSAGE_OFFSET_def MESSAGE_SIZE_def)
  show "no_args zero_message" by (rule replicate_NUL_no_args) (simp add: zero_fields)
qed

lemma toy_args_ok: "args_ok toy_args"
  by (simp add: args_ok_def toy_args_def arg_ok_def args_text_def)

subsection \<open>Properties\<close>




text \<open>Two boots: after the first one everything but the partition is gone.\<close>

lemma toy_boots:
  "\<exists>log d. length log = 2 \<and> d COMMAND_FILE = None \<and> boots toy_rec ''recovery'' misc_dev toy_misc log d"
proof -
  have n: "now toy_boot = toy_misc" "past toy_boot = []" by (simp_all add: toy_boot_def)
  have c: "now toy_boot COMMAND_FILE = Some \<lparr>i_data = bytes_of (lines_of toy_args), i_mode = 0, i_uid = 0, i_gid = 0, i_reg = True\<rparr>"
    using n misc_dev_other by (simp add: toy_misc_def)
  obtain g1 w1 m1 i where 1: "get_args toy_rec [''recovery''] toy_root toy_boot = Some (''recovery'' # toy_args, g1, w1)"
    "carries toy_args m1" "holds_message misc_dev m1 (now w1)"
    using get_args_from_file [OF toy_device_laws(1-3) toy_volumes(1) toy_args_ok _ toy_holds(2) c, of "''recovery''"] toy_holds(1) n by auto
  let ?d = "[misc_dev \<mapsto> the (now w1 misc_dev)]"
  have d: "?d misc_dev = now w1 misc_dev" using 1(3) by (auto simp: holds_message_def)
  have b1: "boots toy_rec ''recovery'' misc_dev toy_misc ([] @ [''recovery'' # toy_args]) ?d"
    by (rule boots.cut_late [where dev = misc_dev and ?d2.0 = ?d and ?w1.0 = w1, OF boots.no_boot toy_volumes(1) n 1(1) d])
  let ?w = "\<lparr>now = ?d, past = [], calls = 0, ext = ()\<rparr>"
  have h: "holds_message misc_dev m1 (now ?w)" using 1(3) d by (simp add: holds_message_def)
  obtain g2 w2 where 2: "get_args toy_rec [''recovery''] toy_root ?w = Some (''recovery'' # toy_args, g2, w2)"
    using get_args_from_message [OF toy_device_laws(1,2) toy_volumes(1) toy_args_ok 1(2) h, of "''recovery''"] by auto
  let ?d2 = "[misc_dev \<mapsto> the (now w2 misc_dev)]"
  have "now w2 misc_dev \<noteq> None"
    using get_args_from_message [OF toy_device_laws(1,2) toy_volumes(1) toy_args_ok 1(2) h, of "''recovery''"] 2
    by (auto simp: holds_message_def)
  then have "?d2 misc_dev = now w2 misc_dev" by auto
  then have "boots toy_rec ''recovery'' misc_dev toy_misc (([] @ [''recovery'' # toy_args]) @ [''recovery'' # toy_args]) ?d2"
    using boots.cut_late [OF b1 toy_volumes(1) _ _ 2, of ?d2] by simp
  moreover have "?d2 COMMAND_FILE = None" using misc_dev_other by auto
  moreover have "length (([] @ [''recovery'' # toy_args]) @ [''recovery'' # toy_args]) = 2" by simp
  ultimately show ?thesis by blast
qed



definition toy_state :: rec_state where
  "toy_state = \<lparr>rs_root = toy_root, systemFlag = ''false'', tmplog_offset = 0\<rparr>"


subsection \<open>Where it goes wrong\<close>

text \<open>An empty line in the command file: a null pointer is handed to \<open>strdup\<close>.\<close>

lemma empty_line_undefined: "args_of_lines (Suc n) (CHR 0x0A # text) = None"
  by (simp add: MAX_ARG_LENGTH_def strtok_on.simps is_line_end_def rd_def)

text \<open>Without an entry for the partition, writing the message reads a null pointer, where reading it answers -1.\<close>

lemma no_misc_volume:
  assumes "quiet H" "find (on_volume ''/misc'') (device_volumes g) = None"
  shows "set_bootloader_message H S m g w = None" "\<exists>g1 w1. get_bootloader_message H S out g w = Some (- 1, out, g1, w1)"
proof -
  obtain w1 where w1: "volume_for_path H ''/misc'' g w = Some (None, g\<lparr>mount_point := []\<rparr>, w1)"
    using quiet_volume [OF assms(1), of "''/misc''" g w] assms(2) by auto
  moreover obtain w2 where "isMtdDevice H w1 = Some (- 1, w2)" using quiet_not_mtd [OF assms(1)] by blast
  ultimately show "set_bootloader_message H S m g w = None" by (simp add: set_bootloader_message_def)
  show "\<exists>g1 w1. get_bootloader_message H S out g w = Some (- 1, out, g1, w1)" using w1 by (simp add: get_bootloader_message_def)
qed

end
