(* ===== verification/Install.thy ===== *)
theory Install
  imports RecoveryArgs Verifier ZipExtract
begin

text \<open>
  Installing a package: \<open>install.c\<close>, and \<open>rkupdate.c\<close>, which runs the vendor's programs the same way.

  The environment adds to \<open>rec_env\<close>: mincrypt, its number of words in a key, zlib, where a file is mapped, the two ends
  of a new pipe and \<open>ie_child\<close>, which runs a program and gives what it writes into the pipe and how it ends.  A number
  for the progress bar stays text.  \<open>malloc\<close> and \<open>realloc\<close> succeed; reading a file that is open does not fail.
\<close>

subsection \<open>Scanning numbers\<close>

text \<open>\<open>fscanf\<close> on the text that is left; \<open>None\<close> is a directive that fails.\<close>

definition skip_ws :: "string \<Rightarrow> string" where "skip_ws = dropWhile is_space"

definition lit :: "char \<Rightarrow> string \<Rightarrow> string option" where
  "lit c s = (case s of [] \<Rightarrow> None | x # r \<Rightarrow> if x = c then Some r else None)"

definition scan_sign :: "string \<Rightarrow> int \<times> string" where
  "scan_sign s = (case s of [] \<Rightarrow> (1, s)
     | x # r \<Rightarrow> if x = CHR ''-'' then (- 1, r) else if x = CHR ''+'' then (1, r) else (1, s))"

definition has_hex_prefix :: "string \<Rightarrow> bool" where
  "has_hex_prefix s \<longleftrightarrow> 2 \<le> length s \<and> s ! 0 = CHR ''0'' \<and> s ! 1 \<in> {CHR ''x'', CHR ''X''}"

text \<open>The base is 0 for \<open>%i\<close>, which finds it out.\<close>

definition scan_base :: "nat \<Rightarrow> string \<Rightarrow> nat \<times> string" where
  "scan_base base s =
     (if (base = 0 \<or> base = 16) \<and> has_hex_prefix s then (16, drop 2 s)
      else if base = 0 then (if take 1 s = ''0'' then 8 else 10, s)
      else (base, s))"

definition scan_num :: "nat \<Rightarrow> string \<Rightarrow> ((int \<times> nat) \<times> string) option" where
  "scan_num base s =
     (let (sg, s1) = scan_sign (skip_ws s); (b, s2) = scan_base base s1
      in case s2 of [] \<Rightarrow> None
         | c # r \<Rightarrow> if digit_val b c = None then None
                    else let (n, s3) = read_digits b 0 s2 in Some ((sg, n), s3))"

text \<open>\<open>strtoul\<close> stored into an \<open>unsigned int\<close>, \<open>strtol\<close> into an \<open>int\<close>.\<close>

definition to_unsigned :: "int \<times> nat \<Rightarrow> u32" where
  "to_unsigned v = (if snd v < 2 ^ 64 then word_of_int (fst v * int (snd v)) else - 1)"

definition to_int :: "int \<times> nat \<Rightarrow> int" where
  "to_int v = sint (word_of_int (max LONG_MIN (min LONG_MAX (fst v * int (snd v)))) :: u32)"

definition scan_u :: "nat \<Rightarrow> string \<Rightarrow> (u32 \<times> string) option" where
  "scan_u base s = map_option (\<lambda>(v, r). (to_unsigned v, r)) (scan_num base s)"

definition scan_i :: "string \<Rightarrow> (int \<times> string) option" where
  "scan_i s = map_option (\<lambda>(v, r). (to_int v, r)) (scan_num 0 s)"

subsection \<open>The keys\<close>

record rsa_key =
  key_len :: int
  n0inv :: u32
  key_n :: "u32 list"
  key_rr :: "u32 list"

text \<open>\<open>fscanf(f, " , %u", ...)\<close> \<open>n\<close> times.\<close>

fun scan_words :: "nat \<Rightarrow> string \<Rightarrow> (u32 list \<times> string) option" where
  "scan_words 0 s = Some ([], s)"
| "scan_words (Suc n) s =
     do { s1 \<leftarrow> lit (CHR '','') (skip_ws s);
          (v, s2) \<leftarrow> scan_u 10 s1;
          (vs, s3) \<leftarrow> scan_words n s2;
          Some (v # vs, s3) }"

text \<open>A key up to the last word; \<open>words\<close> is \<open>RSANUMWORDS\<close>.\<close>

definition scan_key :: "nat \<Rightarrow> string \<Rightarrow> (rsa_key \<times> string) option" where
  "scan_key words s =
     do { s1 \<leftarrow> lit (CHR ''{'') (skip_ws s);
          (len, s2) \<leftarrow> scan_i s1;
          s3 \<leftarrow> lit (CHR '','') (skip_ws s2);
          s4 \<leftarrow> lit (CHR ''0'') (skip_ws s3);
          s5 \<leftarrow> lit (CHR ''x'') s4;
          (inv, s6) \<leftarrow> scan_u 16 s5;
          s7 \<leftarrow> lit (CHR '','') (skip_ws s6);
          s8 \<leftarrow> lit (CHR ''{'') (skip_ws s7);
          (n, s9) \<leftarrow> scan_u 10 s8;
          if len \<noteq> int words then None
          else do {
            (ns, s10) \<leftarrow> scan_words (words - 1) s9;
            s11 \<leftarrow> lit (CHR ''}'') (skip_ws s10);
            s12 \<leftarrow> lit (CHR '','') (skip_ws s11);
            s13 \<leftarrow> lit (CHR ''{'') (skip_ws s12);
            (r, s14) \<leftarrow> scan_u 10 s13;
            (rs, s15) \<leftarrow> scan_words (words - 1) s14;
            Some (\<lparr>key_len = len, n0inv = inv, key_n = n # ns, key_rr = r # rs\<rparr>, s15) } }"

text \<open>\<open>fscanf(f, " } } ")\<close>, whose failure is not looked at.\<close>

definition close_braces :: "string \<Rightarrow> string" where
  "close_braces s =
     (case lit (CHR ''}'') (skip_ws s) of
        None \<Rightarrow> skip_ws s
      | Some s1 \<Rightarrow> (case lit (CHR ''}'') (skip_ws s1) of None \<Rightarrow> skip_ws s1 | Some s2 \<Rightarrow> skip_ws s2))"

lemma lit_shorter: "lit c s = Some r \<Longrightarrow> length r < length s"
  by (auto simp: lit_def split: list.splits if_splits)

lemma skip_ws_shorter: "length (skip_ws s) \<le> length s"
  by (simp add: skip_ws_def length_dropWhile_le)

lemma read_digits_shorter: "read_digits b a s = (n, r) \<Longrightarrow> length r \<le> length s"
  by (induction b a s rule: read_digits.induct) (auto split: option.splits)

lemma scan_sign_shorter: "scan_sign t = (sg, r) \<Longrightarrow> length r \<le> length t"
  by (cases t) (auto simp: scan_sign_def split: if_splits)

lemma scan_num_shorter: "scan_num b s = Some (v, r) \<Longrightarrow> length r \<le> length s"
proof -
  assume a: "scan_num b s = Some (v, r)"
  obtain sg s1 where 1: "scan_sign (skip_ws s) = (sg, s1)" by (cases "scan_sign (skip_ws s)")
  obtain b1 s2 where 2: "scan_base b s1 = (b1, s2)" by (cases "scan_base b s1")
  have "length s1 \<le> length (skip_ws s)" using 1 by (rule scan_sign_shorter)
  moreover have "length s2 \<le> length s1" using 2 by (auto simp: scan_base_def split: if_splits)
  moreover obtain n where "read_digits b1 0 s2 = (n, r)"
    using a by (auto simp: scan_num_def 1 2 split: list.splits if_splits prod.splits)
  then have "length r \<le> length s2" by (rule read_digits_shorter)
  ultimately show ?thesis using skip_ws_shorter [of s] by simp
qed

lemma scan_shorter: "scan_u b s = Some (u, r) \<Longrightarrow> length r \<le> length s" "scan_i s = Some (i, r) \<Longrightarrow> length r \<le> length s"
  by (auto simp: scan_u_def scan_i_def dest: scan_num_shorter)

lemma lit_ws_shorter: "lit c (skip_ws s) = Some r \<Longrightarrow> length r < length s"
  using lit_shorter skip_ws_shorter by (meson less_le_trans)

lemma scan_words_shorter: "scan_words n s = Some (v, r) \<Longrightarrow> length r \<le> length s"
  by (induction n arbitrary: s v)
    (fastforce split: Option.bind_splits dest!: lit_ws_shorter scan_shorter)+

lemma scan_key_shorter: "scan_key words s = Some (k, r) \<Longrightarrow> length r < length s"
  unfolding scan_key_def
  by (fastforce split: Option.bind_splits if_splits dest!: lit_shorter lit_ws_shorter scan_shorter scan_words_shorter)

lemma close_braces_shorter: "length (close_braces s) \<le> length s"
proof -
  have "length r \<le> length s" if "lit c (skip_ws s) = Some r" for c r s using lit_ws_shorter [OF that] by simp
  then show ?thesis using skip_ws_shorter
    by (auto simp: close_braces_def split: option.splits) (meson order_trans)+
qed

function scan_keys :: "nat \<Rightarrow> string \<Rightarrow> rsa_key list option" where
  "scan_keys words s =
     (case scan_key words s of
        None \<Rightarrow> None
      | Some (k, s1) \<Rightarrow>
          (case close_braces s1 of
             [] \<Rightarrow> Some [k]
           | c # s2 \<Rightarrow> if c = CHR '','' then map_option (Cons k) (scan_keys words s2) else None))"
  by pat_completeness auto
termination
proof (relation "measure (\<lambda>(words, s). length s)", simp)
  fix words s and p :: "rsa_key \<times> string" and k s1 c s2
  assume p: "scan_key words s = Some p" "(k, s1) = p" and c: "close_braces s1 = c # s2" "c = CHR '',''"
  have "scan_key words s = Some (k, s1)" using p by simp
  then have "length s1 < length s" by (rule scan_key_shorter)
  moreover have "length s2 < length s1" using close_braces_shorter [of s1] c by simp
  ultimately show "((words, s2), words, s) \<in> measure (\<lambda>(words, s). length s)" by simp
qed

declare scan_keys.simps [simp del]

definition load_keys :: "nat \<Rightarrow> string option \<Rightarrow> rsa_key list option" where
  "load_keys words file' = (case file' of None \<Rightarrow> None | Some s \<Rightarrow> scan_keys words s)"

subsection \<open>Running a program\<close>

datatype ui_event = Show_progress string int | Set_progress string | Ui_print string

definition blank_or_newline :: "char \<Rightarrow> bool" where "blank_or_newline c \<longleftrightarrow> c = CHR '' '' \<or> c = CHR 0x0A"

text \<open>One line the program writes; \<open>strtof\<close> and \<open>strtol\<close> of a null pointer are undefined.\<close>

definition child_command :: "string \<Rightarrow> ui_event list ub" where
  "child_command line =
     do { (command, buf, pos) \<leftarrow> strtok_on blank_or_newline (line @ [NUL]) 0;
          case command of
            None \<Rightarrow> Some []
          | Some c \<Rightarrow>
              if c = ''progress'' then do {
                (fraction_s, buf1, pos1) \<leftarrow> strtok_on blank_or_newline buf pos;
                (seconds_s, buf2, pos2) \<leftarrow> strtok_on blank_or_newline buf1 pos1;
                fraction \<leftarrow> fraction_s;
                seconds \<leftarrow> seconds_s;
                Some [Show_progress fraction (sint (word_of_int (fst (strtol10 seconds)) :: u32))] }
              else if c = ''set_progress'' then do {
                (fraction_s, buf1, pos1) \<leftarrow> strtok_on blank_or_newline buf pos;
                fraction \<leftarrow> fraction_s;
                Some [Set_progress fraction] }
              else if c = ''ui_print'' then do {
                (str, buf1, pos1) \<leftarrow> strtok_on is_newline buf pos;
                Some [Ui_print (case str of None \<Rightarrow> [CHR 0x0A] | Some s \<Rightarrow> s)] }
              else Some [] }"

function child_loop :: "string \<Rightarrow> ui_event list ub" where
  "child_loop text =
     (if text = [] then Some []
      else do { es \<leftarrow> child_command (fst (fgets 1024 text));
                es' \<leftarrow> child_loop (snd (fgets 1024 text));
                Some (es @ es') })"
  by pat_completeness auto
termination by (relation "measure length") (auto intro: fgets_rest)

declare child_loop.simps [simp del]

definition INSTALL_SUCCESS :: int where "INSTALL_SUCCESS = 0"
definition INSTALL_ERROR :: int where "INSTALL_ERROR = 1"
definition INSTALL_CORRUPT :: int where "INSTALL_CORRUPT = 2"

record ('x, 'z, 'c) inst_env = "'x rec_env" +
  ie_crypt :: "(rsa_key, 'c) mincrypt"
  ie_words :: nat
  ie_zlib :: "'z zlib"
  ie_map :: "bytes \<Rightarrow> u64 option"
  ie_pipe :: "'x fs_world \<Rightarrow> (int \<times> int) \<times> 'x fs_world"
  ie_child :: "string list \<Rightarrow> 'x fs_world \<Rightarrow> (string \<times> exec_end) \<times> 'x fs_world"

text \<open>
  After \<open>fork\<close>: what the child writes is read to its end, then its status.  When there is no child the status is never
  set, so looking at it is undefined.
\<close>

definition wait_child ::
  "('x, 'z, 'c) inst_env \<Rightarrow> string list \<Rightarrow> 'x fs_world \<Rightarrow> (int \<times> ui_event list \<times> 'x fs_world) ub" where
  "wait_child E args w =
     (let ((text, e), w1) = ie_child E args w
      in do { evs \<leftarrow> child_loop text;
              case e of
                Ended status \<Rightarrow>
                  Some (if status AND 0x7f = 0 \<and> drop_bit 8 status AND 0xff = 0 then INSTALL_SUCCESS else INSTALL_ERROR, evs, w1)
              | Fork_failed \<Rightarrow> None
              | Wait_failed \<Rightarrow> None })"

text \<open>What \<open>sprintf\<close> writes must fit the buffer it was given room for.\<close>

definition sprintf_fits :: "nat \<Rightarrow> string \<Rightarrow> string ub" where
  "sprintf_fits size' s = (if length s < size' then Some s else None)"

subsection \<open>Packages\<close>

definition ASSUMED_UPDATE_BINARY_NAME :: bytes where
  "ASSUMED_UPDATE_BINARY_NAME = bytes_of ''META-INF/com/google/android/update-binary''"

definition PUBLIC_KEYS_FILE :: string where "PUBLIC_KEYS_FILE = ''/res/keys''"
definition BINARY :: string where "BINARY = ''/tmp/update_binary''"

text \<open>\<open>file\<close> is what the descriptor of the archive reads.\<close>

definition try_update_binary ::
  "('x, 'z, 'c) inst_env \<Rightarrow> string \<Rightarrow> bytes \<Rightarrow> zip_archive \<Rightarrow> 'x fs_world \<Rightarrow> (int \<times> ui_event list \<times> 'x fs_world) ub" where
  "try_update_binary E path file' zip' w =
     do { found \<leftarrow> mzFindZipEntry zip' ASSUMED_UPDATE_BINARY_NAME;
          case found of
            None \<Rightarrow> do { u \<leftarrow> mzCloseZipArchive zip'; Some (INSTALL_CORRUPT, [], w) }
          | Some i \<Rightarrow> do {
              binary_entry \<leftarrow> rd (zEntries zip') i;
              let w1 = snd (fs_unlink (re_sys E) BINARY w);
              let (fd, w2) = sys_creat (re_dirs E) BINARY 493 w1;
              if fd < 0 then do { u \<leftarrow> mzCloseZipArchive zip'; Some (1, [], w2) }
              else do {
                (ok, w3) \<leftarrow> mzExtractZipEntryToFile (ie_zlib E) (re_dirs E) file' binary_entry fd w2;
                let w4 = sys_close (re_dirs E) fd w3;
                u \<leftarrow> mzCloseZipArchive zip';
                if \<not> ok then Some (1, [], w4)
                else do {
                  let ((read_end, write_end), w5) = ie_pipe E w4;
                  fd_arg \<leftarrow> sprintf_fits 10 (dec_int write_end);
                  wait_child E [BINARY, ''3'', fd_arg, path] w5 } } } }"

text \<open>From the opening of the archive on; the descriptor is 3, an error of \<open>open\<close> is 1.\<close>

definition open_and_run ::
  "('x, 'z, 'c) inst_env \<Rightarrow> string \<Rightarrow> 'x fs_world \<Rightarrow> (int \<times> ui_event list \<times> 'x fs_world) ub" where
  "open_and_run E path w =
     (let (f, w1) = fs_open_read (re_sys E) path w;
          mapped = (case f of None \<Rightarrow> None | Some d \<Rightarrow> map_option (\<lambda>a. \<lparr>addr = a, mem = d\<rparr>) (ie_map E d))
      in do { (err, zip', rel) \<leftarrow> mzOpenZipArchive (if f = None then - 1 else 3) 1 mapped;
              if err \<noteq> 0 then Some (INSTALL_CORRUPT, [], w1)
              else case f of None \<Rightarrow> None | Some d \<Rightarrow> try_update_binary E path d zip' w1 })"

definition install_package ::
  "('x, 'z, 'c) inst_env \<Rightarrow> string \<Rightarrow> root_state \<Rightarrow> 'x fs_world \<Rightarrow> (int \<times> ui_event list \<times> root_state \<times> 'x fs_world) ub" where
  "install_package E path g w =
     do { (r, g1, w1) \<leftarrow> ensure_path_mounted (re_host E) path g w;
          if r \<noteq> 0 then Some (INSTALL_CORRUPT, [], g1, w1)
          else do {
            let (kf, w2) = fs_open_read (re_sys E) PUBLIC_KEYS_FILE w1;
            case load_keys (ie_words E) (map_option string_of kf) of
              None \<Rightarrow> Some (INSTALL_CORRUPT, [], g1, w2)
            | Some loadedKeys \<Rightarrow> do {
                let (f, w3) = fs_open_read (re_sys E) path w2;
                err \<leftarrow> verify_file (ie_crypt E) (h_alloc (re_host E)) f loadedKeys;
                if err \<noteq> VERIFY_SUCCESS then Some (INSTALL_CORRUPT, [], g1, w3)
                else do { (s, evs, w4) \<leftarrow> open_and_run E path w3; Some (s, evs, g1, w4) } } } }"

subsection \<open>The vendor's programs\<close>

text \<open>\<open>%X\<close> of an \<open>int\<close>.\<close>

definition hex_upper :: "nat \<Rightarrow> char" where
  "hex_upper d = (if d < 10 then char_of (48 + d) else char_of (55 + d))"

fun hex_nat :: "nat \<Rightarrow> string" where
  "hex_nat n = (if n < 16 then [hex_upper n] else hex_nat (n div 16) @ [hex_upper (n mod 16)])"

declare hex_nat.simps [simp del]

definition start_main ::
  "('x, 'z, 'c) inst_env \<Rightarrow> string list \<Rightarrow> 'x fs_world \<Rightarrow> (int \<times> ui_event list \<times> 'x fs_world) ub" where
  "start_main E args w = wait_child E args w"

definition do_rk_update ::
  "('x, 'z, 'c) inst_env \<Rightarrow> bool \<Rightarrow> string \<Rightarrow> string \<Rightarrow> 'x fs_world \<Rightarrow> (int \<times> ui_event list \<times> 'x fs_world) ub" where
  "do_rk_update E bSDBootUpdate binary path w =
     (let ((read_end, write_end), w1) = ie_pipe E w
      in do { fd \<leftarrow> sprintf_fits 10 (dec_int write_end);
              sd \<leftarrow> sprintf_fits 8 (if bSDBootUpdate then ''1'' else ''0'');
              start_main E [binary, ''Version 1.0'', fd, path, sd] w1 })"

text \<open>\<open>boot\<close> is what the stack holds where the message is read to.\<close>

definition do_rk_updateEngine ::
  "('x, 'z, 'c) inst_env \<Rightarrow> bool \<Rightarrow> bootloader_message \<Rightarrow> string \<Rightarrow> string \<Rightarrow> root_state \<Rightarrow> 'x fs_world \<Rightarrow>
     (int \<times> ui_event list \<times> root_state \<times> 'x fs_world) ub" where
  "do_rk_updateEngine E bSDBootUpdate boot binary path g w =
     (let ((read_end, write_end), w1) = ie_pipe E w
      in do { fd \<leftarrow> sprintf_fits 20 (''--pipefd='' @ dec_int write_end);
              url \<leftarrow> sprintf_fits 512 (''--image_url='' @ path);
              (n, g1, w2) \<leftarrow> (if bSDBootUpdate then Some (''FF80'', g, w1)
                else do { (r, boot1, g1, w2) \<leftarrow> get_bootloader_message (re_host E) (re_sys E) boot g w1;
                          v \<leftarrow> Read4 (bytes_of (bm_needupdate boot1)) 0;
                          Some (hex_nat (unat v), g1, w2) });
              part' \<leftarrow> sprintf_fits 18 (''--partition=0x'' @ n);
              (s, evs, w3) \<leftarrow> start_main E [binary, fd, url, if bSDBootUpdate then ''--update=sdboot'' else ''--update'', part'] w2;
              Some (s, evs, g1, w3) })"

end
