(* ===== verification/InstallProps.thy ===== *)
theory InstallProps
  imports Install ImgPatch BootProps
begin

text \<open>
  The properties of installing a package: the layout of the file of keys, and that nothing is run from a package
  that no key has signed.
\<close>

subsection \<open>Printing and scanning keys\<close>

lemma skip_ws_Cons [simp]: "\<not> is_space c \<Longrightarrow> skip_ws (c # s) = c # s"
  by (simp add: skip_ws_def)

lemma lit_Cons [simp]: "lit c (c # s) = Some s"
  by (simp add: lit_def)

lemma not_space [simp]:
  "\<not> is_space (CHR ''{'')" "\<not> is_space (CHR ''}'')" "\<not> is_space (CHR '','')" "\<not> is_space (CHR ''0'')"
  "\<not> is_space (CHR ''-'')"
  by (simp_all add: is_space_def)

lemma dec_nat_Cons:
  "\<exists>d xs. dec_nat n = dec_digit d # xs \<and> d < 10 \<and> (0 < n \<longrightarrow> 0 < d)"
proof (induction n rule: dec_nat.induct)
  case (1 n)
  show ?case
  proof (cases "n < 10")
    case False
    then have "0 < n div 10" by simp
    then show ?thesis using "1.IH" [OF False] False by (subst dec_nat.simps) auto
  qed (auto simp: dec_nat.simps [of n])
qed

lemma dec_digit_facts:
  "d < 10 \<Longrightarrow> \<not> is_space (dec_digit d)" "d < 10 \<Longrightarrow> dec_digit d \<noteq> CHR ''-''" "d < 10 \<Longrightarrow> dec_digit d \<noteq> CHR ''+''"
  "d < 10 \<Longrightarrow> dec_digit d \<notin> {CHR ''x'', CHR ''X''}"
  using plainD [OF plain_chars(1), of d] by auto

lemma dec_digit_0: "d < 10 \<Longrightarrow> 0 < d \<Longrightarrow> dec_digit d \<noteq> CHR ''0''"
proof
  assume "d < 10" "0 < d" "dec_digit d = CHR ''0''"
  moreover have "digit_val 10 (CHR ''0'') = Some 0" by (simp add: digit_val_def)
  ultimately show False using digit_val_char(1) [of d] by simp
qed

text \<open>A number in decimal, followed by something that is no digit of it.\<close>

lemma scan_num_dec:
  assumes "digit_val 10 c = None" "c \<notin> {CHR ''x'', CHR ''X''}" "base = 10 \<or> base = 0 \<and> 0 < i"
  shows "scan_num base (dec_int i @ c # r) = Some ((if i < 0 then - 1 else 1, nat \<bar>i\<bar>), c # r)"
proof -
  obtain d xs where d: "dec_nat (nat \<bar>i\<bar>) = dec_digit d # xs" "d < 10" "0 < nat \<bar>i\<bar> \<longrightarrow> 0 < d"
    using dec_nat_Cons by blast
  have sg: "scan_sign (skip_ws (dec_int i @ c # r)) = (if i < 0 then - 1 else 1, dec_nat (nat \<bar>i\<bar>) @ c # r)"
    using d(1) dec_digit_facts [OF d(2)] by (cases "i < 0") (simp_all add: dec_int_def scan_sign_def)
  have "scan_base base (dec_nat (nat \<bar>i\<bar>) @ c # r) = (10, dec_nat (nat \<bar>i\<bar>) @ c # r)"
  proof (cases "base = 10")
    case False
    then have "dec_digit d \<noteq> CHR ''0''" using assms(3) d dec_digit_0 by simp
    then show ?thesis using False assms(3) d(1) by (simp add: scan_base_def has_hex_prefix_def)
  qed (simp add: scan_base_def)
  moreover have "read_digits 10 0 (dec_nat (nat \<bar>i\<bar>) @ c # r) = (nat \<bar>i\<bar>, c # r)"
    using read_digits_dec [of 0 "nat \<bar>i\<bar>" "c # r"] assms(1) by simp
  ultimately show ?thesis using sg d(1) digit_val_char(1) [OF d(2)] by (simp add: scan_num_def Let_def)
qed

lemma scan_num_hex:
  assumes "digit_val 16 c = None" "v < 16 ^ 8" "c \<notin> {CHR ''x'', CHR ''X''}"
  shows "scan_num 16 (hex_digits 8 v @ c # r) = Some ((1, v), c # r)"
proof -
  have "length (hex_digits 8 v) = Suc (Suc 6)" by simp
  then obtain x y xs where x: "hex_digits 8 v = x # y # xs" unfolding length_Suc_conv by blast
  have "x \<in> set (hex_digits 8 v)" "y \<in> set (hex_digits 8 v)" by (simp_all add: x)
  then obtain d e where de: "d < 16" "x = hex_char d" "e < 16" "y = hex_char e" using hex_digits_chars by metis
  note p = plainD [OF plain_chars(2) [OF de(1)], folded de(2)] plainD [OF plain_chars(2) [OF de(3)], folded de(4)]
  have "scan_base 16 (hex_digits 8 v @ c # r) = (16, hex_digits 8 v @ c # r)"
    using p x by (simp add: scan_base_def has_hex_prefix_def)
  moreover have "scan_sign (skip_ws (hex_digits 8 v @ c # r)) = (1, hex_digits 8 v @ c # r)"
    using p x by (simp add: scan_sign_def)
  moreover have "read_digits 16 0 (hex_digits 8 v @ c # r) = (v, c # r)"
    using read_digits_hex [OF assms(2), of 0 "c # r"] assms(1) by simp
  ultimately show ?thesis using digit_val_char(2) [OF de(1)] de(2) x by (simp add: scan_num_def Let_def)
qed

lemma separators:
  "digit_val 10 (CHR '','') = None" "digit_val 10 (CHR ''}'') = None" "digit_val 16 (CHR '','') = None"
  by (simp_all add: digit_val_def)

lemma scan_u_dec:
  fixes v :: u32
  assumes "c = CHR '','' \<or> c = CHR ''}''"
  shows "scan_u 10 (dec_int (sint v) @ c # r) = Some (v, c # r)"
proof -
  have "scan_num 10 (dec_int (sint v) @ c # r) = Some ((if sint v < 0 then - 1 else 1, nat \<bar>sint v\<bar>), c # r)"
    by (rule scan_num_dec) (use assms separators in auto)
  moreover have "nat \<bar>sint v\<bar> < 2 ^ 64"
    using sint_range_size [of v] by (simp add: word_size) linarith
  moreover have "(if sint v < 0 then - 1 else 1) * int (nat \<bar>sint v\<bar>) = sint v" by simp
  ultimately show ?thesis by (simp add: scan_u_def to_unsigned_def)
qed

subsection \<open>The file of keys\<close>

text \<open>A key as the comment before \<open>load_keys\<close> shows it; the words are printed as signed numbers.\<close>

definition words_text :: "u32 list \<Rightarrow> string" where
  "words_text vs = concat (map (\<lambda>v. CHR '','' # dec_int (sint v)) vs)"

definition print_words :: "u32 list \<Rightarrow> string" where
  "print_words vs = ''{'' @ dec_int (sint (hd vs)) @ words_text (tl vs) @ ''}''"

definition print_key :: "rsa_key \<Rightarrow> string" where
  "print_key k = ''{'' @ dec_int (key_len k) @ '',0x'' @ hex_digits 8 (unat (n0inv k)) @ '','' @
     print_words (key_n k) @ '','' @ print_words (key_rr k) @ ''}''"

fun print_keys :: "rsa_key list \<Rightarrow> string" where
  "print_keys [] = []"
| "print_keys [k] = print_key k"
| "print_keys (k # ks) = print_key k @ CHR '','' # print_keys ks"

definition key_ok :: "nat \<Rightarrow> rsa_key \<Rightarrow> bool" where
  "key_ok words k \<longleftrightarrow> 0 < words \<and> words < 2 ^ 31 \<and> key_len k = int words \<and> length (key_n k) = words \<and> length (key_rr k) = words"

lemma scan_words_text: "scan_words (length vs) (words_text vs @ CHR ''}'' # r) = Some (vs, CHR ''}'' # r)"
proof (induction vs)
  case Nil
  then show ?case by (simp add: words_text_def)
next
  case (Cons v vs)
  obtain c r' where c: "words_text vs @ CHR ''}'' # r = c # r'" "c = CHR '','' \<or> c = CHR ''}''"
    by (cases vs) (auto simp: words_text_def)
  have "words_text (v # vs) @ CHR ''}'' # r = CHR '','' # dec_int (sint v) @ c # r'"
    using c(1) by (simp add: words_text_def)
  then show ?case using scan_u_dec [OF c(2), of v r'] Cons.IH c(1) by simp
qed

lemma scan_print_words:
  assumes "vs \<noteq> []"
  shows "\<exists>v s. print_words vs @ r = CHR ''{'' # s \<and> scan_u 10 s = Some (hd vs, v) \<and>
    scan_words (length vs - 1) v = Some (tl vs, CHR ''}'' # r)"
proof -
  obtain c r' where c: "words_text (tl vs) @ CHR ''}'' # r = c # r'" "c = CHR '','' \<or> c = CHR ''}''"
    by (cases "tl vs") (auto simp: words_text_def)
  have "print_words vs @ r = CHR ''{'' # dec_int (sint (hd vs)) @ c # r'" using c(1) by (simp add: print_words_def)
  then show ?thesis
    using scan_u_dec [OF c(2), of "hd vs" r'] scan_words_text [of "tl vs" r] c(1) by (intro exI conjI) (assumption | simp)+
qed

lemma scan_print_key:
  assumes "key_ok words k"
  shows "\<exists>s. scan_key words (print_key k @ r) = Some (k, s) \<and> close_braces s = skip_ws r"
proof -
  have k: "0 < words" "words < 2 ^ 31" "key_len k = int words" "length (key_n k) = words" "length (key_rr k) = words"
    using assms by (simp_all add: key_ok_def)
  then have ne: "key_n k \<noteq> []" "key_rr k \<noteq> []" by auto
  let ?rr = "print_words (key_rr k) @ CHR ''}'' # r"
  obtain v s where n: "print_words (key_n k) @ CHR '','' # ?rr = CHR ''{'' # s" "scan_u 10 s = Some (hd (key_n k), v)"
    "scan_words (length (key_n k) - 1) v = Some (tl (key_n k), CHR ''}'' # CHR '','' # ?rr)"
    using scan_print_words [OF ne(1)] by blast
  obtain v' s' where rr: "?rr = CHR ''{'' # s'" "scan_u 10 s' = Some (hd (key_rr k), v')"
    "scan_words (length (key_rr k) - 1) v' = Some (tl (key_rr k), CHR ''}'' # CHR ''}'' # r)"
    using scan_print_words [OF ne(2)] by blast
  let ?h = "hex_digits 8 (unat (n0inv k)) @ CHR '','' # CHR ''{'' # s"
  have p: "print_key k @ r = CHR ''{'' # dec_int (key_len k) @ CHR '','' # CHR ''0'' # CHR ''x'' # ?h"
    using n(1) by (simp add: print_key_def)
  have i: "scan_i (dec_int (key_len k) @ CHR '','' # t) = Some (int words, CHR '','' # t)" for t
  proof -
    have "scan_num 0 (dec_int (key_len k) @ CHR '','' # t) = Some ((if key_len k < 0 then - 1 else 1, nat \<bar>key_len k\<bar>), CHR '','' # t)"
      by (rule scan_num_dec) (use separators k in auto)
    moreover have "to_int (1, words) = int words"
      using k(2) sint32 [of words] by (simp add: to_int_def LONG_MAX_def LONG_MIN_def)
    ultimately show ?thesis using k(3) by (simp add: scan_i_def)
  qed
  have "unat (n0inv k) < 2 ^ LENGTH(32)" by (rule unsigned_less)
  then have v: "unat (n0inv k) < 16 ^ 8" by simp
  have h: "scan_u 16 ?h = Some (n0inv k, CHR '','' # CHR ''{'' # s)"
    using scan_num_hex [OF separators(3) v, of "CHR ''{'' # s"] v by (simp add: scan_u_def to_unsigned_def)
  have "scan_key words (print_key k @ r) = Some (k, CHR ''}'' # CHR ''}'' # r)"
    unfolding p scan_key_def
    using i h n(2) n(3) [unfolded k(4)] rr(1,2) rr(3) [unfolded k(5)] k(3) ne by simp
  moreover have "close_braces (CHR ''}'' # CHR ''}'' # r) = skip_ws r" by (simp add: close_braces_def)
  ultimately show ?thesis by blast
qed

lemma scan_print_keys:
  "\<forall>k\<in>set ks. key_ok words k \<Longrightarrow> ks \<noteq> [] \<Longrightarrow> scan_keys words (print_keys ks) = Some ks"
proof (induction ks rule: print_keys.induct)
  case (2 k)
  then show ?case using scan_print_key [of words k "[]"] by (subst scan_keys.simps) (auto simp: skip_ws_def)
next
  case (3 k k' ks)
  then have "scan_keys words (print_keys (k' # ks)) = Some (k' # ks)" by simp
  then show ?case using scan_print_key [of words k "CHR '','' # print_keys (k' # ks)"] "3.prems"
    by (subst scan_keys.simps) auto
qed simp

text \<open>
  C27: a file of keys in the layout the comment before \<open>load_keys\<close> describes, one or more keys separated by
  commas, words printed as signed numbers, is loaded as exactly these keys.
\<close>

theorem load_printed_keys:
  assumes "\<forall>k\<in>set ks. key_ok words k" and "ks \<noteq> []"
  shows "load_keys words (Some (print_keys ks)) = Some ks"
  using scan_print_keys [OF assms] by (simp add: load_keys_def)

definition two_keys :: "rsa_key list" where
  "two_keys = [\<lparr>key_len = 2, n0inv = 0xc926ad21, key_n = [1795090719, 0xD693377E], key_rr = [5, 6]\<rparr>,
     \<lparr>key_len = 2, n0inv = 7, key_n = [1, 2], key_rr = [3, 0xFFFFFFFF]\<rparr>]"

theorem load_printed_keys_witness: "load_keys 2 (Some (print_keys two_keys)) = Some two_keys"
  by (rule load_printed_keys) (simp_all add: two_keys_def key_ok_def)

subsection \<open>Only what is signed is run\<close>

lemma try_keys_success:
  "try_keys C eocd h ks = Some VERIFY_SUCCESS \<Longrightarrow>
   \<exists>k\<in>set ks. RSA_verify C k (take (RSANUMBYTES C) (drop (length eocd - 6 - RSANUMBYTES C) eocd)) h"
  by (induction ks) (auto simp: rd_slice_def FOOTER_SIZE_def VERIFY_SUCCESS_def VERIFY_FAILURE_def split: if_splits)

lemma success_signed:
  assumes "\<And>c a b. SHA_update C (SHA_update C c a) b = SHA_update C c (a @ b)"
    and "verify_file C alloc (Some f) ks = Some VERIFY_SUCCESS"
  shows "\<exists>k\<in>set ks. RSA_verify C k (signature_of (RSANUMBYTES C) f) (SHA_final C (SHA_update C (SHA_init C) (signed_part f)))"
proof -
  let ?sz = "comment_of f + 22" and ?h = "SHA_final C (SHA_update C (SHA_init C) (signed_part f))"
  have f: "?sz \<le> length f" "verify_record C alloc f ks ?sz = Some VERIFY_SUCCESS" using footer_found [OF assms(2)] by simp_all
  have "alloc ?sz" "alloc BUFFER_SIZE"
    using f(2) unfolding verify_record_def Let_def
    by (auto simp: bind_eq_Some_conv VERIFY_SUCCESS_def VERIFY_FAILURE_def split: if_splits)
  then have "verify_record C alloc f ks ?sz = verify_record C (\<lambda>n. True) f ks ?sz"
    by (simp only: verify_record_def simp_thms)
  then have "verify_record C (\<lambda>n. True) f ks ?sz = Some VERIFY_SUCCESS" using f(2) by simp
  then have "try_keys C (drop (length f - ?sz) f) ?h ks = Some VERIFY_SUCCESS"
    using verify_record_val [OF assms(1) _ refl f(1), of "\<lambda>n. True" ks]
    by (auto simp: VERIFY_SUCCESS_def VERIFY_FAILURE_def split: if_splits)
  from try_keys_success [OF this] obtain k where k: "k \<in> set ks"
    "RSA_verify C k (take (RSANUMBYTES C) (drop (?sz - 6 - RSANUMBYTES C) (drop (length f - ?sz) f))) ?h"
    using f(1) by auto
  show ?thesis
  proof (cases "RSANUMBYTES C + 6 \<le> ?sz")
    case True
    then have "drop (?sz - 6 - RSANUMBYTES C) (drop (length f - ?sz) f) = drop (length f - 6 - RSANUMBYTES C) f"
      using f(1) by simp
    then show ?thesis using k by (auto simp: signature_of_def)
  next
    case False
    then have "try_keys C (drop (length f - ?sz) f) ?h ks \<noteq> Some VERIFY_SUCCESS"
      using f(1) by (cases ks) (auto simp: FOOTER_SIZE_def VERIFY_SUCCESS_def VERIFY_FAILURE_def)
    then show ?thesis using \<open>try_keys C (drop (length f - ?sz) f) ?h ks = Some VERIFY_SUCCESS\<close> by simp
  qed
qed

lemma found_entry:
  assumes "mzOpenZipArchive fd errno mapped = Some (0, a, rel)" "mzFindZipEntry a name = Some (Some i)"
    "rd (zEntries a) i = Some e"
  shows "e \<in> set (zEntries a) \<and> fileName e = name"
proof -
  obtain pm h where o: "mapped = Some pm" "22 \<le> length (mem pm)" "parseZipArchive pm = Some (Some (zEntries a, h))" "zHash a = Some h"
    using open_success [OF assms(1)] by blast
  have "ZipArchive.files (zEntries a) h [0..<length (zEntries a)]" using parse_cases [OF o(2)] o(3) by auto
  from find_entry_ok [OF this, of name] have "find (\<lambda>i. name_of (zEntries a) i = name) [0..<length (zEntries a)] = Some i"
    using assms(2) by (simp add: mzFindZipEntry_def o(4))
  then have "i < length (zEntries a)" "fileName (zEntries a ! i) = name" by (auto simp: find_Some_iff name_of_def)
  then show ?thesis using assms(3) by (auto simp: rd_in)
qed

lemma wait_child_success:
  "wait_child E args w = Some (INSTALL_SUCCESS, evs, w1) \<Longrightarrow>
   \<exists>text status. ie_child E args w = ((text, Ended status), w1) \<and> status AND 0x7f = 0 \<and> drop_bit 8 status AND 0xff = 0"
  by (auto simp: wait_child_def INSTALL_SUCCESS_def INSTALL_ERROR_def split: prod.splits exec_end.splits Option.bind_splits if_splits)

lemma try_update_success:
  assumes "try_update_binary E path f a w = Some (INSTALL_SUCCESS, evs, w2)"
  shows "\<exists>i e fd v1 v2 v3 args. mzFindZipEntry a ASSUMED_UPDATE_BINARY_NAME = Some (Some i) \<and> rd (zEntries a) i = Some e \<and>
    mzExtractZipEntryToFile (ie_zlib E) (re_dirs E) f e fd v1 = Some (True, v2) \<and>
    wait_child E (BINARY # args) v3 = Some (INSTALL_SUCCESS, evs, w2)"
proof -
  obtain i where i: "mzFindZipEntry a ASSUMED_UPDATE_BINARY_NAME = Some (Some i)"
    using assms by (auto simp: try_update_binary_def bind_eq_Some_conv INSTALL_SUCCESS_def INSTALL_CORRUPT_def split: option.splits)
  then obtain e where e: "rd (zEntries a) i = Some e"
    using assms by (auto simp: try_update_binary_def bind_eq_Some_conv)
  obtain fd v1 where c: "sys_creat (re_dirs E) BINARY 493 (snd (fs_unlink (re_sys E) BINARY w)) = (fd, v1)" by fastforce
  obtain v2 where x: "mzExtractZipEntryToFile (ie_zlib E) (re_dirs E) f e fd v1 = Some (True, v2)"
    using assms by (auto simp: try_update_binary_def i e c bind_eq_Some_conv Let_def INSTALL_SUCCESS_def split: if_splits)
  obtain q w5 where q: "ie_pipe E (sys_close (re_dirs E) fd v2) = (q, w5)" by fastforce
  have "\<exists>t. wait_child E (BINARY # [''3'', t, path]) w5 = Some (INSTALL_SUCCESS, evs, w2)"
    using assms by (auto simp: try_update_binary_def i e c x q bind_eq_Some_conv Let_def INSTALL_SUCCESS_def split: if_splits prod.splits)
  then show ?thesis using i e x by blast
qed

lemma open_and_run_success:
  assumes "open_and_run E path w = Some (INSTALL_SUCCESS, evs, w2)"
  shows "\<exists>p pm a rel v. now w path = Some p \<and> mem pm = i_data p \<and> mzOpenZipArchive 3 1 (Some pm) = Some (0, a, rel) \<and>
    try_update_binary E path (i_data p) a v = Some (INSTALL_SUCCESS, evs, w2)"
proof -
  let ?f = "fst (fs_open_read (re_sys E) path w)" and ?w = "snd (fs_open_read (re_sys E) path w)"
  let ?m = "case ?f of None \<Rightarrow> None | Some d \<Rightarrow> map_option (\<lambda>a. \<lparr>addr = a, mem = d\<rparr>) (ie_map E d)"
  obtain a rel where a: "mzOpenZipArchive (if ?f = None then - 1 else 3) 1 ?m = Some (0, a, rel)"
    "(case ?f of None \<Rightarrow> None | Some d \<Rightarrow> try_update_binary E path d a ?w) = Some (INSTALL_SUCCESS, evs, w2)"
    using assms by (auto simp: open_and_run_def split_beta Let_def bind_eq_Some_conv INSTALL_SUCCESS_def INSTALL_CORRUPT_def split: if_splits)
  then obtain d where d: "?f = Some d" by (cases ?f) auto
  then obtain p where "now w path = Some p" "i_data p = d" by (auto simp: fs_open_read_def split: if_splits)
  moreover obtain ad where "?m = Some \<lparr>addr = ad, mem = d\<rparr>"
    using open_success [OF a(1)] d by (metis (mono_tags, lifting) map_option_eq_Some option.simps(5))
  ultimately show ?thesis using a d
    by (intro exI [of _ p] exI [of _ "\<lparr>addr = ad, mem = d\<rparr>"] exI [of _ a] exI [of _ rel] exI [of _ ?w]) simp
qed


subsection \<open>A package\<close>

definition toy_binary :: bytes where
  "toy_binary = (let n = ASSUMED_UPDATE_BINARY_NAME in
     [80, 75, 3, 4, 10, 0, 0, 0, 0, 0, 0, 0, 0, 0, 172, 42, 147, 216, 2, 0, 0, 0, 2, 0, 0, 0, 41, 0, 0, 0] @ n @ [104, 105] @
     [80, 75, 1, 2, 10, 0, 10, 0, 0, 0, 0, 0, 0, 0, 0, 0, 172, 42, 147, 216, 2, 0, 0, 0, 2, 0, 0, 0, 41, 0,
      0, 0, 0, 0, 0, 0, 0, 0, 0, 0, 0, 0, 0, 0, 0, 0] @ n @
     [80, 75, 5, 6, 0, 0, 0, 0, 1, 0, 1, 0, 87, 0, 0, 0, 73, 0, 0, 0, 8, 0] @ [7, 80, 8, 0, 255, 255, 8, 0])"

definition toy_file :: "bytes \<Rightarrow> inode" where
  "toy_file d = \<lparr>i_data = d, i_mode = 0, i_uid = 0, i_gid = 0, i_reg = True\<rparr>"

definition toy_key :: rsa_key where
  "toy_key = \<lparr>key_len = 1, n0inv = 5, key_n = [7], key_rr = [0]\<rparr>"

definition toy_disk :: "unit fs_world" where
  "toy_disk = \<lparr>now = [PUBLIC_KEYS_FILE \<mapsto> toy_file (bytes_of (print_keys [toy_key])), ''/tmp/p.zip'' \<mapsto> toy_file toy_binary],
     past = [], calls = 0, ext = ()\<rparr>"

definition toy_crypto :: "(rsa_key, bytes) mincrypt" where
  "toy_crypto = \<lparr>RSANUMBYTES = 2, SHA_init = [], SHA_update = (@), SHA_final = take 1,
     RSA_verify = (\<lambda>k sig h. sig = [ucast (hd (key_n k))] @ h)\<rparr>"

definition toy_dirs :: "(unit fs_world) sys_ops" where
  "toy_dirs = (re_dirs toy_rec)\<lparr>sys_creat := \<lambda>p m w. (4, w), sys_write := \<lambda>f b w. (int (length b), 0, w)\<rparr>"

definition toy_inst :: "(unit, unit, bytes) inst_env" where
  "toy_inst = \<lparr>re_host = toy_host, re_sys = re_sys toy_rec, re_dirs = toy_dirs, ie_crypt = toy_crypto, ie_words = 1,
     ie_zlib = no_zlib, ie_map = (\<lambda>d. Some 0x10000), ie_pipe = (\<lambda>w. ((5, 6), w)),
     ie_child = (\<lambda>args w. ((''ui_print hello'' @ [CHR 0x0A], Ended 0), w))\<rparr>"

lemma toy_inst_fields [simp]:
  "re_host toy_inst = toy_host" "re_sys toy_inst = re_sys toy_rec" "re_dirs toy_inst = toy_dirs" "ie_crypt toy_inst = toy_crypto"
  "ie_words toy_inst = 1" "ie_zlib toy_inst = no_zlib" "ie_map toy_inst d = Some 0x10000" "ie_pipe toy_inst w = ((5, 6), w)"
  "ie_child toy_inst args w = ((''ui_print hello'' @ [CHR 0x0A], Ended 0), w)"
  by (simp_all add: toy_inst_def)

lemma toy_calls [simp]:
  "sys_creat toy_dirs p m w = (4, w)" "sys_write toy_dirs f b w = (int (length b), 0, w)" "sys_close toy_dirs f w = w"
  "\<not> ask (re_sys toy_rec) w < 0" "h_access toy_host p w = (if now w p = None then - 1 else 0, w)"
  by (simp_all add: toy_dirs_def toy_rec_def toy_host_def ask_def)

lemma toy_verify: "verify_file (ie_crypt toy_inst) (h_alloc (re_host toy_inst)) (Some toy_binary) [toy_key] = Some VERIFY_SUCCESS"
  by code_simp

lemma toy_open:
  "case mzOpenZipArchive 3 1 (Some \<lparr>addr = 0x10000, mem = toy_binary\<rparr>) of
     Some (err, a, rel) \<Rightarrow> err = 0 \<and> mzFindZipEntry a ASSUMED_UPDATE_BINARY_NAME = Some (Some 0) \<and> mzCloseZipArchive a \<noteq> None \<and>
       (case zEntries a of [e] \<Rightarrow> compression e = 0 \<and> offset e = 71 \<and> compLen e = 2 | _ \<Rightarrow> False)
   | None \<Rightarrow> False"
  by code_simp

lemma toy_bytes: "take 2 (drop 71 toy_binary) = [104, 105]"
  by code_simp

lemma toy_child: "child_loop (''ui_print hello'' @ [CHR 0x0A]) = Some [Ui_print ''hello'']"
  by code_simp

lemma toy_install_run:
  assumes "now w ''/tmp/p.zip'' = Some (toy_file toy_binary)"
  shows "\<exists>w1. open_and_run toy_inst ''/tmp/p.zip'' w = Some (INSTALL_SUCCESS, [Ui_print ''hello''], w1)"
proof -
  obtain a rel e where a: "mzOpenZipArchive 3 1 (Some \<lparr>addr = 0x10000, mem = toy_binary\<rparr>) = Some (0, a, rel)"
    "mzFindZipEntry a ASSUMED_UPDATE_BINARY_NAME = Some (Some 0)" "mzCloseZipArchive a \<noteq> None" "zEntries a = [e]"
    "compression e = 0" "offset e = 71" "compLen e = 2"
    using toy_open by (auto split: option.splits list.splits)
  have "min (length toy_binary - 71) 2 = 2" using arg_cong [OF toy_bytes, of length] by simp
  then have x: "mzExtractZipEntryToFile no_zlib toy_dirs toy_binary e 4 v = Some (True, v)" for v
    using a(5-7) toy_bytes
    by (simp add: mzExtractZipEntryToFile_def mzProcessZipEntryContents_def STORED_def processStoredEntry_def
        stored_loop.simps read_at_def writeProcessFunction_def write_loop.simps)
  have c: "wait_child toy_inst args v = Some (INSTALL_SUCCESS, [Ui_print ''hello''], v)" for args v
    using toy_child by (simp add: wait_child_def)
  have f: "sprintf_fits 10 (dec_int 6) \<noteq> None" by code_simp
  have "\<exists>w1. try_update_binary toy_inst ''/tmp/p.zip'' toy_binary a v = Some (INSTALL_SUCCESS, [Ui_print ''hello''], w1)" for v
    using a(2-4) x c f by (auto simp: try_update_binary_def rd_def)
  then show ?thesis
    using assms a(1) by (simp add: open_and_run_def fs_open_read_def toy_file_def)
qed

lemma toy_install:
  "\<exists>g w. install_package toy_inst ''/tmp/p.zip'' toy_root toy_disk = Some (INSTALL_SUCCESS, [Ui_print ''hello''], g, w)"
proof -
  have n: "now toy_disk PUBLIC_KEYS_FILE = Some (toy_file (bytes_of (print_keys [toy_key])))"
    "now toy_disk ''/tmp/p.zip'' = Some (toy_file toy_binary)"
    by (simp_all add: toy_disk_def PUBLIC_KEYS_FILE_def)
  have m: "ensure_path_mounted toy_host ''/tmp/p.zip'' toy_root toy_disk = Some (0, toy_root, toy_disk)"
    using n(2) by (simp add: ensure_path_mounted_def)
  have k: "load_keys 1 (Some (print_keys [toy_key])) = Some [toy_key]"
    using scan_print_keys [of "[toy_key]" 1] by (simp add: load_keys_def key_ok_def toy_key_def)
  have v: "verify_file toy_crypto (h_alloc toy_host) (Some toy_binary) [toy_key] = Some VERIFY_SUCCESS"
    using toy_verify by simp
  let ?w = "tick (tick toy_disk)"
  obtain w1 where "open_and_run toy_inst ''/tmp/p.zip'' ?w = Some (INSTALL_SUCCESS, [Ui_print ''hello''], w1)"
    using toy_install_run [of ?w] n(2) by auto
  then show ?thesis
    using n m k v by (simp add: install_package_def fs_open_read_def toy_file_def)
qed


subsection \<open>The vendor's program\<close>

text \<open>The room for the last argument does not hold the one for a card: running the program writes past it.\<close>

lemma update_engine_card:
  assumes "ie_pipe E w = ((r, n), w1)"
  shows "do_rk_updateEngine E True boot binary path g w = None"
  using assms by (simp add: do_rk_updateEngine_def sprintf_fits_def Let_def)

end
