(* ===== verification/SdBoot.thy ===== *)
theory SdBoot
  imports RecoveryArgs
begin

text \<open>
  Booting from a card: \<open>sdboot.c\<close>.  An array is the list of its characters; the line buffer is cleared before each
  line, and a walk that leaves it is undefined.
\<close>

definition EX_SDCARD_ROOT :: string where "EX_SDCARD_ROOT = ''/mnt/sdcard''"

subsection \<open>The kernel's command line\<close>

text \<open>Here the array is cleared first; \<open>read\<close> may fill all of it, and then nothing ends the text.\<close>

definition is_boot_from_SD :: "'w host \<Rightarrow> 'w \<Rightarrow> (bool \<times> 'w) ub" where
  "is_boot_from_SD H w =
     (let (str, w1) = h_read H ''/proc/cmdline'' 1024 w; t = (case str of None \<Rightarrow> [] | Some t \<Rightarrow> t);
          found = strstr_found (cstr t) ''sdfwupdate''
      in if length t \<ge> 1024 \<and> NUL \<notin> set t \<and> \<not> found then None else Some (found, w1))"

fun sd_tries :: "nat \<Rightarrow> 'w host \<Rightarrow> root_state \<Rightarrow> 'w \<Rightarrow> (bool \<times> root_state \<times> 'w) ub" where
  "sd_tries 0 H g w = Some (False, g, w)"
| "sd_tries (Suc n) H g w =
     do { (r, g1, w1) \<leftarrow> ensure_path_mounted H EX_SDCARD_ROOT g w;
          if r = 0 then Some (True, g1, w1) else sd_tries n H g1 w1 }"

definition ensure_sd_mounted :: "'w host \<Rightarrow> root_state \<Rightarrow> 'w \<Rightarrow> (bool \<times> root_state \<times> 'w) ub" where
  "ensure_sd_mounted H g w = sd_tries 3 H g w"

subsection \<open>The configuration file\<close>

definition MaxLine :: nat where "MaxLine = 1024"

text \<open>What one line says: nothing, that the search is over, or a value.\<close>

datatype cfg_line = Cfg_none | Cfg_end | Cfg_value string

definition cfg_line_value :: "string \<Rightarrow> string \<Rightarrow> cfg_line ub" where
  "cfg_line_value key lineBuf =
     (if CHR ''='' \<notin> set (cstr lineBuf) then Some Cfg_none
      else case strstr (cstr lineBuf) key of
        None \<Rightarrow> Some Cfg_none
      | Some s \<Rightarrow>
          (case strstr (drop (length key) s) ''='' of
             None \<Rightarrow> Some Cfg_none
           | Some s1 \<Rightarrow>
               let begin' = drop (length (cstr lineBuf) - length s1 + 1) lineBuf;
                   v = dropWhile (\<lambda>c. c = CHR '' '') begin';
                   tok = takeWhile (\<lambda>c. c \<noteq> CHR '' '' \<and> c \<noteq> CHR 0x0A) v
               in do { c \<leftarrow> rd v 0;
                       if c = CHR 0x0A then Some Cfg_end
                       else do { e \<leftarrow> rd v (length tok); Some (Cfg_value tok) } }))"

text \<open>
  The lines of the file until \<open>feof\<close>; a value is copied into the caller's array \<open>val\<close>, over the one before.
\<close>

function cfg_lines :: "string \<Rightarrow> string \<Rightarrow> string \<Rightarrow> nat \<Rightarrow> (string \<times> nat) ub" where
  "cfg_lines key str val len =
     (let (l, r) = fgets MaxLine str;
          at_end = (r = [] \<and> \<not> (l \<noteq> [] \<and> last l = CHR 0x0A) \<and> length l < MaxLine - 1)
      in do { v \<leftarrow> cfg_line_value key (l @ replicate (MaxLine - length l) NUL);
              case v of
                Cfg_end \<Rightarrow> Some (val, len)
              | Cfg_none \<Rightarrow> if at_end then Some (val, len) else cfg_lines key r val len
              | Cfg_value tok \<Rightarrow>
                  do { val1 \<leftarrow> wr_slice val 0 tok;
                       if at_end then Some (val1, length tok) else cfg_lines key r val1 (length tok) } })"
  by pat_completeness auto
termination
proof (relation "measure (\<lambda>(key, str, val, len). length str)", simp)
  have s: "length r < length str"
    if "(l, r) = fgets MaxLine str" "\<not> (r = [] \<and> \<not> (l \<noteq> [] \<and> last l = CHR 0x0A) \<and> length l < MaxLine - 1)" for l r str
  proof (cases str)
    case Nil
    then show ?thesis using that by (simp add: MaxLine_def)
  next
    case (Cons c cs)
    then show ?thesis using fgets_rest [of MaxLine str] that(1) by (cases "fgets MaxLine str") (simp add: MaxLine_def)
  qed
  show "((key, r, val, len), key, str, val, len) \<in> measure (\<lambda>(key, str, val, len). length str)"
    if "x = fgets MaxLine str" "(l, r) = x" "e = (r = [] \<and> \<not> (l \<noteq> [] \<and> last l = CHR 0x0A) \<and> length l < MaxLine - 1)"
      "\<not> e" for key str val and len :: nat and x l r e
    using s [of l r str] that by simp
  show "((key, r, val1, length tok), key, str, val, len) \<in> measure (\<lambda>(key, str, val, len). length str)"
    if "x = fgets MaxLine str" "(l, r) = x" "e = (r = [] \<and> \<not> (l \<noteq> [] \<and> last l = CHR 0x0A) \<and> length l < MaxLine - 1)"
      "\<not> e" for key str val and len :: nat and x l r e and tok val1 :: string
    using s [of l r str] that by simp
qed

declare cfg_lines.simps [simp del]

text \<open>The answer with the two results; the file is not closed.\<close>

definition get_cfg_Item :: "bytes option \<Rightarrow> string \<Rightarrow> string \<Rightarrow> nat \<Rightarrow> (int \<times> string \<times> nat) ub" where
  "get_cfg_Item file' key val len =
     (case file' of
        None \<Rightarrow> Some (- 1, val, len)
      | Some d \<Rightarrow> do { (val1, len1) \<leftarrow> cfg_lines key (string_of d) val len; Some (0, val1, len1) })"

definition is_sdcard_update :: "'x rec_env \<Rightarrow> root_state \<Rightarrow> 'x fs_world \<Rightarrow> (bool \<times> root_state \<times> 'x fs_world) ub" where
  "is_sdcard_update E g w =
     do { (mounted, g1, w1) \<leftarrow> ensure_sd_mounted (re_host E) g w;
          if \<not> mounted then Some (False, g1, w1)
          else do {
            let (f, w2) = fs_open_read (re_sys E) (EX_SDCARD_ROOT @ ''/sd_boot_config.config'') w1;
            (ret, str_val, vlen) \<leftarrow> get_cfg_Item f ''fw_update'' (replicate 10 NUL) 0;
            if ret \<noteq> 0 then Some (False, g1, w2)
            else if NUL \<notin> set str_val then None
            else Some (cstr str_val = ''1'', g1, w2) } }"

end
