(* ===== verification/Ui.thy ===== *)
theory Ui
  imports CLib
begin

text \<open>
  The screen, the menu and the keys of \<open>ui.c\<close>, and the device's choices in \<open>default_recovery_ui.c\<close>.

  Modelled is the state behind the picture: the ring of text rows, the rows of the menu, the key queue.  What is drawn,
  the pictures and the progress bar (a float moved by the clock) are left out.  The two mutexes make each
  operation one step; \<open>ui_print\<close> gets the text \<open>vsnprintf\<close> makes.
\<close>

subsection \<open>State\<close>

definition MAX_COLS :: nat where "MAX_COLS = 96"
definition MAX_ROWS :: nat where "MAX_ROWS = 32"
definition CHAR_WIDTH :: nat where "CHAR_WIDTH = 10"
definition CHAR_HEIGHT :: nat where "CHAR_HEIGHT = 18"
definition QUEUE_MAX :: nat where "QUEUE_MAX = 256"

record ui_state =
  text_cols :: nat
  text_rows :: nat
  text_col :: nat
  text_row :: nat
  text_top :: nat
  text_buf :: "string list"
  show_text :: bool
  menu :: "string list"
  show_menu :: bool
  menu_top :: nat
  menu_items :: nat
  menu_sel :: int
  key_queue :: "int list"
  key_pressed :: "int list"
  rel_sum :: int

text \<open>From \<open>linux/input.h\<close>.\<close>

definition EV_SYN :: nat where "EV_SYN = 0"
definition EV_KEY :: nat where "EV_KEY = 1"
definition EV_REL :: nat where "EV_REL = 2"
definition REL_Y :: nat where "REL_Y = 1"
definition KEY_ENTER :: nat where "KEY_ENTER = 28"
definition KEY_UP :: nat where "KEY_UP = 103"
definition KEY_DOWN :: nat where "KEY_DOWN = 108"
definition KEY_VOLUMEDOWN :: nat where "KEY_VOLUMEDOWN = 114"
definition KEY_VOLUMEUP :: nat where "KEY_VOLUMEUP = 115"
definition KEY_MENU :: nat where "KEY_MENU = 139"
definition KEY_MAX :: nat where "KEY_MAX = 767"

text \<open>\<open>ui_init\<close> on a frame buffer; the static arrays start as zeros and the text is shown.\<close>

definition ui_init :: "nat \<Rightarrow> nat \<Rightarrow> ui_state" where
  "ui_init fb_width fb_height =
     \<lparr>text_cols = min (fb_width div CHAR_WIDTH) (MAX_COLS - 1), text_rows = min (fb_height div CHAR_HEIGHT) MAX_ROWS,
      text_col = 0, text_row = 0, text_top = 1, text_buf = replicate MAX_ROWS (replicate MAX_COLS NUL), show_text = True,
      menu = replicate MAX_ROWS (replicate MAX_COLS NUL), show_menu = False, menu_top = 0, menu_items = 0, menu_sel = 0,
      key_queue = [], key_pressed = replicate (KEY_MAX + 1) 0, rel_sum = 0\<rparr>"

subsection \<open>The text\<close>

definition put_char :: "string list \<Rightarrow> nat \<Rightarrow> nat \<Rightarrow> char \<Rightarrow> string list ub" where
  "put_char t r c x = do { row \<leftarrow> rd t r; row1 \<leftarrow> wr row c x; wr t r row1 }"

definition new_line :: "ui_state \<Rightarrow> ui_state ub" where
  "new_line u =
     do { t \<leftarrow> put_char (text_buf u) (text_row u) (text_col u) NUL;
          let row = (text_row u + 1) mod text_rows u;
          Some (u\<lparr>text_buf := t, text_col := 0, text_row := row,
                  text_top := if row = text_top u then (text_top u + 1) mod text_rows u else text_top u\<rparr>) }"

definition print_char :: "char \<Rightarrow> ui_state \<Rightarrow> ui_state ub" where
  "print_char x u =
     do { u1 \<leftarrow> (if x = CHR 0x0A \<or> text_col u \<ge> text_cols u then new_line u else Some u);
          if x \<noteq> CHR 0x0A
          then do { t \<leftarrow> put_char (text_buf u1) (text_row u1) (text_col u1) x;
                    Some (u1\<lparr>text_buf := t, text_col := text_col u1 + 1\<rparr>) }
          else Some u1 }"

fun print_chars :: "string \<Rightarrow> ui_state \<Rightarrow> ui_state ub" where
  "print_chars [] u = Some u"
| "print_chars (x # xs) u = do { u1 \<leftarrow> print_char x u; print_chars xs u1 }"

definition ui_print :: "string \<Rightarrow> ui_state \<Rightarrow> ui_state ub" where
  "ui_print s u =
     (if text_rows u > 0 \<and> text_cols u > 0
      then do { u1 \<leftarrow> print_chars (cstr (take 255 s)) u;
                t \<leftarrow> put_char (text_buf u1) (text_row u1) (text_col u1) NUL;
                Some (u1\<lparr>text_buf := t\<rparr>) }
      else Some u)"

definition ui_text_visible :: "ui_state \<Rightarrow> bool" where "ui_text_visible u = show_text u"
definition ui_show_text :: "bool \<Rightarrow> ui_state \<Rightarrow> ui_state" where "ui_show_text v u = u\<lparr>show_text := v\<rparr>"

subsection \<open>The menu\<close>

text \<open>\<open>strncpy(menu[i], s, text_cols-1)\<close> and the zero after it.\<close>

definition menu_line :: "nat \<Rightarrow> string \<Rightarrow> string \<Rightarrow> string ub" where
  "menu_line cols s row =
     do { row1 \<leftarrow> wr_slice row 0 (take (cols - 1) (s @ replicate (cols - 1) NUL)); wr row1 (cols - 1) NUL }"

text \<open>From row \<open>i\<close> on, as many lines as there are and as the screen has rows; the answer has the next row.\<close>

fun fill_menu :: "nat \<Rightarrow> nat \<Rightarrow> string list \<Rightarrow> nat \<Rightarrow> string list \<Rightarrow> (nat \<times> string list) ub" where
  "fill_menu rows cols [] i m = Some (i, m)"
| "fill_menu rows cols (s # ss) i m =
     (if i < rows
      then do { row \<leftarrow> rd m i; row1 \<leftarrow> menu_line cols s row; m1 \<leftarrow> wr m i row1; fill_menu rows cols ss (i + 1) m1 }
      else Some (i, m))"

definition ui_start_menu :: "string list \<Rightarrow> string list \<Rightarrow> int \<Rightarrow> ui_state \<Rightarrow> ui_state ub" where
  "ui_start_menu headers items initial_selection u =
     (if text_rows u > 0 \<and> text_cols u > 0
      then do { (top, m) \<leftarrow> fill_menu (text_rows u) (text_cols u) headers 0 (menu u);
                (i, m1) \<leftarrow> fill_menu (text_rows u) (text_cols u) items top m;
                Some (u\<lparr>menu := m1, menu_top := top, menu_items := i - top, show_menu := True, menu_sel := initial_selection\<rparr>) }
      else Some u)"

definition ui_menu_select :: "int \<Rightarrow> ui_state \<Rightarrow> int \<times> ui_state" where
  "ui_menu_select sel u =
     (if show_menu u
      then let s1 = (if sel < 0 then 0 else sel);
               s2 = (if s1 \<ge> int (menu_items u) then int (menu_items u) - 1 else s1)
           in (s2, u\<lparr>menu_sel := s2\<rparr>)
      else (sel, u))"

definition ui_end_menu :: "ui_state \<Rightarrow> ui_state" where
  "ui_end_menu u = (if show_menu u \<and> text_rows u > 0 \<and> text_cols u > 0 then u\<lparr>show_menu := False\<rparr> else u)"

subsection \<open>The keys\<close>

record input_event =
  ev_type :: nat
  ev_code :: nat
  ev_value :: int

definition NO_ACTION :: int where "NO_ACTION = - 1"
definition HIGHLIGHT_UP :: int where "HIGHLIGHT_UP = - 2"
definition HIGHLIGHT_DOWN :: int where "HIGHLIGHT_DOWN = - 3"
definition SELECT_ITEM :: int where "SELECT_ITEM = - 4"

definition device_toggle_display :: "int list \<Rightarrow> nat \<Rightarrow> bool" where
  "device_toggle_display pressed key_code \<longleftrightarrow> key_code = KEY_MENU"

definition device_reboot_now :: "int list \<Rightarrow> nat \<Rightarrow> bool" where
  "device_reboot_now pressed key_code \<longleftrightarrow> False"

definition device_handle_key :: "int \<Rightarrow> bool \<Rightarrow> int" where
  "device_handle_key key_code visible =
     (if visible
      then if key_code = int KEY_DOWN \<or> key_code = int KEY_VOLUMEDOWN then HIGHLIGHT_DOWN
           else if key_code = int KEY_UP \<or> key_code = int KEY_VOLUMEUP then HIGHLIGHT_UP
           else if key_code = int KEY_ENTER \<or> key_code = int KEY_MENU then SELECT_ITEM
           else NO_ACTION
      else NO_ACTION)"

definition device_perform_action :: "int \<Rightarrow> int" where "device_perform_action which = which"
definition device_wipe_data :: int where "device_wipe_data = 0"

text \<open>
  The trackball: motion adds up until it counts as a key.  The answer has the event as it goes on and whether it is a
  fake; a sum outside \<open>int\<close> is undefined.
\<close>

definition roll :: "input_event \<Rightarrow> ui_state \<Rightarrow> (input_event \<times> bool \<times> ui_state) ub" where
  "roll ev u =
     (if ev_type ev = EV_REL
      then if ev_code ev = REL_Y
           then let s = rel_sum u + ev_value ev
                in if s < - (2 ^ 31) \<or> s \<ge> 2 ^ 31 then None
                   else if s > 3 then Some (\<lparr>ev_type = EV_KEY, ev_code = KEY_DOWN, ev_value = 1\<rparr>, True, u\<lparr>rel_sum := 0\<rparr>)
                   else if s < - 3 then Some (\<lparr>ev_type = EV_KEY, ev_code = KEY_UP, ev_value = 1\<rparr>, True, u\<lparr>rel_sum := 0\<rparr>)
                   else Some (ev, False, u\<lparr>rel_sum := s\<rparr>)
           else Some (ev, False, u)
      else Some (ev, False, u\<lparr>rel_sum := 0\<rparr>))"

text \<open>\<open>input_callback\<close> on the event that was read.\<close>

definition input_callback :: "input_event \<Rightarrow> ui_state \<Rightarrow> ui_state ub" where
  "input_callback event u =
     (if ev_type event = EV_SYN then Some u
      else do {
        (ev, fake_key, u1) \<leftarrow> roll event u;
        if ev_type ev \<noteq> EV_KEY \<or> ev_code ev > KEY_MAX then Some u1
        else do {
          pressed \<leftarrow> (if fake_key then Some (key_pressed u1)
                     else wr (key_pressed u1) (ev_code ev) (ev_value ev mod 256));
          let u2 = u1\<lparr>key_pressed := pressed,
                      key_queue := if ev_value ev > 0 \<and> length (key_queue u1) < QUEUE_MAX
                                   then key_queue u1 @ [int (ev_code ev)] else key_queue u1\<rparr>;
          Some (if ev_value ev > 0 \<and> device_toggle_display pressed (ev_code ev) then u2\<lparr>show_text := \<not> show_text u2\<rparr> else u2) } })"

definition ui_clear_key_queue :: "ui_state \<Rightarrow> ui_state" where "ui_clear_key_queue u = u\<lparr>key_queue := []\<rparr>"

text \<open>
  \<open>ui_wait_key\<close>: the input thread runs while the main thread waits.  \<open>Waiting\<close>: the events have run out and the program
  waits on.
\<close>

datatype 'a outcome = Returned 'a | Waiting

fun ui_wait_key :: "input_event list \<Rightarrow> ui_state \<Rightarrow> (int \<times> input_event list \<times> ui_state) outcome ub" where
  "ui_wait_key evs u =
     (case key_queue u of
        key # ks \<Rightarrow> Some (Returned (key, evs, u\<lparr>key_queue := ks\<rparr>))
      | [] \<Rightarrow> (case evs of
                 [] \<Rightarrow> Some Waiting
               | ev # evs1 \<Rightarrow> do { u1 \<leftarrow> input_callback ev u; ui_wait_key evs1 u1 }))"

declare ui_wait_key.simps [simp del]

end
