(* ===== verification/UiProps.thy ===== *)
theory UiProps
  imports Ui
begin

text \<open>
  The state of \<open>ui.c\<close> stays well-formed whatever is printed, shown and pressed, and the text rows are a window on the
  end of what has been printed.
\<close>

subsection \<open>Well-formed states\<close>

definition screen_mid :: "ui_state \<Rightarrow> bool" where
  "screen_mid u \<longleftrightarrow>
     text_rows u \<le> 32 \<and> text_cols u \<le> 95 \<and> length (text_buf u) = 32 \<and> (\<forall>r\<in>set (text_buf u). length r = 96) \<and>
     length (menu u) = 32 \<and> (\<forall>r\<in>set (menu u). length r = 96) \<and> text_col u \<le> text_cols u \<and>
     (0 < text_rows u \<longrightarrow> text_row u < text_rows u \<and> text_top u mod text_rows u = (text_row u + 1) mod text_rows u \<and>
        NUL \<notin> set (take (text_col u) (text_buf u ! text_row u))) \<and>
     (1 < text_rows u \<longrightarrow> text_top u < text_rows u) \<and>
     (show_menu u \<longrightarrow> menu_top u + menu_items u \<le> text_rows u) \<and>
     length (key_pressed u) = 768 \<and> length (key_queue u) \<le> 256 \<and> (\<forall>k\<in>set (key_queue u). 0 \<le> k \<and> k \<le> 767) \<and>
     - 3 \<le> rel_sum u \<and> rel_sum u \<le> 3"

text \<open>Between two calls the row that is written to ends where the next character goes.\<close>

definition screen_ok :: "ui_state \<Rightarrow> bool" where
  "screen_ok u \<longleftrightarrow> screen_mid u \<and> (0 < text_rows u \<longrightarrow> cstr (text_buf u ! text_row u) = take (text_col u) (text_buf u ! text_row u))"

lemma ui_init_ok: "screen_ok (ui_init w h)"
proof -
  let ?r = "min (h div CHAR_HEIGHT) MAX_ROWS"
  have "replicate MAX_ROWS (replicate MAX_COLS NUL) ! 0 = replicate MAX_COLS NUL" by (simp add: MAX_ROWS_def)
  moreover have "cstr (replicate n NUL) = []" for n by (cases n) (simp_all add: cstr_def)
  moreover have "?r \<le> 32" by (simp add: MAX_ROWS_def)
  ultimately show ?thesis
    by (auto simp: screen_ok_def screen_mid_def ui_init_def MAX_ROWS_def MAX_COLS_def KEY_MAX_def)
qed

lemma put_char_ok:
  assumes "length t = 32" "\<forall>r\<in>set t. length r = 96" "r < 32" "c < 96"
  shows "put_char t r c x = Some (t[r := (t ! r)[c := x]])"
    and "length (t[r := (t ! r)[c := x]]) = 32" and "\<forall>r'\<in>set (t[r := (t ! r)[c := x]]). length r' = 96"
proof -
  have "length (t ! r) = 96" using assms(1-3) by simp
  then show "put_char t r c x = Some (t[r := (t ! r)[c := x]])" using assms by (simp add: put_char_def mem_simps)
  show "length (t[r := (t ! r)[c := x]]) = 32" using assms(1) by simp
  have "set (t[r := (t ! r)[c := x]]) \<subseteq> insert ((t ! r)[c := x]) (set t)" by (rule set_update_subset_insert)
  then show "\<forall>r'\<in>set (t[r := (t ! r)[c := x]]). length r' = 96"
    using assms(2) \<open>length (t ! r) = 96\<close> by auto
qed

lemma cstr_update:
  assumes "n < length r" "NUL \<notin> set (take n r)"
  shows "cstr (r[n := NUL]) = take n r"
proof -
  have "r[n := NUL] = take n r @ NUL # drop (Suc n) r" using assms(1) by (simp add: upd_conv_take_nth_drop)
  then show ?thesis using assms(2) by simp
qed

subsection \<open>The window\<close>

definition shown :: "ui_state \<Rightarrow> string list" where
  "shown u = map (\<lambda>i. cstr (text_buf u ! ((i + text_top u) mod text_rows u))) [0..<text_rows u]"

text \<open>The lines while printing goes on: the last one as far as it has come.\<close>

definition window :: "ui_state \<Rightarrow> string list" where
  "window u = map (\<lambda>i. cstr (text_buf u ! ((i + text_row u + 1) mod text_rows u))) [0..<text_rows u - 1] @
     [take (text_col u) (text_buf u ! text_row u)]"

text \<open>What a character does to the lines: the first one is pushed out when a new one begins.\<close>

definition scroll :: "nat \<Rightarrow> char \<Rightarrow> string list \<Rightarrow> string list" where
  "scroll cols x ls =
     (let ls1 = (if x = CHR 0x0A \<or> length (last ls) \<ge> cols then tl ls @ [[]] else ls)
      in if x = CHR 0x0A then ls1 else butlast ls1 @ [last ls1 @ [x]])"

lemma shown_window:
  assumes "screen_mid u" "0 < text_rows u" "cstr (text_buf u ! text_row u) = take (text_col u) (text_buf u ! text_row u)"
  shows "shown u = window u"
proof -
  let ?R = "text_rows u" and ?r = "text_row u"
  have r: "?r < ?R" "text_top u mod ?R = (?r + 1) mod ?R" using assms(1,2) by (simp_all add: screen_mid_def)
  have i: "(i + text_top u) mod ?R = (i + ?r + 1) mod ?R" for i
    using r(2) by (metis add.assoc mod_add_right_eq)
  have "[0..<?R] = [0..<?R - 1] @ [?R - 1]" using assms(2) by (metis Suc_pred' upt_Suc_append zero_le)
  moreover have "(?R - 1 + ?r + 1) mod ?R = ?r" using r(1) assms(2) by simp
  ultimately show ?thesis using assms(3) by (simp add: shown_def window_def i)
qed

lemma window_nth:
  "0 < text_rows u \<Longrightarrow> length (window u) = text_rows u"
  "i < text_rows u - 1 \<Longrightarrow> window u ! i = cstr (text_buf u ! ((i + text_row u + 1) mod text_rows u))"
  "window u ! (text_rows u - 1) = take (text_col u) (text_buf u ! text_row u)"
  by (simp_all add: window_def nth_append)

lemma window_last: "last (window u) = take (text_col u) (text_buf u ! text_row u)" "window u \<noteq> []"
  by (simp_all add: window_def)

lemma rotate_index:
  assumes "r < (R :: nat)" "i < R - 1"
  shows "(i + r + 1) mod R \<noteq> r"
proof (cases "i + r + 1 < R")
  case False
  then have "(i + r + 1) mod R = i + r + 1 - R" using assms by (simp add: mod_if)
  then show ?thesis using assms False by simp
qed simp

lemma new_line_ok:
  assumes "screen_mid u" "0 < text_rows u"
  shows "\<exists>u1. new_line u = Some u1 \<and> screen_mid u1 \<and> window u1 = tl (window u) @ [[]] \<and> text_col u1 = 0 \<and>
    text_rows u1 = text_rows u \<and> text_cols u1 = text_cols u"
proof -
  let ?R = "text_rows u" and ?r = "text_row u" and ?c = "text_col u"
  define t where "t = (text_buf u)[?r := (text_buf u ! ?r)[?c := NUL]]"
  define r1 where "r1 = (?r + 1) mod ?R"
  have u: "?R \<le> 32" "?r < ?R" "text_top u mod ?R = r1" "?c \<le> text_cols u" "text_cols u \<le> 95"
    "length (text_buf u) = 32" "\<forall>r\<in>set (text_buf u). length r = 96" "NUL \<notin> set (take ?c (text_buf u ! ?r))"
    and top: "1 < ?R \<longrightarrow> text_top u < ?R"
    using assms by (simp_all add: screen_mid_def r1_def)
  have p: "put_char (text_buf u) ?r ?c NUL = Some t" "length t = 32" "\<forall>r\<in>set t. length r = 96"
    unfolding t_def using put_char_ok [OF u(6,7), of ?r ?c NUL] u by simp_all
  have len: "length (text_buf u ! ?r) = 96" using u by simp
  have row: "cstr (t ! ?r) = take ?c (text_buf u ! ?r)"
    using u len cstr_update [OF _ u(8)] by (simp add: t_def)
  have other: "t ! j = text_buf u ! j" if "j \<noteq> ?r" for j using that by (simp add: t_def)
  define u1 where "u1 = u\<lparr>text_buf := t, text_col := 0, text_row := r1,
    text_top := if r1 = text_top u then (text_top u + 1) mod ?R else text_top u\<rparr>"
  have run: "new_line u = Some u1" by (simp add: new_line_def p(1) u1_def r1_def Let_def)
  have r1: "r1 < ?R" using assms(2) by (simp add: r1_def)
  have "(if r1 = text_top u then (text_top u + 1) mod ?R else text_top u) mod ?R = (r1 + 1) mod ?R"
  proof (cases "r1 = text_top u")
    case False
    then have "?R = 1" using u(3) top assms(2) by (cases "1 < ?R") auto
    then show ?thesis by simp
  qed simp
  moreover have "1 < ?R \<longrightarrow> (if r1 = text_top u then (text_top u + 1) mod ?R else text_top u) < ?R" using top by simp
  ultimately have mid: "screen_mid u1"
    using assms(1) p(2,3) r1 by (simp add: screen_mid_def u1_def)
  have f: "text_rows u1 = ?R" "text_buf u1 = t" "text_row u1 = r1" "text_col u1 = 0" by (simp_all add: u1_def)
  have "window u1 = tl (window u) @ [[]]"
  proof (rule nth_equalityI)
    show "length (window u1) = length (tl (window u) @ [[]])" using assms(2) by (simp add: window_nth f)
    fix i assume "i < length (window u1)"
    then have i: "i < ?R" using assms(2) by (simp add: window_nth f)
    have l: "length (tl (window u)) = ?R - 1" using assms(2) by (simp add: window_nth)
    consider "i = ?R - 1" | "i + 1 = ?R - 1" | "i + 1 < ?R - 1" using i by linarith
    then show "window u1 ! i = (tl (window u) @ [[]]) ! i"
    proof cases
      case 1
      then show ?thesis using window_nth(3) [of u1] l by (simp add: f nth_append)
    next
      case 2
      have "(i + r1 + 1) mod ?R = (?R - 1 + (?r + 1)) mod ?R"
        using 2 unfolding r1_def by (metis add.commute add.left_commute mod_add_right_eq)
      also have "\<dots> = ?r" using u(2) assms(2) by simp
      finally have "window u1 ! i = cstr (t ! ?r)" using window_nth(2) [of i u1] 2 by (simp add: f)
      moreover have "tl (window u) ! i = window u ! (?R - 1)" using 2 l by (simp add: nth_tl)
      ultimately show ?thesis using 2 l row window_nth(3) [of u] by (simp add: nth_append)
    next
      case 3
      have "(i + r1 + 1) mod ?R = (i + 1 + ?r + 1) mod ?R"
        using mod_add_right_eq [of "i + 1" "?r + 1" ?R] by (simp add: r1_def ac_simps)
      moreover have "(i + 1 + ?r + 1) mod ?R \<noteq> ?r" by (rule rotate_index) (use 3 u(2) in auto)
      ultimately have "window u1 ! i = cstr (text_buf u ! ((i + 1 + ?r + 1) mod ?R))"
        using window_nth(2) [of i u1] 3 other by (simp add: f)
      moreover have "tl (window u) ! i = window u ! (i + 1)" using 3 l by (simp add: nth_tl)
      ultimately show ?thesis using 3 l window_nth(2) [of "i + 1" u] by (simp add: nth_append)
    qed
  qed
  then show ?thesis using run mid by (simp add: u1_def)
qed

lemma print_char_ok:
  assumes "screen_mid u" "0 < text_rows u" "0 < text_cols u" "x \<noteq> NUL"
  shows "\<exists>u1. print_char x u = Some u1 \<and> screen_mid u1 \<and> window u1 = scroll (text_cols u) x (window u) \<and>
    text_rows u1 = text_rows u \<and> text_cols u1 = text_cols u"
proof -
  let ?new = "x = CHR 0x0A \<or> text_col u \<ge> text_cols u"
  obtain u1 where u1: "(if ?new then new_line u else Some u) = Some u1" "screen_mid u1"
    "window u1 = (if ?new then tl (window u) @ [[]] else window u)" "x \<noteq> CHR 0x0A \<longrightarrow> text_col u1 < text_cols u"
    "text_rows u1 = text_rows u" "text_cols u1 = text_cols u"
  proof (cases ?new)
    case True
    obtain u1 where "new_line u = Some u1" "screen_mid u1" "window u1 = tl (window u) @ [[]]" "text_col u1 = 0"
      "text_rows u1 = text_rows u" "text_cols u1 = text_cols u"
      using new_line_ok [OF assms(1,2)] by blast
    then show thesis using True assms(3) by (intro that [of u1]) simp_all
  next
    case False
    then show thesis using assms(1) by (intro that [of u]) auto
  qed
  have l: "length (last (window u)) = text_col u"
  proof -
    have "text_row u < 32" "text_col u \<le> 95" "length (text_buf u) = 32" "\<forall>r\<in>set (text_buf u). length r = 96"
      using assms(1,2) by (simp_all add: screen_mid_def)
    then show ?thesis by (simp add: window_last)
  qed
  show ?thesis
  proof (cases "x = CHR 0x0A")
    case True
    then show ?thesis using u1 by (simp add: print_char_def scroll_def Let_def)
  next
    case False
    let ?r = "text_row u1" and ?c = "text_col u1"
    define t where "t = (text_buf u1)[?r := (text_buf u1 ! ?r)[?c := x]]"
    have b: "?r < text_rows u1" "text_rows u1 \<le> 32" "?c < 95" "length (text_buf u1) = 32" "\<forall>r\<in>set (text_buf u1). length r = 96"
      "NUL \<notin> set (take ?c (text_buf u1 ! ?r))"
      using u1(2,4,5,6) False assms(2) by (auto simp: screen_mid_def)
    have p: "put_char (text_buf u1) ?r ?c x = Some t" "length t = 32" "\<forall>r\<in>set t. length r = 96"
      unfolding t_def using put_char_ok [OF b(4,5), of ?r ?c x] b by simp_all
    have len: "length (text_buf u1 ! ?r) = 96" using b by simp
    have row: "take (?c + 1) (t ! ?r) = take ?c (text_buf u1 ! ?r) @ [x]"
      using b len by (simp add: t_def take_Suc_conv_app_nth)
    define u2 where "u2 = u1\<lparr>text_buf := t, text_col := ?c + 1\<rparr>"
    have run: "print_char x u = Some u2" using False u1(1) by (simp add: print_char_def p(1) u2_def)
    have "screen_mid u2"
      using u1(2,4,6) False p(2,3) row b(6) assms(4) by (simp add: screen_mid_def u2_def)
    moreover have "window u2 = butlast (window u1) @ [last (window u1) @ [x]]"
    proof -
      have "t ! ((i + ?r + 1) mod text_rows u1) = text_buf u1 ! ((i + ?r + 1) mod text_rows u1)" if "i < text_rows u1 - 1" for i
        using rotate_index [OF b(1) that] by (simp add: t_def)
      then show ?thesis using row by (simp add: window_def u2_def)
    qed
    ultimately show ?thesis using run u1(3,5,6) l False by (auto simp: u2_def scroll_def Let_def)
  qed
qed

lemma print_chars_ok:
  "screen_mid u \<Longrightarrow> 0 < text_rows u \<Longrightarrow> 0 < text_cols u \<Longrightarrow> NUL \<notin> set s \<Longrightarrow>
   \<exists>u1. print_chars s u = Some u1 \<and> screen_mid u1 \<and> window u1 = fold (scroll (text_cols u)) s (window u) \<and>
     text_rows u1 = text_rows u \<and> text_cols u1 = text_cols u"
proof (induction s arbitrary: u)
  case (Cons x s)
  obtain u1 where u1: "print_char x u = Some u1" "screen_mid u1" "window u1 = scroll (text_cols u) x (window u)"
    "text_rows u1 = text_rows u" "text_cols u1 = text_cols u"
    using print_char_ok [OF Cons.prems(1-3), of x] Cons.prems(4) by auto
  then show ?case using Cons.IH [of u1] Cons.prems by auto
qed simp

lemma ui_print_ok:
  assumes "screen_ok u" "0 < text_rows u" "0 < text_cols u"
  shows "\<exists>u1. ui_print s u = Some u1 \<and> screen_ok u1 \<and>
    shown u1 = fold (scroll (text_cols u)) (cstr (take 255 s)) (shown u)"
proof -
  have mid: "screen_mid u" using assms(1) by (simp add: screen_ok_def)
  obtain u1 where u1: "print_chars (cstr (take 255 s)) u = Some u1" "screen_mid u1"
    "window u1 = fold (scroll (text_cols u)) (cstr (take 255 s)) (window u)" "text_rows u1 = text_rows u" "text_cols u1 = text_cols u"
    using print_chars_ok [OF mid assms(2,3), of "cstr (take 255 s)"] by auto
  let ?r = "text_row u1" and ?c = "text_col u1"
  define t where "t = (text_buf u1)[?r := (text_buf u1 ! ?r)[?c := NUL]]"
  have b: "?r < text_rows u1" "text_rows u1 \<le> 32" "?c \<le> 95" "length (text_buf u1) = 32" "\<forall>r\<in>set (text_buf u1). length r = 96"
    "NUL \<notin> set (take ?c (text_buf u1 ! ?r))"
    using u1(2,4) assms(2) by (auto simp: screen_mid_def)
  have p: "put_char (text_buf u1) ?r ?c NUL = Some t" "length t = 32" "\<forall>r\<in>set t. length r = 96"
    unfolding t_def using put_char_ok [OF b(4,5), of ?r ?c NUL] b by simp_all
  have len: "length (text_buf u1 ! ?r) = 96" using b by simp
  define u2 where "u2 = u1\<lparr>text_buf := t\<rparr>"
  have row: "cstr (t ! ?r) = take ?c (text_buf u1 ! ?r)" "take ?c (t ! ?r) = take ?c (text_buf u1 ! ?r)"
    using b len cstr_update [OF _ b(6)] by (simp_all add: t_def)
  have "screen_mid u2" using u1(2) p(2,3) row b(6) by (simp add: screen_mid_def u2_def)
  moreover have settled: "cstr (text_buf u2 ! text_row u2) = take (text_col u2) (text_buf u2 ! text_row u2)"
    using row by (simp add: u2_def)
  moreover have "window u2 = window u1"
  proof -
    have "t ! ((i + ?r + 1) mod text_rows u1) = text_buf u1 ! ((i + ?r + 1) mod text_rows u1)" if "i < text_rows u1 - 1" for i
      using rotate_index [OF b(1) that] by (simp add: t_def)
    then show ?thesis using row by (simp add: window_def u2_def)
  qed
  ultimately have "screen_ok u2" "shown u2 = window u1"
    using shown_window [of u2] assms(2) u1(4) by (simp_all add: screen_ok_def u2_def)
  moreover have "shown u = window u" using shown_window [OF mid assms(2)] assms(1,2) by (simp add: screen_ok_def)
  ultimately show ?thesis using assms(2,3) u1(1,3) p(1) by (simp add: ui_print_def u2_def)
qed

subsection \<open>The other operations\<close>

lemma menu_line_ok:
  "length row = 96 \<Longrightarrow> 0 < cols \<Longrightarrow> cols \<le> 95 \<Longrightarrow> \<exists>row1. menu_line cols s row = Some row1 \<and> length row1 = 96"
  by (auto simp: menu_line_def mem_simps)

lemma fill_menu_ok:
  "length m = 32 \<Longrightarrow> \<forall>r\<in>set m. length r = 96 \<Longrightarrow> rows \<le> 32 \<Longrightarrow> 0 < cols \<Longrightarrow> cols \<le> 95 \<Longrightarrow> i \<le> rows \<Longrightarrow>
   \<exists>j m1. fill_menu rows cols ss i m = Some (j, m1) \<and> j = min rows (i + length ss) \<and> length m1 = 32 \<and> (\<forall>r\<in>set m1. length r = 96)"
proof (induction ss arbitrary: i m)
  case (Cons s ss)
  show ?case
  proof (cases "i < rows")
    case True
    then have "length (m ! i) = 96" using Cons.prems by simp
    then obtain row1 where r: "menu_line cols s (m ! i) = Some row1" "length row1 = 96"
      using menu_line_ok [OF _ Cons.prems(4,5)] by blast
    have "\<forall>r\<in>set (m[i := row1]). length r = 96"
      using Cons.prems(2) r(2) set_update_subset_insert [of m i row1] by auto
    then show ?thesis using Cons.IH [of "m[i := row1]" "i + 1"] Cons.prems True r(1) by (auto simp: mem_simps)
  next
    case False
    then show ?thesis using Cons.prems by auto
  qed
qed auto

lemma ui_start_menu_ok:
  assumes "screen_ok u"
  shows "\<exists>u1. ui_start_menu hs is sel u = Some u1 \<and> screen_ok u1 \<and>
    (0 < text_rows u \<and> 0 < text_cols u \<longrightarrow>
       menu_items u1 = min (text_rows u - min (text_rows u) (length hs)) (length is) \<and> show_menu u1)"
proof (cases "0 < text_rows u \<and> 0 < text_cols u")
  case True
  have u: "length (menu u) = 32" "\<forall>r\<in>set (menu u). length r = 96" "text_rows u \<le> 32" "text_cols u \<le> 95"
    using assms by (simp_all add: screen_ok_def screen_mid_def)
  obtain m where m: "fill_menu (text_rows u) (text_cols u) hs 0 (menu u) = Some (min (text_rows u) (length hs), m)"
    "length m = 32" "\<forall>r\<in>set m. length r = 96"
    using fill_menu_ok [OF u(1-3) _ u(4), of 0 hs] True by auto
  obtain j m1 where m1: "fill_menu (text_rows u) (text_cols u) is (min (text_rows u) (length hs)) m = Some (j, m1)"
    "j = min (text_rows u) (min (text_rows u) (length hs) + length is)" "length m1 = 32" "\<forall>r\<in>set m1. length r = 96"
    using fill_menu_ok [OF m(2,3) u(3) _ u(4), of "min (text_rows u) (length hs)" "is"] True by auto
  then show ?thesis using True assms m by (auto simp: ui_start_menu_def screen_ok_def screen_mid_def)
qed (use assms in \<open>auto simp: ui_start_menu_def\<close>)

definition event_ok :: "input_event \<Rightarrow> bool" where
  "event_ok ev \<longleftrightarrow> - (2 ^ 31) + 3 \<le> ev_value ev \<and> ev_value ev < 2 ^ 31 - 3"

lemma roll_ok:
  assumes "- 3 \<le> rel_sum u" "rel_sum u \<le> 3" "event_ok ev"
  shows "\<exists>ev1 fake s. roll ev u = Some (ev1, fake, u\<lparr>rel_sum := s\<rparr>) \<and> - 3 \<le> s \<and> s \<le> 3"
proof -
  have same: "u = u\<lparr>rel_sum := rel_sum u\<rparr>" by (cases u) simp
  let ?s = "rel_sum u + ev_value ev"
  have in_range: "\<not> (?s < - (2 ^ 31) \<or> ?s \<ge> 2 ^ 31)" using assms by (simp add: event_ok_def)
  consider "ev_type ev \<noteq> EV_REL" | "ev_type ev = EV_REL" "ev_code ev \<noteq> REL_Y" |
    "ev_type ev = EV_REL" "ev_code ev = REL_Y" by blast
  then show ?thesis
  proof cases
    case 1
    then have "roll ev u = Some (ev, False, u\<lparr>rel_sum := 0\<rparr>)" by (simp add: roll_def)
    then show ?thesis by (intro exI conjI) (assumption | simp)+
  next
    case 2
    then have "roll ev u = Some (ev, False, u\<lparr>rel_sum := rel_sum u\<rparr>)" using same by (simp add: roll_def)
    then show ?thesis using assms(1,2) by blast
  next
    case 3
    then have r: "roll ev u = (if ?s > 3 then Some (\<lparr>ev_type = EV_KEY, ev_code = KEY_DOWN, ev_value = 1\<rparr>, True, u\<lparr>rel_sum := 0\<rparr>)
        else if ?s < - 3 then Some (\<lparr>ev_type = EV_KEY, ev_code = KEY_UP, ev_value = 1\<rparr>, True, u\<lparr>rel_sum := 0\<rparr>)
        else Some (ev, False, u\<lparr>rel_sum := ?s\<rparr>))"
      using in_range by (simp add: roll_def Let_def)
    have z: "- 3 \<le> (0 :: int)" "(0 :: int) \<le> 3" by simp_all
    consider "?s > 3" | "?s < - 3" | "- 3 \<le> ?s" "?s \<le> 3" by linarith
    then show ?thesis
    proof cases
      case 1
      then have "roll ev u = Some (\<lparr>ev_type = EV_KEY, ev_code = KEY_DOWN, ev_value = 1\<rparr>, True, u\<lparr>rel_sum := 0\<rparr>)"
        using r by simp
      then show ?thesis using z by blast
    next
      case 2
      then have "roll ev u = Some (\<lparr>ev_type = EV_KEY, ev_code = KEY_UP, ev_value = 1\<rparr>, True, u\<lparr>rel_sum := 0\<rparr>)"
        using r by simp
      then show ?thesis using z by blast
    next
      case 3
      then have "roll ev u = Some (ev, False, u\<lparr>rel_sum := ?s\<rparr>)" using r by simp
      then show ?thesis using 3 by blast
    qed
  qed
qed

lemma input_callback_ok:
  assumes "screen_ok u" "event_ok ev"
  shows "\<exists>u1. input_callback ev u = Some u1 \<and> screen_ok u1 \<and> text_rows u1 = text_rows u"
proof (cases "ev_type ev = EV_SYN")
  case False
  have rel: "- 3 \<le> rel_sum u" "rel_sum u \<le> 3" using assms(1) by (simp_all add: screen_ok_def screen_mid_def)
  obtain ev1 fake s where r: "roll ev u = Some (ev1, fake, u\<lparr>rel_sum := s\<rparr>)" "- 3 \<le> s" "s \<le> 3"
    using roll_ok [OF rel assms(2)] by blast
  have l: "length (key_pressed u) = 768" "length (key_queue u) \<le> 256" "\<forall>k\<in>set (key_queue u). 0 \<le> k \<and> k \<le> 767"
    using assms(1) by (simp_all add: screen_ok_def screen_mid_def)
  show ?thesis
  proof (cases "ev_type ev1 \<noteq> EV_KEY \<or> ev_code ev1 > KEY_MAX")
    case True
    then show ?thesis using assms(1) r False by (auto simp: input_callback_def screen_ok_def screen_mid_def)
  next
    case key: False
    define pressed where "pressed = (if fake then key_pressed u else (key_pressed u)[ev_code ev1 := ev_value ev1 mod 256])"
    have p: "(if fake then Some (key_pressed u) else wr (key_pressed u) (ev_code ev1) (ev_value ev1 mod 256)) = Some pressed"
      "length pressed = 768"
      using key l(1) by (simp_all add: pressed_def mem_simps KEY_MAX_def)
    define q where "q = (if ev_value ev1 > 0 \<and> length (key_queue u) < QUEUE_MAX then key_queue u @ [int (ev_code ev1)] else key_queue u)"
    have "length q \<le> 256" "\<forall>k\<in>set q. 0 \<le> k \<and> k \<le> 767"
      using l(2,3) key by (auto simp: q_def QUEUE_MAX_def KEY_MAX_def)
    moreover have "input_callback ev u = Some (let u2 = u\<lparr>rel_sum := s, key_pressed := pressed, key_queue := q\<rparr>
        in if ev_value ev1 > 0 \<and> device_toggle_display pressed (ev_code ev1) then u2\<lparr>show_text := \<not> show_text u2\<rparr> else u2)"
    proof -
      have "input_callback ev u = do { pressed \<leftarrow> (if fake then Some (key_pressed (u\<lparr>rel_sum := s\<rparr>))
              else wr (key_pressed (u\<lparr>rel_sum := s\<rparr>)) (ev_code ev1) (ev_value ev1 mod 256));
          let u2 = u\<lparr>rel_sum := s, key_pressed := pressed, key_queue := q\<rparr>;
          Some (if ev_value ev1 > 0 \<and> device_toggle_display pressed (ev_code ev1) then u2\<lparr>show_text := \<not> show_text u2\<rparr> else u2) }"
        unfolding input_callback_def r(1) q_def using False key by (simp cong del: if_weak_cong)
      moreover have e: "key_pressed (u\<lparr>rel_sum := s\<rparr>) = key_pressed u" by simp
      ultimately show ?thesis unfolding e p(1) by (simp add: Let_def)
    qed
    ultimately show ?thesis using assms(1) r(2,3) p(2) by (auto simp: screen_ok_def screen_mid_def Let_def)
  qed
qed (use assms in \<open>auto simp: input_callback_def\<close>)

subsection \<open>Properties\<close>

datatype ui_call = Print string | Show bool | Start_menu "string list" "string list" int | Menu_select int | End_menu |
  Key_event input_event | Clear_keys | Wait_key "input_event list"

fun ui_do :: "ui_call \<Rightarrow> ui_state \<Rightarrow> ui_state ub" where
  "ui_do (Print s) u = ui_print s u"
| "ui_do (Show v) u = Some (ui_show_text v u)"
| "ui_do (Start_menu hs is sel) u = ui_start_menu hs is sel u"
| "ui_do (Menu_select sel) u = Some (snd (ui_menu_select sel u))"
| "ui_do End_menu u = Some (ui_end_menu u)"
| "ui_do (Key_event ev) u = input_callback ev u"
| "ui_do Clear_keys u = Some (ui_clear_key_queue u)"
| "ui_do (Wait_key evs) u = do { r \<leftarrow> ui_wait_key evs u; Some (case r of Returned (k, evs1, u1) \<Rightarrow> u1 | Waiting \<Rightarrow> u) }"

fun ui_run :: "ui_call list \<Rightarrow> ui_state \<Rightarrow> ui_state ub" where
  "ui_run [] u = Some u"
| "ui_run (c # cs) u = do { u1 \<leftarrow> ui_do c u; ui_run cs u1 }"

fun call_ok :: "ui_call \<Rightarrow> bool" where
  "call_ok (Key_event ev) = event_ok ev"
| "call_ok (Wait_key evs) = list_all event_ok evs"
| "call_ok c = True"

lemma ui_wait_key_ok:
  "screen_ok u \<Longrightarrow> list_all event_ok evs \<Longrightarrow>
   \<exists>r. ui_wait_key evs u = Some r \<and>
     (case r of Returned (k, evs1, u1) \<Rightarrow> screen_ok u1 \<and> list_all event_ok evs1 \<and> 0 \<le> k \<and> k \<le> 767 \<and>
        length evs1 + length (key_queue u1) < length evs + length (key_queue u) | Waiting \<Rightarrow> True)"
proof (induction evs arbitrary: u)
  case Nil
  then show ?case by (subst ui_wait_key.simps) (auto simp: screen_ok_def screen_mid_def split: list.splits)
next
  case (Cons ev evs)
  show ?case
  proof (cases "key_queue u")
    case Nil
    obtain u1 where u1: "input_callback ev u = Some u1" "screen_ok u1" using input_callback_ok [of u ev] Cons.prems by auto
    have "length (key_queue u1) \<le> 1"
      using u1(1) Nil by (auto simp: input_callback_def roll_def Let_def split: if_splits Option.bind_splits)
    then show ?thesis using Cons.IH [OF u1(2)] Cons.prems(2) Nil u1(1)
      by (subst ui_wait_key.simps) (fastforce split: outcome.splits)
  next
    case (Cons k ks)
    then show ?thesis using Cons.prems Cons.IH
      by (subst ui_wait_key.simps) (use \<open>screen_ok u\<close> \<open>list_all event_ok (ev # evs)\<close> in \<open>auto simp: screen_ok_def screen_mid_def\<close>)
  qed
qed

lemma ui_do_ok:
  assumes "screen_ok u" "call_ok c"
  shows "\<exists>u1. ui_do c u = Some u1 \<and> screen_ok u1"
proof (cases c)
  case (Print s)
  then show ?thesis using assms(1) ui_print_ok [of u s] by (cases "0 < text_rows u \<and> 0 < text_cols u") (auto simp: ui_print_def)
next
  case (Start_menu hs "is" sel)
  then show ?thesis using ui_start_menu_ok [OF assms(1), of hs "is" sel] by auto
next
  case (Key_event ev)
  then show ?thesis using input_callback_ok [of u ev] assms by auto
next
  case (Wait_key evs)
  then show ?thesis using ui_wait_key_ok [of u evs] assms by (fastforce split: outcome.splits)
qed (use assms(1) in \<open>auto simp: screen_ok_def screen_mid_def ui_show_text_def ui_menu_select_def ui_end_menu_def ui_clear_key_queue_def Let_def\<close>)



text \<open>
  C28: what the text rows show is a window on the end of what has been printed: each character of the formatted
  text, cut to 255, is added to the last line, a new line begins at a newline and where the width is reached, and then
  the first line is pushed out.
\<close>

theorem ui_print_scrolls:
  assumes "screen_ok u" and "0 < text_rows u" and "0 < text_cols u"
  shows "\<exists>u1. ui_print s u = Some u1 \<and> screen_ok u1 \<and>
    shown u1 = fold (scroll (text_cols u)) (cstr (take 255 s)) (shown u)"
  using ui_print_ok [OF assms] .

theorem ui_print_scrolls_witness:
  "\<exists>u1. ui_print (''abcde'' @ [CHR 0x0A, CHR ''f'']) (ui_init 40 60) = Some u1 \<and> shown u1 = [''abcd'', ''e'', ''f'']"
proof -
  have i: "text_rows (ui_init 40 60) = 3" "text_cols (ui_init 40 60) = 4"
    by (simp_all add: ui_init_def CHAR_WIDTH_def CHAR_HEIGHT_def MAX_ROWS_def MAX_COLS_def)
  have "shown (ui_init 40 60) = [[], [], []]" by code_simp
  then show ?thesis
    using ui_print_scrolls [OF ui_init_ok [of 40 60], of "''abcde'' @ [CHR 0x0A, CHR ''f'']"]
    by (auto simp: i scroll_def cstr_def)
qed

end
