(* ===== verification/RecoveryMenu.thy ===== *)
theory RecoveryMenu
  imports Install Ui SdBoot "HOL-Library.List_Lexorder"
begin

text \<open>
  The interactive part of \<open>recovery.c\<close>: erasing a volume, choosing in a menu, copying a package from the card and the
  loop that waits for the user.

  The state adds to \<open>rec_state\<close> the user interface and the input events still to come.  What is printed, the
  background and the progress bar are left out.  \<open>Waiting\<close>: the events have run out and the program waits on.
\<close>

subsection \<open>Environment and state\<close>

datatype entry_type = DT_DIR | DT_REG | DT_OTHER

record ('x, 'z, 'c) menu_env = "('x, 'z, 'c) inst_env" +
  me_mkdir :: "string \<Rightarrow> nat \<Rightarrow> 'x fs_world \<Rightarrow> (int \<times> int) \<times> 'x fs_world"
  me_stat :: "string \<Rightarrow> 'x fs_world \<Rightarrow> (bool \<times> nat \<times> nat) option \<times> 'x fs_world"
  me_readdir :: "string \<Rightarrow> 'x fs_world \<Rightarrow> (string \<times> entry_type) list option \<times> 'x fs_world"

abbreviation env_of :: "('x, 'z, 'c, 'm) menu_env_scheme \<Rightarrow> 'x rec_env" where
  "env_of E \<equiv> \<lparr>re_host = re_host E, re_sys = re_sys E, re_dirs = re_dirs E\<rparr>"

record main_state =
  ms_rec :: rec_state
  ms_ui :: ui_state
  ms_events :: "input_event list"

definition SDCARD_ROOT :: string where "SDCARD_ROOT = ''/sdcard''"
definition SIDELOAD_TEMP_DIR :: string where "SIDELOAD_TEMP_DIR = ''/tmp/sideload''"

subsection \<open>Erasing\<close>

definition erase_volume ::
  "'w host \<Rightarrow> string \<Rightarrow> rec_state \<Rightarrow> 'w \<Rightarrow> (int \<times> rec_state \<times> 'w) ub" where
  "erase_volume H volume st w =
     (let st1 = (if volume = ''/userdata'' then st\<lparr>tmplog_offset := 0\<rparr> else st)
      in do { (r, g, w1) \<leftarrow> format_volume H volume (rs_root st1) w; Some (r, st1\<lparr>rs_root := g\<rparr>, w1) })"

subsection \<open>Copying a package\<close>

definition EEXIST :: int where "EEXIST = 17"

text \<open>The directory must be one, of root, with mode 0700.\<close>

definition sideload_dir_ok ::
  "('x, 'z, 'c) menu_env \<Rightarrow> 'x fs_world \<Rightarrow> bool \<times> 'x fs_world" where
  "sideload_dir_ok E w =
     (let ((r, errno), w1) = me_mkdir E SIDELOAD_TEMP_DIR 448 w
      in if r \<noteq> 0 \<and> errno \<noteq> EEXIST then (False, w1)
         else let (st, w2) = me_stat E SIDELOAD_TEMP_DIR w1
         in (case st of None \<Rightarrow> False | Some (is_dir, mode, uid) \<Rightarrow> is_dir \<and> mode mod 512 = 448 \<and> uid = 0, w2))"

text \<open>
  The blocks are read and written one after the other; here all is read, as far as reading goes, and written at once.  A
  failing read ends the copy like the end of the file.
\<close>

definition copy_sideloaded_package ::
  "('x, 'z, 'c) menu_env \<Rightarrow> string \<Rightarrow> root_state \<Rightarrow> 'x fs_world \<Rightarrow> (string option \<times> root_state \<times> 'x fs_world) ub" where
  "copy_sideloaded_package E original_path g w =
     do { (r, g1, w1) \<leftarrow> ensure_path_mounted (re_host E) original_path g w;
          if r \<noteq> 0 then Some (None, g1, w1)
          else do {
            (r2, g2, w2) \<leftarrow> ensure_path_mounted (re_host E) SIDELOAD_TEMP_DIR g1 w1;
            if r2 \<noteq> 0 then Some (None, g2, w2)
            else let (ok, w3) = sideload_dir_ok E w2
            in if \<not> ok then Some (None, g2, w3)
            else let copy_path = SIDELOAD_TEMP_DIR @ ''/package.zip''
            in if \<not> h_alloc (re_host E) 8192 then Some (None, g2, w3)
            else let (fin, w4) = fs_open_read (re_sys E) original_path w3
            in case fin of
                 None \<Rightarrow> Some (None, g2, w4)
               | Some d \<Rightarrow>
                   (let (ok, w5) = fs_open_trunc (re_sys E) copy_path w4
                    in if \<not> ok then Some (None, g2, w5)
                       else let (bs, w6) = fs_fread (re_sys E) d (length d) w5;
                                (n, w7) = fs_write (re_sys E) copy_path bs w6
                       in if n \<noteq> int (length bs) then Some (None, g2, w7)
                          else if ask (re_sys E) w7 < 0 then Some (None, g2, tick w7)
                          else if ask (re_sys E) (tick w7) < 0 then Some (None, g2, tick (tick w7))
                          else let (c, w8) = fs_chmod (re_sys E) copy_path 256 (tick (tick w7))
                          in Some (if c \<noteq> 0 then None else Some copy_path, g2, w8)) } }"

subsection \<open>Choosing in a menu\<close>

definition title :: "string list" where "title = [''Linux system recovery <3e>'', '''']"

definition prepend_title :: "string list \<Rightarrow> string list" where "prepend_title headers = title @ headers"

lemma input_callback_queue:
  "input_callback ev u = Some u1 \<Longrightarrow> length (key_queue u1) \<le> length (key_queue u) + 1"
  by (auto simp: input_callback_def roll_def Let_def split: if_splits Option.bind_splits)

lemma ui_wait_key_shorter:
  "ui_wait_key evs u = Some (Returned (k, evs1, u1)) \<Longrightarrow>
   length evs1 + length (key_queue u1) < length evs + length (key_queue u)"
proof (induction evs arbitrary: u)
  case Nil
  then show ?case by (subst (asm) ui_wait_key.simps) (auto split: list.splits)
next
  case (Cons ev evs)
  show ?case
  proof (cases "key_queue u")
    case Nil
    then obtain u2 where u2: "input_callback ev u = Some u2" "ui_wait_key evs u2 = Some (Returned (k, evs1, u1))"
      using Cons.prems by (subst (asm) ui_wait_key.simps) (auto simp: bind_eq_Some_conv)
    show ?thesis using Cons.IH [OF u2(2)] input_callback_queue [OF u2(1)] Nil by simp
  next
    case (Cons key ks)
    then show ?thesis using \<open>ui_wait_key (ev # evs) u = Some (Returned (k, evs1, u1))\<close>
      by (subst (asm) ui_wait_key.simps) auto
  qed
qed

text \<open>What a key does: the new place in the menu, or the chosen item.\<close>

definition menu_action :: "bool \<Rightarrow> int \<Rightarrow> int \<Rightarrow> ui_state \<Rightarrow> int \<times> int option \<times> ui_state" where
  "menu_action menu_only key selected u =
     (let action = device_handle_key key (ui_text_visible u)
      in if action < 0
         then if action = HIGHLIGHT_UP then (let (s, u1) = ui_menu_select (selected - 1) u in (s, None, u1))
              else if action = HIGHLIGHT_DOWN then (let (s, u1) = ui_menu_select (selected + 1) u in (s, None, u1))
              else if action = SELECT_ITEM then (selected, if 0 \<le> selected then Some selected else None, u)
              else (selected, None, u)
         else (selected, if menu_only then None else Some action, u))"

lemma menu_action_queue: "menu_action m key s u = (s1, c, u1) \<Longrightarrow> key_queue u1 = key_queue u"
  by (auto simp: menu_action_def ui_menu_select_def Let_def split: if_splits prod.splits)

function menu_loop ::
  "bool \<Rightarrow> int \<Rightarrow> input_event list \<Rightarrow> ui_state \<Rightarrow> (int \<times> input_event list \<times> ui_state) outcome ub" where
  "menu_loop menu_only selected evs u =
     (case ui_wait_key evs u of
        None \<Rightarrow> None
      | Some Waiting \<Rightarrow> Some Waiting
      | Some (Returned (key, evs1, u1)) \<Rightarrow>
          (case menu_action menu_only key selected u1 of
             (s, Some chosen, u2) \<Rightarrow> Some (Returned (chosen, evs1, u2))
           | (s, None, u2) \<Rightarrow> menu_loop menu_only s evs1 u2))"
  by pat_completeness auto
termination
proof (relation "measure (\<lambda>(m, s, evs, u). length evs + length (key_queue u))", simp)
  fix menu_only selected evs u out p key q evs1 u1 s b c u2
  assume w: "ui_wait_key evs u = Some out" "out = Returned p" "(key, q) = p" "(evs1, u1) = q"
    and a: "(s, b) = menu_action menu_only key selected u1" "(c, u2) = b" "c = None"
  have "length evs1 + length (key_queue u1) < length evs + length (key_queue u)" using ui_wait_key_shorter [of evs u key evs1 u1] w by simp
  then show "((menu_only, s, evs1, u2), menu_only, selected, evs, u) \<in> measure (\<lambda>(m, s, evs, u). length evs + length (key_queue u))"
    using menu_action_queue [of menu_only key selected u1 s None u2] a by simp
qed

declare menu_loop.simps [simp del]

definition get_menu_selection ::
  "string list \<Rightarrow> string list \<Rightarrow> bool \<Rightarrow> int \<Rightarrow> main_state \<Rightarrow> (int \<times> main_state) outcome ub" where
  "get_menu_selection headers items menu_only initial_selection st =
     do { u \<leftarrow> ui_start_menu headers items initial_selection (ui_clear_key_queue (ms_ui st));
          r \<leftarrow> menu_loop menu_only initial_selection (ms_events st) u;
          Some (case r of
                  Waiting \<Rightarrow> Waiting
                | Returned (chosen, evs, u1) \<Rightarrow> Returned (chosen, st\<lparr>ms_ui := ui_end_menu u1, ms_events := evs\<rparr>)) }"

subsection \<open>The card\<close>

definition PATH_BUF :: nat where "PATH_BUF = 4096"

text \<open>\<open>strlcpy\<close> and \<open>strlcat\<close> into an array of \<open>PATH_MAX\<close> characters.\<close>

definition path_in :: "string \<Rightarrow> string \<Rightarrow> string" where
  "path_in path item = take (PATH_BUF - 1) (path @ ''/'' @ item)"

text \<open>\<open>strncasecmp(name + (name_len-4), ".zip", 4) == 0\<close>.\<close>

definition lower :: "char \<Rightarrow> char" where
  "lower c = (let n = of_char c :: nat in if 65 \<le> n \<and> n \<le> 90 then char_of (n + 32) else c)"

definition zip_name :: "string \<Rightarrow> bool" where
  "zip_name n \<longleftrightarrow> 4 \<le> length n \<and> map lower (drop (length n - 4) n) = ''.zip''"

text \<open>\<open>strcmp\<close> compares unsigned characters.\<close>

definition sort_names :: "string list \<Rightarrow> string list" where
  "sort_names ns = sort_key (map (of_char :: char \<Rightarrow> nat)) ns"

text \<open>The list of items: the name above and the packages, sorted together, and the directories, sorted.\<close>

definition card_items :: "(string \<times> entry_type) list \<Rightarrow> string list" where
  "card_items es =
     sort_names (''../'' # map fst (filter (\<lambda>(n, t). t = DT_REG \<and> zip_name n) es)) @
     sort_names (map (\<lambda>(n, t). n @ ''/'') (filter (\<lambda>(n, t). t = DT_DIR \<and> n \<noteq> ''.'' \<and> n \<noteq> ''..'') es))"

text \<open>After the loop.\<close>

definition leave_card ::
  "('x, 'z, 'c) menu_env \<Rightarrow> int option \<Rightarrow> main_state \<Rightarrow> 'x fs_world \<Rightarrow> (int option \<times> main_state \<times> 'x fs_world) outcome ub" where
  "leave_card E res st w =
     do { (r, g, w1) \<leftarrow> ensure_path_unmounted (re_host E) SDCARD_ROOT (rs_root (ms_rec st)) w;
          Some (Returned (res, st\<lparr>ms_rec := (ms_rec st)\<lparr>rs_root := g\<rparr>\<rparr>, w1)) }"

text \<open>A package was chosen: it is copied, and the answer is only set when that fails.\<close>

definition copy_from_card ::
  "('x, 'z, 'c) menu_env \<Rightarrow> string \<Rightarrow> int option \<Rightarrow> main_state \<Rightarrow> 'x fs_world \<Rightarrow> (int option \<times> main_state \<times> 'x fs_world) outcome ub" where
  "copy_from_card E new_path res st w =
     do { (g, w1) \<leftarrow> set_sdcard_update_bootloader_message (env_of E) (rs_root (ms_rec st)) w;
          (copy, g2, w2) \<leftarrow> copy_sideloaded_package E new_path g w1;
          (u, g3, w3) \<leftarrow> ensure_path_unmounted (re_host E) SDCARD_ROOT g2 w2;
          leave_card E (if copy = None then Some INSTALL_ERROR else res) (st\<lparr>ms_rec := (ms_rec st)\<lparr>rs_root := g3\<rparr>\<rparr>) w3 }"

definition card_headers :: "string \<Rightarrow> string list" where
  "card_headers path = prepend_title [''Choose a package to install:'', path, []]"

text \<open>
  \<open>sdcard_directory\<close>: without \<open>items\<close> from its start, with them from the top of its loop.  \<open>res\<close> is what \<open>result\<close>
  holds, \<open>None\<close> where it was never set, and \<open>chosen\<close> the item to start with.
\<close>

partial_function (option) sdcard_directory ::
  "('x, 'z, 'c) menu_env \<Rightarrow> string \<Rightarrow> string list option \<Rightarrow> int option \<Rightarrow> int \<Rightarrow> main_state \<Rightarrow> 'x fs_world \<Rightarrow>
     (int option \<times> main_state \<times> 'x fs_world) outcome ub" where
  "sdcard_directory E path items res chosen st w =
     (case items of
        None \<Rightarrow>
          do { (r, g, w1) \<leftarrow> ensure_path_mounted (re_host E) SDCARD_ROOT (rs_root (ms_rec st)) w;
               let st1 = st\<lparr>ms_rec := (ms_rec st)\<lparr>rs_root := g\<rparr>\<rparr>;
               let (d, w2) = me_readdir E path w1;
               case d of
                 None \<Rightarrow> leave_card E (Some 0) st1 w2
               | Some es \<Rightarrow> sdcard_directory E path (Some (card_items es)) None 0 st1 w2 }
      | Some zips \<Rightarrow>
          do { sel \<leftarrow> get_menu_selection (card_headers path) zips True chosen st;
               case sel of
                 Waiting \<Rightarrow> Some Waiting
               | Returned (chosen1, st1) \<Rightarrow> do {
                   item \<leftarrow> rd zips (nat chosen1);
                   if chosen1 = 0 then leave_card E (Some (- 1)) st1 w
                   else if item \<noteq> [] \<and> last item = CHR ''/''
                   then do { sub \<leftarrow> sdcard_directory E (butlast (path_in path item)) None None 0 st1 w;
                             case sub of
                               Waiting \<Rightarrow> Some Waiting
                             | Returned (r, st2, w2) \<Rightarrow> do {
                                 v \<leftarrow> r;
                                 if v \<ge> 0 then leave_card E r st2 w2
                                 else sdcard_directory E path items r chosen1 st2 w2 } }
                   else copy_from_card E (path_in path item) res st1 w } })"

subsection \<open>The main menu\<close>

definition ITEM_REBOOT :: int where "ITEM_REBOOT = 0"
definition ITEM_APPLY_SDCARD :: int where "ITEM_APPLY_SDCARD = 1"
definition ITEM_WIPE_DATA :: int where "ITEM_WIPE_DATA = 2"

definition MENU_HEADERS :: "string list" where "MENU_HEADERS = [''Linux system recovery utility'', []]"

definition MENU_ITEMS :: "string list" where
  "MENU_ITEMS = [''reboot system now'', ''apply update from sdcard'', ''wipe data/factory reset'']"

definition confirm_headers :: "string list" where
  "confirm_headers = prepend_title [''Confirm wipe of all user data?'', ''  THIS CAN NOT BE UNDONE.'', []]"

definition confirm_items :: "string list" where
  "confirm_items = replicate 7 '' No'' @ ['' Yes -- delete all user data''] @ replicate 3 '' No''"

definition wipe_data ::
  "('x, 'z, 'c) menu_env \<Rightarrow> bool \<Rightarrow> main_state \<Rightarrow> 'x fs_world \<Rightarrow> (main_state \<times> 'x fs_world) outcome ub" where
  "wipe_data E confirm st w =
     do { sel \<leftarrow> (if confirm then get_menu_selection confirm_headers confirm_items True 0 st else Some (Returned (7, st)));
          case sel of
            Waiting \<Rightarrow> Some Waiting
          | Returned (chosen_item, st1) \<Rightarrow>
              if chosen_item \<noteq> 7 then Some (Returned (st1, w))
              else do { (r, rst, w1) \<leftarrow> erase_volume (re_host E) ''/userdata'' (ms_rec st1) w;
                        Some (Returned (st1\<lparr>ms_rec := rst\<rparr>, w1)) } }"

partial_function (option) prompt_and_wait ::
  "('x, 'z, 'c) menu_env \<Rightarrow> main_state \<Rightarrow> 'x fs_world \<Rightarrow> (main_state \<times> 'x fs_world) outcome ub" where
  "prompt_and_wait E st w =
     do { (rst, w1) \<leftarrow> finish_recovery (env_of E) None (ms_rec st) w;
          sel \<leftarrow> get_menu_selection (prepend_title MENU_HEADERS) MENU_ITEMS False 0 (st\<lparr>ms_rec := rst\<rparr>);
          case sel of
            Waiting \<Rightarrow> Some Waiting
          | Returned (chosen, st1) \<Rightarrow>
              let chosen_item = device_perform_action chosen
              in if chosen_item = ITEM_REBOOT then Some (Returned (st1, w1))
                 else if chosen_item = ITEM_WIPE_DATA
                 then do { r \<leftarrow> wipe_data E (ui_text_visible (ms_ui st1)) st1 w1;
                           case r of
                             Waiting \<Rightarrow> Some Waiting
                           | Returned (st2, w2) \<Rightarrow>
                               if \<not> ui_text_visible (ms_ui st2) then Some (Returned (st2, w2)) else prompt_and_wait E st2 w2 }
                 else if chosen_item = ITEM_APPLY_SDCARD
                 then do { r \<leftarrow> sdcard_directory E SDCARD_ROOT None None 0 st1 w1;
                           case r of
                             Waiting \<Rightarrow> Some Waiting
                           | Returned (status, st2, w2) \<Rightarrow> do {
                               s \<leftarrow> status;
                               if s \<ge> 0 \<and> s = INSTALL_SUCCESS \<and> \<not> ui_text_visible (ms_ui st2) then Some (Returned (st2, w2))
                               else prompt_and_wait E st2 w2 } }
                 else prompt_and_wait E st1 w1 }"

end
