(* ===== verification/RecoveryMain.thy ===== *)
theory RecoveryMain
  imports RecoveryMenu
begin

text \<open>
  The program as a whole: \<open>main\<close> of \<open>recovery.c\<close>, with the reading of its options by \<open>getopt_long\<close>.

  \<open>main_env\<close> adds the choices made when compiling: which of the two updaters is built in.  Waiting for coldboot,
  the redirection of the output, \<open>sync\<close> and \<open>reboot\<close> itself are left out: the program ends where it reboots.
\<close>

subsection \<open>Options\<close>

datatype option_arg = Opt_s string | Opt_u string | Opt_w | Opt_a | Opt_e string | Opt_t | Opt_unknown

text \<open>The table \<open>OPTIONS\<close>: a name with what it gives, from its argument where it must have one.\<close>

datatype option_kind = Required "string \<Rightarrow> option_arg" | Plain option_arg

definition OPTIONS :: "(string \<times> option_kind) list" where
  "OPTIONS =
     [(''send_intent'', Required Opt_s), (''update_package'', Required Opt_u), (''wipe_data'', Plain Opt_w),
      (''wipe_all'', Plain Opt_a), (''set_encrypted_filesystems'', Required Opt_e), (''show_text'', Plain Opt_t)]"

text \<open>A name is found exactly or, when only one begins with it, by its beginning.\<close>

definition find_option :: "string \<Rightarrow> option_kind option" where
  "find_option name =
     (case map_of OPTIONS name of
        Some k \<Rightarrow> Some k
      | None \<Rightarrow> (case filter (\<lambda>(n, k). take (length name) n = name) OPTIONS of [(n, k)] \<Rightarrow> Some k | _ \<Rightarrow> None))"

text \<open>
  The options in their order; other arguments are passed over, and \<open>--\<close> ends them.  There are no short options, so each
  letter after a single dash is unknown.
\<close>

fun getopt_long :: "string list \<Rightarrow> option_arg list" where
  "getopt_long [] = []"
| "getopt_long (a # as) =
     (if a = ''--'' then []
      else if take 2 a = ''--''
      then let name = takeWhile (\<lambda>c. c \<noteq> CHR ''='') (drop 2 a); value' = dropWhile (\<lambda>c. c \<noteq> CHR ''='') (drop 2 a)
           in (case find_option name of
                 None \<Rightarrow> Opt_unknown # getopt_long as
               | Some (Plain v) \<Rightarrow> (if value' = [] then v else Opt_unknown) # getopt_long as
               | Some (Required f) \<Rightarrow>
                   if value' \<noteq> [] then f (tl value') # getopt_long as
                   else (case as of [] \<Rightarrow> [Opt_unknown] | b # bs \<Rightarrow> f b # getopt_long bs))
      else if take 1 a = ''-'' \<and> length a \<ge> 2 then replicate (length a - 1) Opt_unknown @ getopt_long as
      else getopt_long as)"

record opts =
  send_intent :: "string option"
  update_package :: "string option"
  opt_wipe_data :: bool
  opt_wipe_all :: bool
  encrypted_fs_mode :: "string option"
  opt_show_text :: bool

definition no_opts :: opts where
  "no_opts = \<lparr>send_intent = None, update_package = None, opt_wipe_data = False, opt_wipe_all = False,
     encrypted_fs_mode = None, opt_show_text = False\<rparr>"

fun set_opt :: "option_arg \<Rightarrow> opts \<Rightarrow> opts" where
  "set_opt (Opt_s v) p = p\<lparr>send_intent := Some v\<rparr>"
| "set_opt (Opt_u v) p = p\<lparr>update_package := Some v\<rparr>"
| "set_opt Opt_w p = p\<lparr>opt_wipe_data := True\<rparr>"
| "set_opt Opt_a p = p\<lparr>opt_wipe_all := True\<rparr>"
| "set_opt (Opt_e v) p = p\<lparr>encrypted_fs_mode := Some v\<rparr>"
| "set_opt Opt_t p = p\<lparr>opt_show_text := True\<rparr>"
| "set_opt Opt_unknown p = p"

text \<open>An old path on the cache partition.\<close>

definition modern_path :: "string \<Rightarrow> string" where
  "modern_path p = (if take 6 p = ''CACHE:'' then ''/cache/'' @ drop 6 p else p)"

definition parse_opts :: "string list \<Rightarrow> opts" where
  "parse_opts argv =
     (let p = fold set_opt (getopt_long (drop 1 argv)) no_opts in p\<lparr>update_package := map_option modern_path (update_package p)\<rparr>)"

subsection \<open>The commands\<close>

record ('x, 'z, 'c) main_env = "('x, 'z, 'c) menu_env" +
  USE_RKUPDATE :: bool
  USE_UPDATEENGINE :: bool

definition ENCRYPTED_FS_ERROR :: int where "ENCRYPTED_FS_ERROR = - 1"

definition read_encrypted_fs_info :: int where "read_encrypted_fs_info = ENCRYPTED_FS_ERROR"
definition restore_encrypted_fs_info :: int where "restore_encrypted_fs_info = ENCRYPTED_FS_ERROR"

text \<open>\<open>mode\<close> is whether encryption is to be on; it is off again after the settings could not be read.\<close>

definition toggle_secure_fs ::
  "'w host \<Rightarrow> string \<Rightarrow> rec_state \<Rightarrow> 'w \<Rightarrow> (int \<times> rec_state \<times> 'w) ub" where
  "toggle_secure_fs H fs_mode st w =
     (if fs_mode \<noteq> ''on'' \<and> fs_mode \<noteq> ''off'' then Some (INSTALL_ERROR, st, w)
      else let mode = (fs_mode = ''on'' \<and> read_encrypted_fs_info = 0)
      in do { (r, st1, w1) \<leftarrow> erase_volume H ''/userdata'' st w;
              Some (if r \<noteq> 0 then INSTALL_ERROR
                    else if mode \<and> restore_encrypted_fs_info \<noteq> 0 then INSTALL_ERROR
                    else INSTALL_SUCCESS, st1, w1) })"

fun mount_tries :: "nat \<Rightarrow> 'w host \<Rightarrow> string \<Rightarrow> root_state \<Rightarrow> 'w \<Rightarrow> (int \<times> root_state \<times> 'w) ub" where
  "mount_tries 0 H path g w = Some (- 1, g, w)"
| "mount_tries (Suc n) H path g w =
     do { (r, g1, w1) \<leftarrow> ensure_path_mounted H path g w;
          if r = 0 then Some (0, g1, w1) else mount_tries n H path g1 w1 }"

definition RESULT_FILE :: string where "RESULT_FILE = ''/userdata/update_rst.txt''"

abbreviation inst_of :: "('x, 'z, 'c, 'm) menu_env_scheme \<Rightarrow> ('x, 'z, 'c) inst_env" where
  "inst_of E \<equiv> \<lparr>re_host = re_host E, re_sys = re_sys E, re_dirs = re_dirs E, ie_crypt = ie_crypt E, ie_words = ie_words E,
     ie_zlib = ie_zlib E, ie_map = ie_map E, ie_pipe = ie_pipe E, ie_child = ie_child E\<rparr>"

text \<open>The updaters that are built in; without one, \<open>status\<close> stays what it was.  \<open>boot\<close> is what the stack holds.\<close>

definition run_updaters ::
  "('x, 'z, 'c) main_env \<Rightarrow> bool \<Rightarrow> bootloader_message \<Rightarrow> string \<Rightarrow> int \<Rightarrow> root_state \<Rightarrow> 'x fs_world \<Rightarrow>
     (int \<times> root_state \<times> 'x fs_world) ub" where
  "run_updaters E sd boot package status g w =
     do { (s1, w1) \<leftarrow> (if USE_RKUPDATE E
            then do { (s, evs, w1) \<leftarrow> do_rk_update (inst_of E) sd ''/usr/bin/rkupdate'' package w; Some (s, w1) }
            else Some (status, w));
          if USE_UPDATEENGINE E
          then do { (s, evs, g2, w2) \<leftarrow> do_rk_updateEngine (inst_of E) sd boot ''/usr/bin/updateEngine'' package g w1;
                    Some (s, g2, w2) }
          else Some (s1, g, w1) }"

text \<open>After a successful update: \<open>strcpy\<close> into the 252 characters of \<open>systemFlag\<close>, and room or the package removed.\<close>

definition after_update ::
  "('x, 'z, 'c) main_env \<Rightarrow> string \<Rightarrow> rec_state \<Rightarrow> 'x fs_world \<Rightarrow> (rec_state \<times> 'x fs_world) ub" where
  "after_update E package st w =
     (if length package \<ge> 252 then None
      else let st1 = st\<lparr>systemFlag := package\<rparr>
      in if take 9 package \<noteq> ''/userdata''
         then do { (r, g, w1) \<leftarrow> resize_volume (re_host E) ''/userdata'' (rs_root st1) w; Some (st1\<lparr>rs_root := g\<rparr>, w1) }
         else let (a, w1) = h_access (re_host E) package w
              in Some (st1, if a = 0 then snd (fs_unlink (re_sys E) package w1) else w1))"

text \<open>The branch for a package; the status is what it was before when the package cannot be mounted.  \<open>sd\<close> is \<open>bSDBootUpdate\<close>.\<close>

definition update_branch ::
  "('x, 'z, 'c) main_env \<Rightarrow> bool \<Rightarrow> bootloader_message \<Rightarrow> string \<Rightarrow> rec_state \<Rightarrow> 'x fs_world \<Rightarrow>
     (int \<times> rec_state \<times> 'x fs_world) ub" where
  "update_branch E sd boot package st w =
     (let (fd_ok, w1) = fs_open_trunc (re_sys E) RESULT_FILE w
      in do {
        (u1, g1, w2) \<leftarrow> ensure_path_unmounted (re_host E) ''/oem'' (rs_root st) w1;
        (u2, g2, w3) \<leftarrow> ensure_path_unmounted (re_host E) ''/userdata'' g1 w2;
        (r, g3, w4) \<leftarrow> mount_tries 5 (re_host E) package g2 w3;
        (status, st5, txt, w5) \<leftarrow>
          (if r = 0
           then do { (s, g4, w5) \<leftarrow> run_updaters E sd boot package INSTALL_SUCCESS g3 w4;
                     if s = INSTALL_SUCCESS
                     then do { (st5, w6) \<leftarrow> after_update E package (st\<lparr>rs_root := g4\<rparr>) w5; Some (s, st5, ''update images success!'', w6) }
                     else Some (s, st\<lparr>rs_root := g4\<rparr>, ''update images failed!'', w5) }
           else Some (INSTALL_SUCCESS, st\<lparr>rs_root := g3\<rparr>, ''update images failed!'', w4));
        Some (status, st5, if fd_ok then snd (fs_write (re_sys E) RESULT_FILE (bytes_of txt) w5) else w5) })"

definition wipe_data_branch ::
  "'w host \<Rightarrow> rec_state \<Rightarrow> 'w \<Rightarrow> (int \<times> rec_state \<times> 'w) ub" where
  "wipe_data_branch H st w =
     do { (r, st1, w1) \<leftarrow> erase_volume H ''/userdata'' st w;
          Some (if device_wipe_data \<noteq> 0 \<or> r \<noteq> 0 then INSTALL_ERROR else INSTALL_SUCCESS, st1, w1) }"

definition wipe_all_branch ::
  "'w host \<Rightarrow> rec_state \<Rightarrow> 'w \<Rightarrow> (int \<times> rec_state \<times> 'w) ub" where
  "wipe_all_branch H st w =
     do { (status, st1, w1) \<leftarrow> wipe_data_branch H st w;
          let (a, w2) = h_access H ''/dev/block/by-name/oem'' w1;
          if a = 0
          then do { (r, g, w3) \<leftarrow> resize_volume H ''/oem'' (rs_root st1) w2;
                    Some (if r \<noteq> 0 then INSTALL_ERROR else status, st1\<lparr>rs_root := g\<rparr>, w3) }
          else Some (status, st1, w2) }"

text \<open>The branch for a card: \<open>system\<close> runs a command in the shell, and what it answers is not looked at.\<close>

definition shell :: "'w host \<Rightarrow> string \<Rightarrow> 'w \<Rightarrow> 'w" where
  "shell H cmd w = snd (h_exec H [''/bin/sh'', ''-c'', cmd] w)"

definition flash_from_card :: "'w host \<Rightarrow> root_state \<Rightarrow> 'w \<Rightarrow> (root_state \<times> 'w) ub" where
  "flash_from_card H g w =
     do { (m, w1) \<leftarrow> isMtdDevice H w;
          if m \<noteq> 0 then Some (g, w1)
          else do {
            (g1, w2) \<leftarrow> scan_mtd H g w1;
            case mtd_find_partition_by_name (mtd g1) ''rk-nand'' of
              None \<Rightarrow> Some (g1, w2)
            | Some part' \<Rightarrow>
                let ((ret, info), w3) = mtd_partition_info (h_mtd H) part' w2
                in (case info of
                      None \<Rightarrow> Some (g1, w3)
                    | Some (tsize, esize, wsize) \<Rightarrow>
                        if esize = 0 then None
                        else Some (g1, shell H ''flashcp /mnt/sdcard/sdupdate.bin /dev/mtd0''
                               (shell H (''flash_erase /dev/mtd0 0x0 '' @ dec_int (uint (tsize div esize))) w3))) } }"

definition card_branch ::
  "('x, 'z, 'c) main_env \<Rightarrow> bootloader_message \<Rightarrow> string \<Rightarrow> rec_state \<Rightarrow> 'x fs_world \<Rightarrow> (int \<times> rec_state \<times> 'x fs_world) ub" where
  "card_branch E boot package st w =
     do { (s1, w1) \<leftarrow> (if USE_RKUPDATE E
            then do { (s, evs, w1) \<leftarrow> do_rk_update (inst_of E) True ''/usr/bin/rkupdate'' package w; Some (s, w1) }
            else Some (INSTALL_SUCCESS, w));
          if \<not> USE_UPDATEENGINE E then Some (s1, st, w1)
          else do {
            let (a, w2) = h_access (re_host E) ''/mnt/sdcard/sdupdate.bin'' w1;
            (s2, g2, w3) \<leftarrow> (if a \<noteq> 0
              then let (fd, w3) = sys_creat (re_dirs E) ''/mnt/sdcard/sdupdate.bin'' 511 w2
                   in if fd < 0 then Some (INSTALL_ERROR, rs_root st, w3)
                      else do { (s, evs, g2, w4) \<leftarrow> do_rk_updateEngine (inst_of E) True boot ''/usr/bin/updateEngine'' package
                                  (rs_root st) (sys_close (re_dirs E) fd w3);
                                Some (s, g2, w4) }
              else Some (s1, rs_root st, w2));
            (g3, w4) \<leftarrow> flash_from_card (re_host E) g2 w3;
            Some (s2, st\<lparr>rs_root := g3\<rparr>, w4) } }"

text \<open>\<open>sdupdate_package\<close> is what a boot from the card found there.\<close>

definition run_command ::
  "('x, 'z, 'c) main_env \<Rightarrow> bootloader_message \<Rightarrow> opts \<Rightarrow> string option \<Rightarrow> rec_state \<Rightarrow> 'x fs_world \<Rightarrow>
     (int \<times> rec_state \<times> 'x fs_world) ub" where
  "run_command E boot p sdupdate_package st w =
     (case encrypted_fs_mode p of
        Some m \<Rightarrow> toggle_secure_fs (re_host E) m st w
      | None \<Rightarrow> (case update_package p of
          Some package \<Rightarrow> update_branch E (sdupdate_package \<noteq> None) boot package st w
        | None \<Rightarrow> (case sdupdate_package of
            Some package \<Rightarrow> card_branch E boot package st w
          | None \<Rightarrow>
              if opt_wipe_data p then wipe_data_branch (re_host E) st w
              else if opt_wipe_all p then wipe_all_branch (re_host E) st w
              else Some (INSTALL_ERROR, st, w))))"

subsection \<open>\<open>main\<close>\<close>

text \<open>Where the command comes from; on a boot from the card the arguments are those of the process.\<close>

definition find_command ::
  "('x, 'z, 'c) main_env \<Rightarrow> string list \<Rightarrow> root_state \<Rightarrow> 'x fs_world \<Rightarrow>
     (string list \<times> string option \<times> root_state \<times> 'x fs_world) ub" where
  "find_command E argv g w =
     do { (bSDBoot, w1) \<leftarrow> is_boot_from_SD (re_host E) w;
          if \<not> bSDBoot
          then do { (argv1, g1, w2) \<leftarrow> get_args (env_of E) argv g w1; Some (argv1, None, g1, w2) }
          else do {
            (update, g1, w2) \<leftarrow> is_sdcard_update (env_of E) g w1;
            if \<not> update then Some (argv, None, g1, w2)
            else let imageFile = EX_SDCARD_ROOT @ ''/sdupdate.img''; (a, w3) = h_access (re_host E) imageFile w2
                 in Some (argv, if a = 0 then Some imageFile else None, g1, w3) } }"

partial_function (option) wait_gone :: "'w host \<Rightarrow> string \<Rightarrow> 'w \<Rightarrow> 'w ub" where
  "wait_gone H path w = (let (a, w1) = h_access H path w in if a = 0 then wait_gone H path w1 else Some w1)"

definition wait_for_card :: "'w host \<Rightarrow> root_state \<Rightarrow> 'w \<Rightarrow> (root_state \<times> 'w) ub" where
  "wait_for_card H g w =
     do { (d, g1, w1) \<leftarrow> get_mounted_device_from_path H EX_SDCARD_ROOT g w;
          device \<leftarrow> d;
          (u, g2, w2) \<leftarrow> ensure_ex_path_unmounted H EX_SDCARD_ROOT g1 w1;
          w3 \<leftarrow> wait_gone H device w2;
          Some (g2, w3) }"

text \<open>
  From the command line on: what is asked for is done; when it failed, or the text is shown, the user is
  waited for; at the end recovery is finished, and the device reboots.
\<close>

definition carry_out ::
  "('x, 'z, 'c) main_env \<Rightarrow> bootloader_message \<Rightarrow> string list \<Rightarrow> string option \<Rightarrow> main_state \<Rightarrow> 'x fs_world \<Rightarrow>
     (main_state \<times> 'x fs_world) outcome ub" where
  "carry_out E boot argv sdupdate_package st w =
     (let p = parse_opts argv;
          u = (if opt_show_text p then ui_show_text True (ms_ui st) else ms_ui st)
      in do {
        (status, rst, w1) \<leftarrow> run_command E boot p sdupdate_package ((ms_rec st)\<lparr>systemFlag := ''false''\<rparr>) w;
        let st1 = st\<lparr>ms_rec := rst, ms_ui := if encrypted_fs_mode p = None \<and> (update_package p \<noteq> None \<or>
              sdupdate_package \<noteq> None \<and> status = INSTALL_SUCCESS \<or>
              sdupdate_package = None \<and> \<not> opt_wipe_data p \<and> opt_wipe_all p) then ui_show_text False u else u\<rparr>;
        r \<leftarrow> (if status \<noteq> INSTALL_SUCCESS \<or> ui_text_visible (ms_ui st1) then prompt_and_wait (menu_env.truncate E) st1 w1
              else Some (Returned (st1, w1)));
        case r of
          Waiting \<Rightarrow> Some Waiting
        | Returned (st2, w2) \<Rightarrow> do {
            (g3, w3) \<leftarrow> (if sdupdate_package \<noteq> None \<and> status = INSTALL_SUCCESS
                        then wait_for_card (re_host E) (rs_root (ms_rec st2)) w2 else Some (rs_root (ms_rec st2), w2));
            (rst4, w4) \<leftarrow> finish_recovery (env_of E) (send_intent p) ((ms_rec st2)\<lparr>rs_root := g3\<rparr>) w3;
            Some (Returned (st2\<lparr>ms_rec := rst4\<rparr>, w4)) } })"

text \<open>
  \<open>fstab\<close> is what \<open>/etc/fstab\<close> reads as; on a boot from the card with an image the text is shown.
\<close>

definition recovery_main ::
  "('x, 'z, 'c) main_env \<Rightarrow> bootloader_message \<Rightarrow> string option \<Rightarrow> string list \<Rightarrow> main_state \<Rightarrow> 'x fs_world \<Rightarrow>
     (main_state \<times> 'x fs_world) outcome ub" where
  "recovery_main E boot fstab argv st w =
     do { let g = load_volume_table fstab (rs_root (ms_rec st));
          (g1, w1) \<leftarrow> setFlashPoint (re_host E) g w;
          (argv1, sdupdate_package, g2, w2) \<leftarrow> find_command E argv g1 w1;
          let u = (if sdupdate_package \<noteq> None then ui_show_text True (ms_ui st) else ms_ui st);
          carry_out E boot argv1 sdupdate_package (st\<lparr>ms_rec := (ms_rec st)\<lparr>rs_root := g2\<rparr>, ms_ui := u\<rparr>) w2 }"

end
