(* ===== verification/RecoveryProps.thy ===== *)
theory RecoveryProps
  imports RecoveryMain InstallProps
begin

text \<open>
  The recovery program as a whole: what its options mean, and how an update that never ran counts as done.
\<close>

subsection \<open>Options\<close>

text \<open>An option as the command file or the message has it.\<close>

fun show_opt :: "option_arg \<Rightarrow> string" where
  "show_opt (Opt_s v) = ''--send_intent='' @ v"
| "show_opt (Opt_u v) = ''--update_package='' @ v"
| "show_opt Opt_w = ''--wipe_data''"
| "show_opt Opt_a = ''--wipe_all''"
| "show_opt (Opt_e v) = ''--set_encrypted_filesystems='' @ v"
| "show_opt Opt_t = ''--show_text''"
| "show_opt Opt_unknown = ''-?''"

text \<open>The argument of the last option of a kind.\<close>

definition last_arg :: "(option_arg \<Rightarrow> string option) \<Rightarrow> option_arg list \<Rightarrow> string option" where
  "last_arg f os = (let vs = List.map_filter f os in if vs = [] then None else Some (List.last vs))"

definition intent_arg :: "option_arg \<Rightarrow> string option" where
  "intent_arg a = (case a of Opt_s v \<Rightarrow> Some v | _ \<Rightarrow> None)"
definition package_arg :: "option_arg \<Rightarrow> string option" where
  "package_arg a = (case a of Opt_u v \<Rightarrow> Some v | _ \<Rightarrow> None)"
definition secure_arg :: "option_arg \<Rightarrow> string option" where
  "secure_arg a = (case a of Opt_e v \<Rightarrow> Some v | _ \<Rightarrow> None)"

lemma last_arg_snoc: "last_arg f (os @ [a]) = (case f a of None \<Rightarrow> last_arg f os | Some v \<Rightarrow> Some v)"
  by (auto simp: last_arg_def map_filter_def split: option.splits)

lemma find_full_name:
  "find_option ''send_intent'' = Some (Required Opt_s)" "find_option ''update_package'' = Some (Required Opt_u)"
  "find_option ''wipe_data'' = Some (Plain Opt_w)" "find_option ''wipe_all'' = Some (Plain Opt_a)"
  "find_option ''set_encrypted_filesystems'' = Some (Required Opt_e)" "find_option ''show_text'' = Some (Plain Opt_t)"
  by (simp_all add: find_option_def OPTIONS_def)

lemma getopt_printed: "getopt_long (map show_opt os) = os"
proof (induction os)
  case (Cons a os)
  then show ?case by (cases a) (simp_all add: find_full_name)
qed simp

lemma fold_set_opt:
  "fold set_opt os no_opts =
     \<lparr>send_intent = last_arg intent_arg os, update_package = last_arg package_arg os,
      opt_wipe_data = (Opt_w \<in> set os), opt_wipe_all = (Opt_a \<in> set os),
      encrypted_fs_mode = last_arg secure_arg os, opt_show_text = (Opt_t \<in> set os)\<rparr>"
proof (induction os rule: rev_induct)
  case Nil
  then show ?case by (simp add: no_opts_def last_arg_def map_filter_def)
next
  case (snoc a os)
  then show ?case by (cases a) (simp_all add: last_arg_snoc intent_arg_def package_arg_def secure_arg_def)
qed

text \<open>
  C26: reading options gives back what was written.  Whatever options are written as the arguments of the program, with
  whatever arguments of their own, reading them yields for each option with an argument the last one written, with an
  old path on the cache partition replaced, and for each flag whether it was written.
\<close>

theorem parse_printed_opts:
  "parse_opts (prog # map show_opt os) =
     \<lparr>send_intent = last_arg intent_arg os, update_package = map_option modern_path (last_arg package_arg os),
      opt_wipe_data = (Opt_w \<in> set os), opt_wipe_all = (Opt_a \<in> set os),
      encrypted_fs_mode = last_arg secure_arg os, opt_show_text = (Opt_t \<in> set os)\<rparr>"
  by (simp add: parse_opts_def getopt_printed fold_set_opt)

text \<open>A name may be cut short as long as one option begins so; \<open>--wipe\<close> could be two, so nothing is wiped.\<close>

lemma short_names:
  "parse_opts [''recovery'', ''--update'', ''CACHE:a.zip'', ''--wipe_d''] =
     no_opts\<lparr>update_package := Some ''/cache/a.zip'', opt_wipe_data := True\<rparr>"
  "parse_opts [''recovery'', ''--wipe'', ''--wipe_cache''] = no_opts"
  by (simp_all add: parse_opts_def find_option_def OPTIONS_def no_opts_def modern_path_def)

text \<open>The two settings of the file encryption do the same, since reading its settings always fails: both wipe and disable.\<close>

lemma secure_fs_never_on: "toggle_secure_fs H ''on'' st w = toggle_secure_fs H ''off'' st w"
  by (simp add: toggle_secure_fs_def read_encrypted_fs_info_def ENCRYPTED_FS_ERROR_def)

subsection \<open>An update that never ran\<close>

lemma scan_mounts_keeps: "scan_mounts H g w = Some (r, g1, w1) \<Longrightarrow> device_volumes g1 = device_volumes g"
  by (auto simp: scan_mounts_def split: Option.bind_splits)

lemma volume_for_path_keeps: "volume_for_path H p g w = Some (v, g1, w1) \<Longrightarrow> device_volumes g1 = device_volumes g"
  by (auto simp: volume_for_path_def split: Option.bind_splits)

lemma unmount_keeps:
  assumes "ensure_path_unmounted H p g w = Some (r, g1, w1)"
  shows "device_volumes g1 = device_volumes g"
proof -
  have u: "device_volumes g1 = device_volumes g" if "unmount_point H m g w = Some (r, g1, w1)" for m g w r g1 w1
    using that by (auto simp: unmount_point_def dest!: scan_mounts_keeps split: Option.bind_splits option.splits if_splits)
  show ?thesis using assms
    by (auto simp: ensure_path_unmounted_def dest!: volume_for_path_keeps u split: Option.bind_splits option.splits if_splits)
qed

text \<open>A file that is not there, on no volume.\<close>

definition missing :: "'x fs_world host \<Rightarrow> string \<Rightarrow> root_state \<Rightarrow> bool" where
  "missing H path g \<longleftrightarrow>
     length path < 256 \<and> (\<forall>w. fst (h_access H path w) \<noteq> 0) \<and> find (on_volume path) (device_volumes g) = None"

lemma missing_not_mounted:
  assumes "quiet H" "missing H path g"
  shows "\<exists>w1. ensure_path_mounted H path g w = Some (- 1, g\<lparr>mount_point := []\<rparr>, w1) \<and> files w1 = files w"
proof -
  obtain a w0 where a: "h_access H path w = (a, w0)" by force
  then have "files w0 = files w" "a \<noteq> 0" using assms unfolding quiet_def missing_def by (metis snd_conv, metis fst_conv)
  moreover obtain w1 where "volume_for_path H path g w0 = Some (find (on_volume path) (device_volumes g), g\<lparr>mount_point := []\<rparr>, w1)"
    "files w1 = files w0" using quiet_volume [OF assms(1)] assms(2) unfolding missing_def by blast
  ultimately show ?thesis using a assms(2) by (simp add: ensure_path_mounted_def missing_def)
qed

lemma missing_tries:
  assumes "quiet H" "missing H path g"
  shows "\<exists>g1 w1. mount_tries n H path g w = Some (- 1, g1, w1) \<and> files w1 = files w \<and> device_volumes g1 = device_volumes g"
  using assms(2)
proof (induction n arbitrary: g w)
  case (Suc n)
  obtain w1 where m: "ensure_path_mounted H path g w = Some (- 1, g\<lparr>mount_point := []\<rparr>, w1)" "files w1 = files w"
    using missing_not_mounted [OF assms(1) Suc.prems] by blast
  have "missing H path (g\<lparr>mount_point := []\<rparr>)" using Suc.prems by (simp add: missing_def)
  from Suc.IH [OF this, of w1] show ?case using m by auto
qed auto

lemma missing_update:
  assumes "quiet (re_host E)" "missing (re_host E) package (rs_root st)"
    and "update_branch E sd boot package st w = Some (status, st1, w1)"
  shows "status = INSTALL_SUCCESS \<and> systemFlag st1 = systemFlag st"
proof -
  obtain b w2 where o: "fs_open_trunc (re_sys E) RESULT_FILE w = (b, w2)" by force
  obtain u1 g1 w3 where u1: "ensure_path_unmounted (re_host E) ''/oem'' (rs_root st) w2 = Some (u1, g1, w3)"
    using assms(3) o by (cases "ensure_path_unmounted (re_host E) ''/oem'' (rs_root st) w2") (auto simp: update_branch_def)
  obtain u2 g2 w4 where u2: "ensure_path_unmounted (re_host E) ''/userdata'' g1 w3 = Some (u2, g2, w4)"
    using assms(3) o u1 by (cases "ensure_path_unmounted (re_host E) ''/userdata'' g1 w3") (auto simp: update_branch_def)
  have "missing (re_host E) package g2"
    using assms(2) unmount_keeps [OF u1] unmount_keeps [OF u2] by (simp add: missing_def)
  then obtain g3 w5 where "mount_tries 5 (re_host E) package g2 w4 = Some (- 1, g3, w5)"
    using missing_tries [OF assms(1)] by blast
  then show ?thesis using assms(3) o u1 u2 by (auto simp: update_branch_def)
qed

lemma parse_update:
  "parse_opts [prog, ''--update_package='' @ package] = no_opts\<lparr>update_package := Some (modern_path package)\<rparr>"
  using getopt_printed [of "[Opt_u package]"] by (simp add: parse_opts_def no_opts_def del: getopt_long.simps)


text \<open>The device of \<open>BootProps\<close>, on which no file can be accessed, and an update from the card it has no entry for.\<close>

definition toy_main :: "(unit, unit, bytes) main_env" where
  "toy_main = \<lparr>re_host = toy_host\<lparr>h_access := \<lambda>p w. (- 1, w)\<rparr>, re_sys = re_sys toy_rec, re_dirs = re_dirs toy_rec,
     ie_crypt = ie_crypt toy_inst, ie_words = 1, ie_zlib = no_zlib, ie_map = (\<lambda>d. None), ie_pipe = (\<lambda>w. ((5, 6), w)),
     ie_child = ie_child toy_inst, me_mkdir = (\<lambda>p m w. ((0, 0), w)), me_stat = (\<lambda>p w. (None, w)),
     me_readdir = (\<lambda>p w. (None, w)), USE_RKUPDATE = True, USE_UPDATEENGINE = True\<rparr>"

definition toy_package :: string where "toy_package = ''/mnt/sdcard/update.img''"

lemma toy_main_laws: "quiet (re_host toy_main)" "missing (re_host toy_main) (modern_path toy_package) toy_root"
  by (auto simp: quiet_def toy_main_def toy_host_def missing_def toy_package_def modern_path_def toy_root_def no_state_def
      two_entries_def volume_of_def tmp_volume_def on_volume_iff)

lemma toy_unmounts:
  "\<exists>g1. ensure_path_unmounted (re_host toy_main) ''/oem'' toy_root w = Some (- 1, g1, w) \<and>
     (\<exists>g2. ensure_path_unmounted (re_host toy_main) ''/userdata'' g1 w = Some (0, g2, w))"
  by (simp add: ensure_path_unmounted_def volume_for_path_def get_link_path_def search_no_link toy_main_def toy_host_def
     toy_root_def no_state_def two_entries_def volume_of_def tmp_volume_def on_volume_iff unmount_point_def scan_mounts_def
     scan_mounted_volumes_def find_mounted_volume_by_mount_point_def find_volume_def mount_lines.simps numv_def)

lemma toy_run_command:
  "\<exists>status st1 w1. run_command toy_main zero_message (parse_opts [''recovery'', ''--update_package='' @ toy_package]) None
     (toy_state\<lparr>rs_root := toy_root\<rparr>) toy_boot = Some (status, st1, w1)"
proof -
  obtain b w1 where o: "fs_open_trunc (re_sys toy_main) RESULT_FILE toy_boot = (b, w1)" by force
  obtain g1 g2 where u: "ensure_path_unmounted (re_host toy_main) ''/oem'' toy_root w1 = Some (- 1, g1, w1)"
    "ensure_path_unmounted (re_host toy_main) ''/userdata'' g1 w1 = Some (0, g2, w1)" using toy_unmounts by blast
  have p: "modern_path toy_package = toy_package" by (simp add: modern_path_def toy_package_def)
  have "missing (re_host toy_main) toy_package g2"
    using toy_main_laws(2) unmount_keeps [OF u(1)] unmount_keeps [OF u(2)] by (simp add: p missing_def)
  then obtain g3 w2 where m: "mount_tries 5 (re_host toy_main) toy_package g2 w1 = Some (- 1, g3, w2)"
    using missing_tries [OF toy_main_laws(1)] by blast
  show ?thesis unfolding parse_update using o u m by (simp add: run_command_def no_opts_def p update_branch_def split_beta)
qed


subsection \<open>The card\<close>

text \<open>The item for the directory above is not the first when a name sorts before it.\<close>

lemma up_not_first: "card_items [(''#a.zip'', DT_REG), (''..'', DT_DIR), (''b'', DT_DIR)] = [''#a.zip'', ''../'', ''b/'']"
  by (simp add: card_items_def sort_names_def zip_name_def lower_def)

text \<open>A value without a blank or newline after it is read past the line buffer; one of more than 10 characters is written past the caller's array.\<close>

lemma card_config_unended: "get_cfg_Item (Some (bytes_of ''fw_update=1'')) ''fw_update'' (replicate 10 NUL) 0 = None"
  by code_simp

lemma card_config_long:
  "get_cfg_Item (Some (bytes_of (''fw_update=12345678901'' @ [CHR 0x0A]))) ''fw_update'' (replicate 10 NUL) 0 = None"
  by code_simp

lemma card_config_yes:
  "get_cfg_Item (Some (bytes_of (''fw_update = 1'' @ [CHR 0x0A]))) ''fw_update'' (replicate 10 NUL) 0 =
     Some (0, CHR ''1'' # replicate 9 NUL, 1)"
  by code_simp

end
