(* ===== verification/Spec2Isabelle.thy ===== *)
theory Spec2Isabelle
  imports Prelude CLib SafeIop ByteOrder HashTable DirUtil ZipArchive ZipExtract Verifier MtdUtils MtdWrite MtdRead MtdScan Edify BsPatch ImgPatch SuffixSort BsDiff FileSys FreeCache ApplyPatch SinkInv ApplySafe LoadPart ApplyProps ApplyMain StrCopy Host BlockIo Mounts Roots BootMessage RecoveryArgs BootProtocol BootProps Install InstallProps SdBoot Ui UiProps RecoveryMenu RecoveryMain RecoveryProps
begin

text \<open>
  A verification development for the recovery system: the program that runs instead of the main system
  to update or reset a device, and the libraries and tools it shares its repository with.

  \<^bold>\<open>The program.\<close>  \<open>recovery.c\<close> boots, reads its command (\<open>get_args\<close>) from the message in the \<open>misc\<close> partition
  (\<open>bootloader.c\<close>), from the command file or, on a boot from a card (\<open>sdboot.c\<close>), from its configuration file; mounts
  and formats volumes (\<open>roots.c\<close> over \<open>mtdutils/mounts.c\<close>, \<open>mtdutils/mtdutils.c\<close>, \<open>mtdutils/rk29.c\<close> and \<open>rktools.c\<close>);
  starts an updater (\<open>rkupdate.c\<close>) or, in the older path, verifies and unpacks a signed package (\<open>install.c\<close>, \<open>verifier.c\<close>,
  \<open>minzip\<close>) whose update program interprets a script (\<open>edify\<close>) and patches files and partitions (\<open>applypatch\<close>); shows menus
  (\<open>ui.c\<close>, \<open>default_recovery_ui.c\<close>); and at the end clears the command and reboots (\<open>finish_recovery\<close>).

  \<^bold>\<open>Theories and the code they model.\<close>
  \<^item> \<open>Prelude\<close>, \<open>CLib\<close>: checked accesses to arrays (\<open>rd\<close>, \<open>wr\<close> and their slices, with the collections \<open>mem_simps\<close> and
    \<open>mem_dests\<close>) and what is used of the C library's text functions.
  \<^item> \<open>SafeIop\<close> (\<open>safe_iop.h\<close>), \<open>ByteOrder\<close> (\<open>minzip/Bits.h\<close> and the readers and writers of integers in \<open>Zip.c\<close>,
    \<open>bspatch.c\<close>, \<open>bsdiff.c\<close>, \<open>applypatch/utils.c\<close>), \<open>StrCopy\<close> (\<open>strlcpy.c\<close>, \<open>strlcat.c\<close>).
  \<^item> \<open>HashTable\<close> (\<open>minzip/Hash.c\<close>), \<open>DirUtil\<close> (\<open>minzip/DirUtil.c\<close>), \<open>ZipArchive\<close> and \<open>ZipExtract\<close> (\<open>minzip/Zip.c\<close>),
    \<open>Verifier\<close> (\<open>verifier.c\<close>).
  \<^item> \<open>MtdUtils\<close> with \<open>MtdRead\<close>, \<open>MtdWrite\<close>, \<open>MtdScan\<close> (\<open>mtdutils/mtdutils.c\<close>); \<open>Host\<close> (the kernel as the code calls it, and
    the \<open>run\<close> of \<open>rk29.c\<close>), \<open>BlockIo\<close> (the block transfers of \<open>rk29.c\<close>), \<open>Mounts\<close> (\<open>mounts.c\<close>), \<open>Roots\<close> (\<open>roots.c\<close>, \<open>rktools.c\<close>).
  \<^item> \<open>Edify\<close> (\<open>edify/expr.c\<close>): evaluation of a parsed script.
  \<^item> \<open>BsPatch\<close>, \<open>ImgPatch\<close>, \<open>SuffixSort\<close>, \<open>BsDiff\<close>, \<open>FreeCache\<close>, \<open>ApplyPatch\<close>, \<open>ApplyMain\<close> (\<open>applypatch/*.c\<close>), with \<open>FileSys\<close>
    the disk and its system calls, and \<open>SinkInv\<close>, \<open>ApplySafe\<close>, \<open>LoadPart\<close>, \<open>ApplyProps\<close> what is proved of them.
  \<^item> \<open>BootMessage\<close> (\<open>bootloader.c\<close>), \<open>RecoveryArgs\<close> (\<open>get_args\<close>, \<open>finish_recovery\<close>), \<open>Install\<close> (\<open>install.c\<close>, \<open>rkupdate.c\<close>),
    \<open>SdBoot\<close> (\<open>sdboot.c\<close>), \<open>Ui\<close> (\<open>ui.c\<close>, \<open>default_recovery_ui.c\<close>), \<open>RecoveryMenu\<close> and \<open>RecoveryMain\<close> (the rest of
    \<open>recovery.c\<close>), with \<open>BootProtocol\<close>, \<open>BootProps\<close>, \<open>InstallProps\<close>, \<open>UiProps\<close>, \<open>RecoveryProps\<close> what is proved of them.

  \<^bold>\<open>How the state corresponds to the code.\<close>  A struct or a group of static variables is a record with the same field names
  (\<open>root_state\<close> for the statics of \<open>roots.c\<close>, \<open>rktools.c\<close>, \<open>mounts.c\<close> and \<open>mtdutils.c\<close>; \<open>ui_state\<close> for those of \<open>ui.c\<close>; \<open>rec_state\<close> for those
  of \<open>recovery.c\<close>), a function is a definition of the same name that takes the state and the world and gives them back
  with its result.  Where a function is long, its loops and the arms of its conditions are definitions of their own.
  A function that can do what C leaves undefined (leave an array, read a null pointer or an unset variable,
  overflow a signed integer) answers in \<open>'a ub\<close>, an \<open>option\<close> whose \<open>None\<close> is that behaviour; errors the code answers are its
  own numbers.  So a theorem with \<open>= Some\<close> in its conclusion also says that the code stays inside its arrays
  and ends.  The model is that of a 64-bit Linux: \<open>int\<close> has 32 bits, \<open>long\<close> and \<open>size_t\<close> 64, \<open>char\<close> is unsigned.

  \<^bold>\<open>Parameters.\<close>  What is not in the repository is an argument: the kernel of the patching code (\<open>sys\<close>: any
  call may fail or move fewer bytes), the kernel of the rest (\<open>host\<close>, \<open>sys_ops\<close>, the flash driver \<open>mtd_dev\<close>), mincrypt, zlib,
  libbzip2, \<open>qsort\<close>, \<open>malloc\<close>'s answers and child processes.  Each theorem names the laws of them it needs (\<open>sha_law\<close>,
  \<open>bz_law\<close>, \<open>qsort_law\<close>, \<open>flash_reader\<close>, \<open>flash_writer\<close>, \<open>quiet\<close>, \<open>working\<close>, ...), and its witness an instance of them.

  \<^bold>\<open>What the theorems show.\<close>
  \<^item> Crash safety: \<open>applypatch\<close> replaces its target only by data with the sum that was promised, and whenever the power fails,
    what is on the disk can still be patched (C1, C6); a command survives every interruption (C4) and is
    forgotten once it is done (C11).
  \<^item> Authenticity: \<open>verify_file\<close> accepts exactly the packages that one of the keys has signed (C2), the index that minzip reads is inside
    what was signed (C3), and \<open>install_package\<close> runs nothing from any other package (C5).
  \<^item> Formats: bsdiff and bspatch are inverse (C7), the patchers compute what their formats mean (C8, C10), reading
    what was printed or encoded gives it back.
  \<^item> Flash: writing and reading whole images through bad blocks (C9, and the contracts of \<open>read_block\<close>, \<open>write_block\<close>).
  \<^item> Containers and screens: the hash table refines a multiset of items through the locale \<open>item_index\<close>, the script evaluator a
    denotation, the text rows a window on what was printed; the user interface keeps its invariant.
  \<^item> Where the code goes wrong, the theorems of kind error and lemmas beside the others say what it does instead
    (an update that never ran counts as a success, a resumed partition update writes memory it must not read, ...).

  \<^bold>\<open>Interfaces.\<close>  \<open>item_index\<close> (\<open>HashTable\<close>) is what the zip archive needs of its table, interpreted by \<open>mz\<close>; \<open>sink_inv\<close>
  (\<open>SinkInv\<close>) is what a sink must keep for an invariant to carry through the patchers, interpreted in \<open>ApplySafe\<close> for the
  disk that is written and for the hash that is computed.  Power cuts are \<open>boots\<close> (\<open>BootProtocol\<close>), an inductive relation on the disk, and
  the ghost \<open>past\<close> of \<open>FileSys\<close>, the disks there were in between.

  \<^bold>\<open>Bounds and loops.\<close>  There is no fuel: loops are structural, or recursive with a measure, or, where the code need not
  end (waiting for keys, browsing the card, the suffix sort), partial functions whose \<open>None\<close> stands for that too.  Retries are
  counted as in the code (five mounts, three of the card, ten waits).

  \<^bold>\<open>Not modelled.\<close>  Messages on the screen and in the log, \<open>sleep\<close>, \<open>sync\<close>, \<open>reboot\<close> and the wait for coldboot; drawing, fonts, input devices
  and the progress bar (\<open>minui\<close>, parts of \<open>ui.c\<close>), whose values are pixels, floats and the clock; \<open>noui.c\<close>, empty bodies;
  the unlinking and time-stamping of trees in \<open>DirUtil.c\<close>; \<open>imgdiff.c\<close>, a host tool that cuts files by running zlib on them; the
  bindings of \<open>updater/install.c\<close>; the generated parser of edify; \<open>encryptedfs_provisioning.c\<close>, which is not built;
  \<open>minzip/SysUtil.c\<close>; and \<open>update_engine\<close>, a C++ program of its own that recovery starts.  A write of a block is one step
  of the disk; names of files are not resolved.
\<close>

end
